(* ===== verification/Prelude.thy ===== *)
theory Prelude
  imports Main "HOL-Library.Multiset" "HOL-Library.List_Lexorder" "HOL-Library.Char_ord"
    "HOL-Library.Product_Lexorder" "HOL-Library.Option_ord"
begin

text \<open>
  Shared vocabulary of the development.

  \<^item> Python dictionaries keep insertion order, so they are association lists: \<open>map_of\<close>
    reads a key, \<open>dput\<close> is \<open>d[k] = v\<close> (in place when the key is present, at the end
    otherwise), \<open>ddel\<close> removes a key.
  \<^item> \<open>fromkeys\<close> is \<open>list(dict.fromkeys(xs))\<close>, the duplicates removed and the first
    occurrences kept in order; \<open>sorted_set\<close> is \<open>sorted(set(xs))\<close>.
  \<^item> \<open>first_min\<close> is \<open>min(xs, key=f)\<close>, the first of the minimal elements.
  \<^item> A fallible operation returns \<open>'e + 'a\<close>, \<open>Inl\<close> for the exception; \<open>is_ok\<close>
    and \<open>the_ok\<close> read it.
  \<^item> The locale \<open>priority_queue\<close> is the contract of \<open>heapq\<close>; the locales
    \<open>checked_steps\<close> and \<open>guarded_steps\<close> lift a step-preserved invariant to whole runs; the locale
    \<open>receipt_store\<close> is the contract of an executor that stores one receipt per
    command key (the merchant stores and the payment repository are both such executors).
\<close>

section \<open>Collections of rewrite rules\<close>

named_theorems dict_simps \<open>rules for dictionaries as association lists\<close>
named_theorems step_defs \<open>unfolding rules of the operations of a component\<close>

section \<open>Results\<close>

definition is_ok :: "'e + 'a \<Rightarrow> bool" where
  "is_ok r = (case r of Inl _ \<Rightarrow> False | Inr _ \<Rightarrow> True)"

definition the_ok :: "'e + 'a \<Rightarrow> 'a" where
  "the_ok r = projr r"

lemma is_ok_simps [simp]: "is_ok (Inr x)" "\<not> is_ok (Inl e)"
  by (simp_all add: is_ok_def)

lemma the_ok_Inr [simp]: "the_ok (Inr x) = x"
  by (simp add: the_ok_def)

text \<open>
  \<open>bind_ok\<close> runs the rest of a block when its first part did not raise; \<open>ensure\<close> is
  \<open>require(condition, code, ...)\<close> in front of the rest.
\<close>

definition bind_ok :: "'e + 'a \<Rightarrow> ('a \<Rightarrow> 'e + 'b) \<Rightarrow> 'e + 'b" where
  "bind_ok r f = (case r of Inl e \<Rightarrow> Inl e | Inr x \<Rightarrow> f x)"

definition ensure :: "bool \<Rightarrow> 'e \<Rightarrow> 'e + 'a \<Rightarrow> 'e + 'a" where
  "ensure b e r = (if b then r else Inl e)"

lemma bind_ok_simps [simp]: "bind_ok (Inl e) f = Inl e" "bind_ok (Inr x) f = f x"
  by (simp_all add: bind_ok_def)

lemma bind_ok_Inr: "bind_ok r f = Inr y \<longleftrightarrow> (\<exists>x. r = Inr x \<and> f x = Inr y)"
  by (cases r) auto

lemma bind_ok_Inl: "bind_ok r f = Inl e \<longleftrightarrow> r = Inl e \<or> (\<exists>x. r = Inr x \<and> f x = Inl e)"
  by (cases r) auto

lemma ensure_simps [simp]: "ensure True e r = r" "ensure False e r = Inl e"
  by (simp_all add: ensure_def)

lemma ensure_Inr: "ensure b e r = Inr x \<longleftrightarrow> b \<and> r = Inr x"
  by (simp add: ensure_def)

lemma ensure_Inl: "ensure b e r = Inl e' \<longleftrightarrow> \<not> b \<and> e' = e \<or> b \<and> r = Inl e'"
  by (auto simp: ensure_def)

lemmas ok_Inr = bind_ok_Inr ensure_Inr
lemmas ok_Inl = bind_ok_Inl ensure_Inl

lemma is_ok_iff: "is_ok r \<longleftrightarrow> (\<exists>x. r = Inr x)"
  by (cases r) auto

lemma map_sum_Inr: "map_sum id f r = Inr y \<longleftrightarrow> (\<exists>x. r = Inr x \<and> y = f x)"
  by (cases r) auto

section \<open>Insertion-ordered dictionaries\<close>

fun dput :: "'k \<Rightarrow> 'v \<Rightarrow> ('k \<times> 'v) list \<Rightarrow> ('k \<times> 'v) list" where
  "dput k v [] = [(k, v)]"
| "dput k v ((a, b) # d) = (if a = k then (k, v) # d else (a, b) # dput k v d)"

definition ddel :: "'k \<Rightarrow> ('k \<times> 'v) list \<Rightarrow> ('k \<times> 'v) list" where
  "ddel k d = filter (\<lambda>(a, b). a \<noteq> k) d"

definition dget :: "'v \<Rightarrow> ('k \<times> 'v) list \<Rightarrow> 'k \<Rightarrow> 'v" where
  "dget dflt d k = (case map_of d k of None \<Rightarrow> dflt | Some v \<Rightarrow> v)"

lemma map_of_dput [simp, dict_simps]: "map_of (dput k v d) = (map_of d)(k \<mapsto> v)"
  by (induction d) (auto simp: fun_eq_iff)

lemma keys_dput [dict_simps]: "fst ` set (dput k v d) = insert k (fst ` set d)"
proof -
  have "dom (map_of (dput k v d)) = insert k (dom (map_of d))" by simp
  then show ?thesis by (simp only: dom_map_of_conv_image_fst)
qed

lemma keys_list_dput:
  "map fst (dput k v d) = (if k \<in> fst ` set d then map fst d else map fst d @ [k])"
  by (induction d) (force+)

lemma distinct_dput [simp, dict_simps]:
  "distinct (map fst d) \<Longrightarrow> distinct (map fst (dput k v d))"
  by (simp add: keys_list_dput)

lemma map_of_ddel [simp, dict_simps]: "map_of (ddel k d) = (map_of d)(k := None)"
  by (induction d) (auto simp: ddel_def fun_eq_iff)

lemma distinct_ddel [simp, dict_simps]:
  "distinct (map fst d) \<Longrightarrow> distinct (map fst (ddel k d))"
  by (induction d) (auto simp: ddel_def)

lemma set_dputD: "x \<in> set (dput k v d) \<Longrightarrow> x = (k, v) \<or> x \<in> set d"
  by (induction d) (auto split: if_splits)

lemma dput_same [simp]: "dput k v (dput k w d) = dput k v d"
  by (induction d) auto

lemma dget_dput [simp]: "dget z (dput k v d) j = (if j = k then v else dget z d j)"
  by (simp add: dget_def)

section \<open>Duplicate-free and sorted views of lists\<close>

fun fromkeys :: "'a list \<Rightarrow> 'a list" where
  "fromkeys [] = []"
| "fromkeys (x # xs) = x # filter (\<lambda>y. y \<noteq> x) (fromkeys xs)"

lemma set_fromkeys [simp]: "set (fromkeys xs) = set xs"
  by (induction xs) auto

lemma distinct_fromkeys [simp]: "distinct (fromkeys xs)"
  by (induction xs) auto

lemma fromkeys_eq_Nil [simp]: "fromkeys xs = [] \<longleftrightarrow> xs = []"
  by (cases xs) auto

lemma fromkeys_distinct: "distinct xs \<Longrightarrow> fromkeys xs = xs"
  by (induction xs) (auto simp: filter_id_conv)

definition sorted_set :: "'a::linorder list \<Rightarrow> 'a list" where
  "sorted_set xs = sort (remdups xs)"

lemma set_sorted_set [simp]: "set (sorted_set xs) = set xs"
  by (simp add: sorted_set_def)

lemma sorted_sorted_set [simp]: "sorted (sorted_set xs)"
  by (simp add: sorted_set_def)

lemma distinct_sorted_set [simp]: "distinct (sorted_set xs)"
  by (simp add: sorted_set_def)

lemma sorted_set_eq_Nil [simp]: "sorted_set xs = [] \<longleftrightarrow> xs = []"
proof -
  have "sorted_set xs = [] \<longleftrightarrow> set (sorted_set xs) = {}"
    by (simp only: set_empty)
  then show ?thesis by simp
qed

lemma sorted_set_cong: "set xs = set ys \<Longrightarrow> sorted_set xs = sorted_set ys"
  by (rule sorted_distinct_set_unique) auto

fun first_min :: "('a \<Rightarrow> 'k::linorder) \<Rightarrow> 'a \<Rightarrow> 'a list \<Rightarrow> 'a" where
  "first_min f x [] = x"
| "first_min f x (y # ys) = first_min f (if f y < f x then y else x) ys"

lemma first_min_in: "first_min f x ys \<in> insert x (set ys)"
proof (induction ys arbitrary: x)
  case Nil
  then show ?case by simp
next
  case (Cons y ys)
  then show ?case using Cons.IH [of "if f y < f x then y else x"] by (auto split: if_splits)
qed

lemma first_min_le: "y \<in> insert x (set ys) \<Longrightarrow> f (first_min f x ys) \<le> f y"
proof (induction ys arbitrary: x y)
  case Nil
  then show ?case by simp
next
  case (Cons z zs)
  let ?w = "if f z < f x then z else x"
  have "f (first_min f ?w zs) \<le> f ?w" using Cons.IH [of ?w ?w] by simp
  moreover have "f ?w \<le> f x" "f ?w \<le> f z" by auto
  moreover have "y \<in> set zs \<Longrightarrow> f (first_min f ?w zs) \<le> f y" using Cons.IH [of y ?w] by simp
  ultimately show ?case using Cons.prems by auto
qed

lemma first_min_append:
  "first_min f x (ys @ [z]) =
    (let m = first_min f x ys in if f z < f m then z else m)"
  by (induction ys arbitrary: x) (auto simp: Let_def)

section \<open>Dictionaries built in a loop, lists with distinct keys\<close>

lemma rtrancl_shortest:
  assumes "(c, a) \<in> r\<^sup>*"
  obtains n where "(c, a) \<in> r ^^ n" and "\<forall>m<n. (c, a) \<notin> r ^^ m"
proof -
  have "\<exists>n. (c, a) \<in> r ^^ n" using assms by (simp add: rtrancl_power)
  then show ?thesis using exists_least_iff [of "\<lambda>n. (c, a) \<in> r ^^ n"] that by blast
qed

lemma dput_new: "k \<notin> fst ` set d \<Longrightarrow> dput k v d = d @ [(k, v)]"
  by (induction d) auto

lemma fold_dput_distinct:
  "distinct (map fst d @ map f xs) \<Longrightarrow>
    fold (\<lambda>x. dput (f x) (g x)) xs d = d @ map (\<lambda>x. (f x, g x)) xs"
proof (induction xs arbitrary: d)
  case (Cons x xs)
  then have "dput (f x) (g x) d = d @ [(f x, g x)]" by (intro dput_new) auto
  then show ?case using Cons by simp
qed simp

lemma dom_fold_dput:
  "dom (map_of (fold (\<lambda>x. dput (f x) (g x)) xs d)) = dom (map_of d) \<union> f ` set xs"
  by (induction xs arbitrary: d) auto

lemma filter_key_distinct:
  "distinct (map f xs) \<Longrightarrow> x \<in> set xs \<Longrightarrow> filter (\<lambda>y. f y = f x) xs = [x]"
proof (induction xs)
  case (Cons a xs)
  show ?case
  proof (cases "x = a")
    case True
    have "filter (\<lambda>y. f y = f a) xs = []" using Cons.prems by (simp add: filter_empty_conv) (metis image_eqI)
    then show ?thesis using True by simp
  next
    case False
    then have "f a \<noteq> f x" using Cons.prems by auto
    then show ?thesis using Cons False by simp
  qed
qed simp

lemma map_of_map_distinct:
  "distinct (map f xs) \<Longrightarrow> x \<in> set xs \<Longrightarrow> map_of (map (\<lambda>x. (f x, g x)) xs) (f x) = Some (g x)"
  by (induction xs) (auto, metis image_eqI)

lemma dget_const_map [simp]: "dget z (map (\<lambda>(i, _). (i, z)) d) i = z"
  by (induction d) (auto simp: dget_def)

lemma keys_fold_dput:
  "set cs \<subseteq> set (map fst dg) \<Longrightarrow> map fst (fold (\<lambda>c. dput c z) cs dg) = map fst dg"
proof (induction cs arbitrary: dg)
  case (Cons c cs)
  then have "map fst (dput c z dg) = map fst dg" by (simp add: keys_list_dput)
  then show ?case using Cons.IH [of "dput c z dg"] Cons.prems by (simp flip: set_map)
qed simp

lemma find_key_distinct:
  "distinct (map f xs) \<Longrightarrow> x \<in> set xs \<Longrightarrow> List.find (\<lambda>y. f y = f x) xs = Some x"
proof (induction xs)
  case (Cons a xs)
  show ?case
  proof (cases "x = a")
    case False
    then have "f a \<noteq> f x" using Cons.prems by auto
    then show ?thesis using Cons False by simp
  qed simp
qed simp

lemma set_map_the:
  "(i, b) \<in> set (map (\<lambda>p. (g p, the (f p))) (filter (\<lambda>p. f p \<noteq> None) ps)) \<longleftrightarrow>
    (\<exists>p \<in> set ps. g p = i \<and> f p = Some b)"
  by (induction ps) auto

lemma sum_list_perm: "mset xs = mset ys \<Longrightarrow> sum_list (map f (filter P xs)) = sum_list (map f (filter P ys))"
  for f :: "'a \<Rightarrow> int"
  by (metis mset_filter mset_map sum_mset_sum_list)

lemma list_all2_right_mem: "list_all2 P xs ys \<Longrightarrow> y \<in> set ys \<Longrightarrow> \<exists>x \<in> set xs. P x y"
  by (induction rule: list_all2_induct) auto

lemma mset_eq_length_one: "mset xs = mset [c] \<Longrightarrow> xs = [c]"
  by (cases xs) auto

text \<open>The first element that satisfies the test is replaced, the others stay.\<close>

fun upd_first :: "('a \<Rightarrow> bool) \<Rightarrow> ('a \<Rightarrow> 'a) \<Rightarrow> 'a list \<Rightarrow> 'a list" where
  "upd_first P f [] = []"
| "upd_first P f (x # xs) = (if P x then f x # xs else x # upd_first P f xs)"

lemma set_upd_firstD: "y \<in> set (upd_first P f xs) \<Longrightarrow> y \<in> set xs \<or> (\<exists>x \<in> set xs. P x \<and> y = f x)"
  by (induction xs) (auto split: if_splits)

lemma map_upd_first: "(\<forall>x. g (f x) = g x) \<Longrightarrow> map g (upd_first P f xs) = map g xs"
  by (induction xs) auto

section \<open>Priority queues\<close>

text \<open>
  \<open>heapq\<close> on a list of totally ordered items: \<open>heappush\<close> adds an item,
  \<open>heappop\<close> takes a least one away. The model keeps the queue as a sorted list.
\<close>

definition heappush :: "'a::linorder \<Rightarrow> 'a list \<Rightarrow> 'a list" where
  "heappush x q = insort x q"

definition heapify :: "'a::linorder list \<Rightarrow> 'a list" where
  "heapify xs = sort xs"

fun heappop :: "'a list \<Rightarrow> ('a \<times> 'a list) option" where
  "heappop [] = None"
| "heappop (x # q) = Some (x, q)"

locale priority_queue =
  fixes push :: "'a::linorder \<Rightarrow> 'q \<Rightarrow> 'q"
    and pop :: "'q \<Rightarrow> ('a \<times> 'q) option"
    and items :: "'q \<Rightarrow> 'a multiset"
    and invar :: "'q \<Rightarrow> bool"
  assumes invar_push: "invar q \<Longrightarrow> invar (push x q)"
    and items_push: "invar q \<Longrightarrow> items (push x q) = add_mset x (items q)"
    and pop_None: "invar q \<Longrightarrow> pop q = None \<longleftrightarrow> items q = {#}"
    and items_pop: "invar q \<Longrightarrow> pop q = Some (x, q') \<Longrightarrow> items q = add_mset x (items q')"
    and pop_least: "invar q \<Longrightarrow> pop q = Some (x, q') \<Longrightarrow> y \<in># items q' \<Longrightarrow> x \<le> y"
    and invar_pop: "invar q \<Longrightarrow> pop q = Some (x, q') \<Longrightarrow> invar q'"
begin

lemma items_fold_push:
  "invar q \<Longrightarrow> invar (fold push xs q) \<and> items (fold push xs q) = mset xs + items q"
  by (induction xs arbitrary: q) (auto simp: invar_push items_push)

lemma pop_is_Min:
  assumes "invar q" and "pop q = Some (x, q')"
  shows "x = Min (set_mset (items q))"
proof -
  have "items q = add_mset x (items q')" using assms by (rule items_pop)
  moreover have "\<forall>y \<in># items q'. x \<le> y" using assms by (blast intro: pop_least)
  ultimately show ?thesis by (auto intro: Min_eqI [symmetric])
qed

lemma pop_after_push:
  assumes "invar q" and "pop (push x q) = Some (y, q')"
  shows "y \<le> x" and "y \<in># add_mset x (items q)"
proof -
  have inv: "invar (push x q)" using assms(1) by (rule invar_push)
  have it: "add_mset x (items q) = add_mset y (items q')"
    using items_pop [OF inv assms(2)] items_push [OF assms(1)] by metis
  then show "y \<in># add_mset x (items q)" by simp
  have "x \<in># add_mset y (items q')" using it by (metis union_single_eq_member)
  then show "y \<le> x" using pop_least [OF inv assms(2)] by auto
qed

end

lemma mset_heappush [simp]: "mset (heappush x q) = add_mset x (mset q)"
  by (simp add: heappush_def)

lemma sorted_heappush [simp]: "sorted (heappush x q) = sorted q"
  by (simp add: heappush_def sorted_insort)

lemma set_heappush [simp]: "set (heappush x q) = insert x (set q)"
  by (simp add: heappush_def set_insort_key)

lemma length_heappush [simp]: "length (heappush x q) = Suc (length q)"
  by (simp add: heappush_def)

lemma heappush_left_commute: "heappush x (heappush y q) = heappush y (heappush x q)"
  by (simp add: heappush_def insort_left_comm)

lemma heappop_Some: "heappop q = Some (x, q') \<longleftrightarrow> q = x # q'"
  by (cases q) auto

interpretation heapq: priority_queue heappush heappop mset sorted
proof (unfold_locales, goal_cases)
  case (3 q) then show ?case by (cases q) auto
qed (auto simp: heappop_Some)

section \<open>Invariants of runs\<close>

text \<open>
  A component is a partial step function over its commands: \<open>Inl\<close> when the operation
  raises (the transaction is rolled back and the state stays), \<open>Inr\<close> with the new state
  otherwise. An invariant that every successful step keeps holds after every run.
\<close>

fun run :: "('s \<Rightarrow> 'c \<Rightarrow> 'e + 's) \<Rightarrow> 's \<Rightarrow> 'c list \<Rightarrow> 's" where
  "run step s [] = s"
| "run step s (c # cs) = run step (case step s c of Inl _ \<Rightarrow> s | Inr t \<Rightarrow> t) cs"

lemma run_append: "run step s (cs @ ds) = run step (run step s cs) ds"
  by (induction cs arbitrary: s) auto

locale checked_steps =
  fixes step :: "'s \<Rightarrow> 'c \<Rightarrow> 'e + 's"
    and inv :: "'s \<Rightarrow> bool"
    and ok :: "'c \<Rightarrow> bool"
  assumes checked_step_inv: "inv s \<Longrightarrow> ok c \<Longrightarrow> step s c = Inr t \<Longrightarrow> inv t"
begin

lemma checked_run_inv: "inv s \<Longrightarrow> \<forall>c \<in> set cs. ok c \<Longrightarrow> inv (run step s cs)"
proof (induction cs arbitrary: s)
  case Nil
  then show ?case by simp
next
  case (Cons c cs)
  then show ?case by (auto split: sum.splits intro: checked_step_inv)
qed

end

text \<open>When every command is acceptable the condition on the commands goes away.\<close>

locale guarded_steps =
  fixes step :: "'s \<Rightarrow> 'c \<Rightarrow> 'e + 's"
    and inv :: "'s \<Rightarrow> bool"
  assumes step_inv: "inv s \<Longrightarrow> step s c = Inr t \<Longrightarrow> inv t"

sublocale guarded_steps \<subseteq> all_commands: checked_steps step inv "\<lambda>_. True"
  by unfold_locales (rule step_inv)

context guarded_steps begin

lemma run_inv: "inv s \<Longrightarrow> inv (run step s cs)"
  by (rule all_commands.checked_run_inv) auto

end

section \<open>Executors with stored receipts\<close>

text \<open>
  An executor runs a command under a key and stores the reply, with the fingerprint of the
  command, as the key's receipt. The contract: a stored receipt is returned as it is and
  nothing changes (\<open>replay\<close>), a reused key with another fingerprint is refused and nothing
  changes (\<open>conflict\<close>), the first run stores its reply unless it is refused (\<open>fresh\<close>),
  and a run keeps the receipts that are there (\<open>frame\<close>). What clients need is proved once
  here: a command may be retried any number of times, interleaved with any other commands.
\<close>

locale receipt_store =
  fixes exec :: "'s \<Rightarrow> 'k \<Rightarrow> 'c \<Rightarrow> 'r \<times> 's"
    and receipt :: "'s \<Rightarrow> 'k \<Rightarrow> ('f \<times> 'r) option"
    and fp :: "'k \<Rightarrow> 'c \<Rightarrow> 'f"
    and refused :: "'r \<Rightarrow> bool"
  assumes replay: "receipt s k = Some (fp k c, r) \<Longrightarrow> exec s k c = (r, s)"
    and conflict: "receipt s k = Some (f, r') \<Longrightarrow> f \<noteq> fp k c \<Longrightarrow>
      snd (exec s k c) = s \<and> refused (fst (exec s k c))"
    and fresh: "receipt s k = None \<Longrightarrow> exec s k c = (r, t) \<Longrightarrow> \<not> refused r \<Longrightarrow>
      receipt t k = Some (fp k c, r)"
    and frame: "exec s k c = (r, t) \<Longrightarrow> receipt s j \<noteq> None \<Longrightarrow> receipt t j = receipt s j"
begin

fun exec_all :: "'s \<Rightarrow> ('k \<times> 'c) list \<Rightarrow> 's" where
  "exec_all s [] = s"
| "exec_all s ((k, c) # kcs) = exec_all (snd (exec s k c)) kcs"

lemma receipt_stable:
  "receipt s j = Some x \<Longrightarrow> receipt (exec_all s kcs) j = Some x"
proof (induction kcs arbitrary: s)
  case Nil
  then show ?case by simp
next
  case (Cons kc kcs)
  obtain k c where kc: "kc = (k, c)" by (cases kc)
  obtain r t where e: "exec s k c = (r, t)" by (cases "exec s k c")
  have "receipt t j = Some x" using frame [OF e, of j] Cons.prems by simp
  then show ?case using Cons.IH [of t] by (simp add: kc e)
qed

lemma not_refused_stored:
  assumes e: "exec s k c = (r, t)" and r: "\<not> refused r"
  shows "receipt t k = Some (fp k c, r)"
proof (cases "receipt s k")
  case None
  then show ?thesis using fresh [OF None e r] by simp
next
  case (Some x)
  obtain f r' where x: "x = (f, r')" by (cases x)
  have "f = fp k c" using conflict [of s k f r' c] Some x e r by fastforce
  then have "exec s k c = (r', s)" using replay Some x by simp
  then show ?thesis using e Some x \<open>f = fp k c\<close> by simp
qed

lemma retry_same_reply:
  assumes "exec s k c = (r, t)" and "\<not> refused r"
  shows "exec (exec_all t kcs) k c = (r, exec_all t kcs)"
  using replay [OF receipt_stable [OF not_refused_stored [OF assms]]] .

lemma key_reuse_refused:
  assumes "exec s k c = (r, t)" and "\<not> refused r" and "fp k c' \<noteq> fp k c"
  shows "snd (exec (exec_all t kcs) k c') = exec_all t kcs" "refused (fst (exec (exec_all t kcs) k c'))"
  using conflict [OF receipt_stable [OF not_refused_stored [OF assms(1,2)]]] assms(3) by auto

end

end
