(* ===== verification/Py_Values.thy ===== *)
theory Py_Values
  imports Complex_Main Prelude
begin

text \<open>
  The Python values the services read from JSON, and what the code uses of the standard
  library on them: truth values, equality, \<open>str\<close> and \<open>repr\<close>, decimal parsing
  (\<open>decimal.Decimal(str)\<close>) and integer printing. Text is ASCII; a float carries its exact
  value and the text \<open>str\<close> prints for it, since nothing here computes with floats.
\<close>

datatype json = JNull | JBool bool | JInt int | JFloat rat string | JStr string
  | JList "json list" | JObj "(string \<times> json) list"

type_synonym json_obj = "(string \<times> json) list"

text \<open>\<open>d.get(k)\<close>: a missing key and a stored \<open>None\<close> both give \<open>None\<close>.\<close>

definition pget :: "json_obj \<Rightarrow> string \<Rightarrow> json" where
  "pget p k = dget JNull p k"

definition has_key :: "json_obj \<Rightarrow> string \<Rightarrow> bool" where
  "has_key p k = (map_of p k \<noteq> None)"

fun truthy :: "json \<Rightarrow> bool" where
  "truthy JNull = False"
| "truthy (JBool b) = b"
| "truthy (JInt n) = (n \<noteq> 0)"
| "truthy (JFloat r _) = (r \<noteq> 0)"
| "truthy (JStr s) = (s \<noteq> [])"
| "truthy (JList xs) = (xs \<noteq> [])"
| "truthy (JObj kvs) = (kvs \<noteq> [])"

text \<open>
  \<open>==\<close> on JSON values: booleans and integral floats equal the integers of the same value,
  dictionaries ignore the order of their keys. \<open>json_norm\<close> maps equal values to one
  representative.
\<close>

fun json_norm :: "json \<Rightarrow> json" where
  "json_norm (JBool b) = JInt (if b then 1 else 0)"
| "json_norm (JFloat r s) =
    (if snd (quotient_of r) = 1 then JInt (fst (quotient_of r)) else JFloat r [])"
| "json_norm (JList xs) = JList (map json_norm xs)"
| "json_norm (JObj kvs) = JObj (sort_key fst (map (\<lambda>(k, v). (k, json_norm v)) kvs))"
| "json_norm v = v"

definition py_eq :: "json \<Rightarrow> json \<Rightarrow> bool" where
  "py_eq a b = (json_norm a = json_norm b)"

lemma py_eq_refl [simp]: "py_eq a a"
  by (simp add: py_eq_def)

lemma py_eq_sym: "py_eq a b \<Longrightarrow> py_eq b a"
  by (simp add: py_eq_def)

lemma py_eq_trans: "py_eq a b \<Longrightarrow> py_eq b c \<Longrightarrow> py_eq a c"
  by (simp add: py_eq_def)

lemma py_eq_JStr [simp]: "py_eq v (JStr s) \<longleftrightarrow> v = JStr s" "py_eq (JStr s) v \<longleftrightarrow> v = JStr s"
  by (cases v; simp add: py_eq_def; metis)+

text \<open>
  \<open>json.dumps(value, sort_keys=True)\<close> reads a dictionary in key order; \<open>dumps_tree\<close> is the
  tree it prints.
\<close>

fun dumps_tree :: "json \<Rightarrow> json" where
  "dumps_tree (JList xs) = JList (map dumps_tree xs)"
| "dumps_tree (JObj kvs) = JObj (sort_key fst (map (\<lambda>(k, v). (k, dumps_tree v)) kvs))"
| "dumps_tree v = v"

text \<open>A list or a dictionary is unhashable: using it as a dictionary key is a TypeError.\<close>

fun hashable :: "json \<Rightarrow> bool" where
  "hashable (JList _) = False"
| "hashable (JObj _) = False"
| "hashable _ = True"

section \<open>Numbers as text\<close>

fun str_of_nat :: "nat \<Rightarrow> string" where
  "str_of_nat n =
    (if n < 10 then [char_of (48 + n)] else str_of_nat (n div 10) @ [char_of (48 + n mod 10)])"

declare str_of_nat.simps [simp del]

definition str_of_int :: "int \<Rightarrow> string" where
  "str_of_int i = (if i < 0 then CHR ''-'' # str_of_nat (nat (- i)) else str_of_nat (nat i))"

definition is_digit :: "char \<Rightarrow> bool" where
  "is_digit c \<longleftrightarrow> 48 \<le> (of_char c :: nat) \<and> (of_char c :: nat) \<le> 57"

definition digit_val :: "char \<Rightarrow> nat" where
  "digit_val c = of_char c - 48"

definition nat_of_digits :: "string \<Rightarrow> nat" where
  "nat_of_digits s = foldl (\<lambda>n c. 10 * n + digit_val c) 0 s"

lemma of_char_char_of_small [simp]: "n < 256 \<Longrightarrow> (of_char (char_of n :: char) :: nat) = n"
  by simp

lemma is_digit_char_of [simp]: "d < 10 \<Longrightarrow> is_digit (char_of (48 + d :: nat))"
  by (simp add: is_digit_def)

lemma digit_val_char_of [simp]: "d < 10 \<Longrightarrow> digit_val (char_of (48 + d :: nat)) = d"
  by (simp add: digit_val_def)

lemma str_of_nat_digits: "\<forall>c \<in> set (str_of_nat n). is_digit c"
proof (induction n rule: str_of_nat.induct)
  case (1 n)
  then show ?case by (subst str_of_nat.simps) auto
qed

lemma str_of_nat_not_Nil [simp]: "str_of_nat n \<noteq> []"
  by (subst str_of_nat.simps) simp

lemma nat_of_digits_snoc: "nat_of_digits (s @ [c]) = 10 * nat_of_digits s + digit_val c"
  by (simp add: nat_of_digits_def)

lemma nat_of_digits_str [simp]: "nat_of_digits (str_of_nat n) = n"
proof (induction n rule: str_of_nat.induct)
  case (1 n)
  show ?case
  proof (cases "n < 10")
    case True
    then show ?thesis by (subst str_of_nat.simps) (simp add: nat_of_digits_def)
  next
    case False
    then show ?thesis using 1 by (subst str_of_nat.simps) (simp add: nat_of_digits_snoc)
  qed
qed

lemma length_str_of_nat: "n < 10 ^ k \<Longrightarrow> 0 < k \<Longrightarrow> length (str_of_nat n) \<le> k"
proof (induction k arbitrary: n)
  case 0
  then show ?case by simp
next
  case (Suc k)
  show ?case
  proof (cases "n < 10")
    case True
    then show ?thesis by (subst str_of_nat.simps) simp
  next
    case False
    then have "0 < k" using Suc.prems by (cases k) auto
    moreover have "n div 10 < 10 ^ k" using Suc.prems by (simp add: less_mult_imp_div_less)
    ultimately have "length (str_of_nat (n div 10)) \<le> k" by (simp add: Suc.IH)
    then show ?thesis using False by (subst str_of_nat.simps) simp
  qed
qed

lemma str_of_nat_inj: "str_of_nat m = str_of_nat n \<Longrightarrow> m = n"
  by (metis nat_of_digits_str)

text \<open>The same text computed on integers, for evaluation.\<close>

function digits_of_int :: "int \<Rightarrow> string" where
  "digits_of_int i = (if i < 10 then [char_of (48 + nat i)] else digits_of_int (i div 10) @ [char_of (48 + nat (i mod 10))])"
  by pat_completeness auto
termination by (relation "measure nat") auto

declare digits_of_int.simps [simp del]

lemma digits_of_int_nat: "digits_of_int (int n) = str_of_nat n"
proof (induction n rule: str_of_nat.induct)
  case (1 n)
  have "int n div 10 = int (n div 10)" "int n mod 10 = int (n mod 10)" by (simp_all add: zdiv_int zmod_int)
  then show ?case using 1 by (subst digits_of_int.simps, subst str_of_nat.simps) simp
qed

lemma str_of_int_code [code]:
  "str_of_int i = (if i < 0 then CHR ''-'' # digits_of_int (- i) else digits_of_int i)"
  using digits_of_int_nat [of "nat i"] digits_of_int_nat [of "nat (- i)"] by (cases "i < 0") (simp_all add: str_of_int_def)

section \<open>str and repr\<close>

definition hex_digit :: "nat \<Rightarrow> char" where
  "hex_digit n = char_of (if n < 10 then 48 + n else 87 + n)"

definition repr_char :: "char \<Rightarrow> char \<Rightarrow> string" where
  "repr_char quote c =
    (let n = of_char c :: nat in
     if c = quote \<or> c = CHR 0x5C then [CHR 0x5C, c]
     else if n = 10 then [CHR 0x5C, CHR ''n'']
     else if n = 13 then [CHR 0x5C, CHR ''r'']
     else if n = 9 then [CHR 0x5C, CHR ''t'']
     else if n < 32 \<or> n = 127 then [CHR 0x5C, CHR ''x'', hex_digit (n div 16), hex_digit (n mod 16)]
     else [c])"

definition repr_str :: "string \<Rightarrow> string" where
  "repr_str s =
    (let quote = (if CHR 0x27 \<in> set s \<and> CHR 0x22 \<notin> set s then CHR 0x22 else CHR 0x27)
     in [quote] @ concat (map (repr_char quote) s) @ [quote])"

definition join_comma :: "string list \<Rightarrow> string" where
  "join_comma xs = (case xs of [] \<Rightarrow> [] | y # ys \<Rightarrow> y @ concat (map (\<lambda>z. '', '' @ z) ys))"

fun py_repr :: "json \<Rightarrow> string" where
  "py_repr JNull = ''None''"
| "py_repr (JBool b) = (if b then ''True'' else ''False'')"
| "py_repr (JInt n) = str_of_int n"
| "py_repr (JFloat _ t) = t"
| "py_repr (JStr s) = repr_str s"
| "py_repr (JList xs) = ''['' @ join_comma (map py_repr xs) @ '']''"
| "py_repr (JObj kvs) = ''{'' @ join_comma (map (\<lambda>(k, v). repr_str k @ '': '' @ py_repr v) kvs) @ ''}''"

definition py_str :: "json \<Rightarrow> string" where
  "py_str v = (case v of JStr s \<Rightarrow> s | _ \<Rightarrow> py_repr v)"

lemma py_str_JStr [simp]: "py_str (JStr s) = s"
  by (simp add: py_str_def)

lemma py_str_JInt [simp]: "py_str (JInt n) = str_of_int n"
  by (simp add: py_str_def)

definition char_upper :: "char \<Rightarrow> char" where
  "char_upper c = (let n = of_char c :: nat in if 97 \<le> n \<and> n \<le> 122 then char_of (n - 32) else c)"

definition char_lower :: "char \<Rightarrow> char" where
  "char_lower c = (let n = of_char c :: nat in if 65 \<le> n \<and> n \<le> 90 then char_of (n + 32) else c)"

definition str_upper :: "string \<Rightarrow> string" where
  "str_upper s = map char_upper s"

definition str_lower :: "string \<Rightarrow> string" where
  "str_lower s = map char_lower s"

definition is_space :: "char \<Rightarrow> bool" where
  "is_space c \<longleftrightarrow> (let n = of_char c :: nat in n = 32 \<or> (9 \<le> n \<and> n \<le> 13) \<or> (28 \<le> n \<and> n \<le> 31))"

definition str_strip :: "string \<Rightarrow> string" where
  "str_strip s = rev (dropWhile is_space (rev (dropWhile is_space s)))"

section \<open>Decimal\<close>

text \<open>
  \<open>Decimal(text)\<close>: surrounding white space and underscores are dropped, then a sign and
  either a special value (infinity or a NaN) or digits with an optional fraction and
  exponent. \<open>Finite c e\<close> is the number \<open>c * 10 ^ e\<close>; \<open>None\<close> is InvalidOperation.
\<close>

datatype decimal = Finite int int | NonFinite

definition split_sign :: "string \<Rightarrow> int \<times> string" where
  "split_sign s = (case s of [] \<Rightarrow> (1, [])
     | c # t \<Rightarrow> if c = CHR ''-'' then (-1, t) else if c = CHR ''+'' then (1, t) else (1, s))"

definition all_digits :: "string \<Rightarrow> bool" where
  "all_digits s = list_all is_digit s"

definition is_special :: "string \<Rightarrow> bool" where
  "is_special s \<longleftrightarrow> (let t = str_lower s in
     t = ''inf'' \<or> t = ''infinity''
     \<or> (take 3 t = ''nan'' \<and> all_digits (drop 3 t))
     \<or> (take 4 t = ''snan'' \<and> all_digits (drop 4 t)))"

definition parse_exponent :: "string \<Rightarrow> int option" where
  "parse_exponent s = (case s of [] \<Rightarrow> Some 0
     | c # t \<Rightarrow> if c = CHR ''e'' \<or> c = CHR ''E'' then
         (case split_sign t of (sg, ds) \<Rightarrow>
            if ds \<noteq> [] \<and> all_digits ds then Some (sg * int (nat_of_digits ds)) else None)
       else None)"

definition parse_decimal :: "string \<Rightarrow> decimal option" where
  "parse_decimal text =
    (case split_sign (filter (\<lambda>c. c \<noteq> CHR ''_'') (str_strip text)) of (sg, u) \<Rightarrow>
       if is_special u then Some NonFinite
       else
         (let whole = takeWhile is_digit u;
              rest = dropWhile is_digit u;
              fraction = (case rest of [] \<Rightarrow> []
                | c # t \<Rightarrow> if c = CHR ''.'' then takeWhile is_digit t else []);
              tail = (case rest of [] \<Rightarrow> []
                | c # t \<Rightarrow> if c = CHR ''.'' then dropWhile is_digit t else rest)
          in if whole @ fraction = [] then None
             else (case parse_exponent tail of None \<Rightarrow> None
               | Some e \<Rightarrow> Some (Finite (sg * int (nat_of_digits (whole @ fraction)))
                   (e - int (length fraction))))))"

lemma is_digit_not_special:
  assumes "is_digit c"
  shows "c \<noteq> CHR ''-''" "c \<noteq> CHR ''+''" "c \<noteq> CHR ''_''" "\<not> is_space c"
    "char_lower c = c" "c \<noteq> CHR ''i''" "c \<noteq> CHR ''n''" "c \<noteq> CHR ''s''"
  using assms by (auto simp: is_digit_def is_space_def char_lower_def Let_def)

lemma dropWhile_no: "\<forall>c \<in> set s. \<not> P c \<Longrightarrow> dropWhile P s = s"
  by (cases s) auto

lemma str_strip_digits:
  assumes "\<forall>c \<in> set s. is_digit c"
  shows "str_strip s = s"
proof -
  have "\<forall>c \<in> set s. \<not> is_space c" using assms is_digit_not_special(4) by blast
  then show ?thesis by (simp add: str_strip_def dropWhile_no)
qed

lemma parse_decimal_digits:
  assumes ne: "s \<noteq> []" and ds: "\<forall>c \<in> set s. is_digit c"
  shows "parse_decimal s = Some (Finite (int (nat_of_digits s)) 0)"
proof -
  obtain c t where s: "s = c # t" using ne by (cases s) auto
  have c: "is_digit c" using ds s by simp
  have f: "filter (\<lambda>c. c \<noteq> CHR ''_'') s = s"
    using ds is_digit_not_special(3) by (auto simp: filter_id_conv)
  have sg: "split_sign s = (1, s)"
    using is_digit_not_special [OF c] by (simp add: split_sign_def s)
  have low: "str_lower s = c # map char_lower t"
    using is_digit_not_special [OF c] by (simp add: str_lower_def s)
  have sp: "\<not> is_special s"
    using is_digit_not_special [OF c] by (auto simp: is_special_def Let_def low)
  have tw: "takeWhile is_digit s = s" and dw: "dropWhile is_digit s = []"
    using ds by (simp_all add: takeWhile_eq_all_conv dropWhile_eq_Nil_conv)
  show ?thesis
    by (simp add: parse_decimal_def str_strip_digits [OF ds] f sg sp parse_exponent_def ne tw dw
        Let_def)
qed

text \<open>A digest for examples: the texts of an object, one after the other.\<close>

definition json_texts :: "json \<Rightarrow> string" where
  "json_texts v = (case v of JObj d \<Rightarrow> concat (map (\<lambda>(_, x). case x of JStr s \<Rightarrow> s | _ \<Rightarrow> []) d) | _ \<Rightarrow> [])"

end
