(* ===== verification/Reconciler_Models.thy ===== *)
theory Reconciler_Models
  imports Py_Values
begin

text \<open>
  The data of the reconciler (\<^verbatim>\<open>services/reconciler/app/models.py\<close>): event envelopes,
  requests, snapshots and results, with the validators the request models carry. A time is
  an instant (microseconds since the epoch) with the offset it was written in: comparisons
  read the instant, the JSON text of an event also shows the offset.
\<close>

datatype event_type =
    PickupSlotHeld | PaymentAuthorized | CommitmentConfirmed | CancellationRequested
  | CancellationRejected | CommitmentCancelled | PartialCancellationApplied
  | SettlementPosted | RewardGranted | CapacityRevised | PickupRescheduled
  | PickupPactIssued | PickupPactRenegotiated | PickupPactBreached | PickupClaimed
  | SettlementReversed | RewardReversed

fun event_type_name :: "event_type \<Rightarrow> string" where
  "event_type_name PickupSlotHeld = ''PickupSlotHeld''"
| "event_type_name PaymentAuthorized = ''PaymentAuthorized''"
| "event_type_name CommitmentConfirmed = ''CommitmentConfirmed''"
| "event_type_name CancellationRequested = ''CancellationRequested''"
| "event_type_name CancellationRejected = ''CancellationRejected''"
| "event_type_name CommitmentCancelled = ''CommitmentCancelled''"
| "event_type_name PartialCancellationApplied = ''PartialCancellationApplied''"
| "event_type_name SettlementPosted = ''SettlementPosted''"
| "event_type_name RewardGranted = ''RewardGranted''"
| "event_type_name CapacityRevised = ''CapacityRevised''"
| "event_type_name PickupRescheduled = ''PickupRescheduled''"
| "event_type_name PickupPactIssued = ''PickupPactIssued''"
| "event_type_name PickupPactRenegotiated = ''PickupPactRenegotiated''"
| "event_type_name PickupPactBreached = ''PickupPactBreached''"
| "event_type_name PickupClaimed = ''PickupClaimed''"
| "event_type_name SettlementReversed = ''SettlementReversed''"
| "event_type_name RewardReversed = ''RewardReversed''"

datatype repair_type = NO_OP_DUPLICATE | REBUILD_PROJECTION | REVERSE_SETTLEMENT
  | REVERSE_REWARD | RESLOT_REVIEW | MANUAL_REVIEW

datatype unit_code = KRW | PTS

fun unit_name :: "unit_code \<Rightarrow> string" where
  "unit_name KRW = ''KRW''"
| "unit_name PTS = ''PTS''"

record aware_datetime =
  instant :: int
  utc_offset :: int

record event_envelope =
  event_id :: string
  aggregate_id :: string
  event_type :: event_type
  occurred_at :: aware_datetime
  received_at :: aware_datetime
  correlation_id :: "string option"
  causation_id :: "string option"
  schema_version :: int
  payload :: json_obj

text \<open>The field constraints and \<open>validate_capacity_fields\<close>.\<close>

definition valid_capacity_field :: "json_obj \<Rightarrow> string \<Rightarrow> int \<Rightarrow> bool" where
  "valid_capacity_field p key minimum =
    (case map_of p key of None \<Rightarrow> True | Some (JInt n) \<Rightarrow> minimum \<le> n | Some _ \<Rightarrow> False)"

definition valid_envelope :: "event_envelope \<Rightarrow> bool" where
  "valid_envelope e \<longleftrightarrow>
     event_id e \<noteq> [] \<and> aggregate_id e \<noteq> [] \<and> 1 \<le> schema_version e
     \<and> distinct (map fst (payload e))
     \<and> valid_capacity_field (payload e) ''capacity_units'' 1
     \<and> valid_capacity_field (payload e) ''available_units'' 0
     \<and> valid_capacity_field (payload e) ''revision'' 1"

definition valid_request :: "event_envelope list \<Rightarrow> bool" where
  "valid_request events \<longleftrightarrow>
     events \<noteq> [] \<and> (\<forall>e \<in> set events. valid_envelope e)
     \<and> length (remdups (map aggregate_id events)) = 1"

record financial_repair_action =
  cancellation_event_id :: string
  target_event_id :: string
  repair :: repair_type
  amount :: int
  unit :: unit_code

record snapshot =
  status :: string
  payment_authorized :: bool
  settled :: bool
  rewarded :: bool
  capacity_revision :: int
  settlement_post_count :: int
  reward_post_count :: int

definition initial_snapshot :: snapshot where
  "initial_snapshot = \<lparr>status = ''DRAFT'', payment_authorized = False, settled = False,
     rewarded = False, capacity_revision = 0, settlement_post_count = 0, reward_post_count = 0\<rparr>"

datatype decision = AUTO | WAIT_FOR_EVIDENCE | DECIDE_MANUAL_REVIEW

record reconcile_result =
  result_aggregate_id :: string
  receive_order_state :: snapshot
  canonical_state :: snapshot
  anomalies :: "string list"
  repairs :: "repair_type list"
  duplicate_event_ids :: "string list"
  evidence_event_ids :: "string list"
  financial_actions :: "financial_repair_action list"
  source_event_ids :: "string list"
  source_event_fingerprints :: "(string \<times> string) list"
  decision :: decision
  blocking_reasons :: "string list"
  missing_event_ids :: "string list"

text \<open>
  \<open>event.model_dump(mode="json")\<close> with \<open>received_at\<close> popped: the dictionary that
  fingerprints and comparisons of copies read. An ISO time text is determined by the
  instant and the offset and determines both, so it is dumped as that pair.
\<close>

definition iso_text :: "aware_datetime \<Rightarrow> json" where
  "iso_text t = JList [JInt (instant t), JInt (utc_offset t)]"

definition opt_str :: "string option \<Rightarrow> json" where
  "opt_str x = (case x of None \<Rightarrow> JNull | Some s \<Rightarrow> JStr s)"

definition semantic_payload :: "event_envelope \<Rightarrow> json" where
  "semantic_payload e = JObj
    [(''event_id'', JStr (event_id e)), (''aggregate_id'', JStr (aggregate_id e)),
     (''event_type'', JStr (event_type_name (event_type e))),
     (''occurred_at'', iso_text (occurred_at e)),
     (''correlation_id'', opt_str (correlation_id e)),
     (''causation_id'', opt_str (causation_id e)),
     (''schema_version'', JInt (schema_version e)),
     (''payload'', JObj (payload e))]"

lemma semantic_payload_received [simp]:
  "semantic_payload (e\<lparr>received_at := t\<rparr>) = semantic_payload e"
  by (simp add: semantic_payload_def)

lemma event_type_name_inj [simp]: "event_type_name a = event_type_name b \<longleftrightarrow> a = b"
  by (cases a; cases b; simp)

lemma json_norm_opt_str [simp]: "json_norm (opt_str x) = opt_str x"
  by (cases x) (simp_all add: opt_str_def)

lemma opt_str_inj [simp]: "opt_str x = opt_str y \<longleftrightarrow> x = y"
  by (cases x; cases y) (simp_all add: opt_str_def)

lemma semantic_payload_fields:
  assumes "py_eq (semantic_payload a) (semantic_payload b)"
  shows "event_id a = event_id b" "event_type a = event_type b" "occurred_at a = occurred_at b"
    "causation_id a = causation_id b" "schema_version a = schema_version b"
    "aggregate_id a = aggregate_id b" "py_eq (JObj (payload a)) (JObj (payload b))"
  using assms unfolding py_eq_def semantic_payload_def
  by (simp_all add: iso_text_def sort_key_def less_list_code aware_datetime.equality)

end
