(* ===== verification/Evidence_Order.thy ===== *)
theory Evidence_Order
  imports Reconciler_Models
begin

text \<open>
  The order of supplied evidence (\<^verbatim>\<open>services/reconciler/app/evidence_order.py\<close>): a stable
  topological order of the events along their \<open>causation_id\<close>, with the time key only
  deciding between unrelated events, and the walk along the parents that answers whether
  one event precedes another.
\<close>

section \<open>The model\<close>

record evidence_order =
  ordered_events :: "event_envelope list"
  missing_ids :: "string list"
  cyclic_ids :: "string list"
  clock_conflict_ids :: "string list"
  parents :: "(string \<times> string) list"

text \<open>
  \<open>EvidenceOrder.precedes\<close>: the loop over \<open>cursor\<close> with the set \<open>seen\<close>. It ends because
  every further cursor is an unseen key of \<open>parents\<close>.
\<close>

function precedes_loop :: "(string \<times> string) list \<Rightarrow> string \<Rightarrow> string list \<Rightarrow> string \<Rightarrow> bool" where
  "precedes_loop ps ancestor seen cursor =
    (if cursor \<in> set seen then False
     else if cursor = ancestor then True
     else (case map_of ps cursor of None \<Rightarrow> False
       | Some nxt \<Rightarrow> precedes_loop ps ancestor (cursor # seen) nxt))"
  by pat_completeness auto
termination
proof (relation "measure (\<lambda>(ps, a, seen, c). length (filter (\<lambda>k. k \<notin> set seen) (map fst ps)))")
  fix ps :: "(string \<times> string) list" and a seen c nxt
  assume c: "c \<notin> set seen" and some: "map_of ps c = Some nxt"
  have mem: "c \<in> set (filter (\<lambda>k. k \<notin> set seen) (map fst ps))"
    using c map_of_SomeD [OF some] by force
  have "filter (\<lambda>k. k \<notin> set (c # seen)) (map fst ps) =
      filter (\<lambda>k. k \<noteq> c) (filter (\<lambda>k. k \<notin> set seen) (map fst ps))"
    by (auto intro: filter_cong)
  then have "length (filter (\<lambda>k. k \<notin> set (c # seen)) (map fst ps)) <
      length (filter (\<lambda>k. k \<notin> set seen) (map fst ps))"
    using length_filter_less [OF mem, of "\<lambda>k. k \<noteq> c"] by simp
  then show "((ps, a, c # seen, nxt), (ps, a, seen, c)) \<in>
      measure (\<lambda>(ps, a, seen, c). length (filter (\<lambda>k. k \<notin> set seen) (map fst ps)))"
    by simp
qed simp

declare precedes_loop.simps [simp del]

definition precedes :: "(string \<times> string) list \<Rightarrow> string \<Rightarrow> string \<Rightarrow> bool" where
  "precedes ps ancestor descendant =
    (case map_of ps descendant of None \<Rightarrow> False | Some c \<Rightarrow> precedes_loop ps ancestor [] c)"

definition by_id :: "event_envelope list \<Rightarrow> (string \<times> event_envelope) list" where
  "by_id events = fold (\<lambda>e. dput (event_id e) e) events []"

text \<open>\<open>if not parent_id: continue\<close> skips a missing and an empty reference.\<close>

definition parent_ref :: "event_envelope \<Rightarrow> string option" where
  "parent_ref e = (case causation_id e of None \<Rightarrow> None | Some p \<Rightarrow> if p = [] then None else Some p)"

record scan_state =
  sc_children :: "(string \<times> string list) list"
  sc_degree :: "(string \<times> int) list"
  sc_missing :: "string list"
  sc_skewed :: "string list"

definition scan_init :: "(string \<times> event_envelope) list \<Rightarrow> scan_state" where
  "scan_init ids = \<lparr>sc_children = map (\<lambda>(i, _). (i, [])) ids,
     sc_degree = map (\<lambda>(i, _). (i, 0)) ids, sc_missing = [], sc_skewed = []\<rparr>"

definition scan_step ::
  "(string \<times> event_envelope) list \<Rightarrow> event_envelope \<Rightarrow> scan_state \<Rightarrow> scan_state" where
  "scan_step ids e st =
    (case parent_ref e of None \<Rightarrow> st
     | Some p \<Rightarrow> (case map_of ids p of None \<Rightarrow> st\<lparr>sc_missing := p # sc_missing st\<rparr>
       | Some parent \<Rightarrow>
           st\<lparr>sc_children := dput p (dget [] (sc_children st) p @ [event_id e]) (sc_children st),
              sc_degree := dput (event_id e) (dget 0 (sc_degree st) (event_id e) + 1) (sc_degree st),
              sc_skewed := (if instant (occurred_at parent) > instant (occurred_at e)
                then p # event_id e # sc_skewed st else sc_skewed st)\<rparr>))"

definition scan :: "event_envelope list \<Rightarrow> scan_state" where
  "scan events = fold (scan_step (by_id events)) events (scan_init (by_id events))"

text \<open>The inner loop over the children of the event just taken from the heap.\<close>

fun relax :: "(string \<Rightarrow> 'k::linorder) \<Rightarrow> string list \<Rightarrow>
    (string \<times> int) list \<times> ('k \<times> string) list \<Rightarrow> (string \<times> int) list \<times> ('k \<times> string) list" where
  "relax kof [] st = st"
| "relax kof (c # cs) (dg, ready) =
    (let d = dget 0 dg c - 1
     in relax kof cs (dput c d dg, if d = 0 then heappush (kof c, c) ready else ready))"

definition degree_weight :: "(string \<times> int) list \<Rightarrow> nat" where
  "degree_weight dg = sum_list (map (\<lambda>(i, n). nat n) dg)"

lemma degree_weight_dput:
  "degree_weight (dput c m dg) + nat (dget 0 dg c) = degree_weight dg + nat m"
  by (induction dg) (auto simp: degree_weight_def dget_def)

lemma relax_weight:
  "relax kof cs (dg, ready) = (dg', ready') \<Longrightarrow>
    degree_weight dg' + length ready' \<le> degree_weight dg + length ready"
proof (induction cs arbitrary: dg ready)
  case Nil
  then show ?case by simp
next
  case (Cons c cs)
  let ?d = "dget 0 dg c - 1"
  let ?r = "if ?d = 0 then heappush (kof c, c) ready else ready"
  have "degree_weight dg' + length ready' \<le> degree_weight (dput c ?d dg) + length ?r"
    using Cons.prems by (intro Cons.IH) (simp add: Let_def)
  also have "\<dots> \<le> degree_weight dg + length ready"
    using degree_weight_dput [of c ?d dg] by (auto split: if_splits)
  finally show ?case .
qed

text \<open>
  The \<open>while ready\<close> loop. Every iteration takes one item from the heap and each push is
  paid for by a degree that drops to zero, so the weight of the degrees plus the size of
  the heap gets smaller.
\<close>

function topo :: "(string \<times> string list) list \<Rightarrow> (string \<Rightarrow> 'k::linorder) \<Rightarrow> (string \<times> int) list \<Rightarrow>
    ('k \<times> string) list \<Rightarrow> string list \<Rightarrow> string list \<times> (string \<times> int) list" where
  "topo children kof dg ready acc =
    (case heappop ready of None \<Rightarrow> (acc, dg)
     | Some (item, q) \<Rightarrow>
        (let st = relax kof (dget [] children (snd item)) (dg, q)
         in topo children kof (fst st) (snd st) (acc @ [snd item])))"
  by pat_completeness auto
termination
proof (relation "measure (\<lambda>(ch, kof, dg, ready, acc). degree_weight dg + length ready)", goal_cases)
  case (2 ch kof dg ready acc x item q st)
  then have "ready = item # q" and "relax kof (dget [] ch (snd item)) (dg, q) = (fst st, snd st)"
    by (auto simp: heappop_Some)
  then show ?case using relax_weight by fastforce
qed simp

declare topo.simps [simp del]

definition key_of :: "(event_envelope \<Rightarrow> 'k) \<Rightarrow> event_envelope list \<Rightarrow> string \<Rightarrow> 'k" where
  "key_of key events i = key (the (map_of (by_id events) i))"

definition initial_ready ::
  "(event_envelope \<Rightarrow> 'k::linorder) \<Rightarrow> event_envelope list \<Rightarrow> ('k \<times> string) list" where
  "initial_ready key events =
    heapify [(key_of key events i, i). (i, n) \<leftarrow> sc_degree (scan events), n = 0]"

definition parents_of :: "event_envelope list \<Rightarrow> (string \<times> string) list" where
  "parents_of events =
    fold (\<lambda>e d. case causation_id e of None \<Rightarrow> d
      | Some p \<Rightarrow> if map_of (by_id events) p \<noteq> None then dput (event_id e) p d else d) events []"

definition causal_order ::
  "event_envelope list \<Rightarrow> (event_envelope \<Rightarrow> 'k::linorder) \<Rightarrow> evidence_order" where
  "causal_order events key =
    (let st = scan events;
         res = topo (sc_children st) (key_of key events) (sc_degree st) (initial_ready key events) [];
         cyclic = sort [i. (i, n) \<leftarrow> snd res, n \<noteq> 0]
     in \<lparr>ordered_events = (if cyclic \<noteq> [] then sort_key key events
           else map (\<lambda>i. the (map_of (by_id events) i)) (fst res)),
         missing_ids = sorted_set (sc_missing st), cyclic_ids = cyclic,
         clock_conflict_ids = sorted_set (sc_skewed st), parents = parents_of events\<rparr>)"


section \<open>Ancestry\<close>

text \<open>The parent relation of a parents dictionary: \<open>(d, p)\<close> when \<open>p\<close> is the parent of \<open>d\<close>.\<close>

definition parent_rel :: "(string \<times> string) list \<Rightarrow> (string \<times> string) set" where
  "parent_rel ps = {(d, p). map_of ps d = Some p}"

lemma precedes_loop_sound:
  "precedes_loop ps a seen c \<Longrightarrow> (c, a) \<in> (parent_rel ps)\<^sup>*"
proof (induction ps a seen c rule: precedes_loop.induct)
  case (1 ps a seen c)
  show ?case
  proof (cases "c = a")
    case True
    then show ?thesis by simp
  next
    case False
    then obtain n where n: "map_of ps c = Some n" and "precedes_loop ps a (c # seen) n" and "c \<notin> set seen"
      using "1.prems" by (subst (asm) precedes_loop.simps) (auto split: if_splits option.splits)
    then have "(n, a) \<in> (parent_rel ps)\<^sup>*" using "1.IH" False by blast
    moreover have "(c, n) \<in> parent_rel ps" using n by (simp add: parent_rel_def)
    ultimately show ?thesis by (rule converse_rtrancl_into_rtrancl [rotated])
  qed
qed

text \<open>
  Completeness: from a cursor that reaches the ancestor, a refusal could only come from a
  seen cursor; but a shortest path to the ancestor never returns to a cursor it has left.
\<close>

lemma precedes_loop_complete:
  "(c, a) \<in> parent_rel ps ^^ n \<Longrightarrow> (\<forall>m<n. (c, a) \<notin> parent_rel ps ^^ m) \<Longrightarrow>
    (\<forall>x \<in> set seen. \<forall>m\<le>n. (x, a) \<notin> parent_rel ps ^^ m) \<Longrightarrow> precedes_loop ps a seen c"
proof (induction n arbitrary: c seen)
  case 0
  then show ?case by (subst precedes_loop.simps) auto
next
  case (Suc n)
  obtain d where d: "(c, d) \<in> parent_rel ps" and da: "(d, a) \<in> parent_rel ps ^^ n"
    using Suc.prems(1) by (metis relpow_Suc_D2)
  have ca: "c \<noteq> a" using Suc.prems(2) by force
  have cs: "c \<notin> set seen" using Suc.prems(1,3) by blast
  have md: "map_of ps c = Some d" using d by (simp add: parent_rel_def)
  have "precedes_loop ps a (c # seen) d"
  proof (rule Suc.IH [OF da])
    show "\<forall>m<n. (d, a) \<notin> parent_rel ps ^^ m"
      using Suc.prems(2) d by (meson Suc_less_eq relpow_Suc_I2)
    show "\<forall>x \<in> set (c # seen). \<forall>m\<le>n. (x, a) \<notin> parent_rel ps ^^ m"
      using Suc.prems(2,3) by (simp add: le_imp_less_Suc le_SucI)
  qed
  then show ?case using ca cs md by (subst precedes_loop.simps) simp
qed

lemma precedes_ancestor:
  "precedes ps a d \<longleftrightarrow> (d, a) \<in> (parent_rel ps)\<^sup>+"
proof
  assume "precedes ps a d"
  then obtain c where "map_of ps d = Some c" and "precedes_loop ps a [] c"
    by (auto simp: precedes_def split: option.splits)
  then have "(d, c) \<in> parent_rel ps" and "(c, a) \<in> (parent_rel ps)\<^sup>*"
    by (auto simp: parent_rel_def dest: precedes_loop_sound)
  then show "(d, a) \<in> (parent_rel ps)\<^sup>+" by simp
next
  assume "(d, a) \<in> (parent_rel ps)\<^sup>+"
  then obtain c where c: "map_of ps d = Some c" and "(c, a) \<in> (parent_rel ps)\<^sup>*"
    by (auto simp: parent_rel_def dest: tranclD)
  then obtain n where "(c, a) \<in> parent_rel ps ^^ n" and "\<forall>m<n. (c, a) \<notin> parent_rel ps ^^ m"
    using rtrancl_shortest by metis
  then have "precedes_loop ps a [] c" by (rule precedes_loop_complete) simp
  then show "precedes ps a d" by (simp add: precedes_def c)
qed

section \<open>What the scan computes\<close>

abbreviation ids_of :: "event_envelope list \<Rightarrow> string list" where
  "ids_of events \<equiv> map event_id events"

lemma by_id_distinct: "distinct (ids_of es) \<Longrightarrow> by_id es = map (\<lambda>e. (event_id e, e)) es"
  using fold_dput_distinct [of "[]" event_id es "\<lambda>e. e"] by (simp add: by_id_def)

lemma map_of_by_id_None: "map_of (by_id es) i = None \<longleftrightarrow> i \<notin> set (ids_of es)"
  using dom_fold_dput [of event_id "\<lambda>e. e" es "[]"] by (auto simp: by_id_def domIff)

lemma map_of_by_id_SomeD: "map_of (by_id es) i = Some x \<Longrightarrow> i \<in> set (ids_of es)"
  using map_of_by_id_None [of es i] by auto

lemma map_of_by_id:
  "distinct (ids_of es) \<Longrightarrow> e \<in> set es \<Longrightarrow> map_of (by_id es) (event_id e) = Some e"
  using map_of_map_distinct [of event_id es e "\<lambda>e. e"] by (simp add: by_id_distinct)

text \<open>The parent of an event inside the evidence.\<close>

definition in_parent :: "event_envelope list \<Rightarrow> event_envelope \<Rightarrow> string option" where
  "in_parent es e = (case parent_ref e of None \<Rightarrow> None
     | Some p \<Rightarrow> if p \<in> set (ids_of es) then Some p else None)"

lemma scan_step_children:
  "dget [] (sc_children (scan_step (by_id es) e st)) i =
    dget [] (sc_children st) i @ (if in_parent es e = Some i then [event_id e] else [])"
  by (auto simp: scan_step_def in_parent_def map_of_by_id_None
      dest: map_of_by_id_SomeD split: option.splits)

lemma scan_step_degree:
  "dget 0 (sc_degree (scan_step (by_id es) e st)) j =
    dget 0 (sc_degree st) j + (if event_id e = j \<and> in_parent es e \<noteq> None then 1 else 0)"
  by (auto simp: scan_step_def in_parent_def map_of_by_id_None
      dest: map_of_by_id_SomeD split: option.splits)

lemma scan_step_keys:
  "event_id e \<in> set (map fst (sc_degree st)) \<Longrightarrow>
    map fst (sc_degree (scan_step ids e st)) = map fst (sc_degree st)"
  by (auto simp: scan_step_def keys_list_dput split: option.splits)

lemma scan_step_missing:
  "set (sc_missing (scan_step (by_id es) e st)) =
    set (sc_missing st) \<union> {p. parent_ref e = Some p \<and> p \<notin> set (ids_of es)}"
  by (auto simp: scan_step_def map_of_by_id_None dest: map_of_by_id_SomeD split: option.splits)

definition skew_pair :: "event_envelope list \<Rightarrow> event_envelope \<Rightarrow> event_envelope \<Rightarrow> bool" where
  "skew_pair es q e \<longleftrightarrow> q \<in> set es \<and> in_parent es e = Some (event_id q)
     \<and> instant (occurred_at e) < instant (occurred_at q)"

lemma scan_step_skewed:
  assumes "distinct (ids_of es)"
  shows "set (sc_skewed (scan_step (by_id es) e st)) =
    set (sc_skewed st) \<union> {x. \<exists>q. skew_pair es q e \<and> (x = event_id q \<or> x = event_id e)}"
proof (cases "in_parent es e")
  case None
  then show ?thesis
    by (auto simp: scan_step_def skew_pair_def in_parent_def dest: map_of_by_id_SomeD
        split: option.splits if_splits)
next
  case (Some p)
  then obtain q where q: "q \<in> set es" "event_id q = p" "parent_ref e = Some p"
    by (auto simp: in_parent_def split: option.splits if_splits)
  have uniq: "skew_pair es x e \<longleftrightarrow> x = q \<and> instant (occurred_at e) < instant (occurred_at q)" for x
    using Some q assms by (auto simp: skew_pair_def distinct_map inj_on_def)
  have "map_of (by_id es) p = Some q" using map_of_by_id [OF assms q(1)] q(2) by simp
  then show ?thesis using q by (auto simp: scan_step_def uniq)
qed

lemma scan_fold_children:
  "dget [] (sc_children (fold (scan_step (by_id es)) fs st)) i =
    dget [] (sc_children st) i @ ids_of (filter (\<lambda>e. in_parent es e = Some i) fs)"
  by (induction fs arbitrary: st) (auto simp: scan_step_children)

lemma scan_fold_degree:
  "dget 0 (sc_degree (fold (scan_step (by_id es)) fs st)) j =
    dget 0 (sc_degree st) j + int (length (filter (\<lambda>e. event_id e = j \<and> in_parent es e \<noteq> None) fs))"
  by (induction fs arbitrary: st) (auto simp: scan_step_degree)

lemma scan_fold_keys:
  "set (ids_of fs) \<subseteq> set (map fst (sc_degree st)) \<Longrightarrow>
    map fst (sc_degree (fold (scan_step ids) fs st)) = map fst (sc_degree st)"
proof (induction fs arbitrary: st)
  case (Cons e fs)
  then have "map fst (sc_degree (scan_step ids e st)) = map fst (sc_degree st)"
    by (intro scan_step_keys) simp
  then show ?case using Cons.IH [of "scan_step ids e st"] Cons.prems
    by (simp flip: set_map)
qed simp

lemma scan_fold_missing:
  "set (sc_missing (fold (scan_step (by_id es)) fs st)) =
    set (sc_missing st) \<union> {p. \<exists>e \<in> set fs. parent_ref e = Some p \<and> p \<notin> set (ids_of es)}"
  by (induction fs arbitrary: st) (auto simp: scan_step_missing)

lemma scan_fold_skewed:
  "distinct (ids_of es) \<Longrightarrow>
    set (sc_skewed (fold (scan_step (by_id es)) fs st)) = set (sc_skewed st) \<union>
      {x. \<exists>e \<in> set fs. \<exists>q. skew_pair es q e \<and> (x = event_id q \<or> x = event_id e)}"
  by (induction fs arbitrary: st) (auto simp: scan_step_skewed)

lemma scan_children: "dget [] (sc_children (scan es)) i = ids_of (filter (\<lambda>e. in_parent es e = Some i) es)"
  by (simp add: scan_def scan_fold_children scan_init_def)

lemma scan_keys: "distinct (ids_of es) \<Longrightarrow> map fst (sc_degree (scan es)) = ids_of es"
  by (simp add: scan_def scan_fold_keys scan_init_def by_id_distinct comp_def)

lemma scan_degree:
  assumes "distinct (ids_of es)" and "e \<in> set es"
  shows "map_of (sc_degree (scan es)) (event_id e) = Some (if in_parent es e = None then 0 else 1)"
proof -
  have one: "filter (\<lambda>x. event_id x = event_id e \<and> in_parent es x \<noteq> None) es =
      (if in_parent es e = None then [] else [e])"
    using filter_key_distinct [OF assms] filter_filter
      [of "\<lambda>x. in_parent es x \<noteq> None" "\<lambda>x. event_id x = event_id e" es, symmetric]
    by simp
  have "event_id e \<in> set (map fst (sc_degree (scan es)))" using assms by (simp add: scan_keys)
  then obtain n where n: "map_of (sc_degree (scan es)) (event_id e) = Some n"
    by (metis map_of_eq_None_iff not_None_eq set_map)
  have "dget 0 (sc_degree (scan es)) (event_id e) = (if in_parent es e = None then 0 else 1)"
    using one by (simp add: scan_def scan_fold_degree scan_init_def)
  then show ?thesis using n by (simp add: dget_def)
qed


section \<open>The topological order\<close>

text \<open>One relaxation of the children of an event, when each of them waits for this event only.\<close>

lemma relax_ones:
  assumes "distinct cs" and "\<forall>c \<in> set cs. map_of dg c = Some 1"
  shows "relax kof cs (dg, q) =
    (fold (\<lambda>c. dput c 0) cs dg, fold (\<lambda>c. heappush (kof c, c)) cs q)"
  using assms
proof (induction cs arbitrary: dg q)
  case (Cons c cs)
  have "dget 0 dg c = 1" using Cons.prems by (simp add: dget_def)
  moreover have "\<forall>x \<in> set cs. map_of (dput c 0 dg) x = Some 1" using Cons.prems by auto
  ultimately show ?case using Cons by (simp add: Let_def)
qed simp

lemma map_of_fold_dput0:
  "map_of (fold (\<lambda>c. dput c z) cs dg) x = (if x \<in> set cs then Some z else map_of dg x)"
  by (induction cs arbitrary: dg) auto

lemma set_fold_heappush [simp]:
  "set (fold (\<lambda>c. heappush (kof c, c)) cs q) = (\<lambda>c. (kof c, c)) ` set cs \<union> set q"
  by (induction cs arbitrary: q) auto

lemma mset_fold_heappush:
  "mset (fold (\<lambda>c. heappush (kof c, c)) cs q) = mset (map (\<lambda>c. (kof c, c)) cs) + mset q"
  by (induction cs arbitrary: q) auto

text \<open>
  The invariant of the loop: \<open>par\<close> is the parent map of the evidence and \<open>I\<close> its
  identities. An identity has left the waiting set exactly when its parent was output.
\<close>

definition topo_inv :: "string set \<Rightarrow> (string \<rightharpoonup> string) \<Rightarrow> (string \<times> int) list \<Rightarrow>
    ('k \<times> string) list \<Rightarrow> string list \<Rightarrow> bool" where
  "topo_inv I par dg ready acc \<longleftrightarrow>
     distinct (acc @ map snd ready) \<and>
     (\<forall>x \<in> I. map_of dg x = Some (if par x = None \<or> the (par x) \<in> set acc then 0 else 1)) \<and>
     set acc \<union> snd ` set ready = {x \<in> I. par x = None \<or> the (par x) \<in> set acc} \<and>
     (\<forall>ys x zs. acc = ys @ x # zs \<longrightarrow> par x = None \<or> the (par x) \<in> set ys)"

definition children_of :: "string set \<Rightarrow> (string \<rightharpoonup> string) \<Rightarrow> (string \<times> string list) list \<Rightarrow> bool" where
  "children_of I par ch \<longleftrightarrow>
     (\<forall>i \<in> I. distinct (dget [] ch i) \<and> set (dget [] ch i) = {x \<in> I. par x = Some i})"

lemma topo_inv_step:
  assumes inv: "topo_inv I par dg ((k, i) # q) acc" and ch: "children_of I par ch"
    and cs: "cs = dget [] ch i"
  shows "relax kof cs (dg, q) = (fold (\<lambda>c. dput c 0) cs dg, fold (\<lambda>c. heappush (kof c, c)) cs q)"
    and "topo_inv I par (fold (\<lambda>c. dput c 0) cs dg) (fold (\<lambda>c. heappush (kof c, c)) cs q) (acc @ [i])"
proof -
  have iI: "i \<in> I" and dist: "distinct (acc @ i # map snd q)"
    and eq: "set acc \<union> insert i (snd ` set q) = {x \<in> I. par x = None \<or> the (par x) \<in> set acc}"
    and deg: "\<forall>x \<in> I. map_of dg x = Some (if par x = None \<or> the (par x) \<in> set acc then 0 else 1)"
    and ord: "\<forall>ys x zs. acc = ys @ x # zs \<longrightarrow> par x = None \<or> the (par x) \<in> set ys"
    using inv by (auto simp: topo_inv_def)
  have inot: "i \<notin> set acc" using dist by simp
  have d: "distinct cs" and sc: "set cs = {x \<in> I. par x = Some i}"
    using ch iI by (auto simp: children_of_def cs)
  have "\<forall>c \<in> set cs. map_of dg c = Some 1" using sc deg inot by auto
  with d show "relax kof cs (dg, q) =
      (fold (\<lambda>c. dput c 0) cs dg, fold (\<lambda>c. heappush (kof c, c)) cs q)"
    by (rule relax_ones)
  have ipar: "par i = None \<or> the (par i) \<in> set acc" using eq by auto
  have fresh: "set cs \<inter> (set acc \<union> insert i (snd ` set q)) = {}"
    using sc eq inot by auto
  show "topo_inv I par (fold (\<lambda>c. dput c 0) cs dg) (fold (\<lambda>c. heappush (kof c, c)) cs q) (acc @ [i])"
    unfolding topo_inv_def
  proof (intro conjI)
    have "mset (map snd (fold (\<lambda>c. heappush (kof c, c)) cs q)) = mset (cs @ map snd q)"
      by (simp add: mset_fold_heappush mset_map image_mset.compositionality comp_def)
    then have "distinct (map snd (fold (\<lambda>c. heappush (kof c, c)) cs q)) = distinct (cs @ map snd q)"
      by (rule mset_eq_imp_distinct_iff)
    then show "distinct ((acc @ [i]) @ map snd (fold (\<lambda>c. heappush (kof c, c)) cs q))"
      using dist d fresh by (auto simp: image_Un image_image)
    show "\<forall>x \<in> I. map_of (fold (\<lambda>c. dput c 0) cs dg) x =
        Some (if par x = None \<or> the (par x) \<in> set (acc @ [i]) then 0 else 1)"
      using deg sc by (auto simp: map_of_fold_dput0)
    show "set (acc @ [i]) \<union> snd ` set (fold (\<lambda>c. heappush (kof c, c)) cs q) =
        {x \<in> I. par x = None \<or> the (par x) \<in> set (acc @ [i])}"
    proof -
      have "set (acc @ [i]) \<union> snd ` set (fold (\<lambda>c. heappush (kof c, c)) cs q) =
          (set acc \<union> insert i (snd ` set q)) \<union> set cs"
        by (auto simp: image_Un image_image)
      also have "\<dots> = {x \<in> I. par x = None \<or> the (par x) \<in> set acc} \<union> {x \<in> I. par x = Some i}"
        by (simp only: eq sc)
      also have "\<dots> = {x \<in> I. par x = None \<or> the (par x) \<in> set (acc @ [i])}"
      proof (rule set_eqI)
        fix x
        show "x \<in> {x \<in> I. par x = None \<or> the (par x) \<in> set acc} \<union> {x \<in> I. par x = Some i} \<longleftrightarrow>
            x \<in> {x \<in> I. par x = None \<or> the (par x) \<in> set (acc @ [i])}"
          by (cases "par x") auto
      qed
      finally show ?thesis .
    qed
    show "\<forall>ys x zs. acc @ [i] = ys @ x # zs \<longrightarrow> par x = None \<or> the (par x) \<in> set ys"
    proof (intro allI impI)
      fix ys x zs
      assume "acc @ [i] = ys @ x # zs"
      then show "par x = None \<or> the (par x) \<in> set ys"
        using ord ipar by (cases zs rule: rev_cases) auto
    qed
  qed
qed

lemma topo_correct:
  fixes ready :: "('k::linorder \<times> string) list"
  shows "topo_inv I par dg ready acc \<Longrightarrow> children_of I par ch \<Longrightarrow>
    topo ch kof dg ready acc = (acc', dg') \<Longrightarrow> topo_inv I par dg' ([] :: ('k \<times> string) list) acc'"
proof (induction ch kof dg ready acc rule: topo.induct)
  case (1 ch kof dg ready acc)
  show ?case
  proof (cases ready)
    case Nil
    then show ?thesis using "1.prems" by (simp add: topo.simps)
  next
    case (Cons it q)
    obtain k i where it: "it = (k, i)" by (cases it)
    note st = topo_inv_step [OF "1.prems"(1) [unfolded Cons it] "1.prems"(2) refl]
    let ?st = "relax kof (dget [] ch i) (dg, q)"
    have rec: "topo ch kof (fst ?st) (snd ?st) (acc @ [i]) = (acc', dg')"
      using "1.prems"(3) by (subst (asm) topo.simps) (simp add: Cons it Let_def)
    have inv': "topo_inv I par (fst ?st) (snd ?st) (acc @ [i])"
      using st(2) by (simp add: st(1))
    show ?thesis
      using "1.IH" [of "(it, q)" it q ?st] Cons it inv' "1.prems"(2) rec by simp
  qed
qed


section \<open>Correctness of the causal order\<close>

text \<open>
  The parent map of the evidence and the identities whose chain of parents ends: those and
  only those are output by the loop.
\<close>

definition parent_map :: "event_envelope list \<Rightarrow> string \<rightharpoonup> string" where
  "parent_map es i = (case List.find (\<lambda>e. event_id e = i) es of None \<Rightarrow> None | Some e \<Rightarrow> in_parent es e)"

inductive grounded :: "(string \<rightharpoonup> string) \<Rightarrow> string \<Rightarrow> bool" for par where
  root: "par i = None \<Longrightarrow> grounded par i"
| child: "par i = Some p \<Longrightarrow> grounded par p \<Longrightarrow> grounded par i"

lemma parent_map_event:
  "distinct (ids_of es) \<Longrightarrow> e \<in> set es \<Longrightarrow> parent_map es (event_id e) = in_parent es e"
  by (simp add: parent_map_def find_key_distinct)

lemma in_parent_mem: "in_parent es e = Some p \<Longrightarrow> p \<in> set (ids_of es)"
  by (auto simp: in_parent_def split: option.splits if_splits)

lemma scan_children_of:
  assumes "distinct (ids_of es)"
  shows "children_of (set (ids_of es)) (parent_map es) (sc_children (scan es))"
proof -
  have "set (ids_of (filter (\<lambda>e. in_parent es e = Some i) es)) =
      {x \<in> set (ids_of es). parent_map es x = Some i}" for i
    using parent_map_event [OF assms] by auto
  then show ?thesis
    using assms by (auto simp: children_of_def scan_children distinct_map inj_on_def)
qed

lemma initial_ready_items:
  assumes "distinct (ids_of es)"
  shows "snd ` set (initial_ready key es) = {x \<in> set (ids_of es). parent_map es x = None}"
    and "distinct (map snd (initial_ready key es))"
proof -
  let ?dg = "sc_degree (scan es)"
  let ?l = "[(key_of key es i, i). (i, n) \<leftarrow> ?dg, n = 0]"
  have keys: "map fst ?dg = ids_of es" using assms by (rule scan_keys)
  have l: "map snd [(key_of key es i, i). (i, n) \<leftarrow> dg, n = 0] =
      map fst (filter (\<lambda>(i, n). n = 0) dg)" for dg :: "(string \<times> int) list"
    by (induction dg) auto
  have m: "mset (map snd (initial_ready key es)) = mset (map snd ?l)"
    by (simp add: initial_ready_def heapify_def mset_map)
  have "distinct (map snd ?l)"
    unfolding l using keys assms by (metis distinct_map_filter)
  then show "distinct (map snd (initial_ready key es))"
    using mset_eq_imp_distinct_iff [OF m] by simp
  have "set (map snd ?l) = {x \<in> set (ids_of es). parent_map es x = None}"
  proof -
    have deg: "map_of ?dg x = Some (if parent_map es x = None then 0 else 1)" if "x \<in> set (ids_of es)" for x
      using that scan_degree [OF assms] parent_map_event [OF assms] by auto
    have a: "x \<in> set (map snd ?l) \<longleftrightarrow> map_of ?dg x = Some 0" for x
      unfolding l using keys assms by (force simp: map_of_eq_Some_iff)
    have b: "map_of ?dg x = Some 0 \<Longrightarrow> x \<in> set (ids_of es)" for x
      using keys by (metis domI dom_map_of_conv_image_fst set_map)
    have c: "x \<in> set (ids_of es) \<Longrightarrow> map_of ?dg x = Some 0 \<longleftrightarrow> parent_map es x = None" for x
      using deg [of x] by simp
    show ?thesis
      by (rule set_eqI) (simp only: a mem_Collect_eq, metis b c)
  qed
  then show "snd ` set (initial_ready key es) = {x \<in> set (ids_of es). parent_map es x = None}"
    using mset_eq_setD [OF m] by simp
qed

lemma topo_inv_init:
  assumes "distinct (ids_of es)"
  shows "topo_inv (set (ids_of es)) (parent_map es) (sc_degree (scan es)) (initial_ready key es) []"
proof -
  have "map_of (sc_degree (scan es)) x = Some (if parent_map es x = None then 0 else 1)"
    if "x \<in> set (ids_of es)" for x
    using that scan_degree [OF assms] parent_map_event [OF assms] by auto
  then show ?thesis
    using initial_ready_items [OF assms, of key] by (auto simp: topo_inv_def)
qed

text \<open>At the end of the loop exactly the grounded identities have been output.\<close>

lemma topo_inv_final:
  assumes inv: "topo_inv I par dg [] acc" and closed: "\<forall>x \<in> I. \<forall>p. par x = Some p \<longrightarrow> p \<in> I"
  shows "set acc = {x \<in> I. grounded par x}"
proof
  have eq: "set acc = {x \<in> I. par x = None \<or> the (par x) \<in> set acc}"
    and ord: "\<forall>ys x zs. acc = ys @ x # zs \<longrightarrow> par x = None \<or> the (par x) \<in> set ys"
    using inv by (auto simp: topo_inv_def)
  have "\<forall>x \<in> set ys. grounded par x" if "acc = ys @ zs" for ys zs
    using that
  proof (induction ys arbitrary: zs rule: rev_induct)
    case (snoc y ys)
    then have "\<forall>x \<in> set ys. grounded par x" by simp
    moreover have "par y = None \<or> the (par y) \<in> set ys" using ord snoc.prems by auto
    ultimately have "grounded par y" by (cases "par y") (auto intro: grounded.intros)
    then show ?case using snoc by simp
  qed simp
  from this [of acc "[]"] have "\<forall>x \<in> set acc. grounded par x" by simp
  moreover have "set acc \<subseteq> I" using eq by auto
  ultimately show "set acc \<subseteq> {x \<in> I. grounded par x}" by blast
  have "grounded par x \<Longrightarrow> x \<in> I \<Longrightarrow> x \<in> set acc" for x
  proof (induction rule: grounded.induct)
    case (root i)
    then show ?case using eq by blast
  next
    case (child i p)
    then have "p \<in> set acc" using closed by blast
    then have "par i = None \<or> the (par i) \<in> set acc" using child.hyps(1) by simp
    then show ?case using eq child.prems by blast
  qed
  then show "{x \<in> I. grounded par x} \<subseteq> set acc" by blast
qed

lemma topo_degree_keys:
  fixes ready :: "('k::linorder \<times> string) list"
  shows "topo_inv I par dg ready acc \<Longrightarrow> children_of I par ch \<Longrightarrow> set (map fst dg) = I \<Longrightarrow>
    topo ch kof dg ready acc = (acc', dg') \<Longrightarrow> map fst dg' = map fst dg"
proof (induction ch kof dg ready acc rule: topo.induct)
  case (1 ch kof dg ready acc)
  show ?case
  proof (cases ready)
    case Nil
    then show ?thesis using "1.prems" by (simp add: topo.simps)
  next
    case (Cons it q)
    obtain k i where it: "it = (k, i)" by (cases it)
    note st = topo_inv_step [OF "1.prems"(1) [unfolded Cons it] "1.prems"(2) refl]
    let ?st = "relax kof (dget [] ch i) (dg, q)"
    have rec: "topo ch kof (fst ?st) (snd ?st) (acc @ [i]) = (acc', dg')"
      using "1.prems"(4) by (subst (asm) topo.simps) (simp add: Cons it Let_def)
    have inv': "topo_inv I par (fst ?st) (snd ?st) (acc @ [i])"
      using st(2) by (simp add: st(1))
    have "i \<in> I" using "1.prems"(1) by (auto simp: topo_inv_def Cons it)
    then have "set (dget [] ch i) \<subseteq> I" using "1.prems"(2) by (auto simp: children_of_def)
    then have keys: "map fst (fst ?st) = map fst dg"
      using "1.prems"(3) by (simp add: st(1) keys_fold_dput)
    show ?thesis
      using "1.IH" [of "(it, q)" it q ?st] Cons it inv' "1.prems"(2,3) rec keys by (simp flip: set_map)
  qed
qed

text \<open>The result of the whole loop.\<close>

lemma topo_result:
  fixes key :: "event_envelope \<Rightarrow> 'k::linorder"
  assumes d: "distinct (ids_of es)"
    and res: "topo (sc_children (scan es)) kof (sc_degree (scan es)) (initial_ready key es) [] = (acc, dg)"
  shows "distinct acc" and "set acc = {x \<in> set (ids_of es). grounded (parent_map es) x}"
    and "\<forall>ys x zs p. acc = ys @ x # zs \<longrightarrow> parent_map es x = Some p \<longrightarrow> p \<in> set ys"
    and "map fst dg = ids_of es"
    and "set [i. (i, n) \<leftarrow> dg, n \<noteq> 0] = {x \<in> set (ids_of es). \<not> grounded (parent_map es) x}"
proof -
  let ?I = "set (ids_of es)" and ?par = "parent_map es"
  have inv: "topo_inv ?I ?par dg ([] :: ('k \<times> string) list) acc"
    by (rule topo_correct [OF topo_inv_init [OF d] scan_children_of [OF d] res])
  show "distinct acc" using inv by (simp add: topo_inv_def)
  have closed: "\<forall>x \<in> ?I. \<forall>p. ?par x = Some p \<longrightarrow> p \<in> ?I"
    using parent_map_event [OF d] in_parent_mem by fastforce
  show acc: "set acc = {x \<in> ?I. grounded ?par x}" by (rule topo_inv_final [OF inv closed])
  show "\<forall>ys x zs p. acc = ys @ x # zs \<longrightarrow> ?par x = Some p \<longrightarrow> p \<in> set ys"
    using inv by (force simp: topo_inv_def)
  show keys: "map fst dg = ids_of es"
    using topo_degree_keys [OF topo_inv_init [OF d] scan_children_of [OF d] _ res] scan_keys [OF d]
    by (simp flip: set_map)
  have deg: "map_of dg x = Some (if x \<in> set acc then 0 else 1)" if x: "x \<in> ?I" for x
  proof -
    have eq: "set acc = {x \<in> ?I. ?par x = None \<or> the (?par x) \<in> set acc}"
      using inv by (simp add: topo_inv_def)
    have "x \<in> set acc \<longleftrightarrow> ?par x = None \<or> the (?par x) \<in> set acc" using eq x by blast
    moreover have "map_of dg x = Some (if ?par x = None \<or> the (?par x) \<in> set acc then 0 else 1)"
      using inv x unfolding topo_inv_def by blast
    ultimately show ?thesis by simp
  qed
  have "set [i. (i, n) \<leftarrow> dg, n \<noteq> 0] = {i. \<exists>n. (i, n) \<in> set dg \<and> n \<noteq> 0}" by auto
  also have "\<dots> = {i. \<exists>n. map_of dg i = Some n \<and> n \<noteq> 0}"
    using d keys by (auto simp: map_of_eq_Some_iff)
  also have "\<dots> = {x \<in> ?I. x \<notin> set acc}"
  proof (rule set_eqI)
    fix x
    have "map_of dg x \<noteq> None \<longleftrightarrow> x \<in> ?I" using keys map_of_eq_None_iff [of dg x] by (simp flip: set_map)
    then show "x \<in> {i. \<exists>n. map_of dg i = Some n \<and> n \<noteq> 0} \<longleftrightarrow> x \<in> {x \<in> ?I. x \<notin> set acc}"
      using deg [of x] by (cases "x \<in> ?I") auto
  qed
  finally show "set [i. (i, n) \<leftarrow> dg, n \<noteq> 0] = {x \<in> ?I. \<not> grounded ?par x}"
    using acc by auto
qed


text \<open>The \<open>parents\<close> dictionary is the parent map, so \<open>precedes\<close> walks that map.\<close>

lemma map_of_parents_acc:
  assumes "distinct (map f xs)"
  shows "map_of (fold (\<lambda>x d. case g x of None \<Rightarrow> d | Some p \<Rightarrow> if Q p then dput (f x) p d else d) xs d) i =
    (case List.find (\<lambda>x. f x = i) xs of None \<Rightarrow> map_of d i
     | Some x \<Rightarrow> (case g x of None \<Rightarrow> map_of d i | Some p \<Rightarrow> if Q p then Some p else map_of d i))"
  using assms
proof (induction xs arbitrary: d)
  case (Cons x xs)
  have "List.find (\<lambda>y. f y = i) xs = None" if "f x = i"
    using Cons.prems that by (simp add: find_None_iff) (metis image_eqI)
  then show ?case using Cons by (auto split: option.splits)
qed simp

lemma map_of_parents_of:
  assumes "distinct (ids_of es)" and "[] \<notin> set (ids_of es)"
  shows "map_of (parents_of es) = parent_map es"
proof
  fix i
  have q: "map_of (by_id es) p \<noteq> None \<longleftrightarrow> p \<in> set (ids_of es)" for p
    using map_of_by_id_None [of es p] by simp
  show "map_of (parents_of es) i = parent_map es i"
    unfolding parents_of_def map_of_parents_acc [OF assms(1)] q
    using assms(2) by (auto simp: parent_map_def in_parent_def parent_ref_def split: option.splits)
qed

lemma grounded_no_cycle:
  assumes "grounded par i"
  shows "(i, c) \<in> {(a, b). par a = Some b}\<^sup>* \<Longrightarrow> (c, c) \<notin> {(a, b). par a = Some b}\<^sup>+"
  using assms
proof (induction arbitrary: c rule: grounded.induct)
  case (root i)
  then have "c = i" by (auto elim: converse_rtranclE)
  then show ?case using root.hyps by (auto dest: tranclD)
next
  case (child i p)
  let ?r = "{(a, b). par a = Some b}"
  show ?case
  proof (cases "(p, c) \<in> ?r\<^sup>*")
    case True
    then show ?thesis by (rule child.IH)
  next
    case False
    then have "c = i" using child by (auto elim: converse_rtranclE)
    moreover have "(i, i) \<in> ?r\<^sup>+ \<Longrightarrow> (p, i) \<in> ?r\<^sup>*" using child.hyps(1) by (auto dest: tranclD)
    ultimately show ?thesis using child.IH [of i] by blast
  qed
qed

lemma no_cycle_grounded:
  assumes fin: "finite {x. par x \<noteq> None}"
    and none: "\<And>c. (i, c) \<in> {(a, b). par a = Some b}\<^sup>* \<Longrightarrow> (c, c) \<notin> {(a, b). par a = Some b}\<^sup>+"
  shows "grounded par i"
proof -
  let ?r = "{(a, b). par a = Some b}"
  let ?R = "{(a, b). par a = Some b \<and> (i, a) \<in> ?r\<^sup>*}"
  have "?R \<subseteq> (\<lambda>a. (a, the (par a))) ` {x. par x \<noteq> None}" by auto
  then have finR: "finite ?R" using fin finite_surj by blast
  have sub: "?R \<subseteq> ?r" by auto
  have "acyclic ?R"
  proof (rule acyclicI, rule allI, rule notI)
    fix x
    assume xx: "(x, x) \<in> ?R\<^sup>+"
    then have "(i, x) \<in> ?r\<^sup>*" by (auto dest: tranclD)
    moreover have "(x, x) \<in> ?r\<^sup>+" using xx sub trancl_mono_subset by blast
    ultimately show False using none by blast
  qed
  then have wf: "wf (?R\<inverse>)" using finite_acyclic_wf_converse [OF finR] by blast
  have "(i, x) \<in> ?r\<^sup>* \<longrightarrow> grounded par x" for x
  proof (rule wf_induct_rule [OF wf, of "\<lambda>x. (i, x) \<in> ?r\<^sup>* \<longrightarrow> grounded par x"], rule impI)
    fix x
    assume IH: "\<And>y. (y, x) \<in> ?R\<inverse> \<Longrightarrow> (i, y) \<in> ?r\<^sup>* \<longrightarrow> grounded par y" and ix: "(i, x) \<in> ?r\<^sup>*"
    show "grounded par x"
    proof (cases "par x")
      case None
      then show ?thesis by (rule grounded.root)
    next
      case (Some y)
      then have "(i, y) \<in> ?r\<^sup>*" using ix by (auto intro: rtrancl_into_rtrancl)
      then have "grounded par y" using IH [of y] Some ix by simp
      then show ?thesis using Some by (rule grounded.child [rotated])
    qed
  qed
  then show ?thesis by blast
qed

section \<open>The causal order as a specification\<close>

text \<open>An identity lies on a causal cycle or below one.\<close>

definition below_cycle :: "event_envelope list \<Rightarrow> string \<Rightarrow> bool" where
  "below_cycle es i \<longleftrightarrow>
     (\<exists>c. (i, c) \<in> (parent_rel (parents_of es))\<^sup>* \<and> (c, c) \<in> (parent_rel (parents_of es))\<^sup>+)"

lemma grounded_below_cycle:
  assumes "distinct (ids_of es)" and "[] \<notin> set (ids_of es)"
  shows "grounded (parent_map es) i \<longleftrightarrow> \<not> below_cycle es i"
proof -
  have rel: "parent_rel (parents_of es) = {(a, b). parent_map es a = Some b}"
    by (simp add: parent_rel_def map_of_parents_of [OF assms])
  have "{x. parent_map es x \<noteq> None} = dom (map_of (parents_of es))"
    by (simp add: map_of_parents_of [OF assms] dom_def)
  then have "finite {x. parent_map es x \<noteq> None}" using finite_dom_map_of by metis
  then show ?thesis
    using grounded_no_cycle no_cycle_grounded unfolding below_cycle_def rel by blast
qed

lemma causal_order_cyclic:
  assumes d: "distinct (ids_of es)" and ne: "[] \<notin> set (ids_of es)"
  shows "set (cyclic_ids (causal_order es key)) = {i \<in> set (ids_of es). below_cycle es i}"
proof -
  obtain acc dg where res: "topo (sc_children (scan es)) (key_of key es) (sc_degree (scan es))
      (initial_ready key es) [] = (acc, dg)" by fastforce
  show ?thesis
    using topo_result(5) [OF d res] grounded_below_cycle [OF d ne]
    by (simp add: causal_order_def res Let_def)
qed

lemma causal_order_acyclic:
  assumes d: "distinct (ids_of es)" and ne: "[] \<notin> set (ids_of es)"
    and ac: "cyclic_ids (causal_order es key) = []"
  shows "mset (ordered_events (causal_order es key)) = mset es"
    and "ordered_events (causal_order es key) = xs @ e # ys \<Longrightarrow> in_parent es e = Some p \<Longrightarrow>
      p \<in> set (ids_of xs)"
proof -
  obtain acc dg where res: "topo (sc_children (scan es)) (key_of key es) (sc_degree (scan es))
      (initial_ready key es) [] = (acc, dg)" by fastforce
  let ?ev = "\<lambda>i. the (map_of (by_id es) i)"
  have ord: "ordered_events (causal_order es key) = map ?ev acc"
    using ac by (simp add: causal_order_def res Let_def split: if_splits)
  have "sort [i. (i, n) \<leftarrow> dg, n \<noteq> 0] = []"
    using ac by (simp add: causal_order_def res Let_def)
  then have "set [i. (i, n) \<leftarrow> dg, n \<noteq> 0] = {}" by (metis set_sort set_empty)
  then have "{x \<in> set (ids_of es). \<not> grounded (parent_map es) x} = {}"
    by (simp only: topo_result(5) [OF d res])
  then have setacc: "set acc = set (ids_of es)" using topo_result(2) [OF d res] by auto
  have ev: "?ev (event_id e) = e" if "e \<in> set es" for e
    using map_of_by_id [OF d that] by simp
  have idev: "event_id (?ev i) = i" "?ev i \<in> set es" if "i \<in> set acc" for i
    using that setacc ev by auto
  have "distinct (map ?ev acc)"
    using topo_result(1) [OF d res] idev by (auto simp: distinct_map intro!: inj_onI) metis
  moreover have "set (map ?ev acc) = set es" using setacc ev by force
  moreover have "distinct es" using d by (simp add: distinct_map)
  ultimately show "mset (ordered_events (causal_order es key)) = mset es"
    unfolding ord using set_eq_iff_mset_eq_distinct by blast
  show "p \<in> set (ids_of xs)"
    if o: "ordered_events (causal_order es key) = xs @ e # ys" and p: "in_parent es e = Some p"
  proof -
    obtain us i vs where us: "acc = us @ i # vs" "xs = map ?ev us" "e = ?ev i"
      using o by (auto simp: ord map_eq_append_conv map_eq_Cons_conv)
    then have e: "event_id e = i" "e \<in> set es" using idev [of i] by auto
    then have "parent_map es i = Some p" using parent_map_event [OF d e(2)] p by simp
    then have "p \<in> set us" using topo_result(3) [OF d res] us(1) by blast
    moreover have "ids_of xs = us" using us idev by (auto simp: map_idI)
    ultimately show ?thesis by simp
  qed
qed


section \<open>Independence of the order of arrival\<close>

lemma fold_heappush_perm:
  "mset cs = mset cs' \<Longrightarrow>
    fold (\<lambda>c. heappush (kof c, c)) cs q = fold (\<lambda>c. heappush (kof c, c)) cs' q"
  by (rule fun_cong [OF fold_multiset_equiv]) (auto simp: fun_eq_iff heappush_left_commute)

lemma topo_perm:
  fixes ready :: "('k::linorder \<times> string) list"
  shows "topo_inv I par dg ready acc \<Longrightarrow> topo_inv I par dg2 ready acc \<Longrightarrow>
    children_of I par ch \<Longrightarrow> children_of I par ch' \<Longrightarrow>
    fst (topo ch kof dg ready acc) = fst (topo ch' kof dg2 ready acc)"
proof (induction ch kof dg ready acc arbitrary: dg2 rule: topo.induct)
  case (1 ch kof dg ready acc)
  show ?case
  proof (cases ready)
    case Nil
    then show ?thesis by (simp add: topo.simps)
  next
    case (Cons it q)
    obtain k i where it: "it = (k, i)" by (cases it)
    let ?cs = "dget [] ch i" and ?cs' = "dget [] ch' i"
    note st = topo_inv_step [OF "1.prems"(1) [unfolded Cons it] "1.prems"(3) refl]
    note st' = topo_inv_step [OF "1.prems"(2) [unfolded Cons it] "1.prems"(4) refl]
    have "i \<in> I" using "1.prems"(1) by (auto simp: topo_inv_def Cons it)
    then have "mset ?cs = mset ?cs'"
      using "1.prems"(3,4) by (simp add: children_of_def set_eq_iff_mset_eq_distinct [symmetric])
    then have q: "fold (\<lambda>c. heappush (kof c, c)) ?cs q = fold (\<lambda>c. heappush (kof c, c)) ?cs' q"
      by (rule fold_heappush_perm)
    have inv1: "topo_inv I par (fold (\<lambda>c. dput c 0) ?cs dg)
        (fold (\<lambda>c. heappush (kof c, c)) ?cs' q) (acc @ [i])"
      using st(2) [of kof] by (simp only: q)
    have inv2: "topo_inv I par (fold (\<lambda>c. dput c 0) ?cs' dg2)
        (fold (\<lambda>c. heappush (kof c, c)) ?cs' q) (acc @ [i])"
      by (rule st'(2))
    have "fst (topo ch kof dg ready acc) =
        fst (topo ch kof (fold (\<lambda>c. dput c 0) ?cs dg) (fold (\<lambda>c. heappush (kof c, c)) ?cs q) (acc @ [i]))"
      by (subst topo.simps) (simp add: Cons it Let_def st(1))
    also have "\<dots> = fst (topo ch' kof (fold (\<lambda>c. dput c 0) ?cs' dg2)
        (fold (\<lambda>c. heappush (kof c, c)) ?cs q) (acc @ [i]))"
      using "1.IH" [of "(it, q)" it q "relax kof ?cs (dg, q)" "fold (\<lambda>c. dput c 0) ?cs' dg2"]
        inv1 inv2 "1.prems"(3,4) by (simp add: Cons it st(1) q)
    also have "\<dots> = fst (topo ch' kof dg2 ready acc)"
      by (subst (2) topo.simps) (simp add: Cons it Let_def st'(1) q)
    finally show ?thesis .
  qed
qed

lemma in_parent_perm: "set es = set es' \<Longrightarrow> in_parent es = in_parent es'"
proof
  fix e
  assume "set es = set es'"
  then have "set (ids_of es) = set (ids_of es')" by simp
  then show "in_parent es e = in_parent es' e" by (simp only: in_parent_def)
qed

lemma perm_distinct_ids:
  assumes "distinct (ids_of es)" and "mset es = mset es'"
  shows "set es = set es'" and "distinct (ids_of es')"
  using assms by (auto dest: mset_eq_setD) (metis mset_eq_imp_distinct_iff mset_map)

lemma parent_map_perm:
  assumes "distinct (ids_of es)" and "mset es = mset es'"
  shows "parent_map es = parent_map es'"
proof
  fix i
  note s = perm_distinct_ids(1) [OF assms] and d' = perm_distinct_ids(2) [OF assms]
  have inp: "in_parent es e = in_parent es' e" for e by (simp only: in_parent_perm [OF s])
  show "parent_map es i = parent_map es' i"
  proof (cases "i \<in> set (ids_of es)")
    case True
    then obtain e where "e \<in> set es" "i = event_id e" by auto
    then show ?thesis using parent_map_event [OF assms(1)] parent_map_event [OF d'] s inp by simp
  next
    case False
    then have "List.find (\<lambda>e. event_id e = i) es = None" "List.find (\<lambda>e. event_id e = i) es' = None"
      using s by (auto simp: find_None_iff)
    then show ?thesis by (simp add: parent_map_def)
  qed
qed

lemma map_of_by_id_perm:
  assumes "distinct (ids_of es)" and "mset es = mset es'"
  shows "map_of (by_id es) = map_of (by_id es')"
proof
  fix i
  note s = perm_distinct_ids(1) [OF assms] and d' = perm_distinct_ids(2) [OF assms]
  show "map_of (by_id es) i = map_of (by_id es') i"
  proof (cases "i \<in> set (ids_of es)")
    case True
    then show ?thesis using map_of_by_id [OF assms(1)] map_of_by_id [OF d'] s by auto
  next
    case False
    then show ?thesis using s map_of_by_id_None [of es i] map_of_by_id_None [of es' i] by simp
  qed
qed

lemma set_initial_ready:
  assumes "distinct (ids_of es)"
  shows "set (initial_ready key es) =
    (\<lambda>i. (key_of key es i, i)) ` {x \<in> set (ids_of es). parent_map es x = None}"
proof -
  have "set (initial_ready key es) \<subseteq> range (\<lambda>i. (key_of key es i, i))"
    by (auto simp: initial_ready_def heapify_def)
  then have "set (initial_ready key es) = (\<lambda>i. (key_of key es i, i)) ` snd ` set (initial_ready key es)"
    by force
  then show ?thesis by (simp only: initial_ready_items(1) [OF assms])
qed

lemma initial_ready_perm:
  assumes d: "distinct (ids_of es)" and m: "mset es = mset es'"
  shows "initial_ready key es = initial_ready key es'" and "key_of key es = key_of key es'"
proof -
  note s = perm_distinct_ids(1) [OF d m] and d' = perm_distinct_ids(2) [OF d m]
  have I: "set (ids_of es') = set (ids_of es)" by (simp add: s)
  show kof: "key_of key es = key_of key es'"
    by (simp add: key_of_def map_of_by_id_perm [OF d m] fun_eq_iff)
  show "initial_ready key es = initial_ready key es'"
  proof (rule sorted_distinct_set_unique)
    show "set (initial_ready key es) = set (initial_ready key es')"
      by (simp only: set_initial_ready [OF d] set_initial_ready [OF d'] parent_map_perm [OF d m] kof I)
    show "distinct (initial_ready key es)" "distinct (initial_ready key es')"
      using initial_ready_items(2) [OF d, of key] initial_ready_items(2) [OF d', of key]
      by (simp_all add: distinct_map)
    show "sorted (initial_ready key es)" "sorted (initial_ready key es')"
      by (simp_all add: initial_ready_def heapify_def)
  qed
qed

abbreviation topo_run ::
  "(event_envelope \<Rightarrow> 'k::linorder) \<Rightarrow> event_envelope list \<Rightarrow> string list \<times> (string \<times> int) list" where
  "topo_run key es \<equiv>
    topo (sc_children (scan es)) (key_of key es) (sc_degree (scan es)) (initial_ready key es) []"

lemma topo_run_perm:
  assumes d: "distinct (ids_of es)" and m: "mset es = mset es'"
  shows "fst (topo_run key es) = fst (topo_run key es')"
proof -
  note s = perm_distinct_ids(1) [OF d m] and d' = perm_distinct_ids(2) [OF d m]
  have I: "set (ids_of es') = set (ids_of es)" by (simp add: s)
  note par = parent_map_perm [OF d m, symmetric] and ready = initial_ready_perm [OF d m, of key]
  show ?thesis
    unfolding ready
    by (rule topo_perm [OF topo_inv_init [OF d, of key, unfolded ready]
          topo_inv_init [OF d', of key, unfolded par I] scan_children_of [OF d]
          scan_children_of [OF d', unfolded par I]])
qed

abbreviation blocked :: "(string \<times> int) list \<Rightarrow> string list" where
  "blocked dg \<equiv> [i. (i, n) \<leftarrow> dg, n \<noteq> 0]"

lemma blocked_alt: "blocked dg = map fst (filter (\<lambda>(i, n). n \<noteq> 0) dg)"
  by (induction dg) auto

lemma blocked_topo:
  assumes "distinct (ids_of es)"
  shows "set (blocked (snd (topo_run key es))) = {i \<in> set (ids_of es). \<not> grounded (parent_map es) i}"
    and "distinct (blocked (snd (topo_run key es)))"
proof -
  show "set (blocked (snd (topo_run key es))) = {i \<in> set (ids_of es). \<not> grounded (parent_map es) i}"
    by (rule topo_result(5) [OF assms]) (rule prod.collapse [symmetric])
  show "distinct (blocked (snd (topo_run key es)))"
    unfolding blocked_alt
    using topo_result(4) [OF assms prod.collapse [symmetric], of "key_of key es" key] assms
    by (metis distinct_map_filter)
qed

lemma blocked_perm:
  assumes d: "distinct (ids_of es)" and m: "mset es = mset es'"
  shows "sort (blocked (snd (topo_run key es))) = sort (blocked (snd (topo_run key es')))"
proof -
  note s = perm_distinct_ids(1) [OF d m] and d' = perm_distinct_ids(2) [OF d m]
  have I: "set (ids_of es') = set (ids_of es)" by (simp add: s)
  show ?thesis
    by (rule sorted_distinct_set_unique) (simp_all only: set_sort distinct_sort sorted_sort
        blocked_topo [OF d] blocked_topo [OF d'] parent_map_perm [OF d m] I)
qed

lemma causal_order_perm:
  fixes key :: "event_envelope \<Rightarrow> 'k::linorder"
  assumes d: "distinct (ids_of es)" and m: "mset es = mset es'" and inj: "inj_on key (set es)"
  shows "ordered_events (causal_order es key) = ordered_events (causal_order es' key)"
    and "missing_ids (causal_order es key) = missing_ids (causal_order es' key)"
    and "cyclic_ids (causal_order es key) = cyclic_ids (causal_order es' key)"
    and "clock_conflict_ids (causal_order es key) = clock_conflict_ids (causal_order es' key)"
proof -
  note s = perm_distinct_ids(1) [OF d m] and d' = perm_distinct_ids(2) [OF d m]
  note cyc = blocked_perm [OF d m, of key]
  then show "cyclic_ids (causal_order es key) = cyclic_ids (causal_order es' key)"
    by (simp only: causal_order_def Let_def evidence_order.simps)
  have sk: "sort_key key es = sort_key key es'"
    using m inj by (intro sort_key_inj_key_eq) simp_all
  show "ordered_events (causal_order es key) = ordered_events (causal_order es' key)"
    by (simp only: causal_order_def Let_def evidence_order.simps cyc sk topo_run_perm [OF d m]
        map_of_by_id_perm [OF d m])
  show "missing_ids (causal_order es key) = missing_ids (causal_order es' key)"
    by (auto simp: causal_order_def Let_def scan_def scan_fold_missing scan_init_def s
        intro!: sorted_set_cong)
  have "skew_pair es = skew_pair es'"
    by (simp add: fun_eq_iff skew_pair_def in_parent_perm [OF s] s)
  then show "clock_conflict_ids (causal_order es key) = clock_conflict_ids (causal_order es' key)"
    by (auto simp: causal_order_def Let_def scan_def scan_fold_skewed [OF d] scan_fold_skewed [OF d']
        scan_init_def s intro!: sorted_set_cong)
qed

section \<open>Properties\<close>

text \<open>A small order in which the effect is stamped before its cause, for the witnesses.\<close>

definition sample_event :: "string \<Rightarrow> event_type \<Rightarrow> int \<Rightarrow> string option \<Rightarrow> event_envelope" where
  "sample_event i ty t cause = \<lparr>event_id = i, aggregate_id = ''o'', event_type = ty,
     occurred_at = \<lparr>instant = t, utc_offset = 0\<rparr>, received_at = \<lparr>instant = t, utc_offset = 0\<rparr>,
     correlation_id = None, causation_id = cause, schema_version = 1, payload = []\<rparr>"

definition sample_chain :: "event_envelope list" where
  "sample_chain = [sample_event ''b'' SettlementPosted 1 (Some ''a''), sample_event ''a'' PaymentAuthorized 2 None]"

definition sample_key :: "event_envelope \<Rightarrow> int" where
  "sample_key e = instant (occurred_at e)"

text \<open>C4. Without a causal cycle the order returns exactly the supplied events, each one
  after the event that caused it, whatever key breaks the ties.\<close>

theorem causal_order_topological:
  assumes "distinct (ids_of es)" and "[] \<notin> set (ids_of es)"
    and "cyclic_ids (causal_order es key) = []"
  shows "mset (ordered_events (causal_order es key)) = mset es \<and>
    (\<forall>xs e ys p. ordered_events (causal_order es key) = xs @ e # ys \<and> in_parent es e = Some p \<longrightarrow>
      p \<in> set (ids_of xs))"
  using causal_order_acyclic [OF assms] by blast

theorem causal_order_topological_witness:
  "distinct (ids_of sample_chain) \<and> cyclic_ids (causal_order sample_chain sample_key) = [] \<and>
   in_parent sample_chain (sample_event ''b'' SettlementPosted 1 (Some ''a'')) = Some ''a'' \<and>
   mset (ordered_events (causal_order sample_chain sample_key)) = mset sample_chain"
proof -
  have h: "distinct (ids_of sample_chain)" "[] \<notin> set (ids_of sample_chain)"
    "cyclic_ids (causal_order sample_chain sample_key) = []"
    by code_simp+
  moreover have "in_parent sample_chain (sample_event ''b'' SettlementPosted 1 (Some ''a'')) = Some ''a''"
    by code_simp
  ultimately show ?thesis using causal_order_topological [OF h] by blast
qed

text \<open>The reported cyclic identities are exactly the supplied events that lie on a cycle of
  causes or are caused, through any number of steps, by one that does.\<close>

theorem causal_order_cycles:
  assumes "distinct (ids_of es)" and "[] \<notin> set (ids_of es)"
  shows "sorted (cyclic_ids (causal_order es key)) \<and>
    set (cyclic_ids (causal_order es key)) = {i \<in> set (ids_of es). below_cycle es i}"
  using causal_order_cyclic [OF assms] by (simp add: causal_order_def Let_def)

theorem causal_order_cycles_witness:
  "distinct (ids_of sample_chain) \<and> [] \<notin> set (ids_of sample_chain) \<and>
   sorted (cyclic_ids (causal_order sample_chain sample_key)) \<and>
   set (cyclic_ids (causal_order sample_chain sample_key)) = {i \<in> set (ids_of sample_chain). below_cycle sample_chain i}"
  using causal_order_cycles [of sample_chain sample_key] by (simp add: sample_chain_def sample_event_def)

text \<open>C5. The result does not depend on the order in which the evidence arrived, when the key
  tells the events apart.\<close>

theorem causal_order_arrival_independent:
  assumes "distinct (ids_of es)" and "mset es = mset es'" and "inj_on key (set es)"
  shows "ordered_events (causal_order es key) = ordered_events (causal_order es' key) \<and>
    missing_ids (causal_order es key) = missing_ids (causal_order es' key) \<and>
    cyclic_ids (causal_order es key) = cyclic_ids (causal_order es' key) \<and>
    clock_conflict_ids (causal_order es key) = clock_conflict_ids (causal_order es' key)"
  using causal_order_perm [OF assms] by blast

theorem causal_order_arrival_independent_witness:
  "inj_on sample_key (set sample_chain) \<and>
   ordered_events (causal_order sample_chain sample_key) = ordered_events (causal_order (rev sample_chain) sample_key)"
proof -
  have "inj_on sample_key (set sample_chain)" 
    by (simp add: sample_chain_def sample_event_def sample_key_def)
  moreover have "distinct (ids_of sample_chain)" by (simp add: sample_chain_def sample_event_def)
  ultimately show ?thesis using causal_order_arrival_independent [of sample_chain "rev sample_chain" sample_key] by simp
qed

text \<open>C6. The walk along the parents ends on every dictionary, cyclic ones included, and answers
  whether the first event is a proper ancestor of the second.\<close>

theorem precedes_is_ancestor:
  "precedes ps a d \<longleftrightarrow> (d, a) \<in> (parent_rel ps)\<^sup>+"
  by (rule precedes_ancestor)

end
