(* ===== verification/Financial_Scope.thy ===== *)
theory Financial_Scope
  imports Evidence_Order
begin

text \<open>
  Evidence-bound planning of financial repairs (\<^verbatim>\<open>services/reconciler/app/financial_scope.py\<close>):
  the accounting amount of a JSON value, the open balance of every posting, and the reversals
  a full or a partial cancellation allows. A \<open>ValueError\<close> is its message; blockers are
  the strings of the code.
\<close>

section \<open>Amounts, units and targets\<close>

definition POSTING_RULES :: "(event_type \<times> event_type \<times> repair_type \<times> unit_code) list" where
  "POSTING_RULES =
    [(SettlementPosted, SettlementReversed, REVERSE_SETTLEMENT, KRW),
     (RewardGranted, RewardReversed, REVERSE_REWARD, PTS)]"

text \<open>A finite decimal \<open>c * 10 ^ e\<close>: its value, and its integer value when it has one.\<close>

definition decimal_value :: "int \<Rightarrow> int \<Rightarrow> rat" where
  "decimal_value c e = (if 0 \<le> e then of_int (c * 10 ^ nat e) else of_int c / 10 ^ nat (- e))"

definition to_integral :: "int \<Rightarrow> int \<Rightarrow> int option" where
  "to_integral c e =
    (if 0 \<le> e then Some (c * 10 ^ nat e)
     else if c mod 10 ^ nat (- e) = 0 then Some (c div 10 ^ nat (- e)) else None)"

definition accounting_amount :: "json \<Rightarrow> string + int" where
  "accounting_amount v =
    (if v = JNull \<or> (\<exists>b \<in> {True, False}. v = JBool b) \<or> length (py_str v) > 60
     then Inl ''amount must be a positive integral accounting quantity''
     else (case parse_decimal (py_str v) of None \<Rightarrow> Inl ''invalid accounting amount''
       | Some NonFinite \<Rightarrow> Inl ''accounting amount is outside supported bounds''
       | Some (Finite c e) \<Rightarrow>
           if \<not> (0 < decimal_value c e \<and> decimal_value c e \<le> 1000000000000)
           then Inl ''accounting amount is outside supported bounds''
           else (case to_integral c e of None \<Rightarrow> Inl ''fractional accounting quantities are not supported''
             | Some n \<Rightarrow> Inr n)))"

text \<open>\<open>_unit\<close>: a currency or a unit, when given, is the expected one.\<close>

definition unit_ok :: "json_obj \<Rightarrow> unit_code \<Rightarrow> bool" where
  "unit_ok p expected =
    list_all (\<lambda>k. pget p k = JNull \<or> pget p k = JStr (unit_name expected)) [''currency'', ''unit'']"

definition unit_check :: "event_envelope \<Rightarrow> unit_code \<Rightarrow> string + unit_code" where
  "unit_check e expected =
    (if unit_ok (payload e) expected then Inr expected else Inl ''invalid_financial_unit'')"

definition reversal_target :: "event_envelope \<Rightarrow> string option" where
  "reversal_target e =
    (if pget (payload e) ''source_event_id'' \<noteq> JNull
     then Some (py_str (pget (payload e) ''source_event_id'')) else causation_id e)"

section \<open>Open balances\<close>

type_synonym balance = "event_envelope \<times> int \<times> unit_code \<times> repair_type"

definition attribution_blockers :: "string list \<Rightarrow> event_envelope list \<Rightarrow> string list" where
  "attribution_blockers post_ids reversals =
    concat (map (\<lambda>r. case reversal_target r of None \<Rightarrow> [''ambiguous_reversal_attribution'']
       | Some t \<Rightarrow> if t \<notin> set post_ids then [''missing_financial_posting''] else []) reversals)"

text \<open>One reversal of a posting of the given amount and unit.\<close>

definition reversal_amount :: "int \<Rightarrow> unit_code \<Rightarrow> event_envelope \<Rightarrow> string + int" where
  "reversal_amount amt u r =
    (case unit_check r u of Inl msg \<Rightarrow> Inl msg
     | Inr _ \<Rightarrow> if pget (payload r) ''amount'' = JNull then Inr amt
                else accounting_amount (pget (payload r) ''amount''))"

fun reversed_so_far :: "int \<Rightarrow> unit_code \<Rightarrow> event_envelope list \<Rightarrow> int \<times> string list \<Rightarrow> int \<times> string list" where
  "reversed_so_far amt u [] st = st"
| "reversed_so_far amt u (r # rs) (tot, bs) =
    (case reversal_amount amt u r of
       Inl msg \<Rightarrow> reversed_so_far amt u rs
         (tot, bs @ [if msg = ''invalid_financial_unit'' then ''invalid_reversal_unit''
                       else ''ambiguous_reversal_attribution''])
     | Inr n \<Rightarrow> reversed_so_far amt u rs (tot + n, bs))"

definition order_accrual :: "event_type \<Rightarrow> event_envelope \<Rightarrow> bool" where
  "order_accrual posting_type post =
    (posting_type = RewardGranted \<longrightarrow>
      dget (JStr ''order_reward'') (payload post) ''source'' \<in> {JStr ''order_reward'', JStr ''order_purchase''})"

definition post_step ::
  "event_type \<times> event_type \<times> repair_type \<times> unit_code \<Rightarrow> event_envelope list \<Rightarrow> event_envelope \<Rightarrow>
    (string \<times> balance) list \<times> string list \<Rightarrow> (string \<times> balance) list \<times> string list" where
  "post_step rule reversals post st =
    (case rule of (posting_type, _, rep, u0) \<Rightarrow> case st of (balances, bs) \<Rightarrow>
     (case accounting_amount (pget (payload post) ''amount'') of
        Inl _ \<Rightarrow> (balances, bs @ [''invalid_financial_amount''])
      | Inr amt \<Rightarrow>
        (case unit_check post u0 of
           Inl _ \<Rightarrow> (balances, bs @ [''invalid_financial_unit''])
         | Inr u \<Rightarrow>
           if \<not> order_accrual posting_type post then (balances, bs)
           else
             (case reversed_so_far amt u (filter (\<lambda>r. reversal_target r = Some (event_id post)) reversals)
                 (0, bs) of (tot, bs') \<Rightarrow>
                if tot > amt then (balances, bs' @ [''financial_over_reversal''])
                else (dput (event_id post) (post, amt - tot, u, rep) balances, bs')))))"

definition rule_step ::
  "event_envelope list \<Rightarrow> event_type \<times> event_type \<times> repair_type \<times> unit_code \<Rightarrow>
    (string \<times> balance) list \<times> string list \<Rightarrow> (string \<times> balance) list \<times> string list" where
  "rule_step events rule st =
    (case rule of (posting_type, reverse_type, _, _) \<Rightarrow>
       (let posts = filter (\<lambda>e. event_type e = posting_type) events;
            reversals = filter (\<lambda>e. event_type e = reverse_type) events
        in fold (post_step rule reversals) posts
             (fst st, snd st @ attribution_blockers (map event_id posts) reversals)))"

definition posting_balances :: "event_envelope list \<Rightarrow> (string \<times> balance) list \<times> string list" where
  "posting_balances events =
    (case fold (rule_step events) POSTING_RULES ([], []) of (balances, bs) \<Rightarrow> (balances, fromkeys bs))"

section \<open>The planner\<close>

definition is_cancel :: "event_envelope \<Rightarrow> bool" where
  "is_cancel e \<longleftrightarrow> event_type e \<in> {CommitmentCancelled, PartialCancellationApplied}"

definition scope_text :: "string \<Rightarrow> event_envelope \<Rightarrow> string" where
  "scope_text dflt cancel = str_upper (py_str (dget (JStr dflt) (payload cancel) ''scope''))"

definition partial_hints :: "event_envelope \<Rightarrow> bool" where
  "partial_hints cancel \<longleftrightarrow>
     scope_text ''FULL'' cancel \<noteq> ''FULL''
     \<or> pget (payload cancel) ''partial'' = JBool True
     \<or> pget (payload cancel) ''partial_refund'' = JBool True
     \<or> truthy (pget (payload cancel) ''items'')
     \<or> truthy (pget (payload cancel) ''line_items'')"

definition action_for :: "event_envelope \<Rightarrow> string \<Rightarrow> repair_type \<Rightarrow> int \<Rightarrow> unit_code \<Rightarrow> financial_repair_action" where
  "action_for cancel target rep n u =
    \<lparr>cancellation_event_id = event_id cancel, target_event_id = target, repair = rep, amount = n, unit = u\<rparr>"

definition full_actions :: "event_envelope \<Rightarrow> (string \<times> balance) list \<Rightarrow> financial_repair_action list" where
  "full_actions cancel balances =
    map (\<lambda>(target, (_, remaining, u, rep)). action_for cancel target rep remaining u)
      (filter (\<lambda>(_, (_, remaining, _, _)). 0 < remaining) (sort_key fst balances))"

definition allocation_rows :: "event_envelope \<Rightarrow> string + json list" where
  "allocation_rows cancel =
    (case pget (payload cancel) ''allocations'' of
       JList (r # rs) \<Rightarrow> Inr (r # rs)
     | _ \<Rightarrow> Inl ''partial_cancellation_allocation_required'')"

definition reverse_type_of :: "repair_type \<Rightarrow> event_type" where
  "reverse_type_of rep = (if rep = REVERSE_SETTLEMENT then SettlementReversed else RewardReversed)"

text \<open>What earlier reversals already applied to this target for this cancellation.\<close>

fun already_for_cancel ::
  "event_envelope \<Rightarrow> string \<Rightarrow> repair_type \<Rightarrow> int \<Rightarrow> event_envelope list \<Rightarrow> int \<times> string list \<Rightarrow> int \<times> string list" where
  "already_for_cancel cancel target rep amt [] st = st"
| "already_for_cancel cancel target rep amt (r # rs) (tot, bs) =
    (if event_type r \<noteq> reverse_type_of rep
        \<or> reversal_target r \<noteq> Some target
        \<or> pget (payload r) ''cancellation_event_id'' \<noteq> JStr (event_id cancel)
     then already_for_cancel cancel target rep amt rs (tot, bs)
     else if has_key (payload r) ''amount'' then
       (case accounting_amount (pget (payload r) ''amount'') of
          Inl _ \<Rightarrow> already_for_cancel cancel target rep amt rs (tot, bs @ [''ambiguous_reversal_attribution''])
        | Inr n \<Rightarrow> already_for_cancel cancel target rep amt rs (tot + n, bs))
     else already_for_cancel cancel target rep amt rs (tot + amt, bs))"

record alloc_state =
  al_seen :: "string list"
  al_krw :: int
  al_pts :: int
  al_actions :: "financial_repair_action list"
  al_blockers :: "string list"

definition block :: "string \<Rightarrow> alloc_state \<Rightarrow> alloc_state" where
  "block reason st = st\<lparr>al_blockers := al_blockers st @ [reason]\<rparr>"

definition add_total :: "unit_code \<Rightarrow> int \<Rightarrow> alloc_state \<Rightarrow> alloc_state" where
  "add_total u n st =
    (if u = KRW then st\<lparr>al_krw := al_krw st + n\<rparr> else st\<lparr>al_pts := al_pts st + n\<rparr>)"

definition alloc_balance ::
  "event_envelope list \<Rightarrow> event_envelope \<Rightarrow> json_obj \<Rightarrow> string \<Rightarrow> balance \<Rightarrow> alloc_state \<Rightarrow> alloc_state" where
  "alloc_balance events cancel row target bal st =
    (case bal of (_, remaining, expected, rep) \<Rightarrow>
     (case accounting_amount (pget row ''amount'') of
        Inl _ \<Rightarrow> block ''invalid_partial_allocation'' st
      | Inr amt \<Rightarrow>
        if pget row ''unit'' \<noteq> JStr (unit_name expected) then block ''invalid_partial_allocation_unit'' st
        else
          (case already_for_cancel cancel target rep amt events (0, al_blockers st) of (already, bs) \<Rightarrow>
             (let st1 = st\<lparr>al_blockers := bs\<rparr>; outstanding = amt - already in
              if outstanding < 0 then block ''partial_allocation_over_reversed'' st1
              else if outstanding = 0 then add_total expected amt st1
              else if outstanding > remaining then block ''partial_allocation_exceeds_open_balance'' st1
              else add_total expected amt
                (st1\<lparr>al_actions := al_actions st1 @ [action_for cancel target rep outstanding expected]\<rparr>)))))"

definition alloc_step ::
  "event_envelope list \<Rightarrow> event_envelope \<Rightarrow> (string \<times> balance) list \<Rightarrow> json \<Rightarrow> alloc_state \<Rightarrow> alloc_state" where
  "alloc_step events cancel balances row st =
    (case row of
       JObj obj \<Rightarrow>
         (let target = py_str (dget (JStr []) obj ''target_event_id'') in
          if target = [] \<or> target \<in> set (al_seen st) then block ''invalid_partial_allocation'' st
          else
            (let st1 = st\<lparr>al_seen := target # al_seen st\<rparr> in
             (case map_of balances target of
                None \<Rightarrow> block ''unknown_partial_allocation_target'' st1
              | Some bal \<Rightarrow> alloc_balance events cancel obj target bal st1)))
     | _ \<Rightarrow> block ''invalid_partial_allocation'' st)"

definition total_check :: "json_obj \<Rightarrow> string \<Rightarrow> int \<Rightarrow> string \<Rightarrow> string \<Rightarrow> string list" where
  "total_check p key tot mismatch invalid =
    (if has_key p key then
       (case accounting_amount (pget p key) of Inl _ \<Rightarrow> [invalid]
        | Inr n \<Rightarrow> if tot \<noteq> n then [mismatch] else [])
     else [])"

definition partial_plan ::
  "event_envelope list \<Rightarrow> event_envelope \<Rightarrow> (string \<times> balance) list \<Rightarrow> json list \<Rightarrow>
    financial_repair_action list \<times> string list" where
  "partial_plan events cancel balances rows =
    (let st = fold (alloc_step events cancel balances) rows
           \<lparr>al_seen = [], al_krw = 0, al_pts = 0, al_actions = [], al_blockers = []\<rparr>;
         bs = al_blockers st
           @ total_check (payload cancel) ''amount'' (al_krw st)
               ''partial_cancellation_amount_mismatch'' ''invalid_partial_cancellation_amount''
           @ total_check (payload cancel) ''reward_points'' (al_pts st)
               ''partial_reward_amount_mismatch'' ''invalid_partial_reward_amount''
     in if bs \<noteq> [] then ([], fromkeys bs) else (al_actions st, []))"

definition plan_for_cancel ::
  "event_envelope list \<Rightarrow> event_envelope \<Rightarrow> (string \<times> balance) list \<Rightarrow>
    financial_repair_action list \<times> string list" where
  "plan_for_cancel events cancel balances =
    (let scope = scope_text (if event_type cancel = PartialCancellationApplied then ''PARTIAL'' else ''FULL'') cancel
     in if event_type cancel = PartialCancellationApplied \<and> scope \<noteq> ''PARTIAL''
        then ([], [''invalid_partial_cancellation_scope''])
        else if scope = ''FULL'' then (full_actions cancel balances, [])
        else if scope \<noteq> ''PARTIAL'' then ([], [''unsupported_cancellation_scope''])
        else (case allocation_rows cancel of Inl msg \<Rightarrow> ([], [msg])
          | Inr rows \<Rightarrow> partial_plan events cancel balances rows))"

definition plan_financial_repairs :: "event_envelope list \<Rightarrow> financial_repair_action list \<times> string list" where
  "plan_financial_repairs events =
    (let schema = (if \<exists>e \<in> set events. schema_version e \<noteq> 1 then [''unsupported_event_schema''] else [])
     in case filter is_cancel events of
          [] \<Rightarrow> ([], schema)
        | [cancel] \<Rightarrow>
            if event_type cancel = CommitmentCancelled \<and> partial_hints cancel
            then ([], [''unsupported_partial_cancellation''])
            else
              (case posting_balances events of (balances, bs) \<Rightarrow>
                 if schema @ bs \<noteq> [] then ([], fromkeys (schema @ bs))
                 else plan_for_cancel events cancel balances)
        | _ \<Rightarrow> ([], fromkeys (schema @ [''multiple_cancellation_facts''])))"

definition scope_blockers :: "event_envelope list \<Rightarrow> string list" where
  "scope_blockers events = snd (plan_financial_repairs events)"


section \<open>Accounting amounts\<close>

lemma decimal_value_to_integral:
  "to_integral c e = Some n \<Longrightarrow> decimal_value c e = of_int n"
proof (cases "0 \<le> e")
  case False
  assume "to_integral c e = Some n"
  then have "c = n * 10 ^ nat (- e)" using False by (auto simp: to_integral_def split: if_splits)
  then show ?thesis using False by (simp add: decimal_value_def)
qed (auto simp: to_integral_def decimal_value_def)

lemma accounting_amount_bounds:
  assumes "accounting_amount v = Inr n"
  shows "0 < n" and "n \<le> 1000000000000"
proof -
  obtain c e where b: "0 < decimal_value c e" "decimal_value c e \<le> 1000000000000"
    and i: "to_integral c e = Some n"
    using assms by (auto simp: accounting_amount_def split: if_splits option.splits decimal.splits)
  have "0 < rat_of_int n" "rat_of_int n \<le> rat_of_int 1000000000000"
    using b decimal_value_to_integral [OF i] by simp_all
  then show "0 < n" and "n \<le> 1000000000000" by (simp_all only: of_int_0_less_iff of_int_le_iff)
qed

lemma accounting_amount_printed:
  assumes "0 < n" and "n \<le> 1000000000000"
  shows "accounting_amount (JStr (str_of_int n)) = Inr n" and "accounting_amount (JInt n) = Inr n"
proof -
  have s: "str_of_int n = str_of_nat (nat n)" using assms by (simp add: str_of_int_def)
  have "nat n < 10 ^ 13" using assms by simp
  then have "length (str_of_nat (nat n)) \<le> 13" by (rule length_str_of_nat) simp
  moreover have "parse_decimal (str_of_nat (nat n)) = Some (Finite n 0)"
    using parse_decimal_digits [OF str_of_nat_not_Nil str_of_nat_digits, of "nat n"] assms by simp
  moreover have "rat_of_int n \<le> rat_of_int 1000000000000" using assms by (simp only: of_int_le_iff)
  ultimately show "accounting_amount (JStr (str_of_int n)) = Inr n" and "accounting_amount (JInt n) = Inr n"
    using assms by (simp_all add: accounting_amount_def s decimal_value_def to_integral_def)
qed

section \<open>What the balance loop computes\<close>

definition rev_value :: "int \<Rightarrow> unit_code \<Rightarrow> event_envelope \<Rightarrow> int" where
  "rev_value amt u r = (case reversal_amount amt u r of Inl _ \<Rightarrow> 0 | Inr n \<Rightarrow> n)"

definition rev_blocker :: "int \<Rightarrow> unit_code \<Rightarrow> event_envelope \<Rightarrow> string list" where
  "rev_blocker amt u r = (case reversal_amount amt u r of
     Inl msg \<Rightarrow> [if msg = ''invalid_financial_unit'' then ''invalid_reversal_unit''
                 else ''ambiguous_reversal_attribution'']
   | Inr _ \<Rightarrow> [])"

lemma reversed_so_far_sum:
  "reversed_so_far amt u rs (t, bs) =
    (t + sum_list (map (rev_value amt u) rs), bs @ concat (map (rev_blocker amt u) rs))"
  by (induction rs arbitrary: t bs) (auto simp: rev_value_def rev_blocker_def split: sum.splits)

abbreviation reversals_of :: "event_envelope list \<Rightarrow> string \<Rightarrow> event_envelope list" where
  "reversals_of rs i \<equiv> filter (\<lambda>r. reversal_target r = Some i) rs"

abbreviation posted_amount :: "event_envelope \<Rightarrow> string + int" where
  "posted_amount p \<equiv> accounting_amount (pget (payload p) ''amount'')"

definition reversed_total :: "int \<Rightarrow> unit_code \<Rightarrow> event_envelope list \<Rightarrow> string \<Rightarrow> int" where
  "reversed_total amt u rs i = sum_list (map (rev_value amt u) (reversals_of rs i))"

definition post_balance ::
  "event_type \<times> event_type \<times> repair_type \<times> unit_code \<Rightarrow> event_envelope list \<Rightarrow> event_envelope \<Rightarrow> balance option" where
  "post_balance rule rs p = (case rule of (pt, rt, rep, u) \<Rightarrow>
     (case posted_amount p of Inl _ \<Rightarrow> None
      | Inr amt \<Rightarrow> if unit_ok (payload p) u \<and> order_accrual pt p \<and> reversed_total amt u rs (event_id p) \<le> amt
          then Some (p, amt - reversed_total amt u rs (event_id p), u, rep) else None))"

lemma post_balance_Some:
  "post_balance (pt, rt, rep, u) rs p = Some (q, n, u', rep') \<longleftrightarrow>
    q = p \<and> u' = u \<and> rep' = rep \<and> unit_ok (payload p) u \<and> order_accrual pt p \<and>
    (\<exists>amt. posted_amount p = Inr amt \<and> reversed_total amt u rs (event_id p) \<le> amt \<and>
      n = amt - reversed_total amt u rs (event_id p))"
  by (cases "posted_amount p") (auto simp: post_balance_def)

definition post_blocker ::
  "event_type \<times> event_type \<times> repair_type \<times> unit_code \<Rightarrow> event_envelope list \<Rightarrow> event_envelope \<Rightarrow> string list" where
  "post_blocker rule rs p = (case rule of (pt, rt, rep, u) \<Rightarrow>
     (case posted_amount p of Inl _ \<Rightarrow> [''invalid_financial_amount'']
      | Inr amt \<Rightarrow> if \<not> unit_ok (payload p) u then [''invalid_financial_unit'']
          else if \<not> order_accrual pt p then []
          else concat (map (rev_blocker amt u) (reversals_of rs (event_id p)))
            @ (if reversed_total amt u rs (event_id p) > amt then [''financial_over_reversal''] else [])))"

lemma post_step_eq:
  "post_step rule rs p (bal, bs) =
    ((case post_balance rule rs p of None \<Rightarrow> bal | Some b \<Rightarrow> dput (event_id p) b bal),
     bs @ post_blocker rule rs p)"
  by (cases rule) (auto simp: post_step_def post_balance_def post_blocker_def unit_check_def
      reversed_so_far_sum reversed_total_def split: sum.splits)

definition balance_entries ::
  "event_type \<times> event_type \<times> repair_type \<times> unit_code \<Rightarrow> event_envelope list \<Rightarrow> event_envelope list \<Rightarrow>
    (string \<times> balance) list" where
  "balance_entries rule rs ps =
    map (\<lambda>p. (event_id p, the (post_balance rule rs p))) (filter (\<lambda>p. post_balance rule rs p \<noteq> None) ps)"

lemma fold_post_step:
  "distinct (map fst bal @ ids_of ps) \<Longrightarrow>
    fold (post_step rule rs) ps (bal, bs) =
      (bal @ balance_entries rule rs ps, bs @ concat (map (post_blocker rule rs) ps))"
proof (induction ps arbitrary: bal bs)
  case (Cons p ps)
  have "fold (post_step rule rs) ps (bal @ balance_entries rule rs [p], bs @ post_blocker rule rs p) =
      ((bal @ balance_entries rule rs [p]) @ balance_entries rule rs ps,
       (bs @ post_blocker rule rs p) @ concat (map (post_blocker rule rs) ps))"
    using Cons.prems by (intro Cons.IH) (auto simp: balance_entries_def)
  moreover have "(case post_balance rule rs p of None \<Rightarrow> bal | Some b \<Rightarrow> dput (event_id p) b bal) =
      bal @ balance_entries rule rs [p]"
    using Cons.prems dput_new [of "event_id p" bal] by (auto simp: balance_entries_def split: option.splits)
  ultimately show ?case by (auto simp: post_step_eq balance_entries_def)
qed (simp add: balance_entries_def)

abbreviation of_type :: "event_type \<Rightarrow> event_envelope list \<Rightarrow> event_envelope list" where
  "of_type ty es \<equiv> filter (\<lambda>e. event_type e = ty) es"

definition rule_entries ::
  "event_type \<times> event_type \<times> repair_type \<times> unit_code \<Rightarrow> event_envelope list \<Rightarrow> (string \<times> balance) list" where
  "rule_entries rule es = (case rule of (pt, rt, _, _) \<Rightarrow> balance_entries rule (of_type rt es) (of_type pt es))"

definition rule_blockers ::
  "event_type \<times> event_type \<times> repair_type \<times> unit_code \<Rightarrow> event_envelope list \<Rightarrow> string list" where
  "rule_blockers rule es = (case rule of (pt, rt, _, _) \<Rightarrow>
     attribution_blockers (ids_of (of_type pt es)) (of_type rt es)
     @ concat (map (post_blocker rule (of_type rt es)) (of_type pt es)))"

lemma rule_step_eq:
  "distinct (map fst bal @ ids_of (of_type (fst rule) es)) \<Longrightarrow>
    rule_step es rule (bal, bs) = (bal @ rule_entries rule es, bs @ rule_blockers rule es)"
  by (cases rule) (simp add: rule_step_def rule_entries_def rule_blockers_def Let_def fold_post_step)

lemma keys_balance_entries: "set (map fst (balance_entries rule rs ps)) \<subseteq> set (ids_of ps)"
  by (auto simp: balance_entries_def)

lemma distinct_balance_entries: "distinct (ids_of ps) \<Longrightarrow> distinct (map fst (balance_entries rule rs ps))"
  by (simp add: balance_entries_def comp_def distinct_map_filter)

lemma posting_balances_eq:
  assumes "distinct (ids_of es)"
  shows "posting_balances es =
    (concat (map (\<lambda>rule. rule_entries rule es) POSTING_RULES),
     fromkeys (concat (map (\<lambda>rule. rule_blockers rule es) POSTING_RULES)))"
    and "distinct (map fst (concat (map (\<lambda>rule. rule_entries rule es) POSTING_RULES)))"
proof -
  let ?S = "(SettlementPosted, SettlementReversed, REVERSE_SETTLEMENT, KRW)"
  let ?W = "(RewardGranted, RewardReversed, REVERSE_REWARD, PTS)"
  have ds: "distinct (ids_of (of_type ty es))" for ty using assms by (rule distinct_map_filter)
  have inj: "inj_on event_id (set es)" using assms by (simp add: distinct_map)
  have disj: "set (ids_of (of_type SettlementPosted es)) \<inter> set (ids_of (of_type RewardGranted es)) = {}"
  proof (rule ccontr)
    assume "\<not> ?thesis"
    then obtain a b where "a \<in> set es" "b \<in> set es" "event_id a = event_id b"
      "event_type a = SettlementPosted" "event_type b = RewardGranted" by auto
    then show False using inj_onD [OF inj, of a b] by simp
  qed
  have k: "set (map fst (rule_entries ?S es)) \<subseteq> set (ids_of (of_type SettlementPosted es))"
    "set (map fst (rule_entries ?W es)) \<subseteq> set (ids_of (of_type RewardGranted es))"
    unfolding rule_entries_def prod.case by (rule keys_balance_entries)+
  have d: "distinct (map fst (rule_entries ?S es))" "distinct (map fst (rule_entries ?W es))"
    unfolding rule_entries_def prod.case by (rule distinct_balance_entries [OF ds])+
  have "rule_step es ?S ([], []) = (rule_entries ?S es, rule_blockers ?S es)"
    using rule_step_eq [of "[]" ?S es "[]"] ds by simp
  moreover have "rule_step es ?W (rule_entries ?S es, rule_blockers ?S es) =
      (rule_entries ?S es @ rule_entries ?W es, rule_blockers ?S es @ rule_blockers ?W es)"
    by (rule rule_step_eq) (simp only: distinct_append fst_conv, use d(1) k(1) disj ds in blast)
  ultimately show "posting_balances es =
    (concat (map (\<lambda>rule. rule_entries rule es) POSTING_RULES),
     fromkeys (concat (map (\<lambda>rule. rule_blockers rule es) POSTING_RULES)))"
    by (simp add: posting_balances_def POSTING_RULES_def)
  show "distinct (map fst (concat (map (\<lambda>rule. rule_entries rule es) POSTING_RULES)))"
    unfolding POSTING_RULES_def using d k disj by (auto simp del: set_map)
qed

lemma distinct_balances: "distinct (ids_of es) \<Longrightarrow> distinct (map fst (fst (posting_balances es)))"
  using posting_balances_eq by simp

lemma rule_entries_Some:
  "(i, b) \<in> set (rule_entries (pt, rt, rep, u) es) \<longleftrightarrow>
    (\<exists>p \<in> set es. event_type p = pt \<and> event_id p = i \<and>
      post_balance (pt, rt, rep, u) (of_type rt es) p = Some b)"
  unfolding rule_entries_def balance_entries_def prod.case
  by (subst set_map_the) auto

text \<open>A balance exactly for the postings of either rule that have one.\<close>

lemma posting_balances_Some:
  assumes d: "distinct (ids_of es)"
  shows "map_of (fst (posting_balances es)) i = Some b \<longleftrightarrow>
    (\<exists>pt rt rep u p. (pt, rt, rep, u) \<in> set POSTING_RULES \<and> p \<in> set es \<and> event_type p = pt \<and>
      event_id p = i \<and> post_balance (pt, rt, rep, u) (of_type rt es) p = Some b)"
proof -
  have "map_of (fst (posting_balances es)) i = Some b \<longleftrightarrow> (i, b) \<in> set (fst (posting_balances es))"
    by (rule map_of_eq_Some_iff [OF distinct_balances [OF d]])
  also have "\<dots> \<longleftrightarrow> (\<exists>rule \<in> set POSTING_RULES. (i, b) \<in> set (rule_entries rule es))"
    by (simp add: posting_balances_eq(1) [OF d])
  also have "\<dots> \<longleftrightarrow> (\<exists>pt rt rep u. (pt, rt, rep, u) \<in> set POSTING_RULES \<and>
      (i, b) \<in> set (rule_entries (pt, rt, rep, u) es))"
    by auto
  also have "\<dots> \<longleftrightarrow> (\<exists>pt rt rep u p. (pt, rt, rep, u) \<in> set POSTING_RULES \<and> p \<in> set es \<and> event_type p = pt \<and>
      event_id p = i \<and> post_balance (pt, rt, rep, u) (of_type rt es) p = Some b)"
    by (simp add: rule_entries_Some) blast
  finally show ?thesis .
qed

lemma no_balance_blockers:
  assumes "distinct (ids_of es)"
  shows "snd (posting_balances es) = [] \<longleftrightarrow> (\<forall>rule \<in> set POSTING_RULES. rule_blockers rule es = [])"
  by (simp add: posting_balances_eq(1) [OF assms])

section \<open>What the allocation loop computes\<close>

definition applies_to :: "event_envelope \<Rightarrow> string \<Rightarrow> repair_type \<Rightarrow> event_envelope \<Rightarrow> bool" where
  "applies_to cancel target rep r \<longleftrightarrow> event_type r = reverse_type_of rep \<and> reversal_target r = Some target
     \<and> pget (payload r) ''cancellation_event_id'' = JStr (event_id cancel)"

definition applied_value :: "int \<Rightarrow> event_envelope \<Rightarrow> int" where
  "applied_value amt r = (if has_key (payload r) ''amount''
     then (case accounting_amount (pget (payload r) ''amount'') of Inl _ \<Rightarrow> 0 | Inr n \<Rightarrow> n) else amt)"

definition applied_clear :: "event_envelope \<Rightarrow> bool" where
  "applied_clear r \<longleftrightarrow> (has_key (payload r) ''amount'' \<longrightarrow> is_ok (accounting_amount (pget (payload r) ''amount'')))"

lemma already_for_cancel_sum:
  "already_for_cancel cancel target rep amt es (t, bs) =
    (t + sum_list (map (applied_value amt) (filter (applies_to cancel target rep) es)),
     bs @ map (\<lambda>_. ''ambiguous_reversal_attribution'')
       (filter (\<lambda>r. \<not> applied_clear r) (filter (applies_to cancel target rep) es)))"
  by (induction es arbitrary: t bs)
    (auto simp: applies_to_def applied_value_def applied_clear_def split: sum.splits)

definition already :: "event_envelope list \<Rightarrow> event_envelope \<Rightarrow> string \<Rightarrow> repair_type \<Rightarrow> int \<Rightarrow> int" where
  "already es cancel target rep amt =
    sum_list (map (applied_value amt) (filter (applies_to cancel target rep) es))"

text \<open>
  What one allocation row contributes: its target, unit and amount, and the part still to be
  reversed. A row that adds a blocker contributes nothing.
\<close>

definition row_target :: "json \<Rightarrow> string" where
  "row_target row = (case row of JObj obj \<Rightarrow> py_str (dget (JStr []) obj ''target_event_id'') | _ \<Rightarrow> [])"

definition row_outcome ::
  "event_envelope list \<Rightarrow> event_envelope \<Rightarrow> (string \<rightharpoonup> balance) \<Rightarrow> json \<Rightarrow> (unit_code \<times> int \<times> repair_type \<times> int) option" where
  "row_outcome es cancel bal row = (case row of JObj obj \<Rightarrow>
     (case bal (row_target row) of None \<Rightarrow> None
      | Some (_, remaining, u, rep) \<Rightarrow>
        (case accounting_amount (pget obj ''amount'') of Inl _ \<Rightarrow> None
         | Inr amt \<Rightarrow>
           (let out = amt - already es cancel (row_target row) rep amt in
            if pget obj ''unit'' = JStr (unit_name u) \<and> 0 \<le> out \<and> out \<le> remaining
              \<and> (\<forall>r \<in> set es. applies_to cancel (row_target row) rep r \<longrightarrow> applied_clear r)
            then Some (u, amt, rep, out) else None))) | _ \<Rightarrow> None)"

definition row_actions :: "event_envelope \<Rightarrow> string \<Rightarrow> unit_code \<times> int \<times> repair_type \<times> int \<Rightarrow> financial_repair_action list" where
  "row_actions cancel target oc = (case oc of (u, amt, rep, out) \<Rightarrow>
     if out = 0 then [] else [action_for cancel target rep out u])"

lemma blockers_simps [simp]:
  "al_blockers (block r st) = al_blockers st @ [r]" "al_blockers (add_total u n st) = al_blockers st"
  "al_seen (add_total u n st) = al_seen st" "al_actions (add_total u n st) = al_actions st"
  by (simp_all add: block_def add_total_def)

lemma alloc_step_grows: "\<exists>bs. al_blockers (alloc_step es cancel bal row st) = al_blockers st @ bs"
proof (cases row)
  case (JObj obj)
  then show ?thesis
    by (auto simp: alloc_step_def alloc_balance_def Let_def already_for_cancel_sum
        split: option.splits sum.splits prod.splits)
qed (simp_all add: alloc_step_def)

lemma fold_alloc_grows: "\<exists>bs. al_blockers (fold (alloc_step es cancel bal) rows st) = al_blockers st @ bs"
proof (induction rows arbitrary: st)
  case (Cons row rows)
  obtain b1 where "al_blockers (alloc_step es cancel bal row st) = al_blockers st @ b1"
    using alloc_step_grows by metis
  then show ?case using Cons [of "alloc_step es cancel bal row st"] by auto
qed simp

definition nonneg_balances :: "(string \<times> balance) list \<Rightarrow> bool" where
  "nonneg_balances bal \<longleftrightarrow> (\<forall>i p n u rep. map_of bal i = Some (p, n, u, rep) \<longrightarrow> 0 \<le> n)"

text \<open>
  A step from a state without blockers. The open balance is not negative, so a row with
  nothing outstanding is never beyond it.
\<close>

lemma alloc_step_ok:
  assumes bs: "al_blockers st = []" and pos: "nonneg_balances bal"
  shows "(al_blockers (alloc_step es cancel bal row st) = [] \<longleftrightarrow>
      row_target row \<noteq> [] \<and> row_target row \<notin> set (al_seen st) \<and> row_outcome es cancel (map_of bal) row \<noteq> None) \<and>
    (al_blockers (alloc_step es cancel bal row st) = [] \<longrightarrow>
      row_outcome es cancel (map_of bal) row = Some (u, amt, rep, out) \<longrightarrow>
      alloc_step es cancel bal row st = add_total u amt
        (st\<lparr>al_seen := row_target row # al_seen st,
            al_actions := al_actions st @ row_actions cancel (row_target row) (u, amt, rep, out)\<rparr>))"
proof (cases row)
  case (JObj obj)
  show ?thesis
  proof (cases "map_of bal (row_target row)")
    case None
    then show ?thesis using JObj bs
      by (simp add: alloc_step_def row_outcome_def row_target_def Let_def)
  next
    case (Some b)
    obtain p n u' rep' where b: "b = (p, n, u', rep')" by (cases b)
    have n: "0 \<le> n" using pos Some b unfolding nonneg_balances_def by blast
    show ?thesis
      using JObj Some b n bs
      by (cases st) (auto simp: alloc_step_def alloc_balance_def row_outcome_def row_target_def Let_def
          already_for_cancel_sum already_def [symmetric] row_actions_def filter_empty_conv
          split: sum.splits)
  qed
qed (use bs in \<open>simp_all add: alloc_step_def row_target_def\<close>)

definition krw_part :: "unit_code \<times> int \<times> repair_type \<times> int \<Rightarrow> int" where
  "krw_part oc = (case oc of (u, amt, _, _) \<Rightarrow> if u = KRW then amt else 0)"

definition pts_part :: "unit_code \<times> int \<times> repair_type \<times> int \<Rightarrow> int" where
  "pts_part oc = (case oc of (u, amt, _, _) \<Rightarrow> if u = KRW then 0 else amt)"

abbreviation outcome_of ::
  "event_envelope list \<Rightarrow> event_envelope \<Rightarrow> (string \<times> balance) list \<Rightarrow> json \<Rightarrow> unit_code \<times> int \<times> repair_type \<times> int" where
  "outcome_of es cancel bal row \<equiv> the (row_outcome es cancel (map_of bal) row)"

definition rows_ok ::
  "event_envelope list \<Rightarrow> event_envelope \<Rightarrow> (string \<times> balance) list \<Rightarrow> string list \<Rightarrow> json list \<Rightarrow> bool" where
  "rows_ok es cancel bal seen rows \<longleftrightarrow>
     distinct (map row_target rows) \<and> [] \<notin> set (map row_target rows)
     \<and> set (map row_target rows) \<inter> set seen = {}
     \<and> (\<forall>row \<in> set rows. row_outcome es cancel (map_of bal) row \<noteq> None)"

lemma fold_alloc_ok:
  assumes pos: "nonneg_balances bal"
  shows "al_blockers st = [] \<Longrightarrow>
    (al_blockers (fold (alloc_step es cancel bal) rows st) = [] \<longleftrightarrow> rows_ok es cancel bal (al_seen st) rows) \<and>
    (rows_ok es cancel bal (al_seen st) rows \<longrightarrow>
      (let st' = fold (alloc_step es cancel bal) rows st in
       al_actions st' = al_actions st @ concat (map (\<lambda>row. row_actions cancel (row_target row) (outcome_of es cancel bal row)) rows)
       \<and> al_krw st' = al_krw st + sum_list (map (krw_part \<circ> outcome_of es cancel bal) rows)
       \<and> al_pts st' = al_pts st + sum_list (map (pts_part \<circ> outcome_of es cancel bal) rows)))"
proof (induction rows arbitrary: st)
  case Nil
  then show ?case by (simp add: rows_ok_def)
next
  case (Cons row rows)
  let ?st1 = "alloc_step es cancel bal row st"
  note step = alloc_step_ok [OF Cons.prems pos, of es cancel row]
  show ?case
  proof (cases "al_blockers ?st1 = []")
    case False
    then have "\<not> rows_ok es cancel bal (al_seen st) (row # rows)" using step by (auto simp: rows_ok_def)
    moreover have "al_blockers (fold (alloc_step es cancel bal) rows ?st1) \<noteq> []"
      using fold_alloc_grows [of es cancel bal rows ?st1] False by auto
    ultimately show ?thesis by simp
  next
    case True
    then obtain u amt rep out where oc: "row_outcome es cancel (map_of bal) row = Some (u, amt, rep, out)"
      and t: "row_target row \<noteq> []" "row_target row \<notin> set (al_seen st)" using step by auto
    have st1: "?st1 = add_total u amt (st\<lparr>al_seen := row_target row # al_seen st,
        al_actions := al_actions st @ row_actions cancel (row_target row) (u, amt, rep, out)\<rparr>)"
      using step True oc by blast
    have "rows_ok es cancel bal (al_seen st) (row # rows) \<longleftrightarrow> rows_ok es cancel bal (al_seen ?st1) rows"
      using t oc by (auto simp: rows_ok_def st1)
    then show ?thesis
      using Cons.IH [OF True] oc
      by (auto simp: Let_def st1 add_total_def krw_part_def pts_part_def)
  qed
qed

section \<open>The plan\<close>

lemma posting_balances_nonneg: "distinct (ids_of es) \<Longrightarrow> nonneg_balances (fst (posting_balances es))"
  unfolding nonneg_balances_def by (auto simp: posting_balances_Some post_balance_Some)

definition partial_totals_ok :: "event_envelope list \<Rightarrow> event_envelope \<Rightarrow> (string \<times> balance) list \<Rightarrow> json list \<Rightarrow> bool" where
  "partial_totals_ok es cancel bal rows \<longleftrightarrow>
     total_check (payload cancel) ''amount'' (sum_list (map (krw_part \<circ> outcome_of es cancel bal) rows))
       ''partial_cancellation_amount_mismatch'' ''invalid_partial_cancellation_amount'' = []
     \<and> total_check (payload cancel) ''reward_points'' (sum_list (map (pts_part \<circ> outcome_of es cancel bal) rows))
       ''partial_reward_amount_mismatch'' ''invalid_partial_reward_amount'' = []"

abbreviation partial_actions ::
  "event_envelope list \<Rightarrow> event_envelope \<Rightarrow> (string \<times> balance) list \<Rightarrow> json list \<Rightarrow> financial_repair_action list" where
  "partial_actions es cancel bal rows \<equiv>
    concat (map (\<lambda>row. row_actions cancel (row_target row) (outcome_of es cancel bal row)) rows)"

lemma partial_plan_ok:
  assumes "nonneg_balances bal"
  shows "partial_plan es cancel bal rows = (acts, []) \<longleftrightarrow>
    rows_ok es cancel bal [] rows \<and> partial_totals_ok es cancel bal rows \<and>
    acts = partial_actions es cancel bal rows"
  using fold_alloc_ok [OF assms, of "\<lparr>al_seen = [], al_krw = 0, al_pts = 0, al_actions = [], al_blockers = []\<rparr>"
      es cancel rows]
  by (auto simp: partial_plan_def partial_totals_ok_def Let_def)

lemma plan_blocked: "plan_financial_repairs es = (acts, bs) \<Longrightarrow> bs \<noteq> [] \<Longrightarrow> acts = []"
  by (auto simp: plan_financial_repairs_def plan_for_cancel_def partial_plan_def Let_def
      split: list.splits if_splits prod.splits sum.splits)

definition cancel_scope :: "event_envelope \<Rightarrow> string" where
  "cancel_scope cancel = scope_text (if event_type cancel = PartialCancellationApplied then ''PARTIAL'' else ''FULL'') cancel"

definition plan_spec :: "event_envelope list \<Rightarrow> event_envelope \<Rightarrow> (string \<times> balance) list \<Rightarrow> financial_repair_action list \<Rightarrow> bool" where
  "plan_spec es cancel bal acts \<longleftrightarrow>
     (event_type cancel \<noteq> PartialCancellationApplied \<and> cancel_scope cancel = ''FULL'' \<and> acts = full_actions cancel bal)
     \<or> (cancel_scope cancel = ''PARTIAL'' \<and> (\<exists>rows. allocation_rows cancel = Inr rows \<and>
          rows_ok es cancel bal [] rows \<and> partial_totals_ok es cancel bal rows \<and>
          acts = partial_actions es cancel bal rows))"

lemma plan_for_cancel_ok:
  "nonneg_balances bal \<Longrightarrow> plan_for_cancel es cancel bal = (acts, []) \<longleftrightarrow> plan_spec es cancel bal acts"
  by (auto simp: plan_for_cancel_def plan_spec_def cancel_scope_def Let_def partial_plan_ok
      split: sum.splits if_splits)

lemma plan_ok:
  assumes "distinct (ids_of es)"
  shows "plan_financial_repairs es = (acts, []) \<longleftrightarrow>
    (\<forall>e \<in> set es. schema_version e = 1) \<and>
    (filter is_cancel es = [] \<and> acts = [] \<or>
     (\<exists>cancel. filter is_cancel es = [cancel] \<and>
        \<not> (event_type cancel = CommitmentCancelled \<and> partial_hints cancel) \<and>
        snd (posting_balances es) = [] \<and> plan_spec es cancel (fst (posting_balances es)) acts))"
  using plan_for_cancel_ok [OF posting_balances_nonneg [OF assms]]
  by (auto simp: plan_financial_repairs_def Let_def split: list.splits prod.splits if_splits)

text \<open>Every action of a plan draws on one open balance, each balance at most once.\<close>

lemma full_actions_within:
  assumes "distinct (map fst bal)"
  shows "a \<in> set (full_actions cancel bal) \<longleftrightarrow>
      (\<exists>p. map_of bal (target_event_id a) = Some (p, amount a, unit a, repair a)) \<and>
      0 < amount a \<and> cancellation_event_id a = event_id cancel"
    and "distinct (map target_event_id (full_actions cancel bal))"
proof -
  have m: "map_of bal i = Some b \<longleftrightarrow> (i, b) \<in> set bal" for i b
    by (rule map_of_eq_Some_iff [OF assms])
  have "a \<in> set (full_actions cancel bal) \<longleftrightarrow>
      (\<exists>i p n u rep. (i, p, n, u, rep) \<in> set bal \<and> 0 < n \<and> a = action_for cancel i rep n u)"
    unfolding full_actions_def set_map set_filter set_sort by (auto simp: image_iff split: prod.splits)
  also have "\<dots> \<longleftrightarrow> (\<exists>p. map_of bal (target_event_id a) = Some (p, amount a, unit a, repair a)) \<and>
      0 < amount a \<and> cancellation_event_id a = event_id cancel"
    unfolding m by (cases a) (auto simp: action_for_def)
  finally show "a \<in> set (full_actions cancel bal) \<longleftrightarrow>
      (\<exists>p. map_of bal (target_event_id a) = Some (p, amount a, unit a, repair a)) \<and>
      0 < amount a \<and> cancellation_event_id a = event_id cancel" .
  have "map target_event_id (full_actions cancel bal) =
      map fst (filter (\<lambda>(i, p, n, u, rep). 0 < n) (sort_key fst bal))"
    by (simp add: full_actions_def action_for_def comp_def case_prod_beta)
  moreover have "distinct (map fst (sort_key fst bal))"
    using assms by (metis distinct_map distinct_sort set_sort)
  ultimately show "distinct (map target_event_id (full_actions cancel bal))"
    by (simp add: distinct_map_filter)
qed

lemma rows_ok_outcome:
  assumes "rows_ok es cancel bal seen rows" and "row \<in> set rows"
  obtains p n u amt rep out where "row_outcome es cancel (map_of bal) row = Some (u, amt, rep, out)"
    and "map_of bal (row_target row) = Some (p, n, u, rep)" and "0 \<le> out" and "out \<le> n"
    and "out = amt - already es cancel (row_target row) rep amt"
proof -
  obtain u amt rep out where oc: "row_outcome es cancel (map_of bal) row = Some (u, amt, rep, out)"
    using assms by (force simp: rows_ok_def)
  then obtain obj where row: "row = JObj obj" by (cases row) (simp_all add: row_outcome_def)
  obtain b where b: "map_of bal (row_target row) = Some b"
    using oc by (cases "map_of bal (row_target row)") (simp_all add: row row_outcome_def)
  obtain p n u' rep' where b': "b = (p, n, u', rep')" by (cases b)
  show thesis
    using oc b b' by (intro that [of u amt rep out p n])
      (auto simp: row row_outcome_def Let_def split: sum.splits if_splits)
qed

lemma partial_actions_within:
  assumes ok: "rows_ok es cancel bal seen rows"
  shows "a \<in> set (partial_actions es cancel bal rows) \<Longrightarrow>
      \<exists>p n. map_of bal (target_event_id a) = Some (p, n, unit a, repair a) \<and>
      0 < amount a \<and> amount a \<le> n \<and> cancellation_event_id a = event_id cancel"
    and "distinct (map target_event_id (partial_actions es cancel bal rows))"
proof -
  assume "a \<in> set (partial_actions es cancel bal rows)"
  then obtain row where row: "row \<in> set rows"
    and a: "a \<in> set (row_actions cancel (row_target row) (outcome_of es cancel bal row))" by auto
  show "\<exists>p n. map_of bal (target_event_id a) = Some (p, n, unit a, repair a) \<and>
      0 < amount a \<and> amount a \<le> n \<and> cancellation_event_id a = event_id cancel"
    using a by (rule_tac rows_ok_outcome [OF ok row])
      (auto simp: row_actions_def action_for_def split: if_splits)
next
  have t: "map target_event_id (row_actions cancel t oc) \<in> {[], [t]}" for t oc
    by (auto simp: row_actions_def action_for_def split: prod.splits)
  have ra: "x \<in> set (row_actions cancel t oc) \<Longrightarrow> target_event_id x = t" for x t oc
    by (auto simp: row_actions_def action_for_def split: prod.splits if_splits)
  have sub: "set (map target_event_id (partial_actions es cancel bal rs)) \<subseteq> set (map row_target rs)" for rs
    by (auto dest!: ra)
  have "distinct (map row_target rs) \<Longrightarrow> distinct (map target_event_id (partial_actions es cancel bal rs))" for rs
  proof (induction rs)
    case (Cons row rs)
    let ?m = "map target_event_id (row_actions cancel (row_target row) (outcome_of es cancel bal row))"
    have "?m = [] \<or> ?m = [row_target row]" using t by blast
    moreover have "row_target row \<notin> set (map target_event_id (partial_actions es cancel bal rs))"
      using sub [of rs] Cons.prems by auto
    moreover have "distinct (map target_event_id (partial_actions es cancel bal rs))"
      using Cons by simp
    moreover have "map target_event_id (partial_actions es cancel bal (row # rs)) =
        ?m @ map target_event_id (partial_actions es cancel bal rs)" by simp
    ultimately show ?case by (elim disjE) (simp_all only: append.simps distinct.simps, blast+)
  qed simp
  then show "distinct (map target_event_id (partial_actions es cancel bal rows))"
    using ok by (simp add: rows_ok_def)
qed

lemma plan_spec_within:
  assumes "plan_spec es cancel bal acts" and "distinct (map fst bal)"
  shows "a \<in> set acts \<Longrightarrow> \<exists>p n. map_of bal (target_event_id a) = Some (p, n, unit a, repair a) \<and>
      0 < amount a \<and> amount a \<le> n \<and> cancellation_event_id a = event_id cancel"
    and "distinct (map target_event_id acts)"
proof -
  consider "acts = full_actions cancel bal"
    | rows where "rows_ok es cancel bal [] rows" "acts = partial_actions es cancel bal rows"
    using assms(1) unfolding plan_spec_def by blast
  note c = this
  show "\<exists>p n. map_of bal (target_event_id a) = Some (p, n, unit a, repair a) \<and>
      0 < amount a \<and> amount a \<le> n \<and> cancellation_event_id a = event_id cancel" if "a \<in> set acts"
    using c
  proof cases
    case 1
    then show ?thesis using that full_actions_within(1) [OF assms(2), of a cancel] by auto
  next
    case 2
    then show ?thesis using that partial_actions_within(1) by blast
  qed
  show "distinct (map target_event_id acts)"
    using c full_actions_within(2) [OF assms(2)] partial_actions_within(2) by cases auto
qed

section \<open>Recorded reversals\<close>

text \<open>\<open>r\<close> is a reversal event that carries out the action \<open>a\<close>.\<close>

definition records :: "financial_repair_action \<Rightarrow> event_envelope \<Rightarrow> bool" where
  "records a r \<longleftrightarrow> event_type r = reverse_type_of (repair a) \<and> reversal_target r = Some (target_event_id a)
     \<and> schema_version r = 1 \<and> unit_ok (payload r) (unit a)
     \<and> pget (payload r) ''amount'' = JStr (str_of_int (amount a))
     \<and> pget (payload r) ''cancellation_event_id'' = JStr (cancellation_event_id a)"

lemma records_not_posting:
  "records a r \<Longrightarrow> event_type r \<noteq> SettlementPosted \<and> event_type r \<noteq> RewardGranted \<and> \<not> is_cancel r"
  by (simp add: records_def reverse_type_of_def is_cancel_def split: if_splits)

lemma records_amount:
  assumes "records a r" and "0 < amount a" and "amount a \<le> 1000000000000"
  shows "reversal_amount amt (unit a) r = Inr (amount a)" and "applied_value amt r = amount a"
    and "applied_clear r"
proof -
  have p: "accounting_amount (pget (payload r) ''amount'') = Inr (amount a)"
    using assms by (simp add: records_def accounting_amount_printed)
  then have "has_key (payload r) ''amount''"
    by (auto simp: has_key_def pget_def dget_def accounting_amount_def split: option.splits)
  then show "reversal_amount amt (unit a) r = Inr (amount a)" and "applied_value amt r = amount a"
    and "applied_clear r"
    using assms(1) p
    by (simp_all add: reversal_amount_def unit_check_def records_def applied_value_def applied_clear_def)
qed

lemma rev_value_nonneg: "0 < amt \<Longrightarrow> 0 \<le> rev_value amt u r"
  by (auto simp: rev_value_def reversal_amount_def split: sum.splits if_splits dest: accounting_amount_bounds)

lemma reversed_total_nonneg: "0 < amt \<Longrightarrow> 0 \<le> reversed_total amt u rs i"
  by (auto simp: reversed_total_def rev_value_nonneg intro!: sum_list_nonneg)

lemma reversed_total_append: "reversed_total amt u (xs @ ys) i = reversed_total amt u xs i + reversed_total amt u ys i"
  by (simp add: reversed_total_def)

lemma reversed_total_perm: "mset xs = mset ys \<Longrightarrow> reversed_total amt u xs i = reversed_total amt u ys i"
  unfolding reversed_total_def by (rule sum_list_perm)

lemma already_perm: "mset xs = mset ys \<Longrightarrow> already xs cancel i rep amt = already ys cancel i rep amt"
  unfolding already_def by (rule sum_list_perm)

lemma post_blocker_Nil:
  "post_blocker (pt, rt, rep, u) rs p = [] \<longleftrightarrow>
    (\<exists>amt. posted_amount p = Inr amt \<and> unit_ok (payload p) u \<and>
      (order_accrual pt p \<longrightarrow> reversed_total amt u rs (event_id p) \<le> amt \<and>
        (\<forall>r \<in> set rs. reversal_target r = Some (event_id p) \<longrightarrow> is_ok (reversal_amount amt u r))))"
proof -
  have rb: "rev_blocker amt u r = [] \<longleftrightarrow> is_ok (reversal_amount amt u r)" for amt r
    by (simp add: rev_blocker_def split: sum.splits)
  show ?thesis by (auto simp: post_blocker_def rb split: sum.splits)
qed

lemma attribution_blockers_Nil:
  "attribution_blockers ids rs = [] \<longleftrightarrow> (\<forall>r \<in> set rs. \<exists>t \<in> set ids. reversal_target r = Some t)"
  by (auto simp: attribution_blockers_def split: option.splits)

text \<open>The share of the actions that a rule's posting \<open>i\<close> gets.\<close>

definition action_share :: "financial_repair_action list \<Rightarrow> event_type \<Rightarrow> string \<Rightarrow> int" where
  "action_share acts rt i =
    sum_list (map amount (filter (\<lambda>a. reverse_type_of (repair a) = rt \<and> target_event_id a = i) acts))"

lemma recorded_total:
  assumes "list_all2 records acts revs"
    and "\<forall>a \<in> set acts. 0 < amount a \<and> amount a \<le> 1000000000000"
    and "\<forall>a \<in> set acts. reverse_type_of (repair a) = rt \<longrightarrow> unit a = u"
  shows "reversed_total amt u (of_type rt revs) i = action_share acts rt i"
    and "r \<in> set (of_type rt revs) \<Longrightarrow> is_ok (reversal_amount amt u r)"
proof -
  show "reversed_total amt u (of_type rt revs) i = action_share acts rt i"
    using assms
  proof (induction rule: list_all2_induct)
    case (Cons a acts r revs)
    have "event_type r = rt \<Longrightarrow> rev_value amt u r = amount a"
      using Cons.hyps(1) Cons.prems records_amount(1) [OF Cons.hyps(1), of amt]
      by (auto simp: rev_value_def records_def)
    then show ?case using Cons by (auto simp: reversed_total_def action_share_def records_def)
  qed (simp add: reversed_total_def action_share_def)
  assume "r \<in> set (of_type rt revs)"
  then obtain a where "a \<in> set acts" "records a r" "event_type r = rt"
    using list_all2_right_mem [OF assms(1)] by auto
  then show "is_ok (reversal_amount amt u r)"
    using assms(2,3) records_amount(1) [of a r amt] by (auto simp: records_def)
qed

lemma recorded_already:
  assumes "list_all2 records acts revs"
    and "\<forall>a \<in> set acts. 0 < amount a \<and> amount a \<le> 1000000000000 \<and> cancellation_event_id a = event_id cancel"
  shows "already revs cancel i rep amt = action_share acts (reverse_type_of rep) i"
    and "r \<in> set revs \<Longrightarrow> applied_clear r"
proof -
  show "already revs cancel i rep amt = action_share acts (reverse_type_of rep) i"
    using assms
  proof (induction rule: list_all2_induct)
    case (Cons a acts r revs)
    have "applied_value amt r = amount a"
      using Cons.prems records_amount(2) [OF Cons.hyps(1)] by simp
    then show ?case using Cons by (auto simp: already_def action_share_def records_def applies_to_def)
  qed (simp add: already_def action_share_def)
  assume "r \<in> set revs"
  then obtain a where "a \<in> set acts" "records a r"
    using list_all2_right_mem [OF assms(1)] by auto
  then show "applied_clear r" using assms(2) records_amount(3) by blast
qed

text \<open>
  The evidence \<open>es'\<close> is \<open>es\<close> with the reversals of a plan's actions, in any order.
\<close>

definition recorded_in ::
  "event_envelope list \<Rightarrow> event_envelope \<Rightarrow> financial_repair_action list \<Rightarrow> event_envelope list \<Rightarrow> event_envelope list \<Rightarrow> bool" where
  "recorded_in es cancel acts revs es' \<longleftrightarrow>
     distinct (ids_of es) \<and> distinct (ids_of es') \<and> mset es' = mset (es @ revs) \<and> list_all2 records acts revs \<and>
     snd (posting_balances es) = [] \<and> distinct (map target_event_id acts) \<and>
     (\<forall>a \<in> set acts. \<exists>p n. map_of (fst (posting_balances es)) (target_event_id a) = Some (p, n, unit a, repair a) \<and>
        0 < amount a \<and> amount a \<le> n \<and> cancellation_event_id a = event_id cancel)"

lemma rule_facts:
  assumes "(pt, rt, rep, u) \<in> set POSTING_RULES"
  shows "reverse_type_of rep = rt" and "(pt', rt', rep, u') \<in> set POSTING_RULES \<Longrightarrow> pt' = pt \<and> rt' = rt \<and> u' = u"
    and "(pt', rt, rep', u') \<in> set POSTING_RULES \<Longrightarrow> pt' = pt \<and> rep' = rep \<and> u' = u"
    and "pt \<in> {SettlementPosted, RewardGranted}"
  using assms by (auto simp: POSTING_RULES_def reverse_type_of_def)

lemma balance_rule:
  assumes "distinct (ids_of es)" and "map_of (fst (posting_balances es)) i = Some (p, n, u, rep)"
  obtains pt rt where "(pt, rt, rep, u) \<in> set POSTING_RULES" and "p \<in> set es" and "event_type p = pt"
    and "event_id p = i" and "post_balance (pt, rt, rep, u) (of_type rt es) p = Some (p, n, u, rep)"
  using posting_balances_Some [OF assms(1), of i "(p, n, u, rep)"] assms(2)
  by (auto simp: post_balance_Some)

lemma balance_le_bound:
  assumes "distinct (ids_of es)" and "map_of (fst (posting_balances es)) i = Some (p, n, u, rep)"
  shows "n \<le> 1000000000000"
  using balance_rule [OF assms]
proof cases
  case (1 pt rt)
  then obtain amt where "posted_amount p = Inr amt" "n = amt - reversed_total amt u (of_type rt es) (event_id p)"
    by (auto simp: post_balance_Some)
  then show ?thesis
    using accounting_amount_bounds reversed_total_nonneg [of amt u "of_type rt es" "event_id p"] by fastforce
qed

lemma recorded_actions:
  assumes r: "recorded_in es cancel acts revs es'"
  shows "\<forall>a \<in> set acts. 0 < amount a \<and> amount a \<le> 1000000000000 \<and> cancellation_event_id a = event_id cancel"
    and "(pt, rt, rep, u) \<in> set POSTING_RULES \<Longrightarrow> \<forall>a \<in> set acts. reverse_type_of (repair a) = rt \<longrightarrow> unit a = u"
proof -
  have d: "distinct (ids_of es)" using r by (simp add: recorded_in_def)
  show "\<forall>a \<in> set acts. 0 < amount a \<and> amount a \<le> 1000000000000 \<and> cancellation_event_id a = event_id cancel"
    using r balance_le_bound [OF d] by (fastforce simp: recorded_in_def)
  assume rule: "(pt, rt, rep, u) \<in> set POSTING_RULES"
  show "\<forall>a \<in> set acts. reverse_type_of (repair a) = rt \<longrightarrow> unit a = u"
  proof (intro ballI impI)
    fix a
    assume "a \<in> set acts" and t: "reverse_type_of (repair a) = rt"
    then obtain p n where "map_of (fst (posting_balances es)) (target_event_id a) = Some (p, n, unit a, repair a)"
      using r by (auto simp: recorded_in_def)
    then obtain pt' rt' where r': "(pt', rt', repair a, unit a) \<in> set POSTING_RULES"
      by (rule balance_rule [OF d])
    then have "rt' = rt" using rule_facts(1) t by blast
    then show "unit a = u" using rule_facts(3) [OF rule] r' by blast
  qed
qed

lemma recorded_share:
  assumes r: "recorded_in es cancel acts revs es'"
    and b: "map_of (fst (posting_balances es)) i = Some (p, n, u, rep)"
  shows "a \<in> set acts \<Longrightarrow> target_event_id a = i \<Longrightarrow> action_share acts (reverse_type_of rep) i = amount a"
    and "i \<notin> target_event_id ` set acts \<Longrightarrow> action_share acts (reverse_type_of rep) i = 0"
    and "action_share acts (reverse_type_of rep) i \<le> n"
proof -
  show *: "action_share acts (reverse_type_of rep) i = amount a" if a: "a \<in> set acts" "target_event_id a = i" for a
  proof -
    have "\<forall>x \<in> set acts. target_event_id x = i \<longrightarrow> repair x = rep"
      using r b by (fastforce simp: recorded_in_def)
    then have "filter (\<lambda>x. reverse_type_of (repair x) = reverse_type_of rep \<and> target_event_id x = i) acts =
        filter (\<lambda>x. target_event_id x = target_event_id a) acts"
      using a by (intro filter_cong) auto
    also have "\<dots> = [a]" using r a by (intro filter_key_distinct) (auto simp: recorded_in_def)
    finally show ?thesis by (simp add: action_share_def)
  qed
  show **: "action_share acts (reverse_type_of rep) i = 0" if "i \<notin> target_event_id ` set acts"
  proof -
    have "filter (\<lambda>x. reverse_type_of (repair x) = reverse_type_of rep \<and> target_event_id x = i) acts = []"
      using that by (auto simp: filter_empty_conv)
    then show ?thesis by (simp add: action_share_def)
  qed
  have "0 \<le> n" using posting_balances_nonneg b r unfolding nonneg_balances_def recorded_in_def by blast
  moreover have "amount a \<le> n" if "a \<in> set acts" "target_event_id a = i" for a
    using r b that by (auto simp: recorded_in_def)
  ultimately show "action_share acts (reverse_type_of rep) i \<le> n"
    using * ** by (cases "i \<in> target_event_id ` set acts") auto
qed

lemma recorded_events:
  assumes r: "recorded_in es cancel acts revs es'"
  shows "set es' = set es \<union> set revs" and "x \<in> set revs \<Longrightarrow> \<exists>a \<in> set acts. records a x"
    and "pt \<in> {SettlementPosted, RewardGranted} \<Longrightarrow> mset (of_type pt es') = mset (of_type pt es)"
    and "mset (of_type rt es') = mset (of_type rt es @ of_type rt revs)"
    and "filter is_cancel es = [c] \<Longrightarrow> filter is_cancel es' = [c]"
    and "filter is_cancel es = [] \<Longrightarrow> filter is_cancel es' = []"
proof -
  have m: "mset es' = mset (es @ revs)" using r by (simp add: recorded_in_def)
  show "set es' = set es \<union> set revs" using mset_eq_setD [OF m] by simp
  show rec: "\<exists>a \<in> set acts. records a x" if "x \<in> set revs" for x
    using r that list_all2_right_mem by (fastforce simp: recorded_in_def)
  have f: "mset (filter P es') = mset (filter P es @ filter P revs)" for P
    using m by (metis filter_append mset_filter)
  show "mset (of_type rt es') = mset (of_type rt es @ of_type rt revs)" by (rule f)
  have "of_type pt revs = []" if "pt \<in> {SettlementPosted, RewardGranted}"
    using rec records_not_posting that by (fastforce simp: filter_empty_conv)
  then show "mset (of_type pt es') = mset (of_type pt es)" if "pt \<in> {SettlementPosted, RewardGranted}"
    using f [of "\<lambda>e. event_type e = pt"] that by (simp only: append_Nil2)
  have "filter is_cancel revs = []"
    using rec records_not_posting by (fastforce simp: filter_empty_conv)
  then have c: "mset (filter is_cancel es') = mset (filter is_cancel es)"
    using f [of is_cancel] by (simp only: append_Nil2)
  show "filter is_cancel es' = [c]" if "filter is_cancel es = [c]"
    using c unfolding that by (metis mset_eq_length_one)
  show "filter is_cancel es' = []" if "filter is_cancel es = []"
    using c unfolding that by simp
qed

lemma recorded_reversed_total:
  assumes r: "recorded_in es cancel acts revs es'" and rule: "(pt, rt, rep, u) \<in> set POSTING_RULES"
  shows "reversed_total amt u (of_type rt es') i = reversed_total amt u (of_type rt es) i + action_share acts rt i"
proof -
  have "reversed_total amt u (of_type rt es') i = reversed_total amt u (of_type rt es @ of_type rt revs) i"
    by (rule reversed_total_perm [OF recorded_events(4) [OF r]])
  also have "\<dots> = reversed_total amt u (of_type rt es) i + action_share acts rt i"
    using r recorded_actions(1) [OF r] recorded_actions(2) [OF r rule]
    by (simp add: reversed_total_append recorded_total(1) recorded_in_def)
  finally show ?thesis .
qed

lemma recorded_post_balance:
  assumes r: "recorded_in es cancel acts revs es'" and rule: "(pt, rt, rep, u) \<in> set POSTING_RULES"
    and p: "p \<in> set es" "event_type p = pt"
  shows "post_balance (pt, rt, rep, u) (of_type rt es') p = Some (q, n', u', rep') \<longleftrightarrow>
    (\<exists>n. post_balance (pt, rt, rep, u) (of_type rt es) p = Some (q, n, u', rep') \<and>
      n' = n - action_share acts rt (event_id p))" (is "?L \<longleftrightarrow> ?R")
proof -
  note t = recorded_reversed_total [OF r rule]
  have d: "distinct (ids_of es)" and nb: "snd (posting_balances es) = []" using r by (simp_all add: recorded_in_def)
  have "rule_blockers (pt, rt, rep, u) es = []"
    using no_balance_blockers [OF d] nb rule by blast
  then have pb: "post_blocker (pt, rt, rep, u) (of_type rt es) p = []"
    using p by (auto simp: rule_blockers_def)
  have share: "action_share acts rt (event_id p) \<le> n"
    if "post_balance (pt, rt, rep, u) (of_type rt es) p = Some (q, n, u, rep)" for q n
  proof -
    have "map_of (fst (posting_balances es)) (event_id p) = Some (q, n, u, rep)"
      using posting_balances_Some [OF d] rule p that by blast
    then show ?thesis using recorded_share(3) [OF r] rule_facts(1) [OF rule] by blast
  qed
  show ?thesis
  proof
    assume ?L
    then show ?R using pb by (auto simp: post_balance_Some post_blocker_Nil t)
  next
    assume ?R
    then show ?L using share by (auto simp: post_balance_Some t)
  qed
qed

lemma recorded_balances:
  assumes r: "recorded_in es cancel acts revs es'"
  shows "map_of (fst (posting_balances es')) i = Some (p, n', u, rep) \<longleftrightarrow>
    (\<exists>n. map_of (fst (posting_balances es)) i = Some (p, n, u, rep) \<and>
      n' = n - action_share acts (reverse_type_of rep) i)" (is "?L \<longleftrightarrow> ?R")
proof -
  have d: "distinct (ids_of es)" and d': "distinct (ids_of es')" using r by (simp_all add: recorded_in_def)
  have mem: "x \<in> set es' \<longleftrightarrow> x \<in> set es" if "event_type x \<in> {SettlementPosted, RewardGranted}" for x
    using recorded_events(1,2) [OF r] records_not_posting that by blast
  show ?thesis
  proof
    assume ?L
    then show ?R
    proof (rule balance_rule [OF d'])
      fix pt rt
      assume rule: "(pt, rt, rep, u) \<in> set POSTING_RULES" and p: "p \<in> set es'" "event_type p = pt" "event_id p = i"
        and b: "post_balance (pt, rt, rep, u) (of_type rt es') p = Some (p, n', u, rep)"
      have pe: "p \<in> set es" using mem p rule_facts(4) [OF rule] by blast
      obtain n where "post_balance (pt, rt, rep, u) (of_type rt es) p = Some (p, n, u, rep)"
        and "n' = n - action_share acts rt i"
        using recorded_post_balance [OF r rule pe p(2)] b p(3) by blast
      then show ?R using posting_balances_Some [OF d] rule pe p rule_facts(1) [OF rule] by blast
    qed
  next
    assume ?R
    then obtain n where m: "map_of (fst (posting_balances es)) i = Some (p, n, u, rep)"
      and n': "n' = n - action_share acts (reverse_type_of rep) i" by blast
    from m show ?L
    proof (rule balance_rule [OF d])
      fix pt rt
      assume rule: "(pt, rt, rep, u) \<in> set POSTING_RULES" and p: "p \<in> set es" "event_type p = pt" "event_id p = i"
        and b: "post_balance (pt, rt, rep, u) (of_type rt es) p = Some (p, n, u, rep)"
      have "post_balance (pt, rt, rep, u) (of_type rt es') p = Some (p, n', u, rep)"
        using recorded_post_balance [OF r rule p(1,2)] b p(3) n' rule_facts(1) [OF rule] by blast
      then show ?L using posting_balances_Some [OF d'] rule mem p rule_facts(4) [OF rule] by blast
    qed
  qed
qed

lemma recorded_no_blockers:
  assumes r: "recorded_in es cancel acts revs es'"
  shows "snd (posting_balances es') = []"
proof -
  have d: "distinct (ids_of es)" and d': "distinct (ids_of es')" and nb: "snd (posting_balances es) = []"
    using r by (simp_all add: recorded_in_def)
  have "rule_blockers (pt, rt, rep, u) es' = []" if rule: "(pt, rt, rep, u) \<in> set POSTING_RULES" for pt rt rep u
  proof -
    have "rule_blockers (pt, rt, rep, u) es = []" using no_balance_blockers [OF d] nb rule by blast
    then have att: "attribution_blockers (ids_of (of_type pt es)) (of_type rt es) = []"
      and pb: "\<forall>p \<in> set (of_type pt es). post_blocker (pt, rt, rep, u) (of_type rt es) p = []"
      by (simp_all add: rule_blockers_def)
    have pts: "set (of_type pt es') = set (of_type pt es)"
      using recorded_events(3) [OF r rule_facts(4) [OF rule]] by (rule mset_eq_setD)
    have rts: "set (of_type rt es') = set (of_type rt es) \<union> set (of_type rt revs)"
      using mset_eq_setD [OF recorded_events(4) [OF r, of rt]] by simp
    have target: "\<exists>t \<in> set (ids_of (of_type pt es)). reversal_target x = Some t" if x: "x \<in> set (of_type rt revs)" for x
    proof -
      obtain a where a: "a \<in> set acts" "records a x" using recorded_events(2) [OF r] x by auto
      then obtain p n where b: "map_of (fst (posting_balances es)) (target_event_id a) = Some (p, n, unit a, repair a)"
        using r by (auto simp: recorded_in_def)
      obtain pt' rt' where r': "(pt', rt', repair a, unit a) \<in> set POSTING_RULES" and p: "p \<in> set es"
        "event_type p = pt'" "event_id p = target_event_id a" by (rule balance_rule [OF d b])
      have "rt' = rt" using rule_facts(1) [OF r'] a x by (auto simp: records_def)
      then have "pt' = pt" using rule_facts(3) [OF rule] r' by blast
      then show ?thesis using a p by (force simp: records_def)
    qed
    have "attribution_blockers (ids_of (of_type pt es')) (of_type rt es') = []"
      using att target unfolding attribution_blockers_Nil rts set_map pts by blast
    moreover have "post_blocker (pt, rt, rep, u) (of_type rt es') p = []" if p: "p \<in> set (of_type pt es')" for p
    proof -
      have p': "p \<in> set es" "event_type p = pt" using p pts by auto
      have ok: "is_ok (reversal_amount amt u x)" if "x \<in> set (of_type rt revs)" for amt x
        using r recorded_actions(1) [OF r] recorded_actions(2) [OF r rule] that
        by (intro recorded_total(2)) (auto simp: recorded_in_def)
      obtain amt where amt: "posted_amount p = Inr amt" "unit_ok (payload p) u"
        and acc: "order_accrual pt p \<Longrightarrow> reversed_total amt u (of_type rt es) (event_id p) \<le> amt \<and>
          (\<forall>x \<in> set (of_type rt es). reversal_target x = Some (event_id p) \<longrightarrow> is_ok (reversal_amount amt u x))"
        using pb p pts unfolding post_blocker_Nil by blast
      have "reversed_total amt u (of_type rt es') (event_id p) \<le> amt" if o: "order_accrual pt p"
      proof -
        have "post_balance (pt, rt, rep, u) (of_type rt es) p =
            Some (p, amt - reversed_total amt u (of_type rt es) (event_id p), u, rep)"
          using acc [OF o] amt o by (simp add: post_balance_Some)
        then have "post_balance (pt, rt, rep, u) (of_type rt es') p \<noteq> None"
          using recorded_post_balance [OF r rule p'] by blast
        then show ?thesis using amt by (auto simp: post_balance_def split: if_splits)
      qed
      then show ?thesis using amt acc ok rts unfolding post_blocker_Nil by blast
    qed
    ultimately show ?thesis by (simp add: rule_blockers_def)
  qed
  then show ?thesis using no_balance_blockers [OF d'] by (metis prod_cases4)
qed

lemma recorded_row:
  assumes r: "recorded_in es cancel (partial_actions es cancel (fst (posting_balances es)) rows) revs es'"
    and ok: "rows_ok es cancel (fst (posting_balances es)) [] rows" and row: "row \<in> set rows"
    and oc: "row_outcome es cancel (map_of (fst (posting_balances es))) row = Some (u, amt, rep, out)"
  shows "row_outcome es' cancel (map_of (fst (posting_balances es'))) row = Some (u, amt, rep, 0)"
proof -
  let ?bal = "fst (posting_balances es)" and ?acts = "partial_actions es cancel (fst (posting_balances es)) rows"
  obtain p n where b: "map_of ?bal (row_target row) = Some (p, n, u, rep)" and out: "0 \<le> out" "out \<le> n"
    and eq: "out = amt - already es cancel (row_target row) rep amt"
    using rows_ok_outcome [OF ok row] oc by (metis option.inject prod.inject)
  have ra: "row_actions cancel (row_target row) (outcome_of es cancel ?bal row) =
      (if out = 0 then [] else [action_for cancel (row_target row) rep out u])"
    by (simp add: oc row_actions_def)
  have share: "action_share ?acts (reverse_type_of rep) (row_target row) = out"
  proof (cases "out = 0")
    case False
    then have "action_for cancel (row_target row) rep out u \<in> set ?acts" using ra row by force
    then show ?thesis using recorded_share(1) [OF r b] by (force simp: action_for_def)
  next
    case True
    have "row_target row \<notin> target_event_id ` set ?acts"
    proof
      assume "row_target row \<in> target_event_id ` set ?acts"
      then obtain row' a where r': "row' \<in> set rows" "target_event_id a = row_target row"
        and a: "a \<in> set (row_actions cancel (row_target row') (outcome_of es cancel ?bal row'))" by auto
      then have "row_target row' = row_target row"
        by (auto simp: row_actions_def action_for_def split: prod.splits if_splits)
      then have "row' = row" using ok r'(1) row by (auto simp: rows_ok_def distinct_map dest: inj_onD)
      then show False using a ra True by simp
    qed
    then show ?thesis using recorded_share(2) [OF r b] True by simp
  qed
  have m: "mset es' = mset (es @ revs)" and l2: "list_all2 records ?acts revs" using r by (simp_all add: recorded_in_def)
  have "already es' cancel (row_target row) rep amt =
      already es cancel (row_target row) rep amt + already revs cancel (row_target row) rep amt"
    using already_perm [OF m] by (simp add: already_def)
  then have al: "already es' cancel (row_target row) rep amt = amt"
    using recorded_already(1) [OF l2 recorded_actions(1) [OF r]] share eq by simp
  have b': "map_of (fst (posting_balances es')) (row_target row) = Some (p, n - out, u, rep)"
    using recorded_balances [OF r] b share by blast
  have cl: "applied_clear x" if "x \<in> set revs" for x
    using recorded_already(2) [OF l2 recorded_actions(1) [OF r] that] .
  obtain obj where "row = JObj obj" using oc by (cases row) (simp_all add: row_outcome_def)
  then show ?thesis
    using oc b b' al cl out recorded_events(1) [OF r]
    by (auto simp: row_outcome_def Let_def split: sum.splits if_splits)
qed

lemma recorded_plan_spec:
  assumes r: "recorded_in es cancel acts revs es'" and s: "plan_spec es cancel (fst (posting_balances es)) acts"
  shows "plan_spec es' cancel (fst (posting_balances es')) []"
proof -
  let ?bal = "fst (posting_balances es)" and ?bal' = "fst (posting_balances es')"
  have d: "distinct (map fst ?bal)" and d': "distinct (map fst ?bal')"
    using r distinct_balances by (simp_all add: recorded_in_def)
  from s consider (full) "event_type cancel \<noteq> PartialCancellationApplied" "cancel_scope cancel = ''FULL''" "acts = full_actions cancel ?bal"
    | (partial) rows where "cancel_scope cancel = ''PARTIAL''" "allocation_rows cancel = Inr rows"
        "rows_ok es cancel ?bal [] rows" "partial_totals_ok es cancel ?bal rows" "acts = partial_actions es cancel ?bal rows"
    unfolding plan_spec_def by blast
  then show ?thesis
  proof cases
    case full
    have none: "a \<notin> set (full_actions cancel ?bal')" for a
    proof
      assume "a \<in> set (full_actions cancel ?bal')"
      then obtain p where b': "map_of ?bal' (target_event_id a) = Some (p, amount a, unit a, repair a)" and pos: "0 < amount a"
        using full_actions_within(1) [OF d'] by blast
      then obtain n where b: "map_of ?bal (target_event_id a) = Some (p, n, unit a, repair a)"
        and n: "amount a = n - action_share acts (reverse_type_of (repair a)) (target_event_id a)"
        using recorded_balances [OF r] by blast
      show False
      proof (cases "0 < n")
        case True
        then have "action_for cancel (target_event_id a) (repair a) n (unit a) \<in> set acts"
          using b full(3) full_actions_within(1) [OF d] by (simp add: action_for_def)
        then show False using recorded_share(1) [OF r b] n pos by (force simp: action_for_def)
      next
        case False
        then have "target_event_id a \<notin> target_event_id ` set acts"
          using b full(3) full_actions_within(1) [OF d] by auto
        then show False using recorded_share(2) [OF r b] n pos False by simp
      qed
    qed
    have "full_actions cancel ?bal' = []"
    proof (cases "full_actions cancel ?bal'")
      case (Cons x xs)
      then show ?thesis using none [of x] by simp
    qed
    then show ?thesis using full by (simp add: plan_spec_def)
  next
    case partial
    have oc: "row_outcome es' cancel (map_of ?bal') row =
        Some (case outcome_of es cancel ?bal row of (u, amt, rep, out) \<Rightarrow> (u, amt, rep, 0))" if "row \<in> set rows" for row
      using recorded_row [OF r [unfolded partial(5)] partial(3) that] that partial(3)
      by (auto simp: rows_ok_def split: prod.splits)
    then have ok: "rows_ok es' cancel ?bal' [] rows" using partial(3) by (simp add: rows_ok_def)
    have parts: "map (krw_part \<circ> outcome_of es' cancel ?bal') rows = map (krw_part \<circ> outcome_of es cancel ?bal) rows"
      "map (pts_part \<circ> outcome_of es' cancel ?bal') rows = map (pts_part \<circ> outcome_of es cancel ?bal) rows"
      using oc by (auto simp: krw_part_def pts_part_def split: prod.splits)
    have "partial_totals_ok es' cancel ?bal' rows"
      using partial(4) unfolding partial_totals_ok_def parts .
    moreover have "partial_actions es' cancel ?bal' rows = []"
      using oc by (auto simp: row_actions_def split: prod.splits)
    ultimately have "rows_ok es' cancel ?bal' [] rows \<and> partial_totals_ok es' cancel ?bal' rows \<and>
        [] = partial_actions es' cancel ?bal' rows" using ok by (simp only: simp_thms)
    then show ?thesis unfolding plan_spec_def
      using partial(1,2) by (intro disjI2 conjI exI [of _ rows]) (assumption | erule conjE)+
  qed
qed

lemma plan_after_recording:
  assumes d': "distinct (ids_of es')" and m: "mset es' = mset (es @ revs)"
    and plan: "plan_financial_repairs es = (acts, [])" and l2: "list_all2 records acts revs"
  shows "plan_financial_repairs es' = ([], [])"
proof -
  have "distinct (ids_of (es @ revs))"
    using d' m by (metis mset_eq_imp_distinct_iff mset_map)
  then have d: "distinct (ids_of es)" by simp
  have sch: "\<forall>e \<in> set es'. schema_version e = 1"
    using mset_eq_setD [OF m] plan plan_ok [OF d] list_all2_right_mem [OF l2] by (auto simp: records_def)
  from plan have "filter is_cancel es = [] \<and> acts = [] \<or>
     (\<exists>cancel. filter is_cancel es = [cancel] \<and>
        \<not> (event_type cancel = CommitmentCancelled \<and> partial_hints cancel) \<and>
        snd (posting_balances es) = [] \<and> plan_spec es cancel (fst (posting_balances es)) acts)"
    using plan_ok [OF d] by blast
  then show ?thesis
  proof (elim disjE exE conjE)
    assume c: "filter is_cancel es = []" and a: "acts = []"
    have "revs = []" using l2 a by simp
    then have "mset (filter is_cancel es') = mset (filter is_cancel es)" using m by (simp only: mset_filter append_Nil2)
    then have "filter is_cancel es' = []" unfolding c by (simp only: mset.simps mset_zero_iff)
    then show ?thesis using plan_ok [OF d'] sch by blast
  next
    fix cancel
    assume c: "filter is_cancel es = [cancel]" and h: "\<not> (event_type cancel = CommitmentCancelled \<and> partial_hints cancel)"
      and nb: "snd (posting_balances es) = []" and s: "plan_spec es cancel (fst (posting_balances es)) acts"
    have r: "recorded_in es cancel acts revs es'"
      using d d' m l2 nb plan_spec_within [OF s distinct_balances [OF d]] by (simp add: recorded_in_def)
    show ?thesis
      using plan_ok [OF d'] sch h recorded_events(5) [OF r c] recorded_no_blockers [OF r] recorded_plan_spec [OF r s]
      by blast
  qed
qed

section \<open>Properties\<close>

text \<open>An accounting amount is a whole number from 1 to 10^12, and every such number, given as an
  integer or as its decimal text, is accepted with that value.\<close>

theorem accounting_amount_exact:
  "(accounting_amount v = Inr n \<longrightarrow> 0 < n \<and> n \<le> 1000000000000) \<and>
   (0 < n \<and> n \<le> 1000000000000 \<longrightarrow>
     accounting_amount (JInt n) = Inr n \<and> accounting_amount (JStr (str_of_int n)) = Inr n)"
  using accounting_amount_bounds accounting_amount_printed by blast

lemma str_9000: "str_of_int 9000 = ''9000''"
  by (simp add: str_of_int_def str_of_nat.simps char_of_def bit_0)

theorem accounting_amount_exact_witness:
  "accounting_amount (JStr ''9000'') = Inr 9000 \<and> accounting_amount (JInt 9000) = Inr 9000"
proof -
  have "str_of_int 9000 = ''9000''" by (rule str_9000)
  then show ?thesis using accounting_amount_exact [of "JInt 9000" 9000] by simp
qed

text \<open>C2. The planner never reverses more than is open: without blockers every action names one
  posting of the evidence in its own unit, its amount is positive and together with the
  reversals already in evidence does not exceed what was posted, and no posting is named
  twice. With a blocker there are no actions.\<close>

theorem plan_never_over_reverses:
  assumes "distinct (ids_of es)" and "plan_financial_repairs es = (acts, bs)"
  shows "(bs \<noteq> [] \<longrightarrow> acts = []) \<and> distinct (map target_event_id acts) \<and>
    (\<forall>a \<in> set acts. \<exists>p \<in> set es. \<exists>amt pt.
      (pt, reverse_type_of (repair a), repair a, unit a) \<in> set POSTING_RULES \<and> event_type p = pt \<and>
      event_id p = target_event_id a \<and> posted_amount p = Inr amt \<and> 0 < amount a \<and>
      reversed_total amt (unit a) (of_type (reverse_type_of (repair a)) es) (event_id p) + amount a \<le> amt)"
proof (cases "bs = [] \<and> acts \<noteq> []")
  case False
  then have "acts = []" using plan_blocked [OF assms(2)] by blast
  then show ?thesis by simp
next
  case True
  then obtain cancel where s: "plan_spec es cancel (fst (posting_balances es)) acts"
    using plan_ok [OF assms(1)] assms(2) by blast
  note w = plan_spec_within [OF s distinct_balances [OF assms(1)]]
  have "\<exists>p \<in> set es. \<exists>amt pt. (pt, reverse_type_of (repair a), repair a, unit a) \<in> set POSTING_RULES \<and>
      event_type p = pt \<and> event_id p = target_event_id a \<and> posted_amount p = Inr amt \<and> 0 < amount a \<and>
      reversed_total amt (unit a) (of_type (reverse_type_of (repair a)) es) (event_id p) + amount a \<le> amt"
    if a: "a \<in> set acts" for a
  proof -
    obtain p n where b: "map_of (fst (posting_balances es)) (target_event_id a) = Some (p, n, unit a, repair a)"
      and n: "0 < amount a" "amount a \<le> n" using w(1) [OF a] by blast
    from b show ?thesis
      by (rule balance_rule [OF assms(1)]) (use n rule_facts(1) in \<open>force simp: post_balance_Some\<close>)
  qed
  then show ?thesis using True w(2) by blast
qed

definition sample_money :: "string \<Rightarrow> event_type \<Rightarrow> int \<Rightarrow> string option \<Rightarrow> json_obj \<Rightarrow> event_envelope" where
  "sample_money i ty t cause p = (sample_event i ty t cause)\<lparr>payload := p\<rparr>"

definition delayed_cancel :: "event_envelope list" where
  "delayed_cancel =
    [sample_money ''cancel'' CommitmentCancelled 3 None [(''scope'', JStr ''FULL'')],
     sample_money ''settle'' SettlementPosted 4 (Some ''cancel'') [(''amount'', JStr ''9000''), (''currency'', JStr ''KRW'')]]"

definition delayed_cancel_action :: financial_repair_action where
  "delayed_cancel_action = \<lparr>cancellation_event_id = ''cancel'', target_event_id = ''settle'',
     repair = REVERSE_SETTLEMENT, amount = 9000, unit = KRW\<rparr>"

lemma delayed_cancel_plan:
  "distinct (ids_of delayed_cancel)" "plan_financial_repairs delayed_cancel = ([delayed_cancel_action], [])"
  by code_simp+

theorem plan_never_over_reverses_witness:
  "plan_financial_repairs delayed_cancel = ([delayed_cancel_action], []) \<and>
   (\<exists>p \<in> set delayed_cancel. event_id p = ''settle'' \<and> (\<exists>amt. posted_amount p = Inr amt \<and> 9000 \<le> amt))"
proof -
  have nn: "0 \<le> reversed_total amt KRW (of_type SettlementReversed delayed_cancel) i" for amt i
    by (simp add: reversed_total_def delayed_cancel_def sample_money_def sample_event_def)
  obtain p amt where "p \<in> set delayed_cancel" "event_id p = ''settle''" "posted_amount p = Inr amt"
    "reversed_total amt KRW (of_type SettlementReversed delayed_cancel) (event_id p) + 9000 \<le> amt"
    using plan_never_over_reverses [OF delayed_cancel_plan]
    by (auto simp: delayed_cancel_action_def reverse_type_of_def)
  then show ?thesis using nn [of amt "event_id p"] delayed_cancel_plan(2) by auto
qed

text \<open>C3. A full cancellation that is not blocked reverses exactly what is open: for every settlement
  and every order reward in the evidence, the actions on it sum up to the posted amount less
  the reversals in evidence.\<close>

theorem full_cancel_reverses_all:
  assumes "distinct (ids_of es)" and "plan_financial_repairs es = (acts, [])"
    and "filter is_cancel es = [cancel]" and "event_type cancel = CommitmentCancelled"
    and "(pt, rt, rep, u) \<in> set POSTING_RULES" and "p \<in> set es" and "event_type p = pt" and "order_accrual pt p"
  shows "\<exists>amt. posted_amount p = Inr amt \<and>
    sum_list (map amount (filter (\<lambda>a. target_event_id a = event_id p) acts)) =
      amt - reversed_total amt u (of_type rt es) (event_id p)"
proof -
  let ?bal = "fst (posting_balances es)"
  have nb: "snd (posting_balances es) = []" and s: "plan_spec es cancel ?bal acts"
    and h: "\<not> partial_hints cancel"
    using plan_ok [OF assms(1)] assms(2,3,4) by auto
  have full: "acts = full_actions cancel ?bal"
    using s h assms(4) by (auto simp: plan_spec_def partial_hints_def cancel_scope_def)
  have "rule_blockers (pt, rt, rep, u) es = []"
    using no_balance_blockers [OF assms(1)] nb assms(5) by blast
  then have "post_blocker (pt, rt, rep, u) (of_type rt es) p = []"
    using assms(6,7) by (auto simp: rule_blockers_def)
  then obtain amt where amt: "posted_amount p = Inr amt" "unit_ok (payload p) u"
    "reversed_total amt u (of_type rt es) (event_id p) \<le> amt"
    using assms(8) by (auto simp: post_blocker_Nil)
  let ?n = "amt - reversed_total amt u (of_type rt es) (event_id p)"
  have b: "map_of ?bal (event_id p) = Some (p, ?n, u, rep)"
    using posting_balances_Some [OF assms(1)] assms(5-8) amt by (fastforce simp: post_balance_Some)
  note fa = full_actions_within [OF distinct_balances [OF assms(1)]]
  have "sum_list (map amount (filter (\<lambda>a. target_event_id a = event_id p) acts)) = ?n"
  proof (cases "?n = 0")
    case True
    then have "filter (\<lambda>a. target_event_id a = event_id p) acts = []"
      using b fa(1) unfolding full by (auto simp: filter_empty_conv)
    then show ?thesis using True by simp
  next
    case False
    let ?a = "action_for cancel (event_id p) rep ?n u"
    have "?a \<in> set acts" using False amt(3) b fa(1) unfolding full by (simp add: action_for_def)
    then have "filter (\<lambda>a. target_event_id a = target_event_id ?a) acts = [?a]"
      using fa(2) unfolding full by (intro filter_key_distinct)
    then show ?thesis by (simp add: action_for_def)
  qed
  then show ?thesis using amt(1) by blast
qed

theorem full_cancel_reverses_all_witness:
  "sum_list (map amount (filter (\<lambda>a. target_event_id a = ''settle'') [delayed_cancel_action])) = 9000"
proof -
  let ?p = "sample_money ''settle'' SettlementPosted 4 (Some ''cancel'') [(''amount'', JStr ''9000''), (''currency'', JStr ''KRW'')]"
  have h: "filter is_cancel delayed_cancel = [sample_money ''cancel'' CommitmentCancelled 3 None [(''scope'', JStr ''FULL'')]]"
    "event_type (sample_money ''cancel'' CommitmentCancelled 3 None [(''scope'', JStr ''FULL'')]) = CommitmentCancelled"
    "(SettlementPosted, SettlementReversed, REVERSE_SETTLEMENT, KRW) \<in> set POSTING_RULES"
    "?p \<in> set delayed_cancel" "event_type ?p = SettlementPosted" "order_accrual SettlementPosted ?p"
    by code_simp+
  have "posted_amount ?p = Inr 9000" by code_simp
  moreover have "reversed_total amt KRW (of_type SettlementReversed delayed_cancel) i = 0" for amt i
    by (simp add: reversed_total_def delayed_cancel_def sample_money_def sample_event_def)
  moreover have "event_id ?p = ''settle''" by code_simp
  ultimately show ?thesis using full_cancel_reverses_all [OF delayed_cancel_plan h] by auto
qed

text \<open>C1. A correction is planned once: when the evidence holds one recorded reversal for each action
  of an unblocked plan, in any order of arrival, the planner finds nothing left to do and no
  blocker, for full and for partial cancellations.\<close>

theorem no_second_correction:
  assumes "distinct (ids_of es')" and "mset es' = mset (es @ revs)"
    and "plan_financial_repairs es = (acts, [])" and "list_all2 records acts revs"
  shows "plan_financial_repairs es' = ([], [])"
  using assms by (rule plan_after_recording)

definition delayed_cancel_reversal :: event_envelope where
  "delayed_cancel_reversal = sample_money ''rev'' SettlementReversed 9 (Some ''settle'')
    [(''amount'', JStr ''9000''), (''currency'', JStr ''KRW''), (''cancellation_event_id'', JStr ''cancel'')]"

theorem no_second_correction_witness:
  "plan_financial_repairs (delayed_cancel_reversal # delayed_cancel) = ([], [])"
proof (rule no_second_correction)
  show "plan_financial_repairs delayed_cancel = ([delayed_cancel_action], [])" by (rule delayed_cancel_plan)
  show "list_all2 records [delayed_cancel_action] [delayed_cancel_reversal]"
    by (simp add: records_def delayed_cancel_action_def delayed_cancel_reversal_def str_9000 sample_money_def
        sample_event_def reverse_type_of_def reversal_target_def unit_ok_def pget_def dget_def)
  show "distinct (ids_of (delayed_cancel_reversal # delayed_cancel))" by code_simp
  show "mset (delayed_cancel_reversal # delayed_cancel) = mset (delayed_cancel @ [delayed_cancel_reversal])" by simp
qed

end
