(* ===== verification/Engine.thy ===== *)
theory Engine
  imports Financial_Scope
begin

text \<open>
  The reconciliation engine (\<^verbatim>\<open>services/reconciler/app/engine.py\<close>): selection of one copy per
  event identity, the projection fold, and \<open>reconcile\<close>, which combines the causal order, the
  financial plan and the anomaly rules into a decision. The fold raises \<open>TypeError\<close> when a
  reversal names its source by a list or a dictionary, so it returns a sum. The digest of a
  fingerprint is a parameter.
\<close>

section \<open>The model\<close>

fun EVENT_PRIORITY :: "event_type \<Rightarrow> int" where
  "EVENT_PRIORITY PickupSlotHeld = 10"
| "EVENT_PRIORITY PaymentAuthorized = 20"
| "EVENT_PRIORITY CommitmentConfirmed = 30"
| "EVENT_PRIORITY CancellationRequested = 31"
| "EVENT_PRIORITY CancellationRejected = 32"
| "EVENT_PRIORITY PickupPactIssued = 35"
| "EVENT_PRIORITY CapacityRevised = 40"
| "EVENT_PRIORITY PickupRescheduled = 45"
| "EVENT_PRIORITY PickupPactRenegotiated = 46"
| "EVENT_PRIORITY PickupPactBreached = 50"
| "EVENT_PRIORITY CommitmentCancelled = 55"
| "EVENT_PRIORITY PartialCancellationApplied = 56"
| "EVENT_PRIORITY PickupClaimed = 60"
| "EVENT_PRIORITY SettlementPosted = 60"
| "EVENT_PRIORITY RewardGranted = 70"
| "EVENT_PRIORITY SettlementReversed = 80"
| "EVENT_PRIORITY RewardReversed = 90"

definition REPAIR_ORDER :: "repair_type list" where
  "REPAIR_ORDER =
    [NO_OP_DUPLICATE, REBUILD_PROJECTION, REVERSE_SETTLEMENT, REVERSE_REWARD, RESLOT_REVIEW, MANUAL_REVIEW]"

text \<open>\<open>H\<close> stands for the SHA-256 hex digest of the printed JSON text.\<close>

definition semantic_event_fingerprint :: "(json \<Rightarrow> string) \<Rightarrow> event_envelope \<Rightarrow> string" where
  "semantic_event_fingerprint H e = H (dumps_tree (semantic_payload e))"

definition group_by_id :: "event_envelope list \<Rightarrow> (string \<times> event_envelope list) list" where
  "group_by_id events = fold (\<lambda>e d. dput (event_id e) (dget [] d (event_id e) @ [e]) d) events []"

definition copy_key :: "event_envelope \<Rightarrow> int \<times> int \<times> string" where
  "copy_key e = (instant (received_at e), instant (occurred_at e), event_type_name (event_type e))"

definition chosen_copy :: "event_envelope list \<Rightarrow> event_envelope" where
  "chosen_copy copies = first_min copy_key (hd copies) (tl copies)"

definition copies_conflict :: "event_envelope list \<Rightarrow> bool" where
  "copies_conflict copies \<longleftrightarrow>
     (\<exists>c \<in> set copies. \<not> py_eq (semantic_payload c) (semantic_payload (chosen_copy copies)))"

definition unique_by_event_id ::
  "event_envelope list \<Rightarrow> event_envelope list \<times> string list \<times> bool" where
  "unique_by_event_id events =
    (let grouped = group_by_id events
     in (map (\<lambda>(_, copies). chosen_copy copies) grouped,
         sort (map fst (filter (\<lambda>(_, copies). 1 < length copies) grouped)),
         list_ex (\<lambda>(_, copies). copies_conflict copies) grouped))"

datatype py_error = TypeError

record fold_state =
  fs_state :: snapshot
  fs_anomalies :: "string list"
  fs_seen :: "string list"
  fs_required :: int
  fs_at_risk :: bool
  fs_settlement :: "(string \<times> int) list"
  fs_reward :: "(string \<times> int) list"

definition fold_init :: fold_state where
  "fold_init = \<lparr>fs_state = initial_snapshot, fs_anomalies = [], fs_seen = [], fs_required = 1,
     fs_at_risk = False, fs_settlement = [], fs_reward = []\<rparr>"

definition posting_amount :: "event_envelope \<Rightarrow> int" where
  "posting_amount e = (case accounting_amount (pget (payload e) ''amount'') of Inl _ \<Rightarrow> 1 | Inr n \<Rightarrow> n)"

text \<open>
  \<open>payload.get("source_event_id") or causation_id\<close>, looked up in a dictionary with text keys:
  a number never matches, an unhashable value raises, an empty text is skipped.
\<close>

definition fold_target :: "event_envelope \<Rightarrow> py_error + string option" where
  "fold_target e =
    (let src = pget (payload e) ''source_event_id'' in
     if truthy src then
       (case src of JStr s \<Rightarrow> Inr (Some s)
        | JList _ \<Rightarrow> Inl TypeError | JObj _ \<Rightarrow> Inl TypeError | _ \<Rightarrow> Inr None)
     else Inr (case causation_id e of None \<Rightarrow> None | Some c \<Rightarrow> if c = [] then None else Some c))"

definition apply_reversal ::
  "event_envelope \<Rightarrow> (string \<times> int) list \<Rightarrow> py_error + (string \<times> int) list" where
  "apply_reversal e balances =
    (case fold_target e of Inl err \<Rightarrow> Inl err
     | Inr None \<Rightarrow> Inr balances
     | Inr (Some target) \<Rightarrow>
        (case map_of balances target of None \<Rightarrow> Inr balances
         | Some open_amount \<Rightarrow>
            if has_key (payload e) ''amount'' then
              (case accounting_amount (pget (payload e) ''amount'') of
                 Inl _ \<Rightarrow> Inr balances
               | Inr n \<Rightarrow> Inr (dput target (max 0 (open_amount - n)) balances))
            else Inr (dput target (max 0 (open_amount - open_amount)) balances)))"

text \<open>\<open>int(payload.get(key, default))\<close> on a field the envelope's validator keeps an integer.\<close>

definition int_field :: "json_obj \<Rightarrow> string \<Rightarrow> int \<Rightarrow> int" where
  "int_field p k dflt = (case map_of p k of Some (JInt n) \<Rightarrow> n | _ \<Rightarrow> dflt)"

definition set_status :: "string \<Rightarrow> fold_state \<Rightarrow> fold_state" where
  "set_status s st = st\<lparr>fs_state := (fs_state st)\<lparr>status := s\<rparr>\<rparr>"

definition apply_event :: "event_envelope \<Rightarrow> fold_state \<Rightarrow> py_error + fold_state" where
  "apply_event e st =
    (let snap = fs_state st; p = payload e in
     case event_type e of
       PickupSlotHeld \<Rightarrow>
         Inr ((set_status ''HELD'' st)\<lparr>fs_required := int_field p ''capacity_units'' (fs_required st)\<rparr>)
     | PaymentAuthorized \<Rightarrow> Inr (st\<lparr>fs_state := snap\<lparr>payment_authorized := True\<rparr>\<rparr>)
     | CommitmentConfirmed \<Rightarrow>
         Inr ((set_status ''CONFIRMED'' st)
           \<lparr>fs_anomalies := fs_anomalies st @
              (if payment_authorized snap then [] else [''confirmed_without_payment_authorization'']),
            fs_required := int_field p ''capacity_units'' (fs_required st), fs_at_risk := False\<rparr>)
     | CapacityRevised \<Rightarrow>
         (let st1 = st\<lparr>fs_state := snap\<lparr>capacity_revision := int_field p ''revision'' (capacity_revision snap + 1)\<rparr>\<rparr>
          in if status snap = ''CONFIRMED'' \<and> has_key p ''available_units''
                \<and> int_field p ''available_units'' 0 < fs_required st
             then Inr ((set_status ''AT_RISK'' st1)\<lparr>fs_at_risk := True\<rparr>)
             else Inr st1)
     | PickupRescheduled \<Rightarrow>
         Inr ((set_status ''CONFIRMED'' st)
           \<lparr>fs_required := int_field p ''capacity_units'' (fs_required st), fs_at_risk := False\<rparr>)
     | CommitmentCancelled \<Rightarrow> Inr ((set_status ''CANCELLED'' st)\<lparr>fs_at_risk := False\<rparr>)
     | PickupClaimed \<Rightarrow> Inr ((set_status ''PICKED_UP'' st)\<lparr>fs_at_risk := False\<rparr>)
     | SettlementPosted \<Rightarrow>
         Inr (st\<lparr>fs_state := snap\<lparr>settlement_post_count := settlement_post_count snap + 1\<rparr>,
                 fs_settlement := dput (event_id e) (posting_amount e) (fs_settlement st)\<rparr>)
     | RewardGranted \<Rightarrow>
         Inr (st\<lparr>fs_state := snap\<lparr>reward_post_count := reward_post_count snap + 1\<rparr>,
                 fs_reward := dput (event_id e) (posting_amount e) (fs_reward st)\<rparr>)
     | SettlementReversed \<Rightarrow>
         (case apply_reversal e (fs_settlement st) of Inl err \<Rightarrow> Inl err
          | Inr b \<Rightarrow> Inr (st\<lparr>fs_settlement := b\<rparr>))
     | RewardReversed \<Rightarrow>
         (case apply_reversal e (fs_reward st) of Inl err \<Rightarrow> Inl err
          | Inr b \<Rightarrow> Inr (st\<lparr>fs_reward := b\<rparr>))
     | _ \<Rightarrow> Inr st)"

fun fold_events :: "bool \<Rightarrow> event_envelope list \<Rightarrow> fold_state \<Rightarrow> py_error + fold_state" where
  "fold_events count_duplicates [] st = Inr st"
| "fold_events count_duplicates (e # es) st =
    (if \<not> count_duplicates \<and> event_id e \<in> set (fs_seen st) then fold_events count_duplicates es st
     else (case apply_event e (st\<lparr>fs_seen := event_id e # fs_seen st\<rparr>) of
             Inl err \<Rightarrow> Inl err
           | Inr st1 \<Rightarrow> fold_events count_duplicates es st1))"

definition fold_finish :: "fold_state \<Rightarrow> snapshot \<times> string list" where
  "fold_finish st =
    ((fs_state st)\<lparr>settled := list_ex (\<lambda>(_, n). 0 < n) (fs_settlement st),
                   rewarded := list_ex (\<lambda>(_, n). 0 < n) (fs_reward st)\<rparr>,
     fs_anomalies st @ (if fs_at_risk st then [''confirmed_promise_exceeds_revised_capacity''] else []))"

definition fold_projection :: "bool \<Rightarrow> event_envelope list \<Rightarrow> py_error + snapshot \<times> string list" where
  "fold_projection count_duplicates events =
    (case fold_events count_duplicates events fold_init of Inl err \<Rightarrow> Inl err | Inr st \<Rightarrow> Inr (fold_finish st))"

definition order_key :: "event_envelope \<Rightarrow> int \<times> int \<times> string" where
  "order_key e = (instant (occurred_at e), EVENT_PRIORITY (event_type e), event_id e)"

definition add_new :: "string \<Rightarrow> string list \<Rightarrow> string list" where
  "add_new x xs = (if x \<in> set xs then xs else xs @ [x])"

text \<open>The pairs of a cancellation and a posting that no cause and no time tells apart.\<close>

definition ambiguous_pairs :: "(string \<times> string) list \<Rightarrow> event_envelope list \<Rightarrow> event_envelope list \<Rightarrow>
    (event_envelope \<times> event_envelope) list" where
  "ambiguous_pairs ps cancels postings =
    [(c, p). c \<leftarrow> cancels, p \<leftarrow> postings,
       \<not> precedes ps (event_id c) (event_id p) \<and> \<not> precedes ps (event_id p) (event_id c)
       \<and> instant (occurred_at c) = instant (occurred_at p)]"

definition prior_cancel ::
  "(string \<times> string) list \<Rightarrow> event_envelope list \<Rightarrow> event_envelope list \<Rightarrow> string \<Rightarrow> bool" where
  "prior_cancel ps cancels postings target =
    (case map_of (by_id postings) target of None \<Rightarrow> False
     | Some p \<Rightarrow> list_ex (\<lambda>c. precedes ps (event_id c) (event_id p)
         \<or> (\<not> precedes ps (event_id p) (event_id c)
            \<and> instant (occurred_at c) < instant (occurred_at p))) cancels)"

definition action_anomaly :: "repair_type \<Rightarrow> bool \<Rightarrow> string" where
  "action_anomaly rep prior =
    (if rep = REVERSE_SETTLEMENT
     then (if prior then ''settlement_posted_after_prior_cancellation'' else ''cancelled_order_has_open_settlement'')
     else (if prior then ''reward_granted_after_prior_cancellation'' else ''cancelled_order_has_open_order_reward''))"

text \<open>
  What \<open>reconcile\<close> derives from the unique events alone: the manual reasons, in the order of
  the code, before duplicates are removed.
\<close>

abbreviation of_type_in :: "event_type \<Rightarrow> event_envelope list \<Rightarrow> event_envelope list" where
  "of_type_in ty es \<equiv> filter (\<lambda>e. event_type e = ty) es"

definition financial_cancels :: "event_envelope list \<Rightarrow> event_envelope list" where
  "financial_cancels unique =
    of_type_in CommitmentCancelled unique @ of_type_in PartialCancellationApplied unique"

definition posting_events :: "event_envelope list \<Rightarrow> event_envelope list" where
  "posting_events unique = of_type_in SettlementPosted unique @ of_type_in RewardGranted unique"

definition manual_reasons ::
  "bool \<Rightarrow> evidence_order \<Rightarrow> event_envelope list \<Rightarrow> string list \<Rightarrow> string list \<Rightarrow> string list" where
  "manual_reasons conflicting ordered unique financial_blockers canonical_anomalies =
    (if conflicting then [''conflicting_duplicate_payload''] else [])
    @ (if cyclic_ids ordered \<noteq> [] then [''causal_cycle''] else [])
    @ financial_blockers
    @ (if of_type_in CommitmentCancelled unique \<noteq> [] \<and> of_type_in PickupClaimed unique \<noteq> []
       then [''conflicting_terminal_facts''] else [])
    @ map (\<lambda>_. ''ambiguous_financial_order'')
        (ambiguous_pairs (parents ordered) (financial_cancels unique) (posting_events unique))
    @ (if ''confirmed_without_payment_authorization'' \<in> set canonical_anomalies
       then [''confirmed_without_payment_authorization''] else [])"

definition action_anomalies ::
  "evidence_order \<Rightarrow> event_envelope list \<Rightarrow> financial_repair_action list \<Rightarrow> string list" where
  "action_anomalies ordered unique actions =
    (if financial_cancels unique = [] then []
     else map (\<lambda>a. action_anomaly (repair a)
         (prior_cancel (parents ordered) (financial_cancels unique) (posting_events unique) (target_event_id a))) actions)"

definition evidence_ids ::
  "string list \<Rightarrow> evidence_order \<Rightarrow> event_envelope list \<Rightarrow> financial_repair_action list \<Rightarrow> string list \<Rightarrow>
    string list \<Rightarrow> string list" where
  "evidence_ids duplicate_ids ordered unique actions financial_blockers canonical_anomalies =
    duplicate_ids @ cyclic_ids ordered
    @ ids_of (filter (\<lambda>e. case causation_id e of None \<Rightarrow> False | Some c \<Rightarrow> c \<in> set (missing_ids ordered)) unique)
    @ clock_conflict_ids ordered
    @ (if financial_blockers \<noteq> [] then ids_of unique else [])
    @ (if of_type_in CommitmentCancelled unique \<noteq> [] \<and> of_type_in PickupClaimed unique \<noteq> []
       then ids_of (of_type_in CommitmentCancelled unique @ of_type_in PickupClaimed unique) else [])
    @ concat (map (\<lambda>(c, p). [event_id c, event_id p])
        (ambiguous_pairs (parents ordered) (financial_cancels unique) (posting_events unique)))
    @ (if financial_cancels unique \<noteq> [] \<and> actions \<noteq> []
       then ids_of (financial_cancels unique) @ map target_event_id actions else [])
    @ (if ''confirmed_promise_exceeds_revised_capacity'' \<in> set canonical_anomalies
       then ids_of (of_type_in CapacityRevised unique) else [])
    @ (if ''confirmed_without_payment_authorization'' \<in> set canonical_anomalies
       then ids_of (of_type_in CommitmentConfirmed unique) else [])"

definition repair_set ::
  "string list \<Rightarrow> bool \<Rightarrow> event_envelope list \<Rightarrow> financial_repair_action list \<Rightarrow> string list \<Rightarrow> repair_type list" where
  "repair_set duplicate_ids drift unique actions canonical_anomalies =
    (if duplicate_ids \<noteq> [] then [NO_OP_DUPLICATE] else [])
    @ (if drift then [REBUILD_PROJECTION] else [])
    @ (if financial_cancels unique \<noteq> [] then map repair actions else [])
    @ (if ''confirmed_promise_exceeds_revised_capacity'' \<in> set canonical_anomalies then [RESLOT_REVIEW] else [])"

definition anomaly_list ::
  "string list \<Rightarrow> evidence_order \<Rightarrow> bool \<Rightarrow> string list \<Rightarrow> string list \<Rightarrow> string list \<Rightarrow> string list" where
  "anomaly_list duplicate_ids ordered drift canonical_anomalies from_actions blockers =
    fold add_new blockers (fold add_new from_actions (fold add_new canonical_anomalies
      ((if duplicate_ids \<noteq> [] then [''duplicate_event_delivery''] else [])
       @ (if missing_ids ordered \<noteq> [] then [''missing_causal_evidence''] else [])
       @ (if clock_conflict_ids ordered \<noteq> [] then [''event_time_causality_conflict''] else [])
       @ (if drift then [''receive_order_projection_drift''] else []))))"

definition decide :: "string list \<Rightarrow> string list \<Rightarrow> decision" where
  "decide blockers missing =
    (if blockers \<noteq> [] then DECIDE_MANUAL_REVIEW else if missing \<noteq> [] then WAIT_FOR_EVIDENCE else AUTO)"

definition reconcile :: "(json \<Rightarrow> string) \<Rightarrow> event_envelope list \<Rightarrow> py_error + reconcile_result" where
  "reconcile H original =
    (case unique_by_event_id original of (unique, duplicate_ids, conflicting) \<Rightarrow>
     (case fold_projection True (sort_key (\<lambda>e. instant (received_at e)) original) of
        Inl err \<Rightarrow> Inl err
      | Inr (receive_state, _) \<Rightarrow>
     (let ordered = causal_order unique order_key in
      case fold_projection False (ordered_events ordered) of
        Inl err \<Rightarrow> Inl err
      | Inr (canonical, canonical_anomalies) \<Rightarrow>
     (case plan_financial_repairs unique of (actions, financial_blockers) \<Rightarrow>
      let drift = (receive_state \<noteq> canonical);
          manual = fromkeys (manual_reasons conflicting ordered unique financial_blockers canonical_anomalies);
          dec = decide manual (missing_ids ordered);
          blockers = manual @ (if missing_ids ordered \<noteq> [] then [''missing_causal_evidence''] else []);
          repairs0 = repair_set duplicate_ids drift unique actions canonical_anomalies;
          repairs1 = (if dec = AUTO then repairs0
            else filter (\<lambda>r. r = NO_OP_DUPLICATE) repairs0 @ [MANUAL_REVIEW])
      in Inr \<lparr>result_aggregate_id = aggregate_id (hd original),
           receive_order_state = receive_state,
           canonical_state = (if dec = AUTO then canonical else canonical\<lparr>status := ''UNRESOLVED''\<rparr>),
           anomalies = anomaly_list duplicate_ids ordered drift canonical_anomalies
             (action_anomalies ordered unique actions) blockers,
           repairs = filter (\<lambda>r. r \<in> set repairs1) REPAIR_ORDER,
           duplicate_event_ids = duplicate_ids,
           evidence_event_ids = sorted_set
             (evidence_ids duplicate_ids ordered unique actions financial_blockers canonical_anomalies),
           financial_actions = (if dec = AUTO then actions else []),
           source_event_ids = sorted_set (ids_of unique),
           source_event_fingerprints =
             fold (\<lambda>e. dput (event_id e) (semantic_event_fingerprint H e)) (sort_key event_id unique) [],
           decision = dec, blocking_reasons = blockers, missing_event_ids = missing_ids ordered\<rparr>))))"

section \<open>Selection of one copy per identity\<close>

lemma map_of_group: "map_of (fold (\<lambda>e d. dput (event_id e) (dget [] d (event_id e) @ [e]) d) es d) i =
    (if i \<in> set (ids_of es) \<or> map_of d i \<noteq> None
     then Some (dget [] d i @ filter (\<lambda>e. event_id e = i) es) else None)"
proof (induction es arbitrary: d)
  case (Cons e es)
  show ?case unfolding fold.simps comp_def Cons by (auto simp: dget_def)
qed (auto simp: dget_def)

lemma map_of_group_by_id:
  "map_of (group_by_id es) i =
    (if i \<in> set (ids_of es) then Some (filter (\<lambda>e. event_id e = i) es) else None)"
  unfolding group_by_id_def map_of_group by (simp add: dget_def)

lemma distinct_group_by_id: "distinct (map fst (group_by_id es))"
proof -
  have "distinct (map fst d) \<Longrightarrow>
      distinct (map fst (fold (\<lambda>e d. dput (event_id e) (dget [] d (event_id e) @ [e]) d) es d))" for d
    by (induction es arbitrary: d) simp_all
  then show ?thesis by (simp add: group_by_id_def)
qed

lemma group_by_id_mem:
  "(i, copies) \<in> set (group_by_id es) \<longleftrightarrow> i \<in> set (ids_of es) \<and> copies = filter (\<lambda>e. event_id e = i) es"
  using map_of_eq_Some_iff [OF distinct_group_by_id, of es i copies] map_of_group_by_id [of es i]
  by (auto split: if_splits)

lemma keys_group_by_id: "fst ` set (group_by_id es) = set (ids_of es)"
proof -
  have "dom (map_of (group_by_id es)) = set (ids_of es)" by (auto simp: map_of_group_by_id dom_def)
  then show ?thesis by (simp add: dom_map_of_conv_image_fst)
qed

lemma chosen_copy_in: "copies \<noteq> [] \<Longrightarrow> chosen_copy copies \<in> set copies"
  using first_min_in [of copy_key "hd copies" "tl copies"] by (cases copies) (auto simp: chosen_copy_def)

lemma group_copies:
  assumes "(i, copies) \<in> set (group_by_id es)"
  shows "copies \<noteq> []" and "event_id (chosen_copy copies) = i" and "chosen_copy copies \<in> set es"
proof -
  have c: "i \<in> set (ids_of es)" "copies = filter (\<lambda>e. event_id e = i) es"
    using assms group_by_id_mem by blast+
  then show ne: "copies \<noteq> []" by (auto simp: filter_empty_conv)
  show "event_id (chosen_copy copies) = i" and "chosen_copy copies \<in> set es"
    using chosen_copy_in [OF ne] c(2) by auto
qed

lemma unique_events:
  shows "distinct (ids_of (fst (unique_by_event_id es)))"
    and "set (ids_of (fst (unique_by_event_id es))) = set (ids_of es)"
    and "set (fst (unique_by_event_id es)) \<subseteq> set es"
proof -
  have "ids_of (fst (unique_by_event_id es)) = map fst (group_by_id es)"
    by (auto simp: unique_by_event_id_def Let_def dest: group_copies(2))
  then show "distinct (ids_of (fst (unique_by_event_id es)))"
    and "set (ids_of (fst (unique_by_event_id es))) = set (ids_of es)"
    using distinct_group_by_id [of es] keys_group_by_id [of es] by (simp_all only: set_map)
  show "set (fst (unique_by_event_id es)) \<subseteq> set es"
    by (auto simp: unique_by_event_id_def Let_def dest: group_copies(3))
qed

section \<open>When the fold raises\<close>

definition raises :: "event_envelope \<Rightarrow> bool" where
  "raises e \<longleftrightarrow> event_type e \<in> {SettlementReversed, RewardReversed} \<and>
     truthy (pget (payload e) ''source_event_id'') \<and> \<not> hashable (pget (payload e) ''source_event_id'')"

lemma fold_target_raises:
  "event_type e \<in> {SettlementReversed, RewardReversed} \<Longrightarrow> fold_target e = Inl err \<longleftrightarrow> raises e"
  by (cases err; cases "pget (payload e) ''source_event_id''") (auto simp: fold_target_def raises_def Let_def)

lemma apply_event_raises: "(\<exists>err. apply_event e st = Inl err) \<longleftrightarrow> raises e"
proof (cases "event_type e \<in> {SettlementReversed, RewardReversed}")
  case True
  have "(\<exists>err. apply_reversal e bal = Inl err) \<longleftrightarrow> raises e" for bal
    using fold_target_raises [OF True, of TypeError]
    by (cases "fold_target e") (auto simp: apply_reversal_def split: option.splits sum.splits, (metis py_error.exhaust)+)
  then show ?thesis using True by (auto simp: apply_event_def Let_def split: sum.splits) (metis sum.distinct)+
next
  case False
  then show ?thesis by (cases "event_type e") (auto simp: apply_event_def raises_def Let_def)
qed

lemma fold_events_raises:
  assumes "\<not> (\<exists>err. fold_events cd es st = Inl err)"
  shows "cd \<Longrightarrow> e \<in> set es \<Longrightarrow> \<not> raises e"
  using assms
proof (induction es arbitrary: st)
  case (Cons x xs)
  then obtain st1 where "apply_event x (st\<lparr>fs_seen := event_id x # fs_seen st\<rparr>) = Inr st1"
    by (auto split: sum.splits)
  then show ?case using Cons apply_event_raises [of x] by (auto, metis sum.distinct(1))
qed simp

lemma fold_events_ok:
  "\<forall>e \<in> set es. \<not> raises e \<Longrightarrow> \<exists>st'. fold_events cd es st = Inr st'"
proof (induction es arbitrary: st)
  case (Cons x xs)
  obtain st1 where "apply_event x (st\<lparr>fs_seen := event_id x # fs_seen st\<rparr>) = Inr st1"
    using Cons.prems apply_event_raises [of x] by (cases "apply_event x (st\<lparr>fs_seen := event_id x # fs_seen st\<rparr>)") auto
  then show ?case using Cons by auto
qed simp

text \<open>The groups listed by their keys.\<close>

lemma group_by_id_keys: "group_by_id es = map (\<lambda>i. (i, filter (\<lambda>e. event_id e = i) es)) (map fst (group_by_id es))"
  unfolding map_map by (rule map_idI [symmetric]) (auto simp: group_by_id_mem)

lemma keys_redelivered:
  "event_id c \<in> set (ids_of es) \<Longrightarrow> map fst (group_by_id (es @ [c])) = map fst (group_by_id es)"
  using keys_group_by_id [of es] by (simp add: group_by_id_def keys_list_dput)

lemma chosen_copy_append:
  assumes "e \<in> set copies" and "copy_key e \<le> copy_key c"
  shows "chosen_copy (copies @ [c]) = chosen_copy copies"
proof -
  have ne: "copies \<noteq> []" using assms(1) by auto
  have "copy_key (first_min copy_key (hd copies) (tl copies)) \<le> copy_key e"
    using assms(1) by (intro first_min_le) (cases copies; auto)
  then have "copy_key (first_min copy_key (hd copies) (tl copies)) \<le> copy_key c" using assms(2) by simp
  then show ?thesis using ne by (simp add: chosen_copy_def first_min_append Let_def)
qed

text \<open>A later copy of an event in evidence changes neither the selection nor the conflict flag.\<close>

lemma unique_redelivered:
  assumes e: "e \<in> set es" and id: "event_id c = event_id e" and key: "copy_key e \<le> copy_key c"
    and same: "py_eq (semantic_payload c) (semantic_payload e)"
  shows "fst (unique_by_event_id (es @ [c])) = fst (unique_by_event_id es)"
    and "snd (snd (unique_by_event_id (es @ [c]))) = snd (snd (unique_by_event_id es))"
proof -
  have ids: "event_id c \<in> set (ids_of es)" using e id by auto
  let ?f = "\<lambda>es i. filter (\<lambda>e. event_id e = i) es"
  have ch: "chosen_copy (?f (es @ [c]) i) = chosen_copy (?f es i)" for i
    using chosen_copy_append [OF _ key, of "?f es i"] e id by (cases "event_id c = i") auto
  have cf: "copies_conflict (?f (es @ [c]) i) = copies_conflict (?f es i)" for i
  proof (cases "event_id c = i")
    case True
    have "py_eq (semantic_payload c) v \<longleftrightarrow> py_eq (semantic_payload e) v" for v
      using same py_eq_trans py_eq_sym by blast
    then show ?thesis using e id True unfolding copies_conflict_def ch by auto
  qed (simp add: copies_conflict_def)
  have map_groups: "map (\<lambda>(_, copies). h copies) (group_by_id xs) = map (\<lambda>i. h (?f xs i)) (map fst (group_by_id xs))"
    for h :: "event_envelope list \<Rightarrow> 'x" and xs
    by (subst (1) group_by_id_keys) (simp add: comp_def)
  have ex: "list_ex (\<lambda>(_, copies). P copies) xs \<longleftrightarrow> True \<in> set (map (\<lambda>(_, copies). P copies) xs)"
    for P and xs :: "(string \<times> event_envelope list) list" by (auto simp: list_ex_iff image_iff)
  show "fst (unique_by_event_id (es @ [c])) = fst (unique_by_event_id es)"
    by (simp only: unique_by_event_id_def Let_def fst_conv map_groups ch keys_redelivered [OF ids])
  show "snd (snd (unique_by_event_id (es @ [c]))) = snd (snd (unique_by_event_id es))"
    by (simp only: unique_by_event_id_def Let_def snd_conv ex map_groups cf keys_redelivered [OF ids])
qed

section \<open>The decision\<close>

lemma fold_projection_ok: "\<forall>e \<in> set es. \<not> raises e \<Longrightarrow> \<exists>r. fold_projection cd es = Inr r"
  using fold_events_ok [of es cd fold_init] by (auto simp: fold_projection_def)

lemma fold_projection_raises: "e \<in> set es \<Longrightarrow> raises e \<Longrightarrow> \<exists>err. fold_projection True es = Inl err"
  using fold_events_raises [of True es fold_init e] by (auto simp: fold_projection_def split: sum.splits)

lemma ordered_events_subset: "distinct (ids_of es) \<Longrightarrow> [] \<notin> set (ids_of es) \<Longrightarrow>
    set (ordered_events (causal_order es key)) = set es"
proof (cases "cyclic_ids (causal_order es key) = []")
  case True
  assume "distinct (ids_of es)" "[] \<notin> set (ids_of es)"
  then show ?thesis using causal_order_acyclic(1) [OF _ _ True] mset_eq_setD by blast
next
  case False
  then show ?thesis by (simp add: causal_order_def Let_def)
qed

lemma reconcile_returns:
  assumes ne: "[] \<notin> set (ids_of es)" and none: "\<forall>e \<in> set es. \<not> raises e"
  shows "\<exists>res. reconcile H es = Inr res"
proof -
  obtain u ds cf where u: "unique_by_event_id es = (u, ds, cf)" by (metis prod_cases3)
  have ids: "distinct (ids_of u)" "[] \<notin> set (ids_of u)" "set u \<subseteq> set es"
    using unique_events [of es] u ne by simp_all
  then have "\<forall>e \<in> set (ordered_events (causal_order u order_key)). \<not> raises e"
    using ordered_events_subset [OF ids(1,2)] none by blast
  then obtain c where "fold_projection False (ordered_events (causal_order u order_key)) = Inr c"
    using fold_projection_ok by blast
  moreover obtain r where "fold_projection True (sort_key (\<lambda>e. instant (received_at e)) es) = Inr r"
    using fold_projection_ok [of "sort_key (\<lambda>e. instant (received_at e)) es" True] none by auto
  ultimately show ?thesis by (simp add: reconcile_def u Let_def split: prod.splits)
qed

lemma reconcile_raises:
  assumes "valid_request es"
  shows "(\<exists>err. reconcile H es = Inl err) \<longleftrightarrow> (\<exists>e \<in> set es. raises e)"
proof (cases "\<exists>e \<in> set es. raises e")
  case True
  then obtain err where "fold_projection True (sort_key (\<lambda>e. instant (received_at e)) es) = Inl err"
    using fold_projection_raises by (metis set_sort)
  then show ?thesis using True by (simp add: reconcile_def split: prod.splits)
next
  case False
  have "[] \<notin> set (ids_of es)" using assms by (auto simp: valid_request_def valid_envelope_def)
  then obtain res where "reconcile H es = Inr res" using reconcile_returns False by blast
  then show ?thesis using False by simp
qed

text \<open>The result in terms of its ingredients.\<close>

lemma reconcile_parts:
  assumes "reconcile H es = Inr res"
  obtains u ds cf rs ra can canom acts fb where "unique_by_event_id es = (u, ds, cf)"
    and "fold_projection True (sort_key (\<lambda>e. instant (received_at e)) es) = Inr (rs, ra)"
    and "fold_projection False (ordered_events (causal_order u order_key)) = Inr (can, canom)"
    and "plan_financial_repairs u = (acts, fb)"
    and "blocking_reasons res = fromkeys (manual_reasons cf (causal_order u order_key) u fb canom) @
      (if missing_ids (causal_order u order_key) \<noteq> [] then [''missing_causal_evidence''] else [])"
    and "decision res = decide (fromkeys (manual_reasons cf (causal_order u order_key) u fb canom))
      (missing_ids (causal_order u order_key))"
    and "canonical_state res = (if decision res = AUTO then can else can\<lparr>status := ''UNRESOLVED''\<rparr>)"
    and "financial_actions res = (if decision res = AUTO then acts else [])"
    and "missing_event_ids res = missing_ids (causal_order u order_key)"
    and "repairs res = filter (\<lambda>r. r \<in> set (if decision res = AUTO then repair_set ds (rs \<noteq> can) u acts canom
       else filter (\<lambda>r. r = NO_OP_DUPLICATE) (repair_set ds (rs \<noteq> can) u acts canom) @ [MANUAL_REVIEW])) REPAIR_ORDER"
    and "source_event_ids res = sorted_set (ids_of u)"
    and "source_event_fingerprints res =
      fold (\<lambda>e. dput (event_id e) (semantic_event_fingerprint H e)) (sort_key event_id u) []"
proof -
  obtain u ds cf where u: "unique_by_event_id es = (u, ds, cf)" by (metis prod_cases3)
  obtain rs ra where r: "fold_projection True (sort_key (\<lambda>e. instant (received_at e)) es) = Inr (rs, ra)"
    using assms by (auto simp: reconcile_def u split: sum.splits)
  obtain can canom where c: "fold_projection False (ordered_events (causal_order u order_key)) = Inr (can, canom)"
    using assms by (auto simp: reconcile_def u r Let_def split: sum.splits)
  obtain acts fb where p: "plan_financial_repairs u = (acts, fb)" by fastforce
  note eq = assms [unfolded reconcile_def u r c p prod.case sum.case Let_def, THEN sum.inject(2) [THEN iffD1], symmetric]
  show thesis by (rule that [OF u r c p]) (simp_all only: eq reconcile_result.simps)
qed

lemma decide_AUTO [simp]: "decide bs ms = AUTO \<longleftrightarrow> bs = [] \<and> ms = []" "AUTO = decide bs ms \<longleftrightarrow> bs = [] \<and> ms = []"
  by (auto simp: decide_def)

lemma no_conflict_copies:
  assumes "\<not> snd (snd (unique_by_event_id es))" and "a \<in> set es" and "b \<in> set es" and "event_id a = event_id b"
  shows "py_eq (semantic_payload a) (semantic_payload b)"
proof -
  let ?c = "filter (\<lambda>e. event_id e = event_id b) es"
  have "(event_id b, ?c) \<in> set (group_by_id es)" using assms(3) by (simp add: group_by_id_mem)
  then have "\<not> copies_conflict ?c"
    using assms(1) by (auto simp: unique_by_event_id_def Let_def list_ex_iff)
  then have "py_eq (semantic_payload a) (semantic_payload (chosen_copy ?c))"
    and "py_eq (semantic_payload b) (semantic_payload (chosen_copy ?c))"
    using assms(2-4) by (auto simp: copies_conflict_def)
  then show ?thesis using py_eq_sym py_eq_trans by blast
qed

section \<open>Properties\<close>

text \<open>C10. Fail closed: a result that is not automatic carries no financial action and no rebuild
  instruction, keeps only the duplicate and the manual-review repairs, shows an unresolved
  state and says why.\<close>

theorem reconcile_fail_closed:
  assumes "reconcile H es = Inr res" and "decision res \<noteq> AUTO"
  shows "financial_actions res = [] \<and> set (repairs res) \<subseteq> {NO_OP_DUPLICATE, MANUAL_REVIEW} \<and>
    MANUAL_REVIEW \<in> set (repairs res) \<and> status (canonical_state res) = ''UNRESOLVED'' \<and> blocking_reasons res \<noteq> []"
  using assms(1)
proof (rule reconcile_parts)
  fix u ds cf rs ra can canom acts fb
  assume "financial_actions res = (if decision res = AUTO then acts else [])"
    and rep: "repairs res = filter (\<lambda>r. r \<in> set (if decision res = AUTO then repair_set ds (rs \<noteq> can) u acts canom
       else filter (\<lambda>r. r = NO_OP_DUPLICATE) (repair_set ds (rs \<noteq> can) u acts canom) @ [MANUAL_REVIEW])) REPAIR_ORDER"
    and "canonical_state res = (if decision res = AUTO then can else can\<lparr>status := ''UNRESOLVED''\<rparr>)"
    and dec: "decision res = decide (fromkeys (manual_reasons cf (causal_order u order_key) u fb canom))
      (missing_ids (causal_order u order_key))"
    and "blocking_reasons res = fromkeys (manual_reasons cf (causal_order u order_key) u fb canom) @
      (if missing_ids (causal_order u order_key) \<noteq> [] then [''missing_causal_evidence''] else [])"
  moreover have "set (repairs res) \<subseteq> {NO_OP_DUPLICATE, MANUAL_REVIEW}" "MANUAL_REVIEW \<in> set (repairs res)"
    using rep assms(2) by (auto simp: REPAIR_ORDER_def)
  ultimately show ?thesis using assms(2) by auto
qed

text \<open>C11. An automatic decision is justified by the evidence: all copies of an event agree, no cause
  is missing or cyclic, the financial plan has no blocker and is returned as it is, the order
  is not both cancelled and picked up, and every cancellation is ordered against every posting
  by cause or by time.\<close>

theorem reconcile_auto_justified:
  assumes "reconcile H es = Inr res" and "decision res = AUTO" and "unique_by_event_id es = (u, ds, cf)"
  shows "(\<forall>a \<in> set es. \<forall>b \<in> set es. event_id a = event_id b \<longrightarrow> py_eq (semantic_payload a) (semantic_payload b)) \<and>
    cyclic_ids (causal_order u order_key) = [] \<and> missing_ids (causal_order u order_key) = [] \<and>
    plan_financial_repairs u = (financial_actions res, []) \<and>
    (of_type_in CommitmentCancelled u = [] \<or> of_type_in PickupClaimed u = []) \<and>
    ambiguous_pairs (parents (causal_order u order_key)) (financial_cancels u) (posting_events u) = []"
  using assms(1)
proof (rule reconcile_parts)
  fix u' ds' cf' rs ra can canom acts fb
  assume u': "unique_by_event_id es = (u', ds', cf')" and p: "plan_financial_repairs u' = (acts, fb)"
    and dec: "decision res = decide (fromkeys (manual_reasons cf' (causal_order u' order_key) u' fb canom))
      (missing_ids (causal_order u' order_key))"
    and fa: "financial_actions res = (if decision res = AUTO then acts else [])"
  have eq: "u' = u" "cf' = cf" using u' assms(3) by simp_all
  have man: "manual_reasons cf (causal_order u order_key) u fb canom = []"
    and mis: "missing_ids (causal_order u order_key) = []" using dec assms(2) eq by simp_all
  then have cf: "\<not> cf" and rest: "cyclic_ids (causal_order u order_key) = []" "fb = []"
    "of_type_in CommitmentCancelled u = [] \<or> of_type_in PickupClaimed u = []"
    "ambiguous_pairs (parents (causal_order u order_key)) (financial_cancels u) (posting_events u) = []"
    by (auto simp: manual_reasons_def split: if_splits)
  have "\<not> snd (snd (unique_by_event_id es))" using cf assms(3) by simp
  then show ?thesis using no_conflict_copies rest mis p fa assms(2) eq by simp
qed

text \<open>C12. Redelivery is harmless: a later copy of an event with the same content leaves the
  decision, the blocking reasons, the canonical state, the financial actions and the source
  fingerprints as they were.\<close>

theorem redelivery_harmless:
  assumes v: "valid_request es" and e: "e \<in> set es" and later: "instant (received_at e) \<le> instant t"
    and r: "reconcile H es = Inr res"
  shows "\<exists>res'. reconcile H (es @ [e\<lparr>received_at := t\<rparr>]) = Inr res' \<and>
    decision res' = decision res \<and> blocking_reasons res' = blocking_reasons res \<and>
    canonical_state res' = canonical_state res \<and> financial_actions res' = financial_actions res \<and>
    missing_event_ids res' = missing_event_ids res \<and>
    source_event_fingerprints res' = source_event_fingerprints res"
proof -
  let ?c = "e\<lparr>received_at := t\<rparr>"
  have key: "copy_key e \<le> copy_key ?c" using later by (auto simp: copy_key_def less_eq_prod_def)
  have c: "event_id ?c = event_id e" "py_eq (semantic_payload ?c) (semantic_payload e)" by simp_all
  note uq = unique_redelivered [OF e c(1) key c(2)]
  have "valid_envelope ?c" using v e by (auto simp: valid_request_def valid_envelope_def)
  moreover have "remdups (map aggregate_id (es @ [?c])) = remdups (map aggregate_id es) \<or>
      length (remdups (map aggregate_id (es @ [?c]))) = length (remdups (map aggregate_id es))"
    using e by (intro disjI2) (simp add: length_remdups_card_conv insert_absorb)
  ultimately have v': "valid_request (es @ [?c])" using v by (auto simp: valid_request_def)
  have "raises ?c \<longleftrightarrow> raises e" by (simp add: raises_def)
  then obtain res' where r': "reconcile H (es @ [?c]) = Inr res'"
    using reconcile_raises [OF v', of H] reconcile_raises [OF v, of H] r e
    by (cases "reconcile H (es @ [?c])") auto
  have "decision res' = decision res \<and> blocking_reasons res' = blocking_reasons res \<and>
    canonical_state res' = canonical_state res \<and> financial_actions res' = financial_actions res \<and>
    missing_event_ids res' = missing_event_ids res \<and>
    source_event_fingerprints res' = source_event_fingerprints res"
    by (rule reconcile_parts [OF r], rule reconcile_parts [OF r']) (use uq in auto)
  then show ?thesis using r' by blast
qed

text \<open>C13. On a valid request \<open>reconcile\<close> returns a result except when a reversal names its source by
  a non-empty list or dictionary: then, and only then, it raises.\<close>

theorem reconcile_raises_iff:
  assumes "valid_request es"
  shows "reconcile H es = Inl TypeError \<longleftrightarrow>
    (\<exists>e \<in> set es. event_type e \<in> {SettlementReversed, RewardReversed} \<and>
      (case pget (payload e) ''source_event_id'' of JList xs \<Rightarrow> xs \<noteq> [] | JObj kvs \<Rightarrow> kvs \<noteq> [] | _ \<Rightarrow> False))"
proof -
  have r: "raises e \<longleftrightarrow> event_type e \<in> {SettlementReversed, RewardReversed} \<and>
      (case pget (payload e) ''source_event_id'' of JList xs \<Rightarrow> xs \<noteq> [] | JObj kvs \<Rightarrow> kvs \<noteq> [] | _ \<Rightarrow> False)" for e
    by (cases "pget (payload e) ''source_event_id''") (auto simp: raises_def)
  have "err = TypeError" for err by (cases err)
  then have "reconcile H es = Inl TypeError \<longleftrightarrow> (\<exists>err. reconcile H es = Inl err)" by auto
  also have "\<dots> \<longleftrightarrow> (\<exists>e \<in> set es. raises e)" by (rule reconcile_raises [OF assms])
  finally show ?thesis by (simp only: r)
qed

section \<open>Witnesses\<close>

definition sample_missing :: "event_envelope list" where
  "sample_missing = [sample_event ''b'' CommitmentConfirmed 2 (Some ''a''), sample_event ''p'' PaymentAuthorized 1 None]"

lemma sample_missing_waits:
  "case reconcile (\<lambda>_. ''h'') sample_missing of Inr res \<Rightarrow> decision res = WAIT_FOR_EVIDENCE | Inl _ \<Rightarrow> False"
  by code_simp

lemma delayed_cancel_auto:
  "case reconcile (\<lambda>_. ''h'') delayed_cancel of Inr res \<Rightarrow> decision res = AUTO \<and> financial_actions res = [delayed_cancel_action] | Inl _ \<Rightarrow> False"
  by code_simp

theorem reconcile_fail_closed_witness:
  "\<exists>res. reconcile (\<lambda>_. ''h'') sample_missing = Inr res \<and> decision res = WAIT_FOR_EVIDENCE \<and> financial_actions res = []"
proof -
  obtain res where "reconcile (\<lambda>_. ''h'') sample_missing = Inr res" "decision res = WAIT_FOR_EVIDENCE"
    using sample_missing_waits by (auto split: sum.splits)
  then show ?thesis using reconcile_fail_closed [of "\<lambda>_. ''h''" sample_missing res] by auto
qed

theorem reconcile_auto_justified_witness:
  "\<exists>res. reconcile (\<lambda>_. ''h'') delayed_cancel = Inr res \<and>
    plan_financial_repairs (fst (unique_by_event_id delayed_cancel)) = (financial_actions res, [])"
proof -
  obtain res where "reconcile (\<lambda>_. ''h'') delayed_cancel = Inr res" "decision res = AUTO"
    using delayed_cancel_auto by (auto split: sum.splits)
  moreover obtain u ds cf where "unique_by_event_id delayed_cancel = (u, ds, cf)" by (metis prod_cases3)
  ultimately show ?thesis using reconcile_auto_justified [of "\<lambda>_. ''h''" delayed_cancel res u ds cf] by auto
qed

lemma delayed_cancel_valid: "valid_request delayed_cancel"
  by code_simp

theorem redelivery_harmless_witness:
  "\<exists>res res'. reconcile (\<lambda>_. ''h'') delayed_cancel = Inr res \<and>
    reconcile (\<lambda>_. ''h'') (delayed_cancel @ [(hd delayed_cancel)\<lparr>received_at := \<lparr>instant = 50, utc_offset = 0\<rparr>\<rparr>]) = Inr res' \<and>
    financial_actions res' = financial_actions res \<and> decision res' = AUTO"
proof -
  obtain res where r: "reconcile (\<lambda>_. ''h'') delayed_cancel = Inr res" "decision res = AUTO"
    using delayed_cancel_auto by (auto split: sum.splits)
  have h: "hd delayed_cancel \<in> set delayed_cancel" "instant (received_at (hd delayed_cancel)) \<le> instant \<lparr>instant = 50, utc_offset = 0\<rparr>"
    by code_simp+
  show ?thesis using redelivery_harmless [OF delayed_cancel_valid h r(1)] r by metis
qed

definition sample_unhashable :: "event_envelope list" where
  "sample_unhashable = [sample_money ''r'' SettlementReversed 1 None [(''source_event_id'', JList [JStr ''x''])]]"

theorem reconcile_raises_iff_witness: "reconcile (\<lambda>_. ''h'') sample_unhashable = Inl TypeError"
proof -
  have "valid_request sample_unhashable" by code_simp
  moreover have "(\<exists>e \<in> set sample_unhashable. event_type e \<in> {SettlementReversed, RewardReversed} \<and>
      (case pget (payload e) ''source_event_id'' of JList xs \<Rightarrow> xs \<noteq> [] | JObj kvs \<Rightarrow> kvs \<noteq> [] | _ \<Rightarrow> False))"
    by code_simp
  ultimately show ?thesis using reconcile_raises_iff by blast
qed

end
