(* ===== verification/Projection.thy ===== *)
theory Projection
  imports Engine
begin

text \<open>
  What the reconciler stores and serves (\<^verbatim>\<open>services/reconciler/app/persistence.py\<close>, the
  handlers of \<^verbatim>\<open>main.py\<close> and \<^verbatim>\<open>tasks.py\<close>, and the advisory reviews of
  \<^verbatim>\<open>ai_review.py\<close>): the archive of raw deliveries, the reconciliation runs, and the
  projection table with the fence of its conditional upsert. A table is a dictionary by its
  primary key; SHA-256 and uuid5 are the parameters \<open>H\<close> and \<open>U\<close>.
\<close>

section \<open>Archive and runs\<close>

definition delivery_id :: "(json \<Rightarrow> string) \<Rightarrow> event_envelope \<Rightarrow> string" where
  "delivery_id H e = H (dumps_tree (JObj
    [(''event_id'', JStr (event_id e)), (''received_at'', iso_text (received_at e)),
     (''event_type'', JStr (event_type_name (event_type e))), (''payload'', JObj (payload e))]))"

text \<open>\<open>$setOnInsert\<close> with \<open>upsert\<close>: the first document of an identity stays.\<close>

definition archive_raw_events ::
  "(json \<Rightarrow> string) \<Rightarrow> event_envelope list \<Rightarrow> (string \<times> event_envelope) list \<Rightarrow> (string \<times> event_envelope) list" where
  "archive_raw_events H events archive =
    fold (\<lambda>e d. if map_of d (delivery_id H e) = None then dput (delivery_id H e) e d else d) events archive"

fun repair_name :: "repair_type \<Rightarrow> string" where
  "repair_name NO_OP_DUPLICATE = ''NO_OP_DUPLICATE''"
| "repair_name REBUILD_PROJECTION = ''REBUILD_PROJECTION''"
| "repair_name REVERSE_SETTLEMENT = ''REVERSE_SETTLEMENT''"
| "repair_name REVERSE_REWARD = ''REVERSE_REWARD''"
| "repair_name RESLOT_REVIEW = ''RESLOT_REVIEW''"
| "repair_name MANUAL_REVIEW = ''MANUAL_REVIEW''"

fun decision_name :: "decision \<Rightarrow> string" where
  "decision_name AUTO = ''AUTO''"
| "decision_name WAIT_FOR_EVIDENCE = ''WAIT_FOR_EVIDENCE''"
| "decision_name DECIDE_MANUAL_REVIEW = ''MANUAL_REVIEW''"

definition snapshot_json :: "snapshot \<Rightarrow> json" where
  "snapshot_json s = JObj
    [(''status'', JStr (status s)), (''payment_authorized'', JBool (payment_authorized s)),
     (''settled'', JBool (settled s)), (''rewarded'', JBool (rewarded s)),
     (''capacity_revision'', JInt (capacity_revision s)),
     (''settlement_post_count'', JInt (settlement_post_count s)),
     (''reward_post_count'', JInt (reward_post_count s))]"

definition action_json :: "financial_repair_action \<Rightarrow> json" where
  "action_json a = JObj
    [(''cancellation_event_id'', JStr (cancellation_event_id a)), (''target_event_id'', JStr (target_event_id a)),
     (''repair'', JStr (repair_name (repair a))), (''amount'', JInt (amount a)), (''unit'', JStr (unit_name (unit a)))]"

definition action_key :: "financial_repair_action \<Rightarrow> string \<times> string \<times> string \<times> int \<times> string" where
  "action_key a = (cancellation_event_id a, target_event_id a, repair_name (repair a), amount a, unit_name (unit a))"

definition strs :: "string list \<Rightarrow> json" where
  "strs xs = JList (map JStr xs)"

definition run_fingerprint :: "(json \<Rightarrow> string) \<Rightarrow> reconcile_result \<Rightarrow> string" where
  "run_fingerprint H res = H (dumps_tree (JObj
    [(''aggregate_id'', JStr (result_aggregate_id res)),
     (''canonical_hash'', JStr (H (dumps_tree (snapshot_json (canonical_state res))))),
     (''anomalies'', strs (anomalies res)),
     (''repairs'', strs (map repair_name (repairs res))),
     (''evidence_event_ids'', strs (evidence_event_ids res)),
     (''source_event_fingerprints'', JObj (map (\<lambda>(k, v). (k, JStr v)) (source_event_fingerprints res))),
     (''financial_actions'', JList (map action_json (sort_key action_key (financial_actions res)))),
     (''decision'', JStr (decision_name (decision res))),
     (''blocking_reasons'', strs (blocking_reasons res)),
     (''missing_event_ids'', strs (missing_event_ids res))]))"

record run_row =
  run_aggregate_id :: string
  run_canonical_hash :: string
  run_anomaly_count :: nat
  run_repair_count :: nat

definition record_reconciliation ::
  "(json \<Rightarrow> string) \<Rightarrow> (string \<Rightarrow> string) \<Rightarrow> reconcile_result \<Rightarrow> (string \<times> run_row) list \<Rightarrow>
    string \<times> (string \<times> run_row) list" where
  "record_reconciliation H U res runs =
    (let run_id = U (''pickup-pact:'' @ run_fingerprint H res)
     in (run_id, if map_of runs run_id = None
           then dput run_id \<lparr>run_aggregate_id = result_aggregate_id res,
             run_canonical_hash = H (dumps_tree (snapshot_json (canonical_state res))),
             run_anomaly_count = length (anomalies res), run_repair_count = length (repairs res)\<rparr> runs
           else runs))"

section \<open>The projection table\<close>

record projection_row =
  row_snapshot :: snapshot
  row_hash :: string
  row_source_ids :: "string list"
  row_fingerprints :: "(string \<times> string) list"
  row_source_count :: nat

type_synonym projection_table = "(string \<times> projection_row) list"

datatype rebuild_error = NotExecutable | StaleProjectionEvidence

text \<open>The \<open>where\<close> clause of the upsert: complete provenance that the new evidence contains.\<close>

definition has_provenance :: "projection_row \<Rightarrow> bool" where
  "has_provenance row \<longleftrightarrow> 0 < row_source_count row \<and> row_source_count row = length (row_source_ids row)
     \<and> (\<forall>i \<in> set (row_source_ids row). map_of (row_fingerprints row) i \<noteq> None)"

definition contained_in :: "projection_row \<Rightarrow> projection_row \<Rightarrow> bool" where
  "contained_in old new \<longleftrightarrow> set (row_source_ids old) \<subseteq> set (row_source_ids new)
     \<and> (\<forall>(k, v) \<in> set (row_fingerprints old). map_of (row_fingerprints new) k = Some v)"

definition projection_of :: "(json \<Rightarrow> string) \<Rightarrow> reconcile_result \<Rightarrow> projection_row" where
  "projection_of H res =
    (let ids = sorted_set (source_event_ids res)
     in \<lparr>row_snapshot = canonical_state res, row_hash = H (dumps_tree (snapshot_json (canonical_state res))),
         row_source_ids = ids, row_fingerprints = sort_key fst (source_event_fingerprints res),
         row_source_count = length ids\<rparr>)"

definition rebuild_projection ::
  "(json \<Rightarrow> string) \<Rightarrow> reconcile_result \<Rightarrow> projection_table \<Rightarrow> rebuild_error + projection_table \<times> projection_row" where
  "rebuild_projection H res table =
    (if decision res \<noteq> AUTO \<or> MANUAL_REVIEW \<in> set (repairs res) then Inl NotExecutable
     else
       (let new = projection_of H res in
        case map_of table (result_aggregate_id res) of
          None \<Rightarrow> Inr (dput (result_aggregate_id res) new table, new)
        | Some old \<Rightarrow>
            if has_provenance old \<and> contained_in old new
            then Inr (dput (result_aggregate_id res) new table, new)
            else Inl StaleProjectionEvidence))"

definition get_projection :: "string \<Rightarrow> projection_table \<Rightarrow> projection_row option" where
  "get_projection aggregate table = map_of table aggregate"

section \<open>The handlers\<close>

datatype api_error = ServerError | UnresolvedEvidence decision "string list" "string list" | StaleEvidence "string list" | NotFound

definition rebuild_projection_api ::
  "(json \<Rightarrow> string) \<Rightarrow> projection_table \<Rightarrow> event_envelope list \<Rightarrow> api_error + projection_table" where
  "rebuild_projection_api H table events =
    (case reconcile H events of Inl _ \<Rightarrow> Inl ServerError
     | Inr res \<Rightarrow>
        if decision res \<noteq> AUTO \<or> MANUAL_REVIEW \<in> set (repairs res)
        then Inl (UnresolvedEvidence (decision res) (blocking_reasons res) (missing_event_ids res))
        else (case rebuild_projection H res table of
            Inl NotExecutable \<Rightarrow> Inl ServerError
          | Inl StaleProjectionEvidence \<Rightarrow> Inl (StaleEvidence (source_event_ids res))
          | Inr (table', _) \<Rightarrow> Inr table'))"

definition projection_api :: "string \<Rightarrow> projection_table \<Rightarrow> api_error + projection_row" where
  "projection_api aggregate table =
    (case get_projection aggregate table of None \<Rightarrow> Inl NotFound | Some row \<Rightarrow> Inr row)"

text \<open>
  The stores behind \<open>reconcile_api\<close> and the Celery task: archive, search index (a list of
  result documents by identity) and runs. Indexing replaces the document of the same identity.
\<close>

record reconciler_store =
  store_archive :: "(string \<times> event_envelope) list"
  store_index :: "(string \<times> reconcile_result) list"
  store_runs :: "(string \<times> run_row) list"

definition index_reconciliation ::
  "(reconcile_result \<Rightarrow> string) \<Rightarrow> reconcile_result \<Rightarrow> (string \<times> reconcile_result) list \<Rightarrow> (string \<times> reconcile_result) list" where
  "index_reconciliation D res index = dput (result_aggregate_id res @ '':'' @ take 24 (D res)) res index"

definition reconcile_api ::
  "(json \<Rightarrow> string) \<Rightarrow> (reconcile_result \<Rightarrow> string) \<Rightarrow> (string \<Rightarrow> string) \<Rightarrow> bool \<Rightarrow> event_envelope list \<Rightarrow>
    reconciler_store \<Rightarrow> py_error + reconcile_result \<times> reconciler_store" where
  "reconcile_api H D U persist events st =
    (case reconcile H events of Inl err \<Rightarrow> Inl err
     | Inr res \<Rightarrow> Inr (res,
         if persist then
           st\<lparr>store_archive := archive_raw_events H events (store_archive st),
              store_index := index_reconciliation D res (store_index st),
              store_runs := snd (record_reconciliation H U res (store_runs st))\<rparr>
         else st))"

definition reconcile_packet ::
  "(json \<Rightarrow> string) \<Rightarrow> (reconcile_result \<Rightarrow> string) \<Rightarrow> (string \<Rightarrow> string) \<Rightarrow> bool \<Rightarrow> event_envelope list \<Rightarrow>
    reconciler_store \<Rightarrow> py_error + reconcile_result \<times> reconciler_store" where
  "reconcile_packet = reconcile_api"

text \<open>
  Advisory reviews. A provider's answer is JSON from outside; \<open>parse_review\<close> keeps the
  evidence ids that the result has. \<open>None\<close>: the answer is not an object, or a listed field
  cannot be iterated, and the call raises.
\<close>

record review =
  rv_summary :: string
  rv_hypotheses :: "string list"
  rv_evidence :: "string list"
  rv_provider :: string

definition offline_review :: "reconcile_result \<Rightarrow> review" where
  "offline_review res =
    \<lparr>rv_summary = str_of_nat (length (anomalies res)) @ '' anomaly(s), ''
        @ str_of_nat (length (repairs res)) @ '' deterministic repair action(s).'',
     rv_hypotheses = (if anomalies res = [] then [''No anomaly detected'']
        else map (\<lambda>a. ''Investigate: '' @ a) (anomalies res)),
     rv_evidence = evidence_event_ids res, rv_provider = ''offline''\<rparr>"

fun list_field :: "json_obj \<Rightarrow> string \<Rightarrow> json list option" where
  "list_field p k = (case map_of p k of None \<Rightarrow> Some []
     | Some (JList xs) \<Rightarrow> Some xs
     | Some (JStr s) \<Rightarrow> Some (map (\<lambda>c. JStr [c]) s)
     | Some (JObj kvs) \<Rightarrow> Some (map (\<lambda>(k, _). JStr k) kvs)
     | Some _ \<Rightarrow> None)"

definition parse_review :: "json \<Rightarrow> reconcile_result \<Rightarrow> string \<Rightarrow> review option" where
  "parse_review answer res provider =
    (case answer of
       JObj p \<Rightarrow>
         (case (list_field p ''evidence_event_ids'', list_field p ''hypotheses'') of
            (Some evs, Some hyps) \<Rightarrow>
              if list_all hashable evs then
                Some \<lparr>rv_summary = py_str (dget (JStr []) p ''summary''),
                  rv_hypotheses = map py_str hyps,
                  rv_evidence = concat (map (\<lambda>e. case e of
                      JStr i \<Rightarrow> if i \<in> set (evidence_event_ids res) then [i] else [] | _ \<Rightarrow> []) evs),
                  rv_provider = provider\<rparr>
              else None
          | _ \<Rightarrow> None)
     | _ \<Rightarrow> None)"

definition provider_from_env :: "string option \<Rightarrow> string" where
  "provider_from_env setting =
    (let name = str_lower (case setting of None \<Rightarrow> ''offline'' | Some s \<Rightarrow> s) in
     if name = ''claude'' then ''claude''
     else if name \<in> {''openai'', ''chatgpt''} then ''openai''
     else if name = ''gemini'' then ''gemini'' else ''offline'')"

section \<open>Provenance of a result\<close>

lemma fingerprints_of:
  assumes "distinct (ids_of u)"
  shows "fold (\<lambda>e. dput (event_id e) (semantic_event_fingerprint H e)) (sort_key event_id u) [] =
    map (\<lambda>e. (event_id e, semantic_event_fingerprint H e)) (sort_key event_id u)"
proof -
  have "distinct (map event_id (sort_key event_id u))"
    using assms by (simp add: distinct_map)
  then show ?thesis using fold_dput_distinct [of "[]" event_id "sort_key event_id u" "semantic_event_fingerprint H"] by simp
qed

lemma reconcile_sources:
  assumes "reconcile H es = Inr res"
  shows "source_event_ids res = sorted_set (ids_of (fst (unique_by_event_id es)))"
    and "source_event_fingerprints res = fold (\<lambda>e. dput (event_id e) (semantic_event_fingerprint H e))
      (sort_key event_id (fst (unique_by_event_id es))) []"
  by (rule reconcile_parts [OF assms]; simp only: fst_conv)+

lemma result_provenance:
  assumes "reconcile H es = Inr res"
  defines "u \<equiv> fst (unique_by_event_id es)"
  shows "set (row_source_ids (projection_of H res)) = set (ids_of es)"
    and "distinct (row_source_ids (projection_of H res))"
    and "distinct (map fst (row_fingerprints (projection_of H res)))"
    and "map_of (row_fingerprints (projection_of H res)) i = Some v \<longleftrightarrow>
      (\<exists>e \<in> set u. event_id e = i \<and> v = semantic_event_fingerprint H e)"
proof -
  have d: "distinct (ids_of u)" and s: "set (ids_of u) = set (ids_of es)" using unique_events [of es] u_def by simp_all
  have src: "source_event_ids res = sorted_set (ids_of u)"
    and fp: "source_event_fingerprints res = map (\<lambda>e. (event_id e, semantic_event_fingerprint H e)) (sort_key event_id u)"
    using reconcile_sources [OF assms(1)] fingerprints_of [OF d, of H] by (simp_all only: u_def)
  show "set (row_source_ids (projection_of H res)) = set (ids_of es)"
    and "distinct (row_source_ids (projection_of H res))"
    using s by (simp_all add: projection_of_def Let_def src)
  have fk: "distinct (map fst (source_event_fingerprints res))"
    using d by (simp add: fp comp_def distinct_map)
  then show dk: "distinct (map fst (row_fingerprints (projection_of H res)))"
    by (simp add: projection_of_def Let_def distinct_map)
  show "map_of (row_fingerprints (projection_of H res)) i = Some v \<longleftrightarrow>
      (\<exists>e \<in> set u. event_id e = i \<and> v = semantic_event_fingerprint H e)"
    unfolding map_of_eq_Some_iff [OF dk] by (auto simp: projection_of_def Let_def fp)
qed

lemma projection_has_provenance:
  assumes "reconcile H es = Inr res" and "es \<noteq> []"
  shows "has_provenance (projection_of H res)"
proof -
  note p = result_provenance [OF assms(1)]
  have "row_source_ids (projection_of H res) \<noteq> []" using p(1) assms(2) by auto
  moreover have "row_source_count (projection_of H res) = length (row_source_ids (projection_of H res))"
    by (simp add: projection_of_def Let_def)
  moreover have "\<exists>e \<in> set (fst (unique_by_event_id es)). event_id e = i" if "i \<in> set (ids_of es)" for i
    using that unique_events(2) [of es] by (metis imageE set_map)
  then have "map_of (row_fingerprints (projection_of H res)) i \<noteq> None" if "i \<in> set (ids_of es)" for i
    using that p(4) by blast
  ultimately show ?thesis using p(1) by (simp add: has_provenance_def)
qed

lemma plan_action_repair:
  assumes "distinct (ids_of es)" and "plan_financial_repairs es = (acts, [])" and "a \<in> set acts"
  shows "repair a \<in> {REVERSE_SETTLEMENT, REVERSE_REWARD}"
proof -
  have "acts \<noteq> []" using assms(3) by auto
  then obtain cancel where "plan_spec es cancel (fst (posting_balances es)) acts"
    using plan_ok [OF assms(1), of acts] assms(2) by blast
  then obtain p n where "map_of (fst (posting_balances es)) (target_event_id a) = Some (p, n, unit a, repair a)"
    using plan_spec_within(1) [OF _ distinct_balances [OF assms(1)] assms(3)] by blast
  then show ?thesis by (rule balance_rule [OF assms(1)]) (auto simp: POSTING_RULES_def)
qed

lemma auto_not_manual:
  assumes "reconcile H es = Inr res" and "decision res = AUTO"
  shows "MANUAL_REVIEW \<notin> set (repairs res)"
  using assms(1)
proof (rule reconcile_parts)
  fix u ds cf rs ra can canom acts fb
  assume u: "unique_by_event_id es = (u, ds, cf)" and p: "plan_financial_repairs u = (acts, fb)"
    and dec: "decision res = decide (fromkeys (manual_reasons cf (causal_order u order_key) u fb canom))
      (missing_ids (causal_order u order_key))"
    and rep: "repairs res = filter (\<lambda>r. r \<in> set (if decision res = AUTO then repair_set ds (rs \<noteq> can) u acts canom
       else filter (\<lambda>r. r = NO_OP_DUPLICATE) (repair_set ds (rs \<noteq> can) u acts canom) @ [MANUAL_REVIEW])) REPAIR_ORDER"
  have "fb = []" using dec assms(2) by (auto simp: manual_reasons_def)
  then have "MANUAL_REVIEW \<notin> repair ` set acts"
    using plan_action_repair [of u acts] p unique_events(1) [of es] u by fastforce
  then show ?thesis using rep assms(2) by (auto simp: repair_set_def split: if_splits)
qed

section \<open>The fence over many rebuilds\<close>

lemma contained_in_refl: "distinct (map fst (row_fingerprints r)) \<Longrightarrow> contained_in r r"
  by (auto simp: contained_in_def)

lemma contained_in_trans:
  assumes "contained_in a b" and "contained_in b c"
  shows "contained_in a c"
  using assms map_of_SomeD by (fastforce simp: contained_in_def)

definition fence_inv :: "string \<Rightarrow> projection_row \<Rightarrow> projection_table \<Rightarrow> bool" where
  "fence_inv a old table \<longleftrightarrow> (\<exists>row. map_of table a = Some row \<and> contained_in old row)"

lemma rebuild_api_success:
  assumes "rebuild_projection_api H table es = Inr table'"
  obtains res where "reconcile H es = Inr res" and "decision res = AUTO"
    and "table' = dput (result_aggregate_id res) (projection_of H res) table"
    and "\<And>old. map_of table (result_aggregate_id res) = Some old \<Longrightarrow>
      has_provenance old \<and> contained_in old (projection_of H res)"
  using assms by (auto simp: rebuild_projection_api_def rebuild_projection_def Let_def
      split: sum.splits if_splits rebuild_error.splits option.splits)

interpretation fence: guarded_steps "rebuild_projection_api H" "fence_inv a old" for H a old
proof
  fix s c t
  assume inv: "fence_inv a old s" and step: "rebuild_projection_api H s c = Inr t"
  from step show "fence_inv a old t"
    by (rule rebuild_api_success) (use inv contained_in_trans in \<open>auto simp: fence_inv_def\<close>)
qed

section \<open>Properties\<close>

text \<open>C14. The projection never loses evidence: whatever rebuild requests arrive in whatever order,
  the row of an aggregate keeps every source identity with the fingerprint it was first
  stored with.\<close>

theorem projection_evidence_monotone:
  assumes "map_of table a = Some old" and "distinct (map fst (row_fingerprints old))"
  shows "\<exists>row. map_of (run (rebuild_projection_api H) table requests) a = Some row \<and>
    set (row_source_ids old) \<subseteq> set (row_source_ids row) \<and>
    (\<forall>i v. map_of (row_fingerprints old) i = Some v \<longrightarrow> map_of (row_fingerprints row) i = Some v)"
proof -
  have "fence_inv a old table" using assms contained_in_refl by (auto simp: fence_inv_def)
  then have "fence_inv a old (run (rebuild_projection_api H) table requests)" by (rule fence.run_inv)
  then show ?thesis using map_of_SomeD by (fastforce simp: fence_inv_def contained_in_def)
qed

text \<open>A rebuild after a rebuild is accepted exactly when its evidence extends the stored one:
  every event selected before is selected again with the same fingerprint.\<close>

theorem rebuild_accepts_extensions:
  assumes "rebuild_projection_api H table es = Inr t1" and "es \<noteq> []"
    and "reconcile H es2 = Inr res2" and "decision res2 = AUTO"
    and "aggregate_id (hd es2) = aggregate_id (hd es)"
  shows "(\<exists>t2. rebuild_projection_api H t1 es2 = Inr t2) \<longleftrightarrow>
    (\<forall>e \<in> set (fst (unique_by_event_id es)). \<exists>e2 \<in> set (fst (unique_by_event_id es2)).
      event_id e2 = event_id e \<and> semantic_event_fingerprint H e2 = semantic_event_fingerprint H e)"
  using assms(1)
proof (rule rebuild_api_success)
  fix res
  assume r: "reconcile H es = Inr res" and t1: "t1 = dput (result_aggregate_id res) (projection_of H res) table"
  have agg: "result_aggregate_id x = aggregate_id (hd ys)" if "reconcile H ys = Inr x" for ys x
    using that by (auto simp: reconcile_def Let_def split: sum.splits prod.splits)
  have t1a: "map_of t1 (aggregate_id (hd es2)) = Some (projection_of H res)"
    using t1 agg [OF r] assms(5) by simp
  have "(\<exists>t2. rebuild_projection_api H t1 es2 = Inr t2) \<longleftrightarrow> contained_in (projection_of H res) (projection_of H res2)"
    using assms(4) auto_not_manual [OF assms(3,4)] agg [OF assms(3)] t1a projection_has_provenance [OF r assms(2)]
    by (simp add: rebuild_projection_api_def assms(3) rebuild_projection_def Let_def split: option.splits)
  also have "\<dots> \<longleftrightarrow> (\<forall>i v. map_of (row_fingerprints (projection_of H res)) i = Some v \<longrightarrow>
      map_of (row_fingerprints (projection_of H res2)) i = Some v)"
    (is "_ \<longleftrightarrow> ?R")
  proof
    assume R: ?R
    have "set (ids_of es) \<subseteq> set (ids_of es2)"
    proof
      fix i
      assume "i \<in> set (ids_of es)"
      then obtain v where "map_of (row_fingerprints (projection_of H res)) i = Some v"
        using projection_has_provenance [OF r assms(2)] result_provenance(1) [OF r] by (auto simp: has_provenance_def)
      then show "i \<in> set (ids_of es2)"
        using R result_provenance(4) [OF assms(3)] unique_events(2) [of es2] by fastforce
    qed
    then show "contained_in (projection_of H res) (projection_of H res2)"
      using R result_provenance(1) [OF r] result_provenance(1) [OF assms(3)] result_provenance(3) [OF r]
      by (auto simp: contained_in_def)
  qed (auto simp: contained_in_def dest: map_of_SomeD)
  also have "\<dots> \<longleftrightarrow> (\<forall>e \<in> set (fst (unique_by_event_id es)). \<exists>e2 \<in> set (fst (unique_by_event_id es2)).
      event_id e2 = event_id e \<and> semantic_event_fingerprint H e2 = semantic_event_fingerprint H e)"
    unfolding result_provenance(4) [OF r] result_provenance(4) [OF assms(3)] by (rule iffI; clarsimp; metis)
  finally show ?thesis .
qed

lemma archive_mono:
  "map_of archive k = Some e \<Longrightarrow> map_of (archive_raw_events H es archive) k = Some e"
proof (induction es arbitrary: archive)
  case (Cons x xs)
  let ?a = "if map_of archive (delivery_id H x) = None then dput (delivery_id H x) x archive else archive"
  have "map_of ?a k = Some e" using Cons.prems by (cases "k = delivery_id H x") auto
  then show ?case using Cons.IH [of ?a] by (simp add: archive_raw_events_def)
qed (simp add: archive_raw_events_def)

lemma archive_covers:
  "e \<in> set es \<Longrightarrow> map_of (archive_raw_events H es archive) (delivery_id H e) \<noteq> None"
proof (induction es arbitrary: archive)
  case (Cons x xs)
  let ?a = "if map_of archive (delivery_id H x) = None then dput (delivery_id H x) x archive else archive"
  have step: "archive_raw_events H (x # xs) archive = archive_raw_events H xs ?a"
    by (simp add: archive_raw_events_def)
  show ?case
  proof (cases "e = x")
    case True
    then obtain y where "map_of ?a (delivery_id H e) = Some y" by (cases "map_of archive (delivery_id H x)") auto
    then show ?thesis using archive_mono [of ?a] step by (metis option.distinct(1))
  next
    case False
    then show ?thesis using Cons.IH [of ?a] Cons.prems step by simp
  qed
qed simp

lemma archive_again:
  "\<forall>e \<in> set es. map_of archive (delivery_id H e) \<noteq> None \<Longrightarrow> archive_raw_events H es archive = archive"
  by (induction es) (auto simp: archive_raw_events_def)

text \<open>Storing a request twice changes nothing the second time: the archive has a document for
  every delivery of the request and keeps the documents it had, and the archive and the
  reconciliation runs are the same after a retry, under the same run identity.\<close>

theorem storing_is_idempotent:
  "(\<forall>e \<in> set es. map_of (archive_raw_events H es a) (delivery_id H e) \<noteq> None) \<and>
    (\<forall>k d. map_of a k = Some d \<longrightarrow> map_of (archive_raw_events H es a) k = Some d) \<and>
    archive_raw_events H es (archive_raw_events H es a) = archive_raw_events H es a \<and>
    record_reconciliation H U res (snd (record_reconciliation H U res runs)) = record_reconciliation H U res runs"
proof -
  have "record_reconciliation H U res (snd (record_reconciliation H U res runs)) = record_reconciliation H U res runs"
    by (auto simp: record_reconciliation_def Let_def)
  then show ?thesis
    using archive_covers archive_mono archive_again [of es "archive_raw_events H es a" H] by blast
qed

text \<open>An advisory review never cites evidence outside the result, whatever the provider answers.\<close>

theorem advisory_evidence_bounded:
  assumes "parse_review answer res provider = Some rv"
  shows "set (rv_evidence rv) \<subseteq> set (evidence_event_ids res)"
  using assms by (auto simp: parse_review_def split: json.splits option.splits prod.splits if_splits)

section \<open>Witnesses\<close>

definition sample_row :: projection_row where
  "sample_row = \<lparr>row_snapshot = initial_snapshot, row_hash = ''h'', row_source_ids = [''e''],
     row_fingerprints = [(''e'', ''f'')], row_source_count = 1\<rparr>"

theorem projection_evidence_monotone_witness:
  "\<exists>row. map_of (run (rebuild_projection_api (\<lambda>_. ''h'')) [(''o'', sample_row)] [delayed_cancel, sample_missing]) ''o'' = Some row \<and>
    map_of (row_fingerprints row) ''e'' = Some ''f''"
  using projection_evidence_monotone [of "[(''o'', sample_row)]" "''o''" sample_row "\<lambda>_. ''h''" "[delayed_cancel, sample_missing]"]
  by (force simp: sample_row_def)

theorem storing_is_idempotent_witness:
  "map_of (archive_raw_events (\<lambda>_. ''h'') delayed_cancel []) ''h'' \<noteq> None"
proof -
  have "\<forall>e \<in> set delayed_cancel. map_of (archive_raw_events (\<lambda>_. ''h'') delayed_cancel []) (delivery_id (\<lambda>_. ''h'') e) \<noteq> None"
    using storing_is_idempotent by blast
  moreover have "hd delayed_cancel \<in> set delayed_cancel" by (simp add: delayed_cancel_def)
  ultimately show ?thesis by (simp only: delivery_id_def) blast
qed

theorem advisory_evidence_bounded_witness:
  "\<exists>res rv. parse_review (JObj [(''evidence_event_ids'', JList [JStr ''made-up''])]) res ''claude'' = Some rv \<and>
    ''made-up'' \<notin> set (evidence_event_ids res) \<and> rv_evidence rv = []"
proof -
  obtain res where "reconcile (\<lambda>_. ''h'') delayed_cancel = Inr res"
    using delayed_cancel_auto by (auto split: sum.splits)
  let ?res = "res\<lparr>evidence_event_ids := [''real'']\<rparr>"
  let ?a = "JObj [(''evidence_event_ids'', JList [JStr ''made-up''])]"
  obtain rv where rv: "parse_review ?a ?res ''claude'' = Some rv" "rv_evidence rv = []"
    by (simp add: parse_review_def)
  moreover have "set (rv_evidence rv) \<subseteq> set (evidence_event_ids ?res)"
    by (rule advisory_evidence_bounded [OF rv(1)])
  moreover have "''made-up'' \<notin> set (evidence_event_ids ?res)" by simp
  ultimately show ?thesis by blast
qed

end
