(* ===== verification/Review_Store.thy ===== *)
theory Review_Store
  imports Projection
begin

text \<open>
  The durable review records (\<^verbatim>\<open>services/reconciler/app/repair_review_store.py\<close>): sessions
  with their evidence, saved plans, recorded effects and the audit trail, and the four write
  operations \<open>create\<close>, \<open>simulate\<close>, \<open>preview\<close> and \<open>approve\<close>. One operation is one transaction:
  an error leaves the store as it was. Fresh identities (uuid4) and the current time are
  arguments, the digest is the parameter \<open>H\<close>.
\<close>

section \<open>The model\<close>

datatype review_error = ReviewConflict string | KeyError string | SampleValueError string
  | IntegrityError | EvaluationError

text \<open>\<open>canonical\<close>: compact JSON text with sorted keys.\<close>

definition json_escape :: "char \<Rightarrow> string" where
  "json_escape c =
    (if c = CHR 0x22 \<or> c = CHR 0x5C then [CHR 0x5C, c]
     else if (of_char c :: nat) < 32 then
       [CHR 0x5C, CHR ''u'', CHR ''0'', CHR ''0'', hex_digit (of_char c div 16), hex_digit (of_char c mod 16)]
     else [c])"

definition json_quote :: "string \<Rightarrow> string" where
  "json_quote s = [CHR 0x22] @ concat (map json_escape s) @ [CHR 0x22]"

definition join_with :: "char \<Rightarrow> string list \<Rightarrow> string" where
  "join_with sep xs = (case xs of [] \<Rightarrow> [] | y # ys \<Rightarrow> y @ concat (map (\<lambda>z. sep # z) ys))"

fun json_text :: "json \<Rightarrow> string" where
  "json_text JNull = ''null''"
| "json_text (JBool b) = (if b then ''true'' else ''false'')"
| "json_text (JInt n) = str_of_int n"
| "json_text (JFloat _ t) = t"
| "json_text (JStr s) = json_quote s"
| "json_text (JList xs) = ''['' @ join_with (CHR '','') (map json_text xs) @ '']''"
| "json_text (JObj kvs) =
    ''{'' @ join_with (CHR '','') (map (\<lambda>(k, v). json_quote k @ '':'' @ json_text v) kvs) @ ''}''"

definition canonical :: "json \<Rightarrow> string" where
  "canonical v = json_text (dumps_tree v)"

text \<open>
  The text determines the tree it prints, so a digest of the text is a digest of the tree, and
  two texts are compared by their trees.
\<close>

definition digest :: "(json \<Rightarrow> string) \<Rightarrow> json \<Rightarrow> string" where
  "digest H v = H (dumps_tree v)"

subsection \<open>Sample evidence\<close>

definition SAMPLE_BASE :: int where
  "SAMPLE_BASE = 1790121600 * 1000000"

definition utc :: "int \<Rightarrow> aware_datetime" where
  "utc t = \<lparr>instant = t, utc_offset = 0\<rparr>"

definition ev :: "string \<Rightarrow> event_type \<Rightarrow> int \<Rightarrow> string option \<Rightarrow> json_obj \<Rightarrow> int option \<Rightarrow> event_envelope" where
  "ev i kind secs cause p received =
    \<lparr>event_id = i, aggregate_id = ''sample-order'', event_type = kind,
     occurred_at = utc (SAMPLE_BASE + secs * 1000000),
     received_at = utc (SAMPLE_BASE + (case received of None \<Rightarrow> secs | Some r \<Rightarrow> r) * 1000000),
     correlation_id = None, causation_id = cause, schema_version = 1, payload = p\<rparr>"

definition sample_root :: "event_envelope list" where
  "sample_root = [ev ''hold'' PickupSlotHeld 0 None [] None, ev ''pay'' PaymentAuthorized 1 (Some ''hold'') [] None,
     ev ''confirm'' CommitmentConfirmed 2 (Some ''pay'') [] None]"

definition sample_cancel :: event_envelope where
  "sample_cancel = ev ''cancel'' CommitmentCancelled 3 (Some ''confirm'') [(''scope'', JStr ''FULL'')] (Some 20)"

definition sample_post :: event_envelope where
  "sample_post = ev ''settle'' SettlementPosted 4 (Some ''cancel'')
     [(''amount'', JStr ''9000''), (''currency'', JStr ''KRW'')] None"

definition sample_reward :: event_envelope where
  "sample_reward = ev ''reward'' RewardGranted 5 (Some ''cancel'')
     [(''amount'', JStr ''90''), (''currency'', JStr ''PTS''), (''source'', JStr ''order_reward'')] None"

definition sample_events :: "string \<Rightarrow> review_error + event_envelope list" where
  "sample_events case_name =
    (if case_name = ''normal'' then Inr sample_root
     else if case_name = ''delayed_cancel'' then Inr (sample_root @ [sample_cancel, sample_post, sample_reward])
     else if case_name = ''conflicting_identity'' then
       Inr (sample_root @ [sample_cancel, sample_post,
         sample_post\<lparr>payload := [(''amount'', JStr ''1''), (''currency'', JStr ''KRW'')]\<rparr>])
     else if case_name = ''terminal_conflict'' then
       Inr (sample_root @ [sample_cancel, sample_post, ev ''claim'' PickupClaimed 6 (Some ''confirm'') [] None])
     else if case_name = ''missing_parent'' then
       Inr (sample_root @ [sample_cancel, sample_post\<lparr>causation_id := Some ''late''\<rparr>])
     else if case_name = ''partial_cancel'' then
       Inr (sample_root @
         [ev ''partial-cancel'' PartialCancellationApplied 3 (Some ''confirm'')
            [(''scope'', JStr ''PARTIAL''), (''amount'', JStr ''3000''),
             (''allocations'', JList [JObj [(''target_event_id'', JStr ''settle''), (''amount'', JStr ''3000''), (''unit'', JStr ''KRW'')]])]
            (Some 20),
          sample_post\<lparr>causation_id := Some ''partial-cancel''\<rparr>,
          sample_reward\<lparr>causation_id := Some ''confirm''\<rparr>])
     else if case_name = ''multiple_postings'' then
       Inr (sample_root @ [sample_cancel, sample_post,
         ev ''settle2'' SettlementPosted 6 (Some ''cancel'') [(''amount'', JStr ''2000''), (''currency'', JStr ''KRW'')] None])
     else Inl (SampleValueError ''unknown sample case''))"

subsection \<open>Tables\<close>

record review_action =
  act_id :: string
  act :: financial_repair_action

record session_row =
  ss_version :: int
  ss_case :: string

record event_row =
  er_session :: string
  er_event_id :: string
  er_hash :: string
  er_envelope :: event_envelope

record plan_row =
  pl_session :: string
  pl_version :: int
  pl_hash :: string
  pl_actions :: "review_action list"
  pl_applied :: bool

record effect_row =
  ef_session :: string
  ef_action :: review_action

record review_store =
  rs_sessions :: "(string \<times> session_row) list"
  rs_events :: "event_row list"
  rs_plans :: "(string \<times> plan_row) list"
  rs_effects :: "effect_row list"
  rs_audit :: "(string \<times> string \<times> string) list"

definition audit :: "string \<Rightarrow> string \<Rightarrow> string \<Rightarrow> review_store \<Rightarrow> review_store" where
  "audit sid action detail st = st\<lparr>rs_audit := rs_audit st @ [(sid, action, detail)]\<rparr>"

definition event_rows :: "review_store \<Rightarrow> string \<Rightarrow> event_row list" where
  "event_rows st sid = sort_key (\<lambda>r. (er_event_id r, er_hash r)) (filter (\<lambda>r. er_session r = sid) (rs_events st))"

definition events_of :: "review_store \<Rightarrow> string \<Rightarrow> event_envelope list" where
  "events_of st sid = map er_envelope (event_rows st sid)"

definition has_event :: "review_store \<Rightarrow> string \<Rightarrow> string \<Rightarrow> string \<Rightarrow> bool" where
  "has_event st sid i h = list_ex (\<lambda>r. er_session r = sid \<and> er_event_id r = i \<and> er_hash r = h) (rs_events st)"

definition insert_event :: "(json \<Rightarrow> string) \<Rightarrow> string \<Rightarrow> event_envelope \<Rightarrow> review_store \<times> nat \<Rightarrow> review_store \<times> nat" where
  "insert_event H sid e acc = (case acc of (st, added) \<Rightarrow>
     let h = digest H (semantic_payload e) in
     if has_event st sid (event_id e) h then (st, added)
     else (st\<lparr>rs_events := rs_events st @ [\<lparr>er_session = sid, er_event_id = event_id e, er_hash = h, er_envelope = e\<rparr>]\<rparr>,
           added + 1))"

definition add_events :: "(json \<Rightarrow> string) \<Rightarrow> string \<Rightarrow> event_envelope list \<Rightarrow> review_store \<Rightarrow> review_store \<times> nat" where
  "add_events H sid events st =
    (case fold (insert_event H sid) events (st, 0) of (st1, added) \<Rightarrow>
       (if added \<noteq> 0 then
          (case map_of (rs_sessions st1) sid of None \<Rightarrow> st1
           | Some row \<Rightarrow> st1\<lparr>rs_sessions := dput sid (row\<lparr>ss_version := ss_version row + 1\<rparr>) (rs_sessions st1)\<rparr>)
        else st1, added))"

record review_view =
  vw_version :: int
  vw_case :: string
  vw_hash :: string
  vw_events :: "event_envelope list"
  vw_evaluation :: reconcile_result

definition view :: "(json \<Rightarrow> string) \<Rightarrow> review_store \<Rightarrow> string \<Rightarrow> review_error + review_view" where
  "view H st sid =
    (case map_of (rs_sessions st) sid of None \<Rightarrow> Inl (KeyError ''session not found'')
     | Some row \<Rightarrow>
        (case reconcile H (events_of st sid) of Inl _ \<Rightarrow> Inl EvaluationError
         | Inr res \<Rightarrow> Inr \<lparr>vw_version = ss_version row, vw_case = ss_case row,
             vw_hash = digest H (JList (sort_key canonical (map semantic_payload (events_of st sid)))),
             vw_events = events_of st sid, vw_evaluation = res\<rparr>))"

subsection \<open>Operations\<close>

definition create :: "(json \<Rightarrow> string) \<Rightarrow> string \<Rightarrow> string \<Rightarrow> review_store \<Rightarrow> review_error + review_view \<times> review_store" where
  "create H case_name sid st =
    (case sample_events case_name of Inl err \<Rightarrow> Inl err
     | Inr events \<Rightarrow>
        if 1000 \<le> length (rs_sessions st)
        then Inl (ReviewConflict ''local session capacity reached; use a fresh local database'')
        else if map_of (rs_sessions st) sid \<noteq> None then Inl IntegrityError
        else
          (let st1 = st\<lparr>rs_sessions := dput sid \<lparr>ss_version = 0, ss_case = case_name\<rparr> (rs_sessions st)\<rparr>;
               st2 = audit sid ''SAMPLE_CREATED'' case_name (fst (add_events H sid events st1))
           in case view H st2 sid of Inl err \<Rightarrow> Inl err | Inr v \<Rightarrow> Inr (v, st2)))"

definition get_session :: "(json \<Rightarrow> string) \<Rightarrow> string \<Rightarrow> review_store \<Rightarrow> review_error + review_view" where
  "get_session H sid st = view H st sid"

definition simulated_arrival :: "string \<Rightarrow> string \<Rightarrow> event_envelope \<Rightarrow> int \<Rightarrow> review_error + event_envelope" where
  "simulated_arrival action case_name posting now =
    (if action = ''redeliver'' then Inr (posting\<lparr>received_at := utc now\<rparr>)
     else if action = ''conflict'' then
       Inr (posting\<lparr>payload := [(''amount'', JStr ''1''), (''currency'', JStr ''KRW'')], received_at := utc now\<rparr>)
     else if action = ''deliver_missing'' then
       (if case_name \<noteq> ''missing_parent'' then Inl (ReviewConflict ''no delayed sample evidence'')
        else Inr \<lparr>event_id = ''late'', aggregate_id = ''sample-order'', event_type = CapacityRevised,
          occurred_at = utc (instant (occurred_at posting) - 1), received_at = utc now,
          correlation_id = None, causation_id = Some ''cancel'', schema_version = 1,
          payload = [(''revision'', JInt 1)]\<rparr>)
     else Inl (ReviewConflict ''unsupported simulation''))"

definition simulate ::
  "(json \<Rightarrow> string) \<Rightarrow> string \<Rightarrow> string \<Rightarrow> int \<Rightarrow> review_store \<Rightarrow> review_error + review_view \<times> review_store" where
  "simulate H sid action now st =
    (case view H st sid of Inl err \<Rightarrow> Inl err
     | Inr v \<Rightarrow>
        if 200 \<le> length (filter (\<lambda>(s, _). s = sid) (rs_audit st))
        then Inl (ReviewConflict ''sample action limit reached'')
        else
          (case List.find (\<lambda>e. event_type e = SettlementPosted) (events_of st sid) of
             None \<Rightarrow> Inl (ReviewConflict ''this sample has no settlement event'')
           | Some posting \<Rightarrow>
              (case simulated_arrival action (vw_case v) posting now of Inl err \<Rightarrow> Inl err
               | Inr arriving \<Rightarrow>
                  (case add_events H sid [arriving] st of (st1, added) \<Rightarrow>
                     (let st2 = audit sid ''EVIDENCE_RECEIVED''
                            (action @ ''; new_semantic_events='' @ str_of_nat added) st1
                      in case view H st2 sid of Inl err \<Rightarrow> Inl err | Inr v2 \<Rightarrow> Inr (v2, st2))))))"

definition action_data :: "financial_repair_action \<Rightarrow> json_obj" where
  "action_data a =
    [(''cancellation_event_id'', JStr (cancellation_event_id a)), (''target_event_id'', JStr (target_event_id a)),
     (''repair'', JStr (repair_name (repair a))), (''amount'', JInt (amount a)), (''unit'', JStr (unit_name (unit a)))]"

definition review_action_of :: "(json \<Rightarrow> string) \<Rightarrow> string \<Rightarrow> financial_repair_action \<Rightarrow> review_action" where
  "review_action_of H sid a = \<lparr>act_id = digest H (JObj ((''session'', JStr sid) # action_data a)), act = a\<rparr>"

text \<open>\<open>accounting_amount(action['amount'])\<close> re-checks the amount; a failure is a ValueError.\<close>

definition actions_of_view ::
  "(json \<Rightarrow> string) \<Rightarrow> string \<Rightarrow> review_view \<Rightarrow> review_error + review_action list" where
  "actions_of_view H sid v =
    (let res = vw_evaluation v in
     if decision res \<noteq> AUTO \<or> MANUAL_REVIEW \<in> set (repairs res)
     then Inl (ReviewConflict ''evidence is not executable'')
     else if list_ex (\<lambda>a. \<not> is_ok (accounting_amount (JInt (amount a)))) (financial_actions res)
     then Inl (SampleValueError ''invalid accounting amount'')
     else if financial_actions res = [] then Inl (ReviewConflict ''no financial correction is required'')
     else Inr (map (review_action_of H sid) (financial_actions res)))"

definition actions_json :: "review_action list \<Rightarrow> json" where
  "actions_json as = JList (map (\<lambda>a. JObj ((''action_id'', JStr (act_id a)) # action_data (act a))) as)"

definition preview ::
  "(json \<Rightarrow> string) \<Rightarrow> string \<Rightarrow> int \<Rightarrow> string \<Rightarrow> review_store \<Rightarrow> review_error + plan_row \<times> review_store" where
  "preview H sid version pid st =
    (case view H st sid of Inl err \<Rightarrow> Inl err
     | Inr v \<Rightarrow>
        if version \<noteq> vw_version v then Inl (ReviewConflict ''stale evidence version; refresh first'')
        else if 100 \<le> length (filter (\<lambda>(_, p). pl_session p = sid) (rs_plans st))
        then Inl (ReviewConflict ''sample plan limit reached'')
        else
          (case actions_of_view H sid v of Inl err \<Rightarrow> Inl err
           | Inr actions \<Rightarrow>
              if map_of (rs_plans st) pid \<noteq> None then Inl IntegrityError
              else
                (let plan = \<lparr>pl_session = sid, pl_version = version, pl_hash = vw_hash v,
                       pl_actions = actions, pl_applied = False\<rparr>
                 in Inr (plan, audit sid ''PLAN_CREATED'' pid (st\<lparr>rs_plans := dput pid plan (rs_plans st)\<rparr>)))))"

text \<open>One effect row; the two uniqueness constraints of the table raise.\<close>

definition insert_effect :: "string \<Rightarrow> review_action \<Rightarrow> review_store \<Rightarrow> review_error + review_store" where
  "insert_effect sid a st =
    (if list_ex (\<lambda>f. ef_session f = sid \<and>
          (act_id (ef_action f) = act_id a
           \<or> (target_event_id (act (ef_action f)) = target_event_id (act a) \<and> repair (act (ef_action f)) = repair (act a))))
        (rs_effects st)
     then Inl IntegrityError
     else Inr (st\<lparr>rs_effects := rs_effects st @ [\<lparr>ef_session = sid, ef_action = a\<rparr>]\<rparr>))"

fun insert_effects :: "string \<Rightarrow> review_action list \<Rightarrow> review_store \<Rightarrow> review_error + review_store" where
  "insert_effects sid [] st = Inr st"
| "insert_effects sid (a # as) st =
    (case insert_effect sid a st of Inl err \<Rightarrow> Inl err | Inr st1 \<Rightarrow> insert_effects sid as st1)"

definition reversal_event :: "int \<Rightarrow> int \<Rightarrow> review_action \<Rightarrow> event_envelope" where
  "reversal_event observed now a =
    \<lparr>event_id = ''simulated-'' @ act_id a, aggregate_id = ''sample-order'',
     event_type = (if repair (act a) = REVERSE_SETTLEMENT then SettlementReversed else RewardReversed),
     occurred_at = utc observed, received_at = utc now, correlation_id = None,
     causation_id = Some (target_event_id (act a)), schema_version = 1,
     payload = [(''amount'', JStr (str_of_int (amount (act a)))), (''currency'', JStr (unit_name (unit (act a)))),
       (''cancellation_event_id'', JStr (cancellation_event_id (act a))), (''simulation'', JBool True)]\<rparr>"

definition max_instant :: "event_envelope list \<Rightarrow> int" where
  "max_instant events = (case map (\<lambda>e. instant (occurred_at e)) events of [] \<Rightarrow> 0 | t # ts \<Rightarrow> foldl max t ts)"

definition approve ::
  "(json \<Rightarrow> string) \<Rightarrow> string \<Rightarrow> string \<Rightarrow> int \<Rightarrow> string \<Rightarrow> json \<Rightarrow> int \<Rightarrow> review_store \<Rightarrow>
    review_error + (bool \<times> review_view) \<times> review_store" where
  "approve H sid pid version evidence_hash actions now st =
    (case map_of (rs_plans st) pid of None \<Rightarrow> Inl (KeyError ''plan not found'')
     | Some plan \<Rightarrow>
        if pl_session plan \<noteq> sid then Inl (KeyError ''plan not found'')
        else if version \<noteq> pl_version plan \<or> evidence_hash \<noteq> pl_hash plan
          \<or> dumps_tree actions \<noteq> dumps_tree (actions_json (pl_actions plan))
        then Inl (ReviewConflict ''approval does not match the saved plan'')
        else if pl_applied plan then
          (case view H st sid of Inl err \<Rightarrow> Inl err | Inr v \<Rightarrow> Inr ((True, v), st))
        else
          (case view H st sid of Inl err \<Rightarrow> Inl err
           | Inr v \<Rightarrow>
              if version \<noteq> vw_version v \<or> evidence_hash \<noteq> vw_hash v
              then Inl (ReviewConflict ''stale plan; evidence has changed'')
              else
                (case actions_of_view H sid v of Inl err \<Rightarrow> Inl err
                 | Inr current \<Rightarrow>
                    if dumps_tree (actions_json current) \<noteq> dumps_tree (actions_json (pl_actions plan))
                    then Inl (ReviewConflict ''current evidence no longer authorizes the plan'')
                    else
                      (let observed = max now (max_instant (events_of st sid) + 1) in
                       case insert_effects sid (pl_actions plan) st of Inl err \<Rightarrow> Inl err
                       | Inr st1 \<Rightarrow>
                          (let st2 = fst (add_events H sid (map (reversal_event observed now) (pl_actions plan)) st1);
                               st3 = audit sid ''SIMULATED_CORRECTION_RECORDED'' pid
                                 (st2\<lparr>rs_plans := dput pid (plan\<lparr>pl_applied := True\<rparr>) (rs_plans st2)\<rparr>)
                           in case view H st3 sid of Inl err \<Rightarrow> Inl err | Inr v3 \<Rightarrow> Inr ((False, v3), st3))))))"

section \<open>What the operations leave alone\<close>

lemma insert_event_frame:
  "rs_plans (fst (insert_event H sid e acc)) = rs_plans (fst acc)"
  "rs_effects (fst (insert_event H sid e acc)) = rs_effects (fst acc)"
  "rs_sessions (fst (insert_event H sid e acc)) = rs_sessions (fst acc)"
  by (auto simp: insert_event_def Let_def split: prod.splits)

lemma fold_insert_frame:
  "rs_plans (fst (fold (insert_event H sid) es acc)) = rs_plans (fst acc)"
  "rs_effects (fst (fold (insert_event H sid) es acc)) = rs_effects (fst acc)"
  "rs_sessions (fst (fold (insert_event H sid) es acc)) = rs_sessions (fst acc)"
  by (induction es arbitrary: acc) (simp_all add: insert_event_frame)

lemma add_events_frame [simp]:
  "rs_plans (fst (add_events H sid es st)) = rs_plans st"
  "rs_effects (fst (add_events H sid es st)) = rs_effects st"
  using fold_insert_frame(1,2) [of H sid es "(st, 0)"]
  by (auto simp: add_events_def split: prod.splits option.splits)

lemma audit_frame [simp]:
  "rs_plans (audit sid a d st) = rs_plans st" "rs_effects (audit sid a d st) = rs_effects st"
  "rs_sessions (audit sid a d st) = rs_sessions st" "rs_events (audit sid a d st) = rs_events st"
  by (simp_all add: audit_def)

lemma events_of_frame [simp]:
  "events_of (audit sid a d st) s = events_of st s" "events_of (st\<lparr>rs_plans := ps\<rparr>) s = events_of st s"
  "events_of (st\<lparr>rs_effects := fs\<rparr>) s = events_of st s"
  by (simp_all add: events_of_def event_rows_def audit_def)

definition effect_target :: "effect_row \<Rightarrow> string \<times> string \<times> repair_type" where
  "effect_target f = (ef_session f, target_event_id (act (ef_action f)), repair (act (ef_action f)))"

definition effect_key :: "effect_row \<Rightarrow> string \<times> string" where
  "effect_key f = (ef_session f, act_id (ef_action f))"

definition effects_once :: "review_store \<Rightarrow> bool" where
  "effects_once st \<longleftrightarrow> distinct (map effect_target (rs_effects st)) \<and> distinct (map effect_key (rs_effects st))"

lemma insert_effects_Inr:
  "insert_effects sid as st = Inr st' \<Longrightarrow>
    st' = st\<lparr>rs_effects := rs_effects st @ map (\<lambda>a. \<lparr>ef_session = sid, ef_action = a\<rparr>) as\<rparr> \<and>
    (effects_once st \<longrightarrow> effects_once st')"
proof (induction as arbitrary: st)
  case (Cons a as)
  then obtain st1 where st1: "insert_effect sid a st = Inr st1" and rest: "insert_effects sid as st1 = Inr st'"
    by (auto split: sum.splits)
  have eq: "st1 = st\<lparr>rs_effects := rs_effects st @ [\<lparr>ef_session = sid, ef_action = a\<rparr>]\<rparr>"
    and once: "effects_once st \<Longrightarrow> effects_once st1"
    using st1 by (auto simp: insert_effect_def effects_once_def effect_target_def effect_key_def list_ex_iff split: if_splits) blast+
  show ?case using Cons.IH [OF rest] eq once by auto
qed simp

section \<open>Runs of operations\<close>

datatype review_command =
    Create string string
  | Simulate string string int
  | Preview string int string
  | Approve string string int string json int

definition review_step :: "(json \<Rightarrow> string) \<Rightarrow> review_store \<Rightarrow> review_command \<Rightarrow> review_error + review_store" where
  "review_step H st c = (case c of
     Create case_name sid \<Rightarrow> map_sum id snd (create H case_name sid st)
   | Simulate sid action now \<Rightarrow> map_sum id snd (simulate H sid action now st)
   | Preview sid version pid \<Rightarrow> map_sum id snd (preview H sid version pid st)
   | Approve sid pid version h actions now \<Rightarrow> map_sum id snd (approve H sid pid version h actions now st))"

lemma create_frame:
  "create H c sid st = Inr (v, st') \<Longrightarrow> rs_plans st' = rs_plans st \<and> rs_effects st' = rs_effects st"
  by (auto simp: create_def Let_def split: sum.splits if_splits)

lemma simulate_frame:
  assumes "simulate H sid a now st = Inr (v, st')"
  shows "rs_plans st' = rs_plans st \<and> rs_effects st' = rs_effects st"
proof -
  obtain arr st1 n where "add_events H sid [arr] st = (st1, n)"
    and st': "st' = audit sid ''EVIDENCE_RECEIVED'' (a @ ''; new_semantic_events='' @ str_of_nat n) st1"
    using assms by (auto simp: simulate_def Let_def split: sum.splits if_splits option.splits prod.splits)
  then have "st1 = fst (add_events H sid [arr] st)" by simp
  then show ?thesis using st' by simp
qed

lemma preview_frame:
  assumes "preview H sid ver pid st = Inr (p, st')"
  shows "map_of (rs_plans st) pid = None \<and> rs_plans st' = dput pid p (rs_plans st) \<and> rs_effects st' = rs_effects st"
  using assms by (auto simp: preview_def Let_def split: sum.splits if_splits)

text \<open>An approval either answers with a duplicate and changes nothing, or applies the saved plan.\<close>

lemma approve_cases:
  assumes "approve H sid pid ver h actions now st = Inr ((dup, v'), st')"
  obtains plan where "map_of (rs_plans st) pid = Some plan" and "pl_session plan = sid" and "dup"
    and "pl_applied plan" and "st' = st"
  | plan v current st1 where "map_of (rs_plans st) pid = Some plan" and "pl_session plan = sid" and "\<not> dup"
    and "\<not> pl_applied plan" and "view H st sid = Inr v" and "actions_of_view H sid v = Inr current"
    and "dumps_tree (actions_json current) = dumps_tree (actions_json (pl_actions plan))"
    and "insert_effects sid (pl_actions plan) st = Inr st1"
    and "st' = audit sid ''SIMULATED_CORRECTION_RECORDED'' pid
       ((fst (add_events H sid (map (reversal_event (max now (max_instant (events_of st sid) + 1)) now) (pl_actions plan)) st1))
          \<lparr>rs_plans := dput pid (plan\<lparr>pl_applied := True\<rparr>) (rs_plans st)\<rparr>)"
    and "view H st' sid = Inr v'"
proof -
  obtain plan where p: "map_of (rs_plans st) pid = Some plan" "pl_session plan = sid"
    and args: "ver = pl_version plan" "h = pl_hash plan" "dumps_tree actions = dumps_tree (actions_json (pl_actions plan))"
    using assms by (auto simp: approve_def split: option.splits if_splits)
  show thesis
  proof (cases "pl_applied plan")
    case True
    then show thesis using assms p args that(1) by (auto simp: approve_def split: sum.splits)
  next
    case False
    obtain v where v: "view H st sid = Inr v"
      using assms p args False by (auto simp: approve_def split: sum.splits)
    obtain current where c: "actions_of_view H sid v = Inr current"
      and eq: "dumps_tree (actions_json current) = dumps_tree (actions_json (pl_actions plan))"
      using assms p args False v by (auto simp: approve_def split: sum.splits if_splits)
    obtain st1 where s: "insert_effects sid (pl_actions plan) st = Inr st1"
      using assms p args False v c by (auto simp: approve_def Let_def split: sum.splits if_splits)
    have "rs_plans st1 = rs_plans st" using insert_effects_Inr [OF s] by simp
    then show thesis
      using assms p args False v c eq s
      by (intro that(2) [OF p _ False v c eq s]) (auto simp: approve_def Let_def split: sum.splits if_splits)
  qed
qed

section \<open>Invariants of every reachable store\<close>

text \<open>
  Every simulated reversal in evidence has its effect row, and a row's event column is the
  identity of its envelope.
\<close>

definition simulated_known :: "review_store \<Rightarrow> bool" where
  "simulated_known st \<longleftrightarrow> (\<forall>r \<in> set (rs_events st). \<forall>x. event_id (er_envelope r) = ''simulated-'' @ x \<longrightarrow>
     (\<exists>f \<in> set (rs_effects st). effect_key f = (er_session r, x)))"

definition rows_keyed :: "review_store \<Rightarrow> bool" where
  "rows_keyed st \<longleftrightarrow> (\<forall>r \<in> set (rs_events st). er_event_id r = event_id (er_envelope r))"

definition review_inv :: "review_store \<Rightarrow> bool" where
  "review_inv st \<longleftrightarrow> effects_once st \<and> simulated_known st \<and> rows_keyed st"

definition new_rows :: "(json \<Rightarrow> string) \<Rightarrow> string \<Rightarrow> event_envelope list \<Rightarrow> event_row list" where
  "new_rows H sid es = map (\<lambda>e. \<lparr>er_session = sid, er_event_id = event_id e,
     er_hash = digest H (semantic_payload e), er_envelope = e\<rparr>) es"

lemma fold_insert_rows:
  "\<exists>es'. rs_events (fst (fold (insert_event H sid) es acc)) = rs_events (fst acc) @ new_rows H sid es' \<and> set es' \<subseteq> set es"
proof (induction es arbitrary: acc)
  case (Cons e es)
  obtain st n where acc: "acc = (st, n)" by (cases acc)
  obtain xs where xs: "rs_events (fst (insert_event H sid e acc)) = rs_events st @ new_rows H sid xs" "set xs \<subseteq> {e}"
  proof (cases "has_event st sid (event_id e) (digest H (semantic_payload e))")
    case True
    then show thesis using that [of "[]"] by (simp add: insert_event_def acc new_rows_def Let_def)
  next
    case False
    then show thesis using that [of "[e]"] by (simp add: insert_event_def acc new_rows_def Let_def)
  qed
  obtain ys where "rs_events (fst (fold (insert_event H sid) es (insert_event H sid e acc))) =
      rs_events (fst (insert_event H sid e acc)) @ new_rows H sid ys" "set ys \<subseteq> set es"
    using Cons by blast
  then show ?case using xs acc by (intro exI [of _ "xs @ ys"]) (auto simp: new_rows_def)
qed (auto simp: new_rows_def)

lemma add_events_rows:
  "\<exists>es'. rs_events (fst (add_events H sid es st)) = rs_events st @ new_rows H sid es' \<and> set es' \<subseteq> set es"
  using fold_insert_rows [of H sid es "(st, 0)"] by (auto simp: add_events_def split: prod.splits option.splits)

lemma not_simulated_prefix:
  "''settle'' \<noteq> ''simulated-'' @ x" "''late'' \<noteq> ''simulated-'' @ x" "''hold'' \<noteq> ''simulated-'' @ x"
  "''pay'' \<noteq> ''simulated-'' @ x" "''confirm'' \<noteq> ''simulated-'' @ x" "''cancel'' \<noteq> ''simulated-'' @ x"
  "''reward'' \<noteq> ''simulated-'' @ x" "''claim'' \<noteq> ''simulated-'' @ x" "''partial-cancel'' \<noteq> ''simulated-'' @ x"
  "''settle2'' \<noteq> ''simulated-'' @ x"
  by simp_all

lemma sample_events_ids:
  "sample_events c = Inr es \<Longrightarrow> e \<in> set es \<Longrightarrow> event_id e \<noteq> ''simulated-'' @ x"
  by (auto simp: sample_events_def sample_root_def sample_cancel_def sample_post_def sample_reward_def ev_def
      split: if_splits)

lemma review_inv_add:
  assumes "review_inv st" and "rs_events st' = rs_events st @ new_rows H sid es"
    and "rs_effects st' = rs_effects st"
    and "\<And>e x. e \<in> set es \<Longrightarrow> event_id e = ''simulated-'' @ x \<Longrightarrow> \<exists>f \<in> set (rs_effects st). effect_key f = (sid, x)"
  shows "review_inv st'"
  using assms by (fastforce simp: review_inv_def effects_once_def simulated_known_def rows_keyed_def new_rows_def)

lemma events_of_mem: "e \<in> set (events_of st sid) \<longleftrightarrow> (\<exists>r \<in> set (rs_events st). er_session r = sid \<and> er_envelope r = e)"
  by (auto simp: events_of_def event_rows_def)

lemma create_inv:
  assumes "review_inv st" and "create H c sid st = Inr (v, st')"
  shows "review_inv st'"
proof -
  obtain es row where es: "sample_events c = Inr es" and eff: "rs_effects st' = rs_effects st"
    and ev: "rs_events st' = rs_events (fst (add_events H sid es (st\<lparr>rs_sessions := row\<rparr>)))"
    using assms(2) by (auto simp: create_def Let_def split: sum.splits if_splits)
  obtain es' where "rs_events st' = rs_events st @ new_rows H sid es'" "set es' \<subseteq> set es"
    using add_events_rows [of H sid es "st\<lparr>rs_sessions := row\<rparr>"] ev by auto
  then show ?thesis using review_inv_add [OF assms(1) _ eff] sample_events_ids [OF es] by blast
qed

lemma simulate_inv:
  assumes inv: "review_inv st" and step: "simulate H sid a now st = Inr (v, st')"
  shows "review_inv st'"
proof -
  obtain posting arr c n st1 where p: "List.find (\<lambda>e. event_type e = SettlementPosted) (events_of st sid) = Some posting"
    and arr: "simulated_arrival a c posting now = Inr arr" and st1: "add_events H sid [arr] st = (st1, n)"
    and st': "rs_events st' = rs_events st1" "rs_effects st' = rs_effects st1"
    using step by (auto simp: simulate_def Let_def split: sum.splits if_splits option.splits prod.splits)
  obtain es' where es': "rs_events st' = rs_events st @ new_rows H sid es'" "set es' \<subseteq> {arr}"
    using add_events_rows [of H sid "[arr]" st] st1 st' by auto
  have "posting \<in> set (events_of st sid)" using p by (auto simp: find_Some_iff)
  then have known: "\<exists>f \<in> set (rs_effects st). effect_key f = (sid, x)" if "event_id posting = ''simulated-'' @ x" for x
    using inv that by (auto simp: events_of_mem review_inv_def simulated_known_def)
  have "event_id arr = event_id posting \<or> event_id arr = ''late''"
    using arr by (auto simp: simulated_arrival_def split: if_splits)
  then have "\<exists>f \<in> set (rs_effects st). effect_key f = (sid, x)" if "e \<in> set es'" "event_id e = ''simulated-'' @ x" for e x
    using es'(2) known that not_simulated_prefix(2) by auto
  moreover have "rs_effects st' = rs_effects st" using st' st1 add_events_frame(2) [of H sid "[arr]" st] by simp
  ultimately show ?thesis using review_inv_add [OF inv es'(1)] by blast
qed

lemma reversal_id: "event_id (reversal_event obs now a) = ''simulated-'' @ act_id a"
  by (simp add: reversal_event_def)

lemma approve_inv:
  assumes inv: "review_inv st" and step: "approve H sid pid ver h actions now st = Inr ((dup, v'), st')"
  shows "review_inv st'"
  using step
proof (cases rule: approve_cases)
  case (1 plan)
  then show ?thesis using inv by simp
next
  case (2 plan v current st1)
  note s = insert_effects_Inr [OF 2(8)]
  have keys: "\<exists>f \<in> set (rs_effects st1). effect_key f = (sid, act_id a)" if "a \<in> set (pl_actions plan)" for a
    using s that by (intro bexI [of _ "\<lparr>ef_session = sid, ef_action = a\<rparr>"]) (auto simp: effect_key_def)
  have "\<exists>f \<in> set (rs_effects st1). f = g" if "g \<in> set (rs_effects st)" for g using s that by auto
  then have inv1: "review_inv st1"
    using inv s by (fastforce simp: review_inv_def simulated_known_def rows_keyed_def)
  let ?revs = "map (reversal_event (max now (max_instant (events_of st sid) + 1)) now) (pl_actions plan)"
  obtain es' where es': "rs_events st' = rs_events st1 @ new_rows H sid es'" "set es' \<subseteq> set ?revs"
    using add_events_rows [of H sid ?revs st1] 2(9) by auto
  have "rs_effects st' = rs_effects st1" using 2(9) by simp
  moreover have "\<exists>f \<in> set (rs_effects st1). effect_key f = (sid, x)" if e: "e \<in> set es'" "event_id e = ''simulated-'' @ x" for e x
  proof -
    obtain a where "a \<in> set (pl_actions plan)" "act_id a = x" using e es'(2) reversal_id by fastforce
    then show ?thesis using keys by blast
  qed
  ultimately show ?thesis using review_inv_add [OF inv1 es'(1)] by blast
qed

lemma preview_inv: "review_inv st \<Longrightarrow> preview H sid ver pid st = Inr (p, st') \<Longrightarrow> review_inv st'"
  by (auto simp: preview_def Let_def review_inv_def effects_once_def simulated_known_def rows_keyed_def
      split: sum.splits if_splits)

lemma review_step_Inr:
  "review_step H st c = Inr st' \<Longrightarrow>
    (\<exists>case_name sid v. c = Create case_name sid \<and> create H case_name sid st = Inr (v, st')) \<or>
    (\<exists>sid a now v. c = Simulate sid a now \<and> simulate H sid a now st = Inr (v, st')) \<or>
    (\<exists>sid ver pid p. c = Preview sid ver pid \<and> preview H sid ver pid st = Inr (p, st')) \<or>
    (\<exists>sid pid ver h as now d v. c = Approve sid pid ver h as now \<and> approve H sid pid ver h as now st = Inr ((d, v), st'))"
  by (cases c) (auto simp: review_step_def map_sum_def split: sum.splits)

interpretation review: guarded_steps "review_step H" review_inv for H
proof
  fix s c t
  assume "review_inv s" and "review_step H s c = Inr t"
  then show "review_inv t"
    using create_inv simulate_inv preview_inv approve_inv review_step_Inr by metis
qed

definition plan_applied :: "string \<Rightarrow> plan_row \<Rightarrow> review_store \<Rightarrow> bool" where
  "plan_applied pid plan st \<longleftrightarrow> map_of (rs_plans st) pid = Some plan \<and> pl_applied plan"

interpretation applied: guarded_steps "review_step H" "plan_applied pid plan" for H pid plan
proof
  fix s c t
  assume inv: "plan_applied pid plan s" and step: "review_step H s c = Inr t"
  have ap: "plan_applied pid plan t" if "approve H sid pid' ver h as now s = Inr ((d, v), t)" for sid pid' ver h as now d v
    using that by (cases rule: approve_cases) (use inv in \<open>auto simp: plan_applied_def\<close>)
  from review_step_Inr [OF step] show "plan_applied pid plan t"
    using inv ap create_frame simulate_frame preview_frame
    by (elim disjE exE conjE) (fastforce simp: plan_applied_def)+
qed

text \<open>A session that can be viewed stays viewable: only its own operations touch its evidence.\<close>

lemma view_cong:
  assumes "map_of (rs_sessions t) sid = map_of (rs_sessions s) sid" and "events_of t sid = events_of s sid"
  shows "view H t sid = view H s sid"
  by (simp only: view_def assms)

lemma add_events_other:
  assumes "s \<noteq> sid"
  shows "map_of (rs_sessions (fst (add_events H s es st))) sid = map_of (rs_sessions st) sid"
    and "events_of (fst (add_events H s es st)) sid = events_of st sid"
proof -
  show "map_of (rs_sessions (fst (add_events H s es st))) sid = map_of (rs_sessions st) sid"
    using assms fold_insert_frame(3) [of H s es "(st, 0)"]
    by (auto simp: add_events_def split: prod.splits option.splits)
  obtain es' where "rs_events (fst (add_events H s es st)) = rs_events st @ new_rows H s es'"
    using add_events_rows [of H s es st] by auto
  moreover have "filter (\<lambda>r. er_session r = sid) (new_rows H s es') = []"
    using assms by (auto simp: new_rows_def filter_empty_conv)
  ultimately show "events_of (fst (add_events H s es st)) sid = events_of st sid"
    by (simp add: events_of_def event_rows_def)
qed

lemma create_view:
  assumes "create H c s st = Inr (x, t)" and "view H st sid = Inr v"
  shows "view H t sid = view H st sid"
proof -
  have ne: "s \<noteq> sid" using assms by (auto simp: create_def view_def split: sum.splits if_splits option.splits)
  obtain es st1 where st1: "st1 = st\<lparr>rs_sessions := dput s \<lparr>ss_version = 0, ss_case = c\<rparr> (rs_sessions st)\<rparr>"
    and t: "t = audit s ''SAMPLE_CREATED'' c (fst (add_events H s es st1))"
    using assms(1) by (auto simp: create_def Let_def split: sum.splits if_splits)
  have "map_of (rs_sessions t) sid = map_of (rs_sessions st) sid"
    using ne by (simp add: t add_events_other st1)
  moreover have "events_of st1 sid = events_of st sid" by (simp add: st1 events_of_def event_rows_def)
  ultimately show ?thesis using ne by (intro view_cong) (simp_all add: t add_events_other)
qed

lemma simulate_view:
  assumes "simulate H s a now st = Inr (x, t)"
  shows "view H t s = Inr x" and "s \<noteq> sid \<Longrightarrow> view H t sid = view H st sid"
proof -
  obtain arr st1 n where st1: "add_events H s [arr] st = (st1, n)"
    and t: "t = audit s ''EVIDENCE_RECEIVED'' (a @ ''; new_semantic_events='' @ str_of_nat n) st1"
    and x: "view H t s = Inr x"
    using assms by (auto simp: simulate_def Let_def split: sum.splits if_splits option.splits prod.splits)
  then have "t = audit s ''EVIDENCE_RECEIVED'' (a @ ''; new_semantic_events='' @ str_of_nat n) (fst (add_events H s [arr] st))"
    by simp
  then show "view H t s = Inr x" and "s \<noteq> sid \<Longrightarrow> view H t sid = view H st sid"
    using x by (auto intro!: view_cong simp: add_events_other)
qed

lemma preview_view:
  assumes "preview H s ver pid st = Inr (p, t)"
  shows "view H t sid = view H st sid"
  using assms by (intro view_cong) (auto simp: preview_def Let_def split: sum.splits if_splits)

lemma approve_view:
  assumes "approve H s pid ver h as now st = Inr ((d, x), t)"
  shows "view H t s = Inr x" and "s \<noteq> sid \<Longrightarrow> view H t sid = view H st sid"
proof -
  have "view H t s = Inr x \<and> (s \<noteq> sid \<longrightarrow> view H t sid = view H st sid)"
    using assms
  proof (cases rule: approve_cases)
    case (1 plan)
    then show ?thesis using assms by (auto simp: approve_def split: option.splits if_splits sum.splits)
  next
    case (2 plan v current st1)
    have st1: "st1 = st\<lparr>rs_effects := rs_effects st @ map (\<lambda>a. \<lparr>ef_session = s, ef_action = a\<rparr>) (pl_actions plan)\<rparr>"
      using insert_effects_Inr [OF 2(8)] by simp
    show ?thesis
    proof (intro conjI impI)
      show "view H t s = Inr x" by (rule 2(10))
      assume "s \<noteq> sid"
      then show "view H t sid = view H st sid"
        unfolding 2(9) by (intro view_cong) (simp_all add: add_events_other st1)
    qed
  qed
  then show "view H t s = Inr x" and "s \<noteq> sid \<Longrightarrow> view H t sid = view H st sid" by auto
qed

definition viewable :: "(json \<Rightarrow> string) \<Rightarrow> string \<Rightarrow> review_store \<Rightarrow> bool" where
  "viewable H sid st \<longleftrightarrow> (\<exists>v. view H st sid = Inr v)"

interpretation viewed: guarded_steps "review_step H" "viewable H sid" for H sid
proof
  fix s c t
  assume inv: "viewable H sid s" and step: "review_step H s c = Inr t"
  from review_step_Inr [OF step] show "viewable H sid t"
  proof (elim disjE exE conjE)
    fix s' a now v assume "simulate H s' a now s = Inr (v, t)"
    then show ?thesis using simulate_view inv by (cases "s' = sid") (auto simp: viewable_def)
  next
    fix s' pid ver h as now d v assume "approve H s' pid ver h as now s = Inr ((d, v), t)"
    then show ?thesis using approve_view inv by (cases "s' = sid") (auto simp: viewable_def)
  qed (use inv create_view preview_view in \<open>fastforce simp: viewable_def\<close>)+
qed

text \<open>What a successful approval leaves behind: the plan it named, with the arguments it was given,
  marked as applied, in a session that can be viewed.\<close>

lemma approve_saved:
  assumes "approve H sid pid ver h actions now st = Inr ((d, x), t)"
  obtains plan where "plan_applied pid plan t" and "pl_session plan = sid" and "pl_version plan = ver"
    and "pl_hash plan = h" and "dumps_tree actions = dumps_tree (actions_json (pl_actions plan))"
    and "viewable H sid t"
proof -
  have vw: "viewable H sid t" using approve_view(1) [OF assms] by (simp add: viewable_def)
  obtain p where p: "map_of (rs_plans st) pid = Some p" "pl_session p = sid" "pl_version p = ver" "pl_hash p = h"
    "dumps_tree actions = dumps_tree (actions_json (pl_actions p))"
    using assms by (auto simp: approve_def split: option.splits if_splits)
  show thesis using assms
  proof (cases rule: approve_cases)
    case (1 plan)
    then show thesis using that [of p] p vw by (simp add: plan_applied_def)
  next
    case (2 plan v current st1)
    then have "plan_applied pid (p\<lparr>pl_applied := True\<rparr>) t" using p by (simp add: plan_applied_def)
    then show thesis using that [of "p\<lparr>pl_applied := True\<rparr>"] p vw by simp
  qed
qed

definition empty_store :: review_store where
  "empty_store = \<lparr>rs_sessions = [], rs_events = [], rs_plans = [], rs_effects = [], rs_audit = []\<rparr>"

lemma reachable_inv: "review_inv (run (review_step H) empty_store cs)"
  by (rule review.run_inv) (simp add: review_inv_def effects_once_def simulated_known_def rows_keyed_def empty_store_def)

section \<open>After an approved correction\<close>

lemma set_unique: "set (fst (unique_by_event_id es)) = (\<lambda>i. chosen_copy (filter (\<lambda>e. event_id e = i) es)) ` set (ids_of es)"
proof -
  have "set (fst (unique_by_event_id es)) = (\<lambda>(_, copies). chosen_copy copies) ` set (group_by_id es)"
    by (simp add: unique_by_event_id_def Let_def)
  also have "\<dots> = (\<lambda>i. chosen_copy (filter (\<lambda>e. event_id e = i) es)) ` set (ids_of es)"
    using group_by_id_mem [of _ _ es] by (force simp: image_iff)
  finally show ?thesis .
qed

text \<open>Events with fresh and distinct identities join the selection as they are.\<close>

lemma unique_extended:
  assumes old: "\<And>i. i \<in> set (ids_of es) \<Longrightarrow> filter (\<lambda>e. event_id e = i) es' = filter (\<lambda>e. event_id e = i) es"
    and new: "\<And>r. r \<in> set revs \<Longrightarrow> filter (\<lambda>e. event_id e = event_id r) es' = [r]"
    and ids: "set (ids_of es') = set (ids_of es) \<union> set (ids_of revs)"
    and d: "distinct (ids_of revs)" and fresh: "set (ids_of es) \<inter> set (ids_of revs) = {}"
  shows "mset (fst (unique_by_event_id es')) = mset (fst (unique_by_event_id es) @ revs)"
proof -
  let ?c = "\<lambda>es i. chosen_copy (filter (\<lambda>e. event_id e = i) es)"
  have "set (fst (unique_by_event_id es')) = ?c es' ` set (ids_of es) \<union> ?c es' ` set (ids_of revs)"
    unfolding set_unique ids image_Un ..
  moreover have "?c es' ` set (ids_of es) = ?c es ` set (ids_of es)" using old by (intro image_cong) simp_all
  moreover have "?c es' ` set (ids_of revs) = set revs"
    using new by (force simp: chosen_copy_def image_iff)
  ultimately have s: "set (fst (unique_by_event_id es')) = set (fst (unique_by_event_id es) @ revs)"
    by (simp add: set_unique)
  have "distinct (ids_of (fst (unique_by_event_id es) @ revs))"
    using unique_events [of es] d fresh by simp
  then have "distinct (fst (unique_by_event_id es) @ revs)" by (simp only: distinct_map)
  moreover have "distinct (fst (unique_by_event_id es'))" using unique_events(1) [of es'] by (simp only: distinct_map)
  ultimately show ?thesis using s set_eq_iff_mset_eq_distinct by blast
qed

lemma reversal_records: "records (act a) (reversal_event obs now a)"
  by (auto simp: records_def reversal_event_def reverse_type_of_def reversal_target_def unit_ok_def pget_def dget_def)

lemma dumps_actions_inj:
  assumes "dumps_tree (actions_json as) = dumps_tree (actions_json bs)"
  shows "map act as = map act bs"
proof -
  have rn: "repair_name r = repair_name r' \<Longrightarrow> r = r'" for r r' by (cases r; cases r'; simp)
  have un: "unit_name u = unit_name u' \<Longrightarrow> u = u'" for u u' by (cases u; cases u'; simp)
  have one: "act a = act b" if "dumps_tree (JObj ((''action_id'', JStr (act_id a)) # action_data (act a))) =
      dumps_tree (JObj ((''action_id'', JStr (act_id b)) # action_data (act b)))" for a b
    using that rn un by (auto simp: action_data_def sort_key_def less_list_code financial_repair_action.equality)
  show ?thesis using assms
  proof (induction as arbitrary: bs)
    case Nil
    then show ?case by (cases bs) (simp_all add: actions_json_def)
  next
    case (Cons a as)
    then obtain b bs' where "bs = b # bs'" by (cases bs) (simp_all add: actions_json_def)
    then show ?case using Cons one [of a b] by (simp add: actions_json_def del: dumps_tree.simps(2))
  qed
qed

lemma fold_insert_all:
  assumes "distinct (ids_of es)"
    and "\<forall>r \<in> set (rs_events st). er_session r = sid \<longrightarrow> er_event_id r \<notin> set (ids_of es)"
  shows "rs_events (fst (fold (insert_event H sid) es (st, n))) = rs_events st @ new_rows H sid es"
  using assms
proof (induction es arbitrary: st n)
  case (Cons e es)
  let ?r = "\<lparr>er_session = sid, er_event_id = event_id e, er_hash = digest H (semantic_payload e), er_envelope = e\<rparr>"
  have "\<not> has_event st sid (event_id e) (digest H (semantic_payload e))"
    using Cons.prems(2) by (auto simp: has_event_def list_ex_iff)
  then have "insert_event H sid e (st, n) = (st\<lparr>rs_events := rs_events st @ [?r]\<rparr>, n + 1)"
    by (simp add: insert_event_def Let_def)
  moreover have "rs_events (fst (fold (insert_event H sid) es (st\<lparr>rs_events := rs_events st @ [?r]\<rparr>, n + 1))) =
      rs_events (st\<lparr>rs_events := rs_events st @ [?r]\<rparr>) @ new_rows H sid es"
  proof (rule Cons.IH)
    show "distinct (ids_of es)" using Cons.prems(1) by simp
    show "\<forall>r \<in> set (rs_events (st\<lparr>rs_events := rs_events st @ [?r]\<rparr>)). er_session r = sid \<longrightarrow>
        er_event_id r \<notin> set (ids_of es)"
      using Cons.prems by simp
  qed
  ultimately show ?case by (simp add: new_rows_def)
qed (simp add: new_rows_def)

lemma add_events_all:
  assumes "distinct (ids_of es)"
    and "\<forall>r \<in> set (rs_events st). er_session r = sid \<longrightarrow> er_event_id r \<notin> set (ids_of es)"
  shows "rs_events (fst (add_events H sid es st)) = rs_events st @ new_rows H sid es"
  using fold_insert_all [OF assms, where H = H and n = 0] by (auto simp: add_events_def split: prod.splits option.splits)

lemma events_filter:
  "filter (\<lambda>e. event_id e = i) (events_of st sid) = map er_envelope (sort_key (\<lambda>r. (er_event_id r, er_hash r))
    (filter (\<lambda>r. event_id (er_envelope r) = i) (filter (\<lambda>r. er_session r = sid) (rs_events st))))"
  by (simp add: events_of_def event_rows_def filter_map filter_sort comp_def del: filter_filter)

lemma approved_selection:
  assumes inv: "review_inv st" and ins: "insert_effects sid as st = Inr st1"
    and ev: "rs_events st' = rs_events (fst (add_events H sid (map (reversal_event obs now) as) st1))"
  shows "mset (fst (unique_by_event_id (events_of st' sid))) =
    mset (fst (unique_by_event_id (events_of st sid)) @ map (reversal_event obs now) as)"
proof -
  let ?revs = "map (reversal_event obs now) as"
  note s = insert_effects_Inr [OF ins]
  have once: "distinct (map effect_key (rs_effects st @ map (\<lambda>a. \<lparr>ef_session = sid, ef_action = a\<rparr>) as))"
  proof -
    have "effects_once st1" using s inv by (auto simp: review_inv_def)
    then show ?thesis using conjunct1 [OF s] by (simp add: effects_once_def)
  qed
  then have d: "distinct (ids_of ?revs)"
    by (auto simp: effect_key_def comp_def reversal_id distinct_map inj_on_def)
  have fresh: "event_id (er_envelope r) \<notin> set (ids_of ?revs)" if r: "r \<in> set (rs_events st)" "er_session r = sid" for r
  proof
    assume "event_id (er_envelope r) \<in> set (ids_of ?revs)"
    then obtain a where a: "a \<in> set as" "event_id (er_envelope r) = ''simulated-'' @ act_id a" by (auto simp: reversal_id)
    then obtain f where "f \<in> set (rs_effects st)" "effect_key f = (sid, act_id a)"
      using inv r by (auto simp: review_inv_def simulated_known_def)
    moreover have "effect_key \<lparr>ef_session = sid, ef_action = a\<rparr> = (sid, act_id a)" by (simp add: effect_key_def)
    ultimately show False using once a(1) by (force simp: image_iff)
  qed
  have rk: "er_event_id r = event_id (er_envelope r)" if "r \<in> set (rs_events st)" for r
    using inv that by (simp add: review_inv_def rows_keyed_def)
  have rows: "rs_events st' = rs_events st @ new_rows H sid ?revs"
  proof -
    have "rs_events st1 = rs_events st" using conjunct1 [OF s] by simp
    then have "\<forall>r \<in> set (rs_events st1). er_session r = sid \<longrightarrow> er_event_id r \<notin> set (ids_of ?revs)"
      using fresh rk by (metis)
    then show ?thesis using add_events_all [OF d] ev \<open>rs_events st1 = rs_events st\<close> by simp
  qed
  have sess: "filter (\<lambda>r. er_session r = sid) (new_rows H sid xs) = new_rows H sid xs" for xs
    by (auto simp: new_rows_def)
  have nr: "filter (\<lambda>r. event_id (er_envelope r) = i) (new_rows H sid xs) = new_rows H sid (filter (\<lambda>e. event_id e = i) xs)" for i xs
    by (simp add: new_rows_def filter_map comp_def)
  have fresh_ids: "set (ids_of (events_of st sid)) \<inter> set (ids_of ?revs) = {}"
  proof -
    have "event_id e \<notin> set (ids_of ?revs)" if "e \<in> set (events_of st sid)" for e
      using that fresh unfolding events_of_mem by blast
    then show ?thesis unfolding set_map [of event_id "events_of st sid"] by blast
  qed
  show ?thesis
  proof (rule unique_extended [OF _ _ _ d fresh_ids])
    fix i
    assume "i \<in> set (ids_of (events_of st sid))"
    then have "filter (\<lambda>e. event_id e = i) ?revs = []" using fresh_ids by (auto simp: filter_empty_conv)
    then show "filter (\<lambda>e. event_id e = i) (events_of st' sid) = filter (\<lambda>e. event_id e = i) (events_of st sid)"
      by (simp only: events_filter rows filter_append sess nr) (simp add: new_rows_def)
  next
    fix r
    assume r: "r \<in> set ?revs"
    then have "filter (\<lambda>x. event_id (er_envelope x) = event_id r) (filter (\<lambda>x. er_session x = sid) (rs_events st)) = []"
      using fresh by (auto simp: filter_empty_conv)
    then show "filter (\<lambda>e. event_id e = event_id r) (events_of st' sid) = [r]"
      using filter_key_distinct [OF d r] by (simp only: events_filter rows filter_append sess nr) (simp add: new_rows_def)
  next
    show "set (ids_of (events_of st' sid)) = set (ids_of (events_of st sid)) \<union> set (ids_of ?revs)"
    proof -
      have "er_envelope ` set (new_rows H sid xs) = set xs" for xs by (simp add: new_rows_def image_image)
      then have "set (events_of st' sid) = set (events_of st sid) \<union> set ?revs"
        unfolding events_of_def event_rows_def rows filter_append sess
        by (simp only: set_map [of er_envelope] set_sort set_append image_Un)
      then show ?thesis by (simp only: set_map [of event_id] image_Un)
    qed
  qed
qed

lemma view_Inr:
  assumes "view H st sid = Inr v"
  obtains res where "reconcile H (events_of st sid) = Inr res" and "vw_evaluation v = res"
  using assms by (auto simp: view_def split: option.splits sum.splits)

lemma actions_of_view_Inr:
  assumes "actions_of_view H sid v = Inr current"
  shows "decision (vw_evaluation v) = AUTO" and "map act current = financial_actions (vw_evaluation v)"
  using assms by (auto simp: actions_of_view_def Let_def review_action_of_def comp_def split: if_splits)

lemma auto_plan:
  assumes "reconcile H es = Inr res" and "decision res = AUTO"
  shows "plan_financial_repairs (fst (unique_by_event_id es)) = (financial_actions res, [])"
  using assms(1)
proof (rule reconcile_parts)
  fix u ds cf rs ra can canom acts fb
  assume "unique_by_event_id es = (u, ds, cf)" "plan_financial_repairs u = (acts, fb)"
    "decision res = decide (fromkeys (manual_reasons cf (causal_order u order_key) u fb canom))
      (missing_ids (causal_order u order_key))"
    "financial_actions res = (if decision res = AUTO then acts else [])"
  then show ?thesis using assms(2) by (auto simp: manual_reasons_def)
qed

lemma no_actions_from_plan:
  assumes "reconcile H es = Inr res" and "plan_financial_repairs (fst (unique_by_event_id es)) = ([], [])"
  shows "financial_actions res = []"
  by (rule reconcile_parts [OF assms(1)]) (use assms(2) in auto)

section \<open>Properties\<close>

text \<open>C7. A correction is recorded once. In every store that satisfies the invariant of the reachable
  stores, an approval that records a correction leaves evidence for which the next evaluation
  proposes no financial action any more.\<close>

theorem approved_correction_settles:
  assumes "review_inv st"
    and "approve H sid pid ver h actions now st = Inr ((False, v'), st')"
  shows "financial_actions (vw_evaluation v') = []"
  using assms(2)
proof (cases rule: approve_cases)
  case (2 plan v current st1)
  let ?obs = "max now (max_instant (events_of st sid) + 1)" and ?u = "fst (unique_by_event_id (events_of st sid))"
  obtain res where r: "reconcile H (events_of st sid) = Inr res" "vw_evaluation v = res" by (rule view_Inr [OF 2(5)])
  have plan: "plan_financial_repairs ?u = (map act (pl_actions plan), [])"
    using auto_plan [OF r(1)] actions_of_view_Inr [OF 2(6)] dumps_actions_inj [OF 2(7)] r(2) by simp
  have "list_all2 records (map act (pl_actions plan)) (map (reversal_event ?obs now) (pl_actions plan))"
    by (simp add: list.rel_map reversal_records list.rel_refl)
  moreover have "mset (fst (unique_by_event_id (events_of st' sid))) =
      mset (?u @ map (reversal_event ?obs now) (pl_actions plan))"
    using assms(1) 2(8,9) by (intro approved_selection) auto
  ultimately have "plan_financial_repairs (fst (unique_by_event_id (events_of st' sid))) = ([], [])"
    using plan_after_recording [OF unique_events(1) _ plan] by blast
  moreover obtain res' where "reconcile H (events_of st' sid) = Inr res'" "vw_evaluation v' = res'"
    by (rule view_Inr [OF 2(10)])
  ultimately show ?thesis using no_actions_from_plan by blast
qed simp

text \<open>C8. An applied plan stays applied. After an approval succeeded and whatever operations of
  whatever sessions followed, repeating that approval succeeds: it answers as a duplicate, with the
  session as it is now, and changes nothing. No other approval of that plan records anything: one
  that succeeds is a duplicate too.\<close>

theorem approval_is_idempotent:
  assumes "approve H sid pid ver h actions now st = Inr (r, st')"
  shows "let S = run (review_step H) st' cmds in
    (\<exists>v. view H S sid = Inr v \<and> approve H sid pid ver h actions later S = Inr ((True, v), S)) \<and>
    (\<forall>sid2 ver2 h2 actions2 now' r2 S'.
       approve H sid2 pid ver2 h2 actions2 now' S = Inr (r2, S') \<longrightarrow> fst r2 \<and> S' = S)"
proof -
  let ?S = "run (review_step H) st' cmds"
  obtain dup x where r: "r = (dup, x)" by (cases r)
  obtain plan where p: "plan_applied pid plan st'" "pl_session plan = sid" "pl_version plan = ver"
    "pl_hash plan = h" "dumps_tree actions = dumps_tree (actions_json (pl_actions plan))" "viewable H sid st'"
    using assms unfolding r by (rule approve_saved)
  have ap: "plan_applied pid plan ?S" using p(1) by (rule applied.run_inv)
  obtain v where v: "view H ?S sid = Inr v" using viewed.run_inv [OF p(6)] by (auto simp: viewable_def)
  have "approve H sid pid ver h actions later ?S = Inr ((True, v), ?S)"
    using ap p(2-5) v by (simp add: approve_def plan_applied_def)
  moreover have "fst r2 \<and> S' = ?S" if "approve H sid2 pid ver2 h2 actions2 now' ?S = Inr (r2, S')"
    for sid2 ver2 h2 actions2 now' r2 S'
  proof -
    obtain d y where r2: "r2 = (d, y)" by (cases r2)
    show ?thesis using that unfolding r2
      by (cases rule: approve_cases) (use ap in \<open>auto simp: plan_applied_def\<close>)
  qed
  ultimately show ?thesis unfolding Let_def using v by blast
qed

text \<open>C9. Whatever operations run on an empty store: a posting of a session has at most one recorded
  reversal of each kind, action identities are not reused within a session, every simulated
  reversal in evidence has its effect row, and every event row is filed under its identity.\<close>

theorem effects_recorded_once:
  "review_inv (run (review_step H) empty_store cmds) \<and>
   distinct (map effect_target (rs_effects (run (review_step H) empty_store cmds)))"
  using reachable_inv by (auto simp: review_inv_def effects_once_def)

section \<open>Witnesses\<close>

definition reviewed_store :: review_store where
  "reviewed_store = \<lparr>rs_sessions = [(''s'', \<lparr>ss_version = 1, ss_case = ''c''\<rparr>)],
     rs_events = new_rows (\<lambda>_. ''h'') ''s'' delayed_cancel,
     rs_plans = [(''p'', \<lparr>pl_session = ''s'', pl_version = 1, pl_hash = ''h'',
       pl_actions = [\<lparr>act_id = ''h'', act = delayed_cancel_action\<rparr>], pl_applied = False\<rparr>)],
     rs_effects = [], rs_audit = []\<rparr>"

lemma reviewed_store_inv: "review_inv reviewed_store"
  by (auto simp: review_inv_def effects_once_def simulated_known_def rows_keyed_def reviewed_store_def new_rows_def
      delayed_cancel_def sample_money_def sample_event_def)

abbreviation hh :: "json \<Rightarrow> string" where "hh \<equiv> \<lambda>_. ''h''"

definition reviewed_actions :: "review_action list" where
  "reviewed_actions = [\<lparr>act_id = ''h'', act = delayed_cancel_action\<rparr>]"

lemma digest_hh [simp]: "digest hh v = ''h''"
  by (simp add: digest_def)

lemma events_of_reviewed: "events_of reviewed_store ''s'' = delayed_cancel"
  by code_simp

lemma reviewed_view:
  obtains v where "view hh reviewed_store ''s'' = Inr v" and "vw_version v = 1" and "vw_hash v = ''h''"
    and "actions_of_view hh ''s'' v = Inr reviewed_actions"
proof -
  obtain res where r: "reconcile hh delayed_cancel = Inr res" "decision res = AUTO"
    "financial_actions res = [delayed_cancel_action]"
    using delayed_cancel_auto by (auto split: sum.splits)
  let ?v = "\<lparr>vw_version = 1, vw_case = ''c'', vw_hash = ''h'', vw_events = delayed_cancel, vw_evaluation = res\<rparr>"
  have "map_of (rs_sessions reviewed_store) ''s'' = Some \<lparr>ss_version = 1, ss_case = ''c''\<rparr>" by (simp add: reviewed_store_def)
  then have v: "view hh reviewed_store ''s'' = Inr ?v" by (simp add: view_def events_of_reviewed r(1))
  have "is_ok (accounting_amount (JInt 9000))" using accounting_amount_printed(2) [of 9000] by simp
  then have "actions_of_view hh ''s'' ?v = Inr reviewed_actions"
    using r auto_not_manual [OF r(1,2)]
    by (simp add: actions_of_view_def review_action_of_def reviewed_actions_def delayed_cancel_action_def)
  then show thesis using that [OF v] by simp
qed

definition corrected_store :: review_store where
  "corrected_store = audit ''s'' ''SIMULATED_CORRECTION_RECORDED'' ''p''
     ((fst (add_events hh ''s'' (map (reversal_event 7 7) reviewed_actions)
        (reviewed_store\<lparr>rs_effects := [\<lparr>ef_session = ''s'', ef_action = hd reviewed_actions\<rparr>]\<rparr>)))
      \<lparr>rs_plans := dput ''p'' ((snd (hd (rs_plans reviewed_store)))\<lparr>pl_applied := True\<rparr>) (rs_plans reviewed_store)\<rparr>)"

lemma events_of_corrected:
  "events_of corrected_store ''s'' = delayed_cancel @ map (reversal_event 7 7) reviewed_actions"
  by code_simp

lemma corrected_view: obtains v where "view hh corrected_store ''s'' = Inr v"
proof -
  let ?es = "delayed_cancel @ map (reversal_event 7 7) reviewed_actions"
  have "\<forall>e \<in> set ?es. \<not> raises e" and "[] \<notin> set (ids_of ?es)"
    by (auto simp: raises_def delayed_cancel_def sample_money_def sample_event_def reviewed_actions_def
        reversal_event_def delayed_cancel_action_def pget_def dget_def)
  then obtain res where "reconcile hh (events_of corrected_store ''s'') = Inr res"
    using reconcile_returns unfolding events_of_corrected by blast
  moreover have "map_of (rs_sessions corrected_store) ''s'' \<noteq> None"  by code_simp
  ultimately show thesis using that by (auto simp: view_def)
qed

lemma reviewed_approved:
  obtains v' where "approve hh ''s'' ''p'' 1 ''h'' (actions_json reviewed_actions) 7 reviewed_store = Inr ((False, v'), corrected_store)"
proof -
  obtain v where v: "view hh reviewed_store ''s'' = Inr v" "vw_version v = 1" "vw_hash v = ''h''"
    "actions_of_view hh ''s'' v = Inr reviewed_actions" by (rule reviewed_view)
  obtain v' where v': "view hh corrected_store ''s'' = Inr v'" by (rule corrected_view)
  have p: "rs_plans reviewed_store = [(''p'', \<lparr>pl_session = ''s'', pl_version = 1, pl_hash = ''h'',
       pl_actions = reviewed_actions, pl_applied = False\<rparr>)]" by (simp add: reviewed_store_def reviewed_actions_def)
  have "max_instant delayed_cancel = 4" by code_simp
  moreover have "insert_effects ''s'' reviewed_actions reviewed_store =
      Inr (reviewed_store\<lparr>rs_effects := [\<lparr>ef_session = ''s'', ef_action = hd reviewed_actions\<rparr>]\<rparr>)"
    by (simp add: reviewed_actions_def insert_effect_def reviewed_store_def)
  ultimately have "approve hh ''s'' ''p'' 1 ''h'' (actions_json reviewed_actions) 7 reviewed_store = Inr ((False, v'), corrected_store)"
    using v v' by (simp add: approve_def p events_of_reviewed Let_def corrected_store_def)
  then show thesis by (rule that)
qed

theorem approved_correction_settles_witness:
  "\<exists>v'. approve hh ''s'' ''p'' 1 ''h'' (actions_json reviewed_actions) 7 reviewed_store = Inr ((False, v'), corrected_store) \<and>
    financial_actions (vw_evaluation v') = []"
proof (rule reviewed_approved)
  fix v'
  assume "approve hh ''s'' ''p'' 1 ''h'' (actions_json reviewed_actions) 7 reviewed_store = Inr ((False, v'), corrected_store)"
  then show ?thesis using approved_correction_settles [OF reviewed_store_inv] by blast
qed

text \<open>Between the approval and its retry a preview of the old version, which is refused, and a new
  session; the correction has moved the session on from the version that was approved.\<close>

theorem approval_is_idempotent_witness:
  "\<exists>v'. approve hh ''s'' ''p'' 1 ''h'' (actions_json reviewed_actions) 9
     (run (review_step hh) corrected_store [Preview ''s'' 1 ''q'', Create ''normal'' ''s2'']) =
   Inr ((True, v'), run (review_step hh) corrected_store [Preview ''s'' 1 ''q'', Create ''normal'' ''s2''])"
proof (rule reviewed_approved)
  fix v'
  assume a: "approve hh ''s'' ''p'' 1 ''h'' (actions_json reviewed_actions) 7 reviewed_store = Inr ((False, v'), corrected_store)"
  show ?thesis
    using approval_is_idempotent [OF a, where cmds = "[Preview ''s'' 1 ''q'', Create ''normal'' ''s2'']" and later = 9]
    unfolding Let_def by blast
qed

end
