(* ===== verification/Merchant.thy ===== *)
theory Merchant
  imports Py_Values
begin

text \<open>
  The modelled merchants: \<open>merchant_rules.transition\<close> decides one command on one seat,
  \<open>MerchantFleet\<close> keeps one database per shop. A shop's database is its seats by world and
  order, its accepting policy by world, and its receipts in the order of their rowids
  together with their contexts (the two tables are always written together). The SHA-256 of
  the printed command is the argument \<open>H\<close>.
\<close>

section \<open>Storage-independent rules\<close>

datatype seat_phase = Reserved | Frozen | Held | Preparing | Ready | Released | Aborted | Cancelled | Claimed

datatype merchant_action = ADMIT | HOLD | FREEZE | UNFREEZE | RELEASE_SOURCE | ACTIVATE | ABORT_TARGET
  | START | READY | CLAIM | CANCEL | OtherAction string

fun action_name :: "merchant_action \<Rightarrow> string" where
  "action_name ADMIT = ''ADMIT''"
| "action_name HOLD = ''HOLD''"
| "action_name FREEZE = ''FREEZE''"
| "action_name UNFREEZE = ''UNFREEZE''"
| "action_name RELEASE_SOURCE = ''RELEASE_SOURCE''"
| "action_name ACTIVATE = ''ACTIVATE''"
| "action_name ABORT_TARGET = ''ABORT_TARGET''"
| "action_name START = ''START''"
| "action_name READY = ''READY''"
| "action_name CLAIM = ''CLAIM''"
| "action_name CANCEL = ''CANCEL''"
| "action_name (OtherAction a) = a"

definition TERMINAL_PHASES :: "seat_phase list" where
  "TERMINAL_PHASES = [Released, Aborted, Cancelled, Claimed]"

definition OCCUPIED :: "seat_phase list" where
  "OCCUPIED = [Reserved, Frozen, Held, Preparing, Ready]"

record seat =
  seat_world :: string
  seat_order :: string
  seat_generation :: int
  seat_phase :: seat_phase
  seat_transfer :: string

record merchant_payload =
  mp_world :: string
  mp_order :: string
  mp_generation :: int
  mp_action :: merchant_action
  mp_transfer :: string
  mp_reject :: bool

datatype merchant_code = MERCHANT_REJECTED | STALE_GENERATION | CAPACITY_FULL
  | MERCHANT_STATE_CONFLICT | TRANSFER_FENCE | COMMAND_CONFLICT

text \<open>A reply is the accepted seat or a failure code with the phase the merchant saw.\<close>

datatype merchant_result = Accepted seat | Failed merchant_code "seat_phase option"

definition result_ok :: "merchant_result \<Rightarrow> bool" where
  "result_ok r = (case r of Accepted _ \<Rightarrow> True | Failed _ _ \<Rightarrow> False)"

lemma result_ok_simps [simp]: "result_ok (Accepted s)" "\<not> result_ok (Failed c p)"
  by (simp_all add: result_ok_def)

lemma result_ok_iff: "result_ok r \<longleftrightarrow> (\<exists>s. r = Accepted s)"
  by (cases r) auto

text \<open>The table of expected phases; an action that is not in it expects nothing.\<close>

fun expected_phases :: "merchant_action \<Rightarrow> seat_phase list option" where
  "expected_phases FREEZE = Some [Reserved]"
| "expected_phases UNFREEZE = Some [Frozen]"
| "expected_phases RELEASE_SOURCE = Some [Frozen]"
| "expected_phases ACTIVATE = Some [Held]"
| "expected_phases ABORT_TARGET = Some [Held]"
| "expected_phases START = Some [Reserved]"
| "expected_phases READY = Some [Preparing]"
| "expected_phases CLAIM = Some [Ready, Claimed]"
| "expected_phases CANCEL = Some [Reserved, Cancelled]"
| "expected_phases _ = None"

fun phase_after :: "merchant_action \<Rightarrow> seat_phase option" where
  "phase_after FREEZE = Some Frozen"
| "phase_after UNFREEZE = Some Reserved"
| "phase_after RELEASE_SOURCE = Some Released"
| "phase_after ACTIVATE = Some Reserved"
| "phase_after ABORT_TARGET = Some Aborted"
| "phase_after START = Some Preparing"
| "phase_after READY = Some Ready"
| "phase_after CLAIM = Some Claimed"
| "phase_after CANCEL = Some Cancelled"
| "phase_after _ = None"

definition fenced_actions :: "merchant_action list" where
  "fenced_actions = [UNFREEZE, RELEASE_SOURCE, ACTIVATE, ABORT_TARGET]"

definition merchant_transition :: "seat option \<Rightarrow> merchant_payload \<Rightarrow> bool \<Rightarrow> nat \<Rightarrow> nat \<Rightarrow> merchant_result" where
  "merchant_transition row p accepting seats_used capacity =
    (let failure = (\<lambda>code. Failed code (map_option seat_phase row)); action = mp_action p;
         seat_of = (\<lambda>phase token. \<lparr>seat_world = mp_world p, seat_order = mp_order p,
           seat_generation = mp_generation p, seat_phase = phase, seat_transfer = token\<rparr>)
     in if action \<in> {ADMIT, HOLD} then
          if mp_reject p \<or> \<not> accepting then failure MERCHANT_REJECTED
          else if (case row of None \<Rightarrow> False
             | Some r \<Rightarrow> mp_generation p \<le> seat_generation r \<or> seat_phase r \<notin> set TERMINAL_PHASES)
            then failure STALE_GENERATION
          else if capacity \<le> seats_used then failure CAPACITY_FULL
          else Accepted (seat_of (if action = ADMIT then Reserved else Held)
                 (if action = HOLD then mp_transfer p else []))
        else if action = ABORT_TARGET \<and> (case row of None \<Rightarrow> True
             | Some r \<Rightarrow> seat_generation r < mp_generation p \<and> seat_phase r \<in> set TERMINAL_PHASES)
          then Accepted (seat_of Aborted (mp_transfer p))
        else (case row of None \<Rightarrow> failure STALE_GENERATION
          | Some r \<Rightarrow>
              if seat_generation r \<noteq> mp_generation p then failure STALE_GENERATION
              else (case (expected_phases action, phase_after action) of
                (Some phases, Some phase) \<Rightarrow>
                  if seat_phase r \<notin> set phases then failure MERCHANT_STATE_CONFLICT
                  else if action \<in> set fenced_actions \<and> seat_transfer r \<noteq> mp_transfer p
                    then failure TRANSFER_FENCE
                  else Accepted (r\<lparr>seat_phase := phase,
                    seat_transfer := (if action \<in> {FREEZE, ABORT_TARGET, RELEASE_SOURCE} then mp_transfer p else [])\<rparr>)
              | _ \<Rightarrow> failure MERCHANT_STATE_CONFLICT)))"

section \<open>The databases of the shops\<close>

definition CAPACITY :: "(string \<times> nat) list" where
  "CAPACITY = [(''wave'', 4), (''corner'', 4), (''oat'', 1), (''garden'', 1), (''express'', 1)]"

record receipt_row =
  rc_world :: string
  rc_command :: string
  rc_fingerprint :: string
  rc_result :: merchant_result
  rc_order :: string
  rc_action :: string
  rc_generation :: int

record shop_db =
  seats :: "((string \<times> string) \<times> seat) list"
  policy :: "(string \<times> bool) list"
  receipts :: "receipt_row list"

definition empty_shop :: shop_db where
  "empty_shop = \<lparr>seats = [], policy = [], receipts = []\<rparr>"

definition row_of :: "shop_db \<Rightarrow> string \<Rightarrow> string \<Rightarrow> seat option" where
  "row_of db world order_id = map_of (seats db) (world, order_id)"

definition seats_used :: "shop_db \<Rightarrow> string \<Rightarrow> nat" where
  "seats_used db world = length (filter (\<lambda>(k, s). fst k = world \<and> seat_phase s \<in> set OCCUPIED) (seats db))"

definition payload_json :: "merchant_payload \<Rightarrow> json" where
  "payload_json p = JObj
    [(''world'', JStr (mp_world p)), (''order_id'', JStr (mp_order p)),
     (''generation'', JInt (mp_generation p)), (''action'', JStr (action_name (mp_action p))),
     (''transfer_id'', JStr (mp_transfer p)), (''reject'', JBool (mp_reject p))]"

definition find_receipt :: "shop_db \<Rightarrow> string \<times> string \<Rightarrow> (string \<times> merchant_result) option" where
  "find_receipt db k =
    map_option (\<lambda>r. (rc_fingerprint r, rc_result r))
      (List.find (\<lambda>r. (rc_world r, rc_command r) = k) (receipts db))"

definition apply_command :: "shop_db \<Rightarrow> nat \<Rightarrow> seat option \<Rightarrow> merchant_payload \<Rightarrow> merchant_result \<times> shop_db" where
  "apply_command db capacity row p =
    (let result = merchant_transition row p (dget True (policy db) (mp_world p)) (seats_used db (mp_world p)) capacity
     in case result of
          Accepted s \<Rightarrow> (result, db\<lparr>seats := dput (seat_world s, seat_order s) s (seats db)\<rparr>)
        | Failed _ _ \<Rightarrow> (result, db))"

definition new_receipt :: "(json \<Rightarrow> string) \<Rightarrow> string \<Rightarrow> merchant_payload \<Rightarrow> merchant_result \<Rightarrow> receipt_row" where
  "new_receipt H operation_id p result =
    \<lparr>rc_world = mp_world p, rc_command = operation_id, rc_fingerprint = H (dumps_tree (payload_json p)),
     rc_result = result, rc_order = mp_order p, rc_action = action_name (mp_action p),
     rc_generation = mp_generation p\<rparr>"

definition execute_shop :: "(json \<Rightarrow> string) \<Rightarrow> nat \<Rightarrow> shop_db \<Rightarrow> string \<Rightarrow> merchant_payload \<Rightarrow> merchant_result \<times> shop_db" where
  "execute_shop H capacity db operation_id p =
    (let fp = H (dumps_tree (payload_json p))
     in case find_receipt db (mp_world p, operation_id) of
          Some (f, result) \<Rightarrow> (if f \<noteq> fp then Failed COMMAND_CONFLICT None else result, db)
        | None \<Rightarrow>
            (case apply_command db capacity (row_of db (mp_world p) (mp_order p)) p of (result, db') \<Rightarrow>
               (result, db'\<lparr>receipts := receipts db' @ [new_receipt H operation_id p result]\<rparr>)))"

text \<open>The fleet holds one database per shop; another shop is a ValueError.\<close>

type_synonym fleet = "string \<Rightarrow> shop_db"

datatype fleet_error = UnknownMerchant

definition fleet_execute :: "(json \<Rightarrow> string) \<Rightarrow> fleet \<Rightarrow> string \<Rightarrow> string \<Rightarrow> merchant_payload \<Rightarrow> fleet_error + merchant_result \<times> fleet" where
  "fleet_execute H fl shop operation_id p =
    (case map_of CAPACITY shop of
       None \<Rightarrow> Inl UnknownMerchant
     | Some capacity \<Rightarrow>
         (case execute_shop H capacity (fl shop) operation_id p of (result, db) \<Rightarrow> Inr (result, fl(shop := db))))"

definition set_accepting :: "fleet \<Rightarrow> string \<Rightarrow> string \<Rightarrow> bool \<Rightarrow> fleet_error + fleet" where
  "set_accepting fl shop world accepting =
    (if map_of CAPACITY shop = None then Inl UnknownMerchant
     else Inr (fl(shop := (fl shop)\<lparr>policy := dput world accepting (policy (fl shop))\<rparr>)))"

record shop_snapshot =
  sn_capacity :: nat
  sn_used :: nat
  sn_available :: int
  sn_reservations :: "seat list"

definition fleet_snapshot :: "fleet \<Rightarrow> string \<Rightarrow> (string \<times> shop_snapshot) list" where
  "fleet_snapshot fl world =
    map (\<lambda>(shop, limit). (shop,
      \<lparr>sn_capacity = limit, sn_used = seats_used (fl shop) world,
       sn_available = int limit - int (seats_used (fl shop) world),
       sn_reservations = sort_key seat_order (map snd (filter (\<lambda>(k, _). fst k = world) (seats (fl shop))))\<rparr>)) CAPACITY"

text \<open>
  \<open>fleet_evidence\<close> reads a reservation with the newest receipt of the order and the largest rowid
  of the world's receipts; a rowid is the position of a receipt, counted from one.
\<close>

record shop_evidence =
  ev_reservation :: "seat option"
  ev_revision :: nat
  ev_last :: "receipt_row option"

definition revision_of :: "shop_db \<Rightarrow> string \<Rightarrow> nat" where
  "revision_of db world =
    foldr max (map fst (filter (\<lambda>(i, r). rc_world r = world) (enumerate 1 (receipts db)))) 0"

definition last_receipt :: "shop_db \<Rightarrow> string \<Rightarrow> string \<Rightarrow> receipt_row option" where
  "last_receipt db world order_id =
    List.find (\<lambda>r. rc_world r = world \<and> rc_order r = order_id) (rev (receipts db))"

definition fleet_evidence :: "fleet \<Rightarrow> string \<Rightarrow> string \<Rightarrow> (string \<times> shop_evidence) list" where
  "fleet_evidence fl world order_id =
    map (\<lambda>(shop, _). (shop,
      \<lparr>ev_reservation = row_of (fl shop) world order_id, ev_revision = revision_of (fl shop) world,
       ev_last = last_receipt (fl shop) world order_id\<rparr>)) CAPACITY"

section \<open>Single commands\<close>

definition occupied :: "seat \<Rightarrow> bool" where
  "occupied s \<longleftrightarrow> seat_phase s \<in> set OCCUPIED"

definition terminal :: "seat \<Rightarrow> bool" where
  "terminal s \<longleftrightarrow> seat_phase s \<in> set TERMINAL_PHASES"

lemma terminal_not_occupied: "terminal s \<longleftrightarrow> \<not> occupied s"
  by (cases "seat_phase s") (simp_all add: occupied_def terminal_def OCCUPIED_def TERMINAL_PHASES_def)

text \<open>
  The cases of an accepted command: a new generation is admitted or held while there is
  room, a target is tombstoned, or the seat moves along the table.
\<close>

lemma transition_AcceptedE:
  assumes "merchant_transition row p accepting u capacity = Accepted s"
  obtains (fresh) "mp_action p \<in> {ADMIT, HOLD}" "u < capacity" "accepting" "\<not> mp_reject p"
      "\<forall>r. row = Some r \<longrightarrow> seat_generation r < mp_generation p \<and> terminal r"
      "seat_world s = mp_world p" "seat_order s = mp_order p" "seat_generation s = mp_generation p"
      "occupied s"
  | (tombstone) "mp_action p = ABORT_TARGET"
      "\<forall>r. row = Some r \<longrightarrow> seat_generation r < mp_generation p \<and> terminal r"
      "seat_world s = mp_world p" "seat_order s = mp_order p" "seat_generation s = mp_generation p"
      "seat_phase s = Aborted"
  | (move) r phases where "row = Some r" "seat_generation r = mp_generation p"
      "mp_action p \<notin> {ADMIT, HOLD}"
      "expected_phases (mp_action p) = Some phases" "seat_phase r \<in> set phases"
      "phase_after (mp_action p) = Some (seat_phase s)"
      "mp_action p \<in> set fenced_actions \<Longrightarrow> seat_transfer r = mp_transfer p"
      "seat_world s = seat_world r" "seat_order s = seat_order r" "seat_generation s = seat_generation r"
proof (cases "mp_action p \<in> {ADMIT, HOLD}")
  case True
  then show ?thesis using assms fresh
    by (auto simp: merchant_transition_def Let_def occupied_def OCCUPIED_def terminal_def split: if_splits option.splits)
next
  case False
  show ?thesis
  proof (cases "mp_action p = ABORT_TARGET \<and> (case row of None \<Rightarrow> True
       | Some r \<Rightarrow> seat_generation r < mp_generation p \<and> seat_phase r \<in> set TERMINAL_PHASES)")
    case True
    then show ?thesis using assms False tombstone
      by (auto simp: merchant_transition_def Let_def terminal_def split: option.splits)
  next
    case no: False
    then show ?thesis using assms False move
      by (simp add: merchant_transition_def Let_def split: option.splits if_splits) (auto split: option.splits if_splits)
  qed
qed

lemma table_keeps_terminal:
  assumes "expected_phases a = Some phases" "seat_phase r \<in> set phases" "phase_after a = Some (seat_phase s)"
  shows "terminal r \<Longrightarrow> terminal s"
  using assms by (cases a) (auto simp: terminal_def TERMINAL_PHASES_def)

lemma new_receipt_simps [simp]:
  "rc_world (new_receipt H oid p res) = mp_world p" "rc_command (new_receipt H oid p res) = oid"
  "rc_fingerprint (new_receipt H oid p res) = H (dumps_tree (payload_json p))"
  "rc_result (new_receipt H oid p res) = res"
  by (simp_all add: new_receipt_def)

definition decide_command :: "nat \<Rightarrow> shop_db \<Rightarrow> merchant_payload \<Rightarrow> merchant_result" where
  "decide_command capacity db p = merchant_transition (row_of db (mp_world p) (mp_order p)) p
     (dget True (policy db) (mp_world p)) (seats_used db (mp_world p)) capacity"

lemma apply_command_decide:
  "apply_command db capacity (row_of db (mp_world p) (mp_order p)) p =
    (case decide_command capacity db p of
       Accepted s \<Rightarrow> (Accepted s, db\<lparr>seats := dput (seat_world s, seat_order s) s (seats db)\<rparr>)
     | Failed code ph \<Rightarrow> (Failed code ph, db))"
  by (simp add: apply_command_def decide_command_def Let_def split: merchant_result.split)

lemma execute_shop_cases:
  assumes "execute_shop H capacity db oid p = (res, db')"
  obtains (receipt) f r where "find_receipt db (mp_world p, oid) = Some (f, r)" "db' = db"
      "res = (if f \<noteq> H (dumps_tree (payload_json p)) then Failed COMMAND_CONFLICT None else r)"
  | (accepted) s where "find_receipt db (mp_world p, oid) = None" "res = Accepted s"
      "decide_command capacity db p = Accepted s"
      "db' = db\<lparr>seats := dput (seat_world s, seat_order s) s (seats db), receipts := receipts db @ [new_receipt H oid p res]\<rparr>"
  | (failed) code ph where "find_receipt db (mp_world p, oid) = None" "res = Failed code ph"
      "decide_command capacity db p = Failed code ph"
      "db' = db\<lparr>receipts := receipts db @ [new_receipt H oid p res]\<rparr>"
proof (cases "find_receipt db (mp_world p, oid)")
  case None
  show ?thesis
  proof (cases "decide_command capacity db p")
    case (Accepted s)
    then have res: "res = Accepted s"
      using assms None by (simp add: execute_shop_def apply_command_decide Let_def)
    show ?thesis
      by (rule accepted [OF None res Accepted])
        (use assms [unfolded res] None Accepted res in \<open>auto simp: execute_shop_def apply_command_decide Let_def\<close>)
  next
    case (Failed code ph)
    then have res: "res = Failed code ph"
      using assms None by (simp add: execute_shop_def apply_command_decide Let_def)
    show ?thesis
      by (rule failed [OF None res Failed])
        (use assms [unfolded res] None Failed res in \<open>auto simp: execute_shop_def apply_command_decide Let_def\<close>)
  qed
next
  case (Some x)
  obtain f r where x: "x = (f, r)" by (cases x)
  have "res = (if f \<noteq> H (dumps_tree (payload_json p)) then Failed COMMAND_CONFLICT None else r)" "db' = db"
    using assms Some by (simp_all add: execute_shop_def Let_def x)
  then show ?thesis using receipt Some x by blast
qed

section \<open>Capacity\<close>

text \<open>Seats are stored under their own world and order, once each, and fit the capacity.\<close>

definition shop_inv :: "nat \<Rightarrow> shop_db \<Rightarrow> bool" where
  "shop_inv capacity db \<longleftrightarrow> distinct (map fst (seats db))
     \<and> (\<forall>(k, s) \<in> set (seats db). k = (seat_world s, seat_order s))
     \<and> (\<forall>w. seats_used db w \<le> capacity)"

lemma count_dput:
  assumes "distinct (map fst d)"
  shows "length (filter P (dput k v d)) + (case map_of d k of None \<Rightarrow> 0 | Some w \<Rightarrow> if P (k, w) then 1 else 0)
    = length (filter P d) + (if P (k, v) then 1 else (0::nat))"
  using assms
proof (induction d)
  case (Cons x d)
  obtain a b where x: "x = (a, b)" by (cases x)
  show ?case
  proof (cases "a = k")
    case True
    then show ?thesis by (simp add: x)
  next
    case False
    then show ?thesis using Cons by (simp add: x)
  qed
qed simp

lemma used_dput:
  assumes "distinct (map fst (seats db))"
  shows "seats_used (db\<lparr>seats := dput k s (seats db), receipts := rs\<rparr>) w
      + (case map_of (seats db) k of None \<Rightarrow> 0 | Some r \<Rightarrow> if fst k = w \<and> occupied r then 1 else 0)
    = seats_used db w + (if fst k = w \<and> occupied s then 1 else 0)"
  using count_dput [OF assms, of "\<lambda>(k, s). fst k = w \<and> occupied s" k s]
  by (simp add: seats_used_def occupied_def cong: option.case_cong)

lemma row_of_key:
  assumes "shop_inv capacity db" "row_of db w ord = Some r"
  shows "seat_world r = w" "seat_order r = ord"
  using assms by (auto simp: shop_inv_def row_of_def dest!: map_of_SomeD)

lemma accepted_key:
  assumes "shop_inv capacity db"
    and "decide_command capacity db p = Accepted s"
  shows "seat_world s = mp_world p" "seat_order s = mp_order p"
  using assms(2) [unfolded decide_command_def] by (cases rule: transition_AcceptedE; use row_of_key [OF assms(1)] in auto)+

lemma accepted_occupies:
  assumes "merchant_transition row p acc u cap = Accepted s" and "occupied s"
    and "\<forall>r. row = Some r \<longrightarrow> \<not> occupied r"
  shows "u < cap"
  using assms(1)
proof (cases rule: transition_AcceptedE)
  case tombstone
  then show ?thesis using assms(2) by (simp add: occupied_def OCCUPIED_def)
next
  case (move r phases)
  then show ?thesis using assms(2,3) table_keeps_terminal [OF move(4,5,6)] by (auto simp: terminal_not_occupied)
qed

lemma execute_shop_inv:
  assumes inv: "shop_inv capacity db" and e: "execute_shop H capacity db oid p = (res, db')"
  shows "shop_inv capacity db'"
  using e
proof (cases rule: execute_shop_cases)
  case (accepted s)
  let ?k = "(mp_world p, mp_order p)"
  have k: "seat_world s = mp_world p" "seat_order s = mp_order p"
    using accepted_key [OF inv accepted(3)] by auto
  have d: "distinct (map fst (seats db))" and le: "\<And>w. seats_used db w \<le> capacity" using inv by (auto simp: shop_inv_def)
  have "seats_used db' w \<le> capacity" for w
  proof (cases "fst ?k = w \<and> occupied s \<and> (\<forall>r. map_of (seats db) ?k = Some r \<longrightarrow> \<not> occupied r)")
    case True
    then have "seats_used db (mp_world p) < capacity"
      using accepted_occupies [OF accepted(3) [unfolded decide_command_def]] by (auto simp: row_of_def)
    moreover have "seats_used db' w = seats_used db w + 1"
      using True used_dput [OF d, where k = ?k and s = s and w = w and rs = "receipts db @ [new_receipt H oid p res]"]
      by (auto simp: accepted(4) k split: option.splits)
    ultimately show ?thesis using True by simp
  next
    case False
    then have "seats_used db' w \<le> seats_used db w"
      using used_dput [OF d, where k = ?k and s = s and w = w and rs = "receipts db @ [new_receipt H oid p res]"]
      by (auto simp: accepted(4) k split: option.splits if_splits)
    then show ?thesis using le [of w] by simp
  qed
  then show ?thesis using inv by (auto simp: shop_inv_def accepted(4) k dest: set_dputD)
qed (use inv in \<open>auto simp: shop_inv_def seats_used_def\<close>)

lemma empty_shop_inv [simp]: "shop_inv capacity empty_shop"
  by (simp add: shop_inv_def empty_shop_def seats_used_def)

section \<open>Receipts\<close>

definition exec_key :: "(json \<Rightarrow> string) \<Rightarrow> nat \<Rightarrow> shop_db \<Rightarrow> string \<times> string \<Rightarrow> merchant_payload \<Rightarrow> merchant_result \<times> shop_db" where
  "exec_key H capacity db k p = execute_shop H capacity db (snd k) (p\<lparr>mp_world := fst k\<rparr>)"

lemma find_receipt_append:
  "find_receipt (db\<lparr>receipts := receipts db @ [r]\<rparr>) k =
    (case find_receipt db k of None \<Rightarrow> if (rc_world r, rc_command r) = k then Some (rc_fingerprint r, rc_result r) else None
     | Some x \<Rightarrow> Some x)"
proof -
  have "List.find P (xs @ [r]) = (case List.find P xs of None \<Rightarrow> if P r then Some r else None | Some x \<Rightarrow> Some x)"
    for P :: "receipt_row \<Rightarrow> bool" and xs
    by (induction xs) auto
  then show ?thesis by (simp add: find_receipt_def split: option.split)
qed

lemma find_receipt_seats [simp]: "find_receipt (db\<lparr>seats := ss\<rparr>) k = find_receipt db k"
  by (simp add: find_receipt_def)

lemma find_receipt_policy [simp]: "find_receipt (db\<lparr>policy := pp\<rparr>) k = find_receipt db k"
  by (simp add: find_receipt_def)

lemma execute_shop_receipt:
  assumes "execute_shop H capacity db oid p = (res, db')"
  shows "find_receipt db' k = (case find_receipt db k of
      None \<Rightarrow> if k = (mp_world p, oid) then Some (H (dumps_tree (payload_json p)), res) else None
    | Some x \<Rightarrow> Some x)"
  using assms
proof (cases rule: execute_shop_cases)
  case (receipt f r)
  then show ?thesis by (auto split: option.splits)
next
  case (accepted s)
  then show ?thesis using find_receipt_append [of "db\<lparr>seats := _\<rparr>"]
    by (auto simp: split: option.splits)
next
  case (failed code ph)
  then show ?thesis by (auto simp: find_receipt_append split: option.splits)
qed

interpretation shop_receipts: receipt_store "exec_key H capacity" find_receipt
  "\<lambda>k p. H (dumps_tree (payload_json (p\<lparr>mp_world := fst k\<rparr>)))" "\<lambda>r. r = Failed COMMAND_CONFLICT None"
  for H capacity
proof (unfold_locales, goal_cases)
  case (1 s k c r)
  then show ?case by (simp add: exec_key_def execute_shop_def Let_def)
next
  case (2 s k f r' c)
  then show ?case by (simp add: exec_key_def execute_shop_def Let_def)
next
  case (3 s k c r t)
  then show ?case using execute_shop_receipt [of H capacity s "snd k" "c\<lparr>mp_world := fst k\<rparr>" r t k]
    by (simp add: exec_key_def)
next
  case (4 s k c r t j)
  then show ?case using execute_shop_receipt [of H capacity s "snd k" "c\<lparr>mp_world := fst k\<rparr>" r t j]
    by (auto simp: exec_key_def)
qed

section \<open>Tombstones\<close>

text \<open>
  An aborted seat stays as it is until a newer generation takes its place. The invariant
  says so of every receipt of an abort that a shop holds, so that a replayed receipt is a
  fence as well.
\<close>

definition fenced :: "shop_db \<Rightarrow> seat \<Rightarrow> bool" where
  "fenced db s \<longleftrightarrow> (\<exists>r. row_of db (seat_world s) (seat_order s) = Some r \<and>
     (r = s \<or> seat_generation s < seat_generation r))"

definition tomb_inv :: "shop_db \<Rightarrow> bool" where
  "tomb_inv db \<longleftrightarrow> (\<forall>rw \<in> set (receipts db). \<forall>s. rc_result rw = Accepted s \<and> seat_phase s = Aborted \<longrightarrow> fenced db s)"

lemma row_of_accepted:
  assumes "shop_inv capacity db" "decide_command capacity db p = Accepted s"
  shows "row_of (db\<lparr>seats := dput (seat_world s, seat_order s) s (seats db)\<rparr>) w ord =
    (if w = mp_world p \<and> ord = mp_order p then Some s else row_of db w ord)"
  using accepted_key [OF assms] by (auto simp: row_of_def)

lemma row_of_receipts [simp]: "row_of (db\<lparr>receipts := rs\<rparr>) w ord = row_of db w ord"
  by (simp add: row_of_def)

lemma row_of_policy [simp]: "row_of (db\<lparr>policy := pp\<rparr>) w ord = row_of db w ord"
  by (simp add: row_of_def)

lemma accepted_generation:
  assumes "merchant_transition (Some r) p acc u cap = Accepted s"
  shows "seat_generation r < seat_generation s \<or> seat_generation r = seat_generation s \<and> seat_phase r \<noteq> Aborted"
  using assms
proof (cases rule: transition_AcceptedE)
  case (move r' phases)
  then have "seat_phase r' \<noteq> Aborted" by (cases "mp_action p") auto
  then show ?thesis using move by simp
qed auto

lemma execute_shop_fenced:
  assumes inv: "shop_inv capacity db" and e: "execute_shop H capacity db oid p = (res, db')"
    and f: "fenced db s" and a: "seat_phase s = Aborted"
  shows "fenced db' s"
  using e
proof (cases rule: execute_shop_cases)
  case (accepted t)
  show ?thesis
  proof (cases "seat_world s = mp_world p \<and> seat_order s = mp_order p")
    case True
    then obtain r where r: "row_of db (mp_world p) (mp_order p) = Some r"
      and rs: "r = s \<or> seat_generation s < seat_generation r" using f by (auto simp: fenced_def)
    have "seat_generation r < seat_generation t \<or> seat_generation r = seat_generation t \<and> seat_phase r \<noteq> Aborted"
      using accepted_generation accepted(3) by (simp add: decide_command_def r)
    then show ?thesis using rs a True by (auto simp: fenced_def accepted(4) row_of_accepted [OF inv accepted(3)])
  next
    case False
    then show ?thesis using f by (auto simp: fenced_def accepted(4) row_of_accepted [OF inv accepted(3)])
  qed
qed (use f in \<open>simp_all add: fenced_def\<close>)

lemma fenced_fresh:
  assumes "shop_inv capacity db" "decide_command capacity db p = Accepted s"
  shows "fenced (db\<lparr>seats := dput (seat_world s, seat_order s) s (seats db), receipts := rs\<rparr>) s"
  using row_of_accepted [OF assms] accepted_key [OF assms] by (simp add: fenced_def)

lemma execute_shop_tomb_inv:
  assumes inv: "shop_inv capacity db" and t: "tomb_inv db" and e: "execute_shop H capacity db oid p = (res, db')"
  shows "tomb_inv db'"
  using e
proof (cases rule: execute_shop_cases)
  case (accepted s)
  have old: "fenced db' x" if "rw \<in> set (receipts db)" "rc_result rw = Accepted x" "seat_phase x = Aborted" for rw x
    using execute_shop_fenced [OF inv e] t that by (auto simp: tomb_inv_def)
  have "fenced db' s" unfolding accepted(4) by (rule fenced_fresh [OF inv accepted(3)])
  then show ?thesis unfolding tomb_inv_def using old accepted(2) by (auto simp: accepted(4))
qed (use t in \<open>auto simp: tomb_inv_def fenced_def\<close>)

lemma replayed_abort_fenced:
  assumes "shop_inv capacity db" "tomb_inv db"
    and e: "execute_shop H capacity db oid p = (Accepted s, db')" and "seat_phase s = Aborted"
  shows "fenced db' s"
proof -
  have t: "tomb_inv db'" using execute_shop_tomb_inv assms by blast
  have "\<exists>rw \<in> set (receipts db'). rc_result rw = Accepted s"
    using e
  proof (cases rule: execute_shop_cases)
    case (receipt f r)
    then have "r = Accepted s" by (auto split: if_splits)
    then show ?thesis using receipt(1,2)
      by (auto simp: find_receipt_def find_Some_iff)
  qed auto
  then show ?thesis using t assms(4) by (auto simp: tomb_inv_def)
qed


section \<open>Revisions\<close>

lemma foldr_max_le: "(\<forall>x \<in> set xs. x \<le> n) \<Longrightarrow> foldr max xs 0 \<le> n" for n :: nat
  by (induction xs) auto

lemma foldr_max_snoc: "(\<forall>x \<in> set xs. x \<le> n) \<Longrightarrow> foldr max (xs @ [n]) 0 = n" for n :: nat
  by (induction xs) auto

lemma revision_of_le: "revision_of db w \<le> length (receipts db)"
  unfolding revision_of_def by (rule foldr_max_le) (auto simp: in_set_enumerate_eq)

lemma revision_of_append:
  "revision_of (db\<lparr>receipts := receipts db @ [r]\<rparr>) w =
    (if rc_world r = w then Suc (length (receipts db)) else revision_of db w)"
proof -
  have "\<forall>x \<in> set (map fst (filter (\<lambda>(i, r). rc_world r = w) (enumerate 1 (receipts db)))). x \<le> Suc (length (receipts db))"
    by (auto simp: in_set_enumerate_eq)
  from foldr_max_snoc [OF this] show ?thesis by (simp add: revision_of_def enumerate_append_eq)
qed

lemma revision_of_seats [simp]: "revision_of (db\<lparr>seats := ss\<rparr>) w = revision_of db w"
  by (simp add: revision_of_def)

lemma revision_of_policy [simp]: "revision_of (db\<lparr>policy := pp\<rparr>) w = revision_of db w"
  by (simp add: revision_of_def)

text \<open>No seat of the world changes unless its revision grows.\<close>

definition fenced_by_revision :: "string \<Rightarrow> shop_db \<Rightarrow> shop_db \<Rightarrow> bool" where
  "fenced_by_revision w db db' \<longleftrightarrow> revision_of db w \<le> revision_of db' w \<and>
     (revision_of db' w = revision_of db w \<longrightarrow> row_of db' w = row_of db w)"

lemma fenced_by_revision_refl [simp]: "fenced_by_revision w db db"
  by (simp add: fenced_by_revision_def)

lemma fenced_by_revision_trans:
  "fenced_by_revision w a b \<Longrightarrow> fenced_by_revision w b c \<Longrightarrow> fenced_by_revision w a c"
  by (auto simp: fenced_by_revision_def)

lemma execute_shop_revision:
  assumes inv: "shop_inv capacity db" and e: "execute_shop H capacity db oid p = (res, db')"
  shows "fenced_by_revision w db db'"
  using e
proof (cases rule: execute_shop_cases)
  case (accepted s)
  have "revision_of db' w = (if mp_world p = w then Suc (length (receipts db)) else revision_of db w)"
    using revision_of_append [of "db\<lparr>seats := dput (seat_world s, seat_order s) s (seats db)\<rparr>"]
    by (simp add: accepted(4))
  then show ?thesis using revision_of_le [of db w]
    by (auto simp: fenced_by_revision_def accepted(4) row_of_accepted [OF inv accepted(3)] fun_eq_iff)
next
  case (failed code ph)
  then show ?thesis using revision_of_le [of db w]
    by (auto simp: fenced_by_revision_def revision_of_append row_of_def fun_eq_iff)
qed simp

section \<open>Runs of the fleet\<close>

datatype fleet_command = Execute string string merchant_payload | SetAccepting string string bool

fun fleet_step :: "(json \<Rightarrow> string) \<Rightarrow> fleet \<Rightarrow> fleet_command \<Rightarrow> fleet_error + fleet" where
  "fleet_step H fl (Execute shop oid p) = map_sum id snd (fleet_execute H fl shop oid p)"
| "fleet_step H fl (SetAccepting shop w b) = set_accepting fl shop w b"

definition fleet_inv :: "fleet \<Rightarrow> bool" where
  "fleet_inv fl \<longleftrightarrow> (\<forall>(shop, capacity) \<in> set CAPACITY. shop_inv capacity (fl shop) \<and> tomb_inv (fl shop))"

definition empty_fleet :: fleet where
  "empty_fleet = (\<lambda>_. empty_shop)"

lemma distinct_CAPACITY: "distinct (map fst CAPACITY)"
  by (simp add: CAPACITY_def)

lemma fleet_invD: "fleet_inv fl \<Longrightarrow> map_of CAPACITY shop = Some capacity \<Longrightarrow> shop_inv capacity (fl shop) \<and> tomb_inv (fl shop)"
  by (auto simp: fleet_inv_def dest!: map_of_SomeD)

lemma fleet_inv_upd:
  assumes "fleet_inv fl" "map_of CAPACITY shop = Some capacity" "shop_inv capacity db" "tomb_inv db"
  shows "fleet_inv (fl(shop := db))"
  using assms map_of_is_SomeI [OF distinct_CAPACITY] by (fastforce simp: fleet_inv_def)

lemma shop_inv_policy [simp]: "shop_inv capacity (db\<lparr>policy := pp\<rparr>) = shop_inv capacity db"
  by (simp add: shop_inv_def seats_used_def)

lemma tomb_inv_policy [simp]: "tomb_inv (db\<lparr>policy := pp\<rparr>) = tomb_inv db"
  by (simp add: tomb_inv_def fenced_def)

lemma execute_Inr:
  "fleet_execute H fl shop oid p = Inr (res, fl') \<longleftrightarrow>
    (\<exists>capacity db. map_of CAPACITY shop = Some capacity \<and> execute_shop H capacity (fl shop) oid p = (res, db) \<and> fl' = fl(shop := db))"
  by (auto simp: fleet_execute_def split: option.splits prod.splits)

text \<open>A step either leaves a shop alone, sets a policy there or runs one command on it.\<close>

lemma fleet_stepE:
  assumes "fleet_step H fl c = Inr fl'"
  obtains (exec) shop oid p capacity res db where "map_of CAPACITY shop = Some capacity"
      "execute_shop H capacity (fl shop) oid p = (res, db)" "fl' = fl(shop := db)"
  | (policy) shop capacity pp where "map_of CAPACITY shop = Some capacity" "fl' = fl(shop := (fl shop)\<lparr>policy := pp\<rparr>)"
proof (cases c)
  case (Execute shop oid p)
  then obtain res where "fleet_execute H fl shop oid p = Inr (res, fl')"
    using assms by (cases "fleet_execute H fl shop oid p") auto
  then show ?thesis using exec by (auto simp: execute_Inr)
next
  case (SetAccepting shop w b)
  then show ?thesis using assms policy by (auto simp: set_accepting_def split: if_splits)
qed

lemma fleet_step_inv: "fleet_inv fl \<Longrightarrow> fleet_step H fl c = Inr fl' \<Longrightarrow> fleet_inv fl'"
  by (erule fleet_stepE)
    (use fleet_invD fleet_inv_upd execute_shop_inv execute_shop_tomb_inv in \<open>(metis shop_inv_policy tomb_inv_policy)+\<close>)

lemma empty_fleet_inv [simp]: "fleet_inv empty_fleet"
  by (auto simp: fleet_inv_def empty_fleet_def tomb_inv_def empty_shop_def shop_inv_def seats_used_def)

interpretation fleet_runs: guarded_steps "fleet_step H" fleet_inv for H
  by unfold_locales (rule fleet_step_inv)

interpretation tombs: guarded_steps "fleet_step H" "\<lambda>fl. fleet_inv fl \<and> seat_phase s = Aborted \<and> fenced (fl shop) s" for H s shop
proof (unfold_locales, goal_cases)
  case (1 fl c fl')
  have "fenced (fl' shop) s" using 1(2)
  proof (cases rule: fleet_stepE)
    case (exec shop' oid p capacity res db)
    then show ?thesis using 1(1) fleet_invD [of fl shop' capacity] execute_shop_fenced [of capacity "fl shop'" H oid p res db s]
      by (cases "shop' = shop") auto
  next
    case (policy shop' capacity pp)
    then show ?thesis using 1(1) by (cases "shop' = shop") (auto simp: fenced_def)
  qed
  then show ?case using 1 fleet_step_inv by blast
qed

interpretation kept_receipts: guarded_steps "fleet_step H" "\<lambda>fl. find_receipt (fl shop) k = Some x" for H shop k x
proof (unfold_locales, goal_cases)
  case (1 fl c fl')
  show ?case using 1(2)
  proof (cases rule: fleet_stepE)
    case (exec shop' oid p capacity res db)
    then show ?thesis using 1(1) execute_shop_receipt [OF exec(2), of k] by (cases "shop' = shop") auto
  qed (use 1(1) in auto)
qed

interpretation revisions: guarded_steps "fleet_step H" "\<lambda>fl. fleet_inv fl \<and> fenced_by_revision w db (fl shop)" for H w db shop
proof (unfold_locales, goal_cases)
  case (1 fl c fl')
  have "fenced_by_revision w (fl shop) (fl' shop)" using 1(2)
  proof (cases rule: fleet_stepE)
    case (exec shop' oid p capacity res db')
    then show ?thesis using 1(1) fleet_invD [of fl shop' capacity] execute_shop_revision [of capacity "fl shop'" H oid p res db' w]
      by (cases "shop' = shop") auto
  next
    case (policy shop' capacity pp)
    then show ?thesis by (cases "shop' = shop") (auto simp: fenced_by_revision_def row_of_def fun_eq_iff)
  qed
  then show ?case using 1 fleet_step_inv fenced_by_revision_trans by blast
qed

text \<open>C15. Whatever commands and policy changes reach the merchants, in any order, no shop ever
  holds more occupied seats of one world than its capacity.\<close>

theorem capacity_never_exceeded:
  assumes "(shop, capacity) \<in> set CAPACITY"
  shows "seats_used (run (fleet_step H) empty_fleet cmds shop) world \<le> capacity"
  using fleet_runs.run_inv [OF empty_fleet_inv, of H cmds] assms by (auto simp: fleet_inv_def shop_inv_def)

text \<open>C16. Once a shop answered that the target seat of an order is aborted, the seat stays
  exactly that tombstone under any later commands, unless a strictly newer generation of the
  order replaced it: a late HOLD or ACTIVATE of the aborted attempt cannot revive it.\<close>

theorem aborted_target_stays_fenced:
  assumes "fleet_execute H (run (fleet_step H) empty_fleet before) shop oid p = Inr (Accepted s, fl)"
    and "seat_phase s = Aborted"
  shows "\<exists>r. row_of (run (fleet_step H) fl later shop) (seat_world s) (seat_order s) = Some r \<and>
    (r = s \<or> seat_generation s < seat_generation r)"
proof -
  let ?fl = "run (fleet_step H) empty_fleet before"
  obtain capacity db where cap: "map_of CAPACITY shop = Some capacity"
    and e: "execute_shop H capacity (?fl shop) oid p = (Accepted s, db)" and fl: "fl = ?fl(shop := db)"
    using assms(1) by (auto simp: execute_Inr)
  have inv: "fleet_inv ?fl" by (simp add: fleet_runs.run_inv)
  have "fleet_step H ?fl (Execute shop oid p) = Inr fl" using assms(1) by simp
  then have "fleet_inv fl" using inv fleet_step_inv by blast
  moreover have "fenced (fl shop) s"
    using replayed_abort_fenced [OF _ _ e assms(2)] fleet_invD [OF inv cap] by (simp add: fl)
  ultimately have "fenced (run (fleet_step H) fl later shop) s"
    using tombs.run_inv [where s = fl] assms(2) by blast
  then show ?thesis by (simp add: fenced_def)
qed

text \<open>A command may be sent again under its operation id after any other traffic: the shop
  gives the reply it gave the first time and changes nothing, accepted or not. Only a reused
  operation id with another command is answered differently.\<close>

theorem merchant_retry_is_safe:
  assumes "fleet_execute H fl shop oid p = Inr (res, fl')" and "res \<noteq> Failed COMMAND_CONFLICT None"
  shows "fleet_execute H (run (fleet_step H) fl' later) shop oid p = Inr (res, run (fleet_step H) fl' later)"
proof -
  let ?k = "(mp_world p, oid)" and ?fl = "run (fleet_step H) fl' later"
  obtain capacity db where cap: "map_of CAPACITY shop = Some capacity"
    and e: "execute_shop H capacity (fl shop) oid p = (res, db)" and fl: "fl' = fl(shop := db)"
    using assms(1) by (auto simp: execute_Inr)
  have ek: "exec_key H capacity d ?k p = execute_shop H capacity d oid p" for d by (simp add: exec_key_def)
  have "find_receipt db ?k = Some (H (dumps_tree (payload_json p)), res)"
    using shop_receipts.not_refused_stored [of H capacity "fl shop" ?k p res db] e assms(2) by (simp add: ek)
  then have "find_receipt (?fl shop) ?k = Some (H (dumps_tree (payload_json p)), res)"
    by (intro kept_receipts.run_inv) (simp add: fl)
  then have "execute_shop H capacity (?fl shop) oid p = (res, ?fl shop)"
    using shop_receipts.replay [of "?fl shop" ?k H p res capacity] by (simp add: ek)
  then show ?thesis using cap by (auto simp: execute_Inr)
qed

text \<open>The revision in a shop's evidence fences the world: when two readings of a shop give
  the same revision for a world, every seat of that world is as it was, whatever ran between
  them (a seat cannot change and change back unnoticed).\<close>

theorem evidence_revision_fences:
  assumes "revision_of (run (fleet_step H) empty_fleet (before @ between) shop) world =
      revision_of (run (fleet_step H) empty_fleet before shop) world"
  shows "row_of (run (fleet_step H) empty_fleet (before @ between) shop) world =
    row_of (run (fleet_step H) empty_fleet before shop) world"
proof -
  let ?fl = "run (fleet_step H) empty_fleet before"
  have "fleet_inv ?fl \<and> fenced_by_revision world (?fl shop) (?fl shop)" by (simp add: fleet_runs.run_inv)
  then have "fenced_by_revision world (?fl shop) (run (fleet_step H) ?fl between shop)"
    using revisions.run_inv by blast
  then show ?thesis using assms by (simp add: fenced_by_revision_def run_append)
qed

section \<open>Witnesses\<close>

definition sample_command :: "string \<Rightarrow> int \<Rightarrow> merchant_action \<Rightarrow> string \<Rightarrow> merchant_payload" where
  "sample_command ord g a token = \<lparr>mp_world = ''w'', mp_order = ord, mp_generation = g, mp_action = a,
     mp_transfer = token, mp_reject = False\<rparr>"

definition sample_hold :: "fleet_command list" where
  "sample_hold = [Execute ''oat'' ''op:HOLD'' (sample_command ''o1'' 1 HOLD ''op'')]"

definition sample_digest :: "json \<Rightarrow> string" where
  "sample_digest = json_texts"

theorem capacity_never_exceeded_witness:
  "seats_used (run (fleet_step sample_digest) empty_fleet (sample_hold @ [Execute ''oat'' ''q'' (sample_command ''o2'' 0 ADMIT [])]) ''oat'') ''w'' \<le> 1
    \<and> seats_used (run (fleet_step sample_digest) empty_fleet sample_hold ''oat'') ''w'' = 1"
proof
  show "seats_used (run (fleet_step sample_digest) empty_fleet (sample_hold @ [Execute ''oat'' ''q'' (sample_command ''o2'' 0 ADMIT [])]) ''oat'') ''w'' \<le> 1"
    by (rule capacity_never_exceeded) (simp add: CAPACITY_def)
  show "seats_used (run (fleet_step sample_digest) empty_fleet sample_hold ''oat'') ''w'' = 1" by code_simp
qed

definition sample_tomb :: seat where
  "sample_tomb = \<lparr>seat_world = ''w'', seat_order = ''o1'', seat_generation = 1, seat_phase = Aborted, seat_transfer = ''op''\<rparr>"

definition sample_aborted :: fleet where
  "sample_aborted = run (fleet_step sample_digest) empty_fleet
     (sample_hold @ [Execute ''oat'' ''op:ABORT_TARGET'' (sample_command ''o1'' 1 ABORT_TARGET ''op'')])"

lemma sample_abort_reply:
  "fleet_execute sample_digest (run (fleet_step sample_digest) empty_fleet sample_hold) ''oat'' ''op:ABORT_TARGET''
     (sample_command ''o1'' 1 ABORT_TARGET ''op'') = Inr (Accepted sample_tomb, sample_aborted)"
proof -
  let ?e = "fleet_execute sample_digest (run (fleet_step sample_digest) empty_fleet sample_hold) ''oat'' ''op:ABORT_TARGET''
    (sample_command ''o1'' 1 ABORT_TARGET ''op'')"
  have r: "map_sum id fst ?e = Inr (Accepted sample_tomb)" by code_simp
  then obtain x where x: "?e = Inr x" by (cases ?e) auto
  then show ?thesis using r by (cases x) (simp add: sample_aborted_def run_append x)
qed

theorem aborted_target_stays_fenced_witness:
  "\<exists>r. row_of (run (fleet_step sample_digest) sample_aborted
        [Execute ''oat'' ''late:HOLD'' (sample_command ''o1'' 1 HOLD ''op''),
         Execute ''oat'' ''late:ACTIVATE'' (sample_command ''o1'' 1 ACTIVATE ''op'')] ''oat'')
      (seat_world sample_tomb) (seat_order sample_tomb) = Some r
    \<and> (r = sample_tomb \<or> seat_generation sample_tomb < seat_generation r)"
  by (rule aborted_target_stays_fenced [OF sample_abort_reply]) (simp add: sample_tomb_def)


end
