(* ===== verification/Route_Models.thy ===== *)
theory Route_Models
  imports Py_Values
begin

text \<open>
  The dictionaries of the route service as records: the customer's intent, stores, prices,
  the wallet, plan rows, orders and the part of a journey that pricing and planning read.
  Display texts (names, subtitles, labels, messages) are left out: they are functions of the
  identifiers and codes that are kept. A dictionary entry that older journeys may lack is an
  option.
\<close>

datatype priority = ByArrival | ByPrice | ByWalk

record intent =
  in_destination :: string
  in_drink :: string
  in_milk :: string
  in_decaf :: bool
  in_budget :: int
  in_max_detour :: int
  in_deadline :: int
  in_priority :: priority
  in_coupon :: "string option"
  in_points :: int

text \<open>The transfer policy of a store stays raw JSON: the agreement checks its fields and types.\<close>

record store =
  st_id :: string
  st_queue_until :: int
  st_prices :: "(string \<times> int) list"
  st_prep :: int
  st_oat :: bool
  st_decaf :: bool
  st_online :: bool
  st_policy :: "json_obj option"

datatype coupon_reason = NONE | APPLIED | STORE_MISMATCH | MINIMUM | EXPIRED | USED

datatype pricing_policy = Coupon_Then_Points_V1 | Legacy_No_Benefits

record pricing =
  pr_gross :: int
  pr_selected :: "string option"
  pr_coupon :: "string option"
  pr_discount :: int
  pr_reason :: coupon_reason
  pr_requested :: int
  pr_points :: int
  pr_clipped :: bool
  pr_cash :: int
  pr_earn :: int
  pr_policy :: pricing_policy

record wallet =
  wa_balance :: int
  wa_held_points :: int
  wa_held_coupon :: "string option"
  wa_used_coupons :: "string list"
  wa_spent :: int
  wa_earned :: int

record product =
  pd_drink :: string
  pd_milk :: string
  pd_decaf :: bool
  pd_volume :: json
  pd_temperature :: json

record funding =
  fu_store :: string
  fu_gross :: int
  fu_customer_cash :: int
  fu_merchant_coupon :: int
  fu_platform_coupon :: int
  fu_platform_points :: int
  fu_merchant_receivable :: int
  fu_platform_support :: int

datatype plan_reason = MENU | MILK | DECAF | OFFLINE | BUDGET | DETOUR | DEADLINE
  | PARTNER_DISABLED | PARTNER_GROUP | PARTNER_UNVERIFIED | PRODUCT_SPEC

record terms =
  te_source :: "string option"
  te_target :: string
  te_eligible :: bool
  te_reasons :: "plan_reason list"
  te_source_policy :: "json_obj option"
  te_target_policy :: "json_obj option"
  te_source_product :: "product option"
  te_target_product :: product
  te_funding :: funding
  te_id :: string

record plan =
  pl_store :: string
  pl_walk_to :: int
  pl_walk_after :: int
  pl_walk_total :: int
  pl_detour :: int
  pl_wait :: int
  pl_price :: int
  pl_pricing :: pricing
  pl_start_at :: int
  pl_ready_at :: int
  pl_pickup_at :: int
  pl_arrival_at :: int
  pl_margin :: int
  pl_prep :: int
  pl_queue :: int
  pl_milk :: string
  pl_decaf :: bool
  pl_first_leg :: "string list"
  pl_second_leg :: "string list"
  pl_route :: "string list"
  pl_feasible :: bool
  pl_reasons :: "plan_reason list"
  pl_terms :: "terms option"
  pl_quote :: string

datatype order_state = RESERVED | PREPARING | READY | PICKED_UP | CANCELLED

record order =
  or_id :: string
  or_store :: string
  or_state :: order_state
  or_price :: int
  or_pricing :: "pricing option"
  or_plan :: plan
  or_ready_at :: int
  or_departure_at :: int
  or_pickup_code :: string
  or_terms :: "terms option"
  or_generation :: "int option"
  or_picked_up_at :: "int option"

record trip =
  tr_id :: string
  tr_version :: int
  tr_clock :: int
  tr_delay :: int
  tr_intent :: intent
  tr_stores :: "store list"
  tr_order :: "order option"
  tr_wallet :: "wallet option"
  tr_agreement :: bool

text \<open>What the operations of the route service raise.\<close>

datatype route_error =
    Hold_Exceeds_Balance | Hold_Mismatch | Coupon_Consumed
  | Negative_Funding | Funding_Unbalanced | Unknown_Coupon_Funding | Coupon_Wrong_Store
  | Policy_Type_Error | Disconnected | No_Such_Plan

end
