(* ===== verification/Benefits.thy ===== *)
theory Benefits
  imports Route_Models
begin

text \<open>
  \<open>benefits.py\<close>: coupons and points of one journey. A quote discounts the gross amount by
  the coupon first and by points next; a wallet holds, releases and consumes what a quote
  uses. Every operation raises before the journey is saved, so an error leaves the stored
  wallet as it was.
\<close>

definition INITIAL_POINTS :: int where
  "INITIAL_POINTS = 2000"

datatype coupon_kind = Fixed | Percent

record coupon =
  co_id :: string
  co_kind :: coupon_kind
  co_value :: int
  co_minimum :: int
  co_maximum :: int
  co_stores :: "string list"
  co_expires_at :: int

definition COUPONS :: "coupon list" where
  "COUPONS =
    [\<lparr>co_id = ''welcome500'', co_kind = Fixed, co_value = 500, co_minimum = 3000, co_maximum = 500,
      co_stores = [], co_expires_at = 180\<rparr>,
     \<lparr>co_id = ''wave1000'', co_kind = Fixed, co_value = 1000, co_minimum = 4000, co_maximum = 1000,
      co_stores = [''wave''], co_expires_at = 60\<rparr>,
     \<lparr>co_id = ''morning10'', co_kind = Percent, co_value = 10, co_minimum = 3000, co_maximum = 800,
      co_stores = [], co_expires_at = 30\<rparr>]"

definition initial_wallet :: wallet where
  "initial_wallet = \<lparr>wa_balance = INITIAL_POINTS, wa_held_points = 0, wa_held_coupon = None,
     wa_used_coupons = [], wa_spent = 0, wa_earned = 0\<rparr>"

definition wallet_for :: "'a trip_scheme \<Rightarrow> wallet" where
  "wallet_for s = (case tr_wallet s of None \<Rightarrow> initial_wallet | Some w \<Rightarrow> w)"

definition find_coupon :: "string option \<Rightarrow> coupon option" where
  "find_coupon selection = List.find (\<lambda>c. Some (co_id c) = selection) COUPONS"

definition coupon_reason_of :: "'a trip_scheme \<Rightarrow> string \<Rightarrow> int \<Rightarrow> coupon \<Rightarrow> coupon_reason" where
  "coupon_reason_of s store_id gross c =
    (if co_id c \<in> set (wa_used_coupons (wallet_for s)) then USED
     else if co_expires_at c \<le> tr_clock s \<and> wa_held_coupon (wallet_for s) \<noteq> Some (co_id c) then EXPIRED
     else if co_stores c \<noteq> [] \<and> store_id \<notin> set (co_stores c) then STORE_MISMATCH
     else if gross < co_minimum c then MINIMUM
     else APPLIED)"

definition price_quote :: "'a trip_scheme \<Rightarrow> string \<Rightarrow> int \<Rightarrow> pricing" where
  "price_quote s store_id gross =
    (let selection = in_coupon (tr_intent s); coupon = find_coupon selection;
         reason = (case coupon of None \<Rightarrow> NONE | Some c \<Rightarrow> coupon_reason_of s store_id gross c);
         discount = (case coupon of None \<Rightarrow> 0 | Some c \<Rightarrow>
           if reason = APPLIED
           then min (min gross (co_maximum c)) (case co_kind c of Fixed \<Rightarrow> co_value c | Percent \<Rightarrow> gross * co_value c div 100)
           else 0);
         requested = in_points (tr_intent s);
         points = min (min requested (wa_balance (wallet_for s))) (max 0 (gross - discount));
         cash = gross - discount - points
     in \<lparr>pr_gross = gross, pr_selected = selection, pr_coupon = (if discount \<noteq> 0 then selection else None),
         pr_discount = discount, pr_reason = reason, pr_requested = requested, pr_points = points,
         pr_clipped = (points \<noteq> requested), pr_cash = cash, pr_earn = cash div 100,
         pr_policy = Coupon_Then_Points_V1\<rparr>)"

datatype coupon_status = Coupon_Used | Coupon_Held | Coupon_Expired | Coupon_Available

definition coupon_status_of :: "'a trip_scheme \<Rightarrow> coupon \<Rightarrow> coupon_status" where
  "coupon_status_of s c =
    (if co_id c \<in> set (wa_used_coupons (wallet_for s)) then Coupon_Used
     else if wa_held_coupon (wallet_for s) = Some (co_id c) then Coupon_Held
     else if co_expires_at c \<le> tr_clock s then Coupon_Expired else Coupon_Available)"

record wallet_view = wallet +
  wv_available :: int
  wv_coupons :: "(coupon \<times> coupon_status) list"

definition wallet_view_of :: "'a trip_scheme \<Rightarrow> wallet_view" where
  "wallet_view_of s = (let w = wallet_for s in
     wallet.extend w (wallet_view.fields (wa_balance w - wa_held_points w) (map (\<lambda>c. (c, coupon_status_of s c)) COUPONS)))"

definition legacy_pricing :: "order \<Rightarrow> pricing" where
  "legacy_pricing ord =
    \<lparr>pr_gross = or_price ord, pr_selected = None, pr_coupon = None, pr_discount = 0, pr_reason = NONE,
     pr_requested = 0, pr_points = 0, pr_clipped = False, pr_cash = or_price ord, pr_earn = 0,
     pr_policy = Legacy_No_Benefits\<rparr>"

text \<open>\<open>order.get('pricing', legacy_pricing(order))\<close>\<close>

definition pricing_of :: "order \<Rightarrow> pricing" where
  "pricing_of ord = (case or_pricing ord of None \<Rightarrow> legacy_pricing ord | Some p \<Rightarrow> p)"

definition hold :: "'a trip_scheme \<Rightarrow> pricing \<Rightarrow> route_error + 'a trip_scheme" where
  "hold s p = (let w = wallet_for s in
     if wa_balance w < pr_points p then Inl Hold_Exceeds_Balance
     else Inr (s\<lparr>tr_wallet := Some (w\<lparr>wa_held_points := pr_points p, wa_held_coupon := pr_coupon p\<rparr>)\<rparr>))"

definition release :: "'a trip_scheme \<Rightarrow> 'a trip_scheme" where
  "release s = s\<lparr>tr_wallet := Some ((wallet_for s)\<lparr>wa_held_points := 0, wa_held_coupon := None\<rparr>)\<rparr>"

definition consume :: "'a trip_scheme \<Rightarrow> pricing \<Rightarrow> route_error + 'a trip_scheme" where
  "consume s p = (let w = wallet_for s in
     if wa_held_points w \<noteq> pr_points p \<or> wa_held_coupon w \<noteq> pr_coupon p then Inl Hold_Mismatch
     else if (case pr_coupon p of None \<Rightarrow> False | Some c \<Rightarrow> c \<noteq> [] \<and> c \<in> set (wa_used_coupons w)) then Inl Coupon_Consumed
     else Inr (release (s\<lparr>tr_wallet := Some (w\<lparr>
        wa_balance := wa_balance w + (pr_earn p - pr_points p), wa_spent := wa_spent w + pr_points p,
        wa_earned := wa_earned w + pr_earn p,
        wa_used_coupons := wa_used_coupons w @ (case pr_coupon p of None \<Rightarrow> [] | Some c \<Rightarrow> if c \<noteq> [] then [c] else [])\<rparr>)\<rparr>)))"

section \<open>Quotes\<close>

lemma find_coupon_cases:
  assumes "find_coupon sel = Some c"
  shows "c \<in> set COUPONS" "sel = Some (co_id c)"
  using assms by (auto simp: find_coupon_def find_Some_iff in_set_conv_nth)

lemma coupon_bounds: "c \<in> set COUPONS \<Longrightarrow> 0 < co_value c \<and> 0 < co_maximum c \<and> 0 < co_minimum c"
  by (auto simp: COUPONS_def)

definition coupon_value :: "coupon \<Rightarrow> int \<Rightarrow> int" where
  "coupon_value c gross = (case co_kind c of Fixed \<Rightarrow> co_value c | Percent \<Rightarrow> gross * co_value c div 100)"

text \<open>The discount first; every other field reads it.\<close>

definition quote_discount :: "'a trip_scheme \<Rightarrow> string \<Rightarrow> int \<Rightarrow> int" where
  "quote_discount s st g = (case find_coupon (in_coupon (tr_intent s)) of None \<Rightarrow> 0
     | Some c \<Rightarrow> if coupon_reason_of s st g c = APPLIED then min (min g (co_maximum c)) (coupon_value c g) else 0)"

lemma price_quote_fields [simp]: "pr_gross (price_quote s st g) = g" "pr_requested (price_quote s st g) = in_points (tr_intent s)"
  unfolding price_quote_def Let_def by (rule pricing.select_convs)+

lemma price_quote_parts:
  "pr_discount (price_quote s st g) = quote_discount s st g"
  "pr_points (price_quote s st g) = min (min (in_points (tr_intent s)) (wa_balance (wallet_for s))) (max 0 (g - quote_discount s st g))"
  "pr_cash (price_quote s st g) = g - pr_discount (price_quote s st g) - pr_points (price_quote s st g)"
  "pr_earn (price_quote s st g) = pr_cash (price_quote s st g) div 100"
  "pr_coupon (price_quote s st g) = (if quote_discount s st g \<noteq> 0 then in_coupon (tr_intent s) else None)"
proof -
  have d: "(case find_coupon (in_coupon (tr_intent s)) of None \<Rightarrow> 0 | Some c \<Rightarrow>
      if (case find_coupon (in_coupon (tr_intent s)) of None \<Rightarrow> NONE | Some c \<Rightarrow> coupon_reason_of s st g c) = APPLIED
      then min (min g (co_maximum c)) (case co_kind c of Fixed \<Rightarrow> co_value c | Percent \<Rightarrow> g * co_value c div 100) else 0) = quote_discount s st g"
    by (simp add: quote_discount_def coupon_value_def split: option.split)
  show "pr_discount (price_quote s st g) = quote_discount s st g"
    "pr_points (price_quote s st g) = min (min (in_points (tr_intent s)) (wa_balance (wallet_for s))) (max 0 (g - quote_discount s st g))"
    "pr_cash (price_quote s st g) = g - pr_discount (price_quote s st g) - pr_points (price_quote s st g)"
    "pr_earn (price_quote s st g) = pr_cash (price_quote s st g) div 100"
    "pr_coupon (price_quote s st g) = (if quote_discount s st g \<noteq> 0 then in_coupon (tr_intent s) else None)"
    unfolding price_quote_def Let_def d by (simp_all only: pricing.select_convs)
qed

lemmas price_quote_discount_eq = price_quote_parts(1) [unfolded quote_discount_def]

lemma price_quote_total: "pr_discount (price_quote s st g) + pr_points (price_quote s st g) + pr_cash (price_quote s st g) = g"
  by (simp add: price_quote_parts(3))

lemma price_quote_discount:
  assumes "0 \<le> g"
  shows "0 \<le> pr_discount (price_quote s st g) \<and> pr_discount (price_quote s st g) \<le> g"
proof (cases "find_coupon (in_coupon (tr_intent s))")
  case (Some c)
  then have "0 < co_value c \<and> 0 < co_maximum c" using find_coupon_cases coupon_bounds by blast
  moreover from this have "0 \<le> coupon_value c g"
    using assms by (cases "co_kind c") (simp_all add: coupon_value_def pos_imp_zdiv_nonneg_iff)
  ultimately show ?thesis using assms Some by (simp add: price_quote_discount_eq min.coboundedI1)
qed (use assms in \<open>simp add: price_quote_discount_eq\<close>)

lemma price_quote_points:
  assumes "0 \<le> g" "0 \<le> in_points (tr_intent s)" "0 \<le> wa_balance (wallet_for s)"
  shows "0 \<le> pr_points (price_quote s st g)" "pr_points (price_quote s st g) \<le> wa_balance (wallet_for s)"
    "pr_points (price_quote s st g) \<le> in_points (tr_intent s)" "0 \<le> pr_cash (price_quote s st g)"
    "0 \<le> pr_earn (price_quote s st g)"
proof -
  let ?q = "price_quote s st g"
  have p: "pr_points ?q = min (min (in_points (tr_intent s)) (wa_balance (wallet_for s))) (max 0 (g - pr_discount ?q))"
    and c: "pr_cash ?q = g - pr_discount ?q - pr_points ?q" and e: "pr_earn ?q = pr_cash ?q div 100"
    by (simp_all only: price_quote_parts)
  have d: "pr_discount ?q \<le> g" using price_quote_discount [OF assms(1)] by blast
  show "0 \<le> pr_points ?q" "pr_points ?q \<le> wa_balance (wallet_for s)" "pr_points ?q \<le> in_points (tr_intent s)"
    using assms by (auto simp: p)
  show cash: "0 \<le> pr_cash ?q" using d by (simp add: c p)
  then show "0 \<le> pr_earn ?q" by (simp add: e)
qed

lemma price_quote_coupon:
  assumes "pr_discount (price_quote s st g) \<noteq> 0"
  obtains c where "c \<in> set COUPONS" "in_coupon (tr_intent s) = Some (co_id c)"
    "pr_coupon (price_quote s st g) = Some (co_id c)" "coupon_reason_of s st g c = APPLIED"
proof (cases "find_coupon (in_coupon (tr_intent s))")
  case (Some c)
  have q: "quote_discount s st g \<noteq> 0" using assms by (simp add: price_quote_parts)
  then have "coupon_reason_of s st g c = APPLIED" using Some by (auto simp: quote_discount_def split: if_splits)
  then show ?thesis using q find_coupon_cases [OF Some] that [of c] by (simp add: price_quote_parts(5))
qed (use assms in \<open>simp add: price_quote_discount_eq\<close>)

lemma price_quote_no_coupon: "pr_discount (price_quote s st g) = 0 \<Longrightarrow> pr_coupon (price_quote s st g) = None"
  by (simp add: price_quote_parts)

section \<open>The wallet over a journey\<close>

text \<open>
  The commands a journey issues to its wallet: it holds a quote it made itself, releases
  the hold, or consumes the quote it holds.
\<close>

datatype wallet_command = Hold pricing | Release | Consume pricing

definition valid_pricing :: "pricing \<Rightarrow> bool" where
  "valid_pricing p \<longleftrightarrow> 0 \<le> pr_points p \<and> 0 \<le> pr_earn p"

fun wallet_step :: "'a trip_scheme \<Rightarrow> wallet_command \<Rightarrow> route_error + 'a trip_scheme" where
  "wallet_step s (Hold p) = hold s p"
| "wallet_step s Release = Inr (release s)"
| "wallet_step s (Consume p) = consume s p"

definition wallet_ok :: "wallet \<Rightarrow> bool" where
  "wallet_ok w \<longleftrightarrow> 0 \<le> wa_held_points w \<and> wa_held_points w \<le> wa_balance w
     \<and> wa_balance w = INITIAL_POINTS + wa_earned w - wa_spent w
     \<and> 0 \<le> wa_spent w \<and> 0 \<le> wa_earned w \<and> distinct (wa_used_coupons w)"

lemma initial_wallet_ok [simp]: "wallet_ok initial_wallet"
  by (simp add: wallet_ok_def initial_wallet_def INITIAL_POINTS_def)

lemma wallet_for_simps [simp]: "wallet_for (s\<lparr>tr_wallet := Some w\<rparr>) = w"
  by (simp add: wallet_for_def)

lemma hold_Inr: "hold s p = Inr t \<longleftrightarrow> pr_points p \<le> wa_balance (wallet_for s) \<and>
    t = s\<lparr>tr_wallet := Some ((wallet_for s)\<lparr>wa_held_points := pr_points p, wa_held_coupon := pr_coupon p\<rparr>)\<rparr>"
  by (auto simp: hold_def Let_def)

lemma wallet_for_release: "wallet_for (release s) = (wallet_for s)\<lparr>wa_held_points := 0, wa_held_coupon := None\<rparr>"
  by (simp add: release_def)

lemma consume_Inr:
  assumes "consume s p = Inr t"
  shows "wa_held_points (wallet_for s) = pr_points p" "wa_held_coupon (wallet_for s) = pr_coupon p"
    "wallet_for t = (wallet_for s)\<lparr>wa_balance := wa_balance (wallet_for s) + (pr_earn p - pr_points p),
       wa_spent := wa_spent (wallet_for s) + pr_points p, wa_earned := wa_earned (wallet_for s) + pr_earn p,
       wa_used_coupons := wa_used_coupons (wallet_for s) @ (case pr_coupon p of None \<Rightarrow> [] | Some c \<Rightarrow> if c \<noteq> [] then [c] else []),
       wa_held_points := 0, wa_held_coupon := None\<rparr>"
    "\<forall>c. pr_coupon p = Some c \<and> c \<noteq> [] \<longrightarrow> c \<notin> set (wa_used_coupons (wallet_for s))"
  using assms by (auto simp: consume_def Let_def wallet_for_release split: if_splits option.splits)

definition good_command :: "wallet_command \<Rightarrow> bool" where
  "good_command c = (case c of Hold p \<Rightarrow> valid_pricing p | Release \<Rightarrow> True | Consume p \<Rightarrow> valid_pricing p)"

lemma wallet_step_ok:
  assumes "wallet_ok (wallet_for s)" "wallet_step s c = Inr t" "good_command c"
  shows "wallet_ok (wallet_for t)"
proof (cases c)
  case (Hold p)
  then show ?thesis using assms by (auto simp: hold_Inr wallet_ok_def good_command_def valid_pricing_def)
next
  case Release
  then show ?thesis using assms by (auto simp: wallet_ok_def wallet_for_release)
next
  case (Consume p)
  then have "consume s p = Inr t" using assms by simp
  from consume_Inr [OF this] show ?thesis using assms Consume
    by (auto simp: wallet_ok_def good_command_def valid_pricing_def split: option.splits)
qed

interpretation wallets: checked_steps wallet_step "\<lambda>s. wallet_ok (wallet_for s)" good_command
  by unfold_locales (rule wallet_step_ok)

lemma used_coupons_grow:
  assumes "wallet_step s c = Inr t"
  shows "set (wa_used_coupons (wallet_for s)) \<subseteq> set (wa_used_coupons (wallet_for t))"
  using assms by (cases c) (auto simp: hold_Inr wallet_for_release dest!: consume_Inr(3))

interpretation used_coupons: guarded_steps wallet_step "\<lambda>s. k \<in> set (wa_used_coupons (wallet_for s))" for k
  by unfold_locales (use used_coupons_grow in blast)

lemma price_quote_used:
  assumes "in_coupon (tr_intent s) = Some k" "k \<in> set (wa_used_coupons (wallet_for s))"
  shows "pr_discount (price_quote s st g) = 0 \<and> pr_coupon (price_quote s st g) = None"
proof -
  have "coupon_reason_of s st g c = USED" if "find_coupon (Some k) = Some c" for c
    using find_coupon_cases(2) [OF that] assms(2) by (simp add: coupon_reason_of_def)
  then show ?thesis using assms(1) by (auto simp: price_quote_parts quote_discount_def split: option.splits)
qed

text \<open>Points are never overdrawn: whatever holds, releases and pickups a journey goes
  through, its held points stay between zero and its balance, its balance is the initial
  grant plus what was earned minus what was spent, and no coupon is recorded as used twice.\<close>

theorem wallet_never_overdrawn:
  assumes "wallet_for s = initial_wallet" and "\<forall>c \<in> set cs. good_command c"
  shows "wallet_ok (wallet_for (run wallet_step s cs))"
  using wallets.checked_run_inv [of s cs] assms by simp

text \<open>A coupon discounts one pickup at most: after a pickup consumed it, no later quote of
  the journey, for any store and any amount, grants it again.\<close>

theorem coupon_spent_once:
  assumes "consume s p = Inr t" and "pr_coupon p = Some k" and "k \<noteq> []"
    and "in_coupon (tr_intent (run wallet_step t cs)) = Some k"
  shows "pr_discount (price_quote (run wallet_step t cs) st g) = 0 \<and>
    pr_coupon (price_quote (run wallet_step t cs) st g) = None"
proof -
  have "k \<in> set (wa_used_coupons (wallet_for t))" using consume_Inr(3) [OF assms(1)] assms(2,3) by simp
  then have "k \<in> set (wa_used_coupons (wallet_for (run wallet_step t cs)))" by (rule used_coupons.run_inv)
  then show ?thesis using price_quote_used assms(4) by blast
qed

section \<open>Witnesses\<close>

definition sample_intent :: intent where
  "sample_intent = \<lparr>in_destination = ''office'', in_drink = ''latte'', in_milk = ''regular'', in_decaf = False,
     in_budget = 5500, in_max_detour = 5, in_deadline = 16, in_priority = ByArrival,
     in_coupon = Some ''wave1000'', in_points = 500\<rparr>"

definition sample_trip :: trip where
  "sample_trip = \<lparr>tr_id = ''t'', tr_version = 1, tr_clock = 0, tr_delay = 0, tr_intent = sample_intent,
     tr_stores = [], tr_order = None, tr_wallet = Some initial_wallet, tr_agreement = True\<rparr>"

definition sample_quote :: pricing where
  "sample_quote = price_quote sample_trip ''wave'' 4300"

definition sample_held :: trip where
  "sample_held = the_ok (hold sample_trip sample_quote)"

theorem wallet_never_overdrawn_witness:
  "wallet_ok (wallet_for (run wallet_step sample_trip [Hold sample_quote, Consume sample_quote, Release]))"
  by (rule wallet_never_overdrawn) code_simp+

theorem coupon_spent_once_witness:
  "pr_discount (price_quote (run wallet_step (the_ok (consume sample_held sample_quote)) [Release]) ''wave'' 4300) = 0
    \<and> pr_coupon (price_quote (run wallet_step (the_ok (consume sample_held sample_quote)) [Release]) ''wave'' 4300) = None"
proof (rule coupon_spent_once)
  have "is_ok (consume sample_held sample_quote)" by code_simp
  then show "consume sample_held sample_quote = Inr (the_ok (consume sample_held sample_quote))"
    by (cases "consume sample_held sample_quote") auto
  show "pr_coupon sample_quote = Some ''wave1000''" by code_simp
  show "''wave1000'' \<noteq> []" by simp
  show "in_coupon (tr_intent (run wallet_step (the_ok (consume sample_held sample_quote)) [Release])) = Some ''wave1000''"
    by code_simp
qed

end
