(* ===== verification/Agreement.thy ===== *)
theory Agreement
  imports Benefits
begin

text \<open>
  \<open>agreement.py\<close>: who funds a modelled sale, and whether an order may move to another
  store. Policies are raw JSON; comparing a list or a dictionary with a set of texts raises
  a TypeError. The SHA-256 of the printed terms is the argument \<open>TH\<close>, a function of the
  terms without their id.
\<close>

definition default_policy :: "string \<Rightarrow> json_obj" where
  "default_policy shop =
    [(''enabled'', JBool (shop \<notin> {''garden'', ''express''})), (''group'', JStr ''commute-demo''),
     (''revision'', JInt 1), (''volume_ml'', JInt 360), (''temperature'', JStr ''ICED'')]"

definition fund :: "string \<Rightarrow> pricing \<Rightarrow> route_error + funding" where
  "fund shop p =
    (let gross = pr_gross p; discount = pr_discount p; points = pr_points p; cash = pr_cash p;
         store_coupon = (if pr_coupon p = Some ''wave1000'' then discount else 0)
     in if gross < 0 \<or> discount < 0 \<or> points < 0 \<or> cash < 0 then Inl Negative_Funding
        else if cash + discount + points \<noteq> gross then Inl Funding_Unbalanced
        else if discount \<noteq> 0 \<and> pr_coupon p \<notin> {Some ''welcome500'', Some ''wave1000'', Some ''morning10''}
          then Inl Unknown_Coupon_Funding
        else if store_coupon \<noteq> 0 \<and> shop \<noteq> ''wave'' then Inl Coupon_Wrong_Store
        else Inr \<lparr>fu_store = shop, fu_gross = gross, fu_customer_cash = cash, fu_merchant_coupon = store_coupon,
          fu_platform_coupon = discount - store_coupon, fu_platform_points = points,
          fu_merchant_receivable = gross - store_coupon,
          fu_platform_support = discount - store_coupon + points\<rparr>)"

definition policy_or_empty :: "store \<Rightarrow> json_obj" where
  "policy_or_empty shop = (case st_policy shop of None \<Rightarrow> [] | Some p \<Rightarrow> p)"

definition profile :: "store \<Rightarrow> intent \<Rightarrow> product" where
  "profile shop i = \<lparr>pd_drink = in_drink i, pd_milk = in_milk i, pd_decaf = in_decaf i,
     pd_volume = pget (policy_or_empty shop) ''volume_ml'', pd_temperature = pget (policy_or_empty shop) ''temperature''\<rparr>"

definition product_eq :: "product \<Rightarrow> product \<Rightarrow> bool" where
  "product_eq a b \<longleftrightarrow> pd_drink a = pd_drink b \<and> pd_milk a = pd_milk b \<and> pd_decaf a = pd_decaf b
     \<and> py_eq (pd_volume a) (pd_volume b) \<and> py_eq (pd_temperature a) (pd_temperature b)"

definition required_fields :: "string list" where
  "required_fields = [''enabled'', ''group'', ''revision'', ''volume_ml'', ''temperature'']"

text \<open>The test of one policy, in the order of the code.\<close>

definition policy_unverified :: "json_obj \<Rightarrow> route_error + bool" where
  "policy_unverified p =
    (if \<not> list_all (has_key p) required_fields then Inr True
     else if (case pget p ''group'' of JStr g \<Rightarrow> g = [] | _ \<Rightarrow> True) then Inr True
     else if (case pget p ''revision'' of JInt n \<Rightarrow> n < 1 | _ \<Rightarrow> True) then Inr True
     else if (case pget p ''volume_ml'' of JInt n \<Rightarrow> n \<le> 0 | _ \<Rightarrow> True) then Inr True
     else if \<not> hashable (pget p ''temperature'') then Inl Policy_Type_Error
     else Inr (pget p ''temperature'' \<notin> {JStr ''ICED'', JStr ''HOT''}))"

definition unverified :: "json_obj \<Rightarrow> json_obj \<Rightarrow> route_error + bool" where
  "unverified p q = (case policy_unverified p of Inl e \<Rightarrow> Inl e | Inr True \<Rightarrow> Inr True | Inr False \<Rightarrow> policy_unverified q)"

definition order_active :: "order option \<Rightarrow> bool" where
  "order_active ord = (case ord of None \<Rightarrow> False | Some x \<Rightarrow> or_state x \<notin> {CANCELLED, PICKED_UP})"

definition source_store :: "'a trip_scheme \<Rightarrow> store option" where
  "source_store s = (case tr_order s of None \<Rightarrow> None
     | Some x \<Rightarrow> if order_active (Some x) then List.find (\<lambda>v. st_id v = or_store x) (tr_stores s) else None)"

definition source_product :: "'a trip_scheme \<Rightarrow> product option" where
  "source_product s = (case (source_store s, tr_order s) of
     (Some src, Some x) \<Rightarrow> Some (case or_terms x of Some t \<Rightarrow> te_target_product t | None \<Rightarrow> profile src (tr_intent s))
   | _ \<Rightarrow> None)"

definition transfer_reasons :: "'a trip_scheme \<Rightarrow> store \<Rightarrow> store \<Rightarrow> product \<Rightarrow> route_error + plan_reason list" where
  "transfer_reasons s src target sp =
    (let p = policy_or_empty src; q = policy_or_empty target
     in case unverified p q of Inl e \<Rightarrow> Inl e
        | Inr True \<Rightarrow> Inr [PARTNER_UNVERIFIED]
        | Inr False \<Rightarrow> Inr
            ((if pget p ''enabled'' \<noteq> JBool True \<or> pget q ''enabled'' \<noteq> JBool True then [PARTNER_DISABLED] else [])
             @ (if pget p ''group'' \<noteq> pget q ''group'' then [PARTNER_GROUP] else [])
             @ (if \<not> product_eq sp (profile target (tr_intent s)) then [PRODUCT_SPEC] else [])))"

definition assess_reasons :: "'a trip_scheme \<Rightarrow> store \<Rightarrow> route_error + plan_reason list" where
  "assess_reasons s target = (case (source_store s, source_product s) of
     (Some src, Some sp) \<Rightarrow> if st_id src \<noteq> st_id target then transfer_reasons s src target sp else Inr []
   | _ \<Rightarrow> Inr [])"

definition assess :: "(terms \<Rightarrow> string) \<Rightarrow> 'a trip_scheme \<Rightarrow> store \<Rightarrow> pricing \<Rightarrow> route_error + terms" where
  "assess TH s target p = (case assess_reasons s target of Inl e \<Rightarrow> Inl e
     | Inr reasons \<Rightarrow> (case fund (st_id target) p of Inl e \<Rightarrow> Inl e
       | Inr f \<Rightarrow>
           let value = \<lparr>te_source = map_option st_id (source_store s), te_target = st_id target,
                 te_eligible = (reasons = []), te_reasons = reasons,
                 te_source_policy = (case source_store s of None \<Rightarrow> None | Some v \<Rightarrow> st_policy v),
                 te_target_policy = st_policy target, te_source_product = source_product s,
                 te_target_product = profile target (tr_intent s), te_funding = f, te_id = []\<rparr>
           in Inr (value\<lparr>te_id := TH value\<rparr>)))"

section \<open>Funding\<close>

lemma fund_Inr:
  assumes "fund shop p = Inr f"
  shows "fu_customer_cash f + fu_platform_support f = fu_merchant_receivable f"
    "fu_customer_cash f + fu_merchant_coupon f + fu_platform_coupon f + fu_platform_points f = pr_gross p"
    "0 \<le> fu_merchant_receivable f" "fu_merchant_receivable f \<le> pr_gross p"
    "fu_merchant_coupon f \<noteq> 0 \<Longrightarrow> shop = ''wave''"
  using assms by (auto simp: fund_def Let_def split: if_splits)

lemma quote_fundable:
  assumes "0 \<le> g" "0 \<le> in_points (tr_intent s)" "0 \<le> wa_balance (wallet_for s)"
  shows "is_ok (fund shop (price_quote s shop g))"
proof -
  let ?q = "price_quote s shop g"
  note pts = price_quote_points [OF assms, of shop] and disc = price_quote_discount [OF assms(1), of s shop]
  show ?thesis
  proof (cases "pr_discount ?q = 0")
    case True
    then show ?thesis using pts disc assms(1) price_quote_total [of s shop g] by (simp add: fund_def Let_def)
  next
    case False
    then obtain c where c: "c \<in> set COUPONS" "pr_coupon ?q = Some (co_id c)" "coupon_reason_of s shop g c = APPLIED"
      by (rule price_quote_coupon)
    have known: "pr_coupon ?q \<in> {Some ''welcome500'', Some ''wave1000'', Some ''morning10''}"
      using c(1,2) by (auto simp: COUPONS_def)
    have "shop = ''wave''" if "pr_coupon ?q = Some ''wave1000''"
      using that c by (auto simp: COUPONS_def coupon_reason_of_def split: if_splits)
    then show ?thesis using pts disc assms(1) price_quote_total [of s shop g] known by (auto simp: fund_def Let_def)
  qed
qed

text \<open>C21. Every quote can be funded: for a non-negative menu amount, point request and balance
  the funding of a store's own quote is accepted; what the customer pays in cash and what the
  platform supports make exactly what the store receives, the four shares make the menu
  amount, and only the store that offers the store coupon is charged for it.\<close>

theorem quote_is_funded_exactly:
  assumes "0 \<le> g" and "0 \<le> in_points (tr_intent s)" and "0 \<le> wa_balance (wallet_for s)"
  shows "\<exists>f. fund shop (price_quote s shop g) = Inr f
    \<and> fu_customer_cash f + fu_platform_support f = fu_merchant_receivable f
    \<and> fu_customer_cash f + fu_merchant_coupon f + fu_platform_coupon f + fu_platform_points f = g
    \<and> 0 \<le> fu_customer_cash f \<and> 0 \<le> fu_merchant_receivable f \<and> 0 \<le> fu_platform_support f
    \<and> (fu_merchant_coupon f \<noteq> 0 \<longrightarrow> shop = ''wave'')"
proof -
  obtain f where f: "fund shop (price_quote s shop g) = Inr f"
    using quote_fundable [OF assms, of shop] by (cases "fund shop (price_quote s shop g)") auto
  have "0 \<le> fu_customer_cash f \<and> 0 \<le> fu_platform_support f"
    using f by (auto simp: fund_def Let_def split: if_splits)
  then show ?thesis using fund_Inr [OF f] f by simp
qed

theorem quote_is_funded_exactly_witness:
  "\<exists>f. fund ''wave'' (price_quote sample_trip ''wave'' 4300) = Inr f
    \<and> fu_customer_cash f + fu_platform_support f = fu_merchant_receivable f
    \<and> fu_customer_cash f + fu_merchant_coupon f + fu_platform_coupon f + fu_platform_points f = 4300
    \<and> 0 \<le> fu_customer_cash f \<and> 0 \<le> fu_merchant_receivable f \<and> 0 \<le> fu_platform_support f
    \<and> (fu_merchant_coupon f \<noteq> 0 \<longrightarrow> ''wave'' = ''wave'')"
  by (rule quote_is_funded_exactly) code_simp+

end
