(* ===== verification/Walk_Graph.thy ===== *)
theory Walk_Graph
  imports Prelude
begin

text \<open>
  \<open>planner.shortest\<close>: Dijkstra's algorithm on an undirected graph given as a list of edges,
  with a heap of (distance, node, path) that may hold several entries of a node. The theory
  is about any edge list with non-negative costs; the queue is used through the contract of
  \<open>heapq\<close> (the interpretation of \<open>priority_queue\<close>).
\<close>

type_synonym edge = "string \<times> string \<times> int"
type_synonym entry = "int \<times> string \<times> string list"

definition neighbour :: "string \<Rightarrow> edge \<Rightarrow> (string \<times> int) option" where
  "neighbour node e = (case e of (a, b, cost) \<Rightarrow>
     if a = node then Some (b, cost) else if b = node then Some (a, cost) else None)"

definition expand :: "edge list \<Rightarrow> string list \<Rightarrow> int \<Rightarrow> string \<Rightarrow> string list \<Rightarrow> entry list \<Rightarrow> entry list" where
  "expand edges visited distance node path q =
    fold (\<lambda>e q. case neighbour node e of None \<Rightarrow> q
       | Some (n, cost) \<Rightarrow> if n \<in> set visited then q else heappush (distance + cost, n, path @ [n]) q) edges q"

definition endpoints :: "edge list \<Rightarrow> string set" where
  "endpoints edges = (\<Union>(a, b, _) \<in> set edges. {a, b})"

definition open_nodes :: "edge list \<Rightarrow> string list \<Rightarrow> entry list \<Rightarrow> string set" where
  "open_nodes edges visited q = (endpoints edges \<union> (fst \<circ> snd) ` set q) - set visited"

lemma finite_open_nodes [simp]: "finite (open_nodes edges visited q)"
  by (auto simp: open_nodes_def endpoints_def)

definition adjacent :: "edge list \<Rightarrow> string \<Rightarrow> string \<Rightarrow> int \<Rightarrow> bool" where
  "adjacent edges a b c \<longleftrightarrow> (a, b, c) \<in> set edges \<or> (b, a, c) \<in> set edges"

lemma adjacent_Nil [simp]: "\<not> adjacent [] a b c"
  by (simp add: adjacent_def)

lemma adjacent_Cons: "adjacent (e # edges) a b c \<longleftrightarrow> neighbour a e = Some (b, c) \<or> adjacent edges a b c"
  by (cases e) (auto simp: adjacent_def neighbour_def)

lemma edge_endpoints: "(a, b, c) \<in> set edges \<Longrightarrow> a \<in> endpoints edges \<and> b \<in> endpoints edges"
  unfolding endpoints_def by (blast intro: UN_I [where a = "(a, b, c)"])

lemma adjacent_endpoint: "adjacent edges a b c \<Longrightarrow> b \<in> endpoints edges"
  unfolding adjacent_def using edge_endpoints by blast

lemma set_expand:
  "x \<in> set (expand edges visited d node path q) \<longleftrightarrow>
    x \<in> set q \<or> (\<exists>n c. x = (d + c, n, path @ [n]) \<and> adjacent edges node n c \<and> n \<notin> set visited)"
  unfolding expand_def
proof (induction edges arbitrary: q)
  case (Cons e edges)
  show ?case
    by (cases "neighbour node e") (auto simp: Cons.IH adjacent_Cons)
qed simp

lemma sorted_expand: "sorted q \<Longrightarrow> sorted (expand edges visited d node path q)"
  unfolding expand_def by (induction edges arbitrary: q) (auto split: option.split)

lemma open_nodes_expand:
  "open_nodes edges (node # visited) (expand edges (node # visited) d node path q)
    \<subseteq> open_nodes edges visited ((d, node, path) # q) - {node}"
  by (auto simp: open_nodes_def set_expand image_iff) (metis fst_conv snd_conv, metis adjacent_endpoint)

function dijkstra :: "edge list \<Rightarrow> string \<Rightarrow> string list \<Rightarrow> entry list \<Rightarrow> (int \<times> string list) option" where
  "dijkstra edges dest visited [] = None"
| "dijkstra edges dest visited ((distance, node, path) # q) =
    (if node = dest then Some (distance, path)
     else if node \<in> set visited then dijkstra edges dest visited q
     else dijkstra edges dest (node # visited) (expand edges (node # visited) distance node path q))"
  by pat_completeness auto
termination
proof (relation "(\<lambda>(edges, dest, visited, q). card (open_nodes edges visited q)) <*mlex*>
    measure (\<lambda>(edges, dest, visited, q). length q)", goal_cases)
  case 1
  then show ?case by (simp add: wf_mlex)
next
  case (2 edges dest visited distance node path q)
  have "open_nodes edges visited q \<subseteq> open_nodes edges visited ((distance, node, path) # q)"
    by (auto simp: open_nodes_def)
  then have "card (open_nodes edges visited q) \<le> card (open_nodes edges visited ((distance, node, path) # q))"
    by (simp add: card_mono)
  then show ?case by (auto intro: mlex_leq)
next
  case (3 edges dest visited distance node path q)
  let ?O = "open_nodes edges visited ((distance, node, path) # q)"
  have "node \<in> ?O" using 3 by (simp add: open_nodes_def)
  then have "card (?O - {node}) < card ?O" by (rule card_Diff1_less [OF finite_open_nodes])
  moreover have "card (open_nodes edges (node # visited) (expand edges (node # visited) distance node path q)) \<le> card (?O - {node})"
    by (rule card_mono) (use open_nodes_expand in auto)
  ultimately show ?case by (auto intro: mlex_less)
qed

text \<open>
  The loop pops with \<open>heappop\<close>: on the sorted queue of the model that is taking the head.
\<close>

definition shortest_in :: "edge list \<Rightarrow> string \<Rightarrow> string \<Rightarrow> (int \<times> string list) option" where
  "shortest_in edges source dest = dijkstra edges dest [] [(0, source, [source])]"

section \<open>Walks\<close>

inductive walk :: "edge list \<Rightarrow> string \<Rightarrow> string list \<Rightarrow> string \<Rightarrow> int \<Rightarrow> bool" for edges source where
  start: "walk edges source [source] source 0"
| step: "walk edges source p v c \<Longrightarrow> adjacent edges v w k \<Longrightarrow> walk edges source (p @ [w]) w (c + k)"

inductive_cases walk_stepE: "walk edges source p v c"

definition nonneg :: "edge list \<Rightarrow> bool" where
  "nonneg edges \<longleftrightarrow> (\<forall>(a, b, c) \<in> set edges. 0 \<le> c)"

lemma adjacent_nonneg: "nonneg edges \<Longrightarrow> adjacent edges a b c \<Longrightarrow> 0 \<le> c"
  by (auto simp: nonneg_def adjacent_def)

lemma walk_ends: "walk edges s p v c \<Longrightarrow> p \<noteq> [] \<and> hd p = s \<and> last p = v"
  by (induction rule: walk.induct) auto

lemma walk_nonneg: "walk edges s p v c \<Longrightarrow> nonneg edges \<Longrightarrow> 0 \<le> c"
  by (induction rule: walk.induct) (auto dest: adjacent_nonneg)

section \<open>Correctness\<close>

text \<open>
  The invariant of the loop. Every entry is a walk; the nodes taken from the queue have
  their least cost \<open>\<delta>\<close>, and each of their neighbours that is still open has an entry that
  is at least as good as going through them; the source is open only at the start.
\<close>

definition loop_inv :: "edge list \<Rightarrow> string \<Rightarrow> string \<Rightarrow> string list \<Rightarrow> entry list \<Rightarrow> bool" where
  "loop_inv edges s dest visited q \<longleftrightarrow>
     sorted q \<and> dest \<notin> set visited
     \<and> (\<forall>(c, v, p) \<in> set q. walk edges s p v c)
     \<and> (s \<notin> set visited \<longrightarrow> (\<exists>c p. (c, s, p) \<in> set q \<and> c \<le> 0))
     \<and> (\<forall>v \<in> set visited. \<exists>\<delta>. (\<forall>p c. walk edges s p v c \<longrightarrow> \<delta> \<le> c)
          \<and> (\<forall>w k. adjacent edges v w k \<and> w \<notin> set visited \<longrightarrow> (\<exists>c p. (c, w, p) \<in> set q \<and> c \<le> \<delta> + k)))"

lemma open_walk_has_entry:
  assumes inv: "loop_inv edges s dest visited q" and nn: "nonneg edges"
    and w: "walk edges s p x c" and x: "x \<notin> set visited"
  shows "\<exists>c' y p'. (c', y, p') \<in> set q \<and> y \<notin> set visited \<and> c' \<le> c"
  using w x
proof (induction rule: walk.induct)
  case start
  then show ?case using inv by (fastforce simp: loop_inv_def)
next
  case (step p v c w k)
  have k: "0 \<le> k" using adjacent_nonneg [OF nn step.hyps(2)] .
  show ?case
  proof (cases "v \<in> set visited")
    case True
    then obtain \<delta> where d: "\<delta> \<le> c" and "\<exists>c' p'. (c', w, p') \<in> set q \<and> c' \<le> \<delta> + k"
      using inv step.hyps step.prems unfolding loop_inv_def by blast
    then obtain c' p' where "(c', w, p') \<in> set q" "c' \<le> \<delta> + k" by blast
    then show ?thesis using d step.prems by (intro exI [of _ c'] exI [of _ w] exI [of _ p']) auto
  next
    case False
    then show ?thesis using step.IH k by fastforce
  qed
qed

text \<open>The head of the queue is the cheapest entry, so it bounds every walk to an open node.\<close>

lemma head_is_least:
  assumes inv: "loop_inv edges s dest visited ((d, n, p) # q)" and nn: "nonneg edges"
    and w: "walk edges s p' x c" and x: "x \<notin> set visited"
  shows "d \<le> c"
proof -
  have "sorted ((d, n, p) # q)" using inv by (simp add: loop_inv_def)
  then have least: "(d, n, p) \<le> e" if "e \<in> set ((d, n, p) # q)" for e
    using that heapq.pop_least [of "(d, n, p) # q" "(d, n, p)" q e] by auto
  obtain c' y r where e: "(c', y, r) \<in> set ((d, n, p) # q)" and "c' \<le> c"
    using open_walk_has_entry [OF inv nn w x] by blast
  have "d \<le> c'" using least [OF e] by (auto simp: less_eq_prod_def)
  then show ?thesis using \<open>c' \<le> c\<close> by simp
qed

lemma loop_inv_skip:
  assumes inv: "loop_inv edges s dest visited ((d, n, p) # q)" and n: "n \<in> set visited"
  shows "loop_inv edges s dest visited q"
proof -
  have keep: "(\<exists>c r. (c, w, r) \<in> set q \<and> c \<le> k)" if "\<exists>c r. (c, w, r) \<in> set ((d, n, p) # q) \<and> c \<le> k" "w \<notin> set visited" for w k
    using that n by auto
  show ?thesis unfolding loop_inv_def
  proof (intro conjI ballI impI)
    fix v assume "v \<in> set visited"
    then obtain \<delta> where "\<forall>p c. walk edges s p v c \<longrightarrow> \<delta> \<le> c"
      and "\<forall>w k. adjacent edges v w k \<and> w \<notin> set visited \<longrightarrow> (\<exists>c r. (c, w, r) \<in> set ((d, n, p) # q) \<and> c \<le> \<delta> + k)"
      using inv unfolding loop_inv_def by blast
    then show "\<exists>\<delta>. (\<forall>p c. walk edges s p v c \<longrightarrow> \<delta> \<le> c)
        \<and> (\<forall>w k. adjacent edges v w k \<and> w \<notin> set visited \<longrightarrow> (\<exists>c p. (c, w, p) \<in> set q \<and> c \<le> \<delta> + k))"
      using keep by blast
  next
    assume "s \<notin> set visited"
    then show "\<exists>c p. (c, s, p) \<in> set q \<and> c \<le> 0" using inv keep unfolding loop_inv_def by blast
  qed (use inv in \<open>auto simp: loop_inv_def\<close>)
qed

lemma loop_inv_visit:
  assumes inv: "loop_inv edges s dest visited ((d, n, p) # q)" and nn: "nonneg edges"
    and n: "n \<notin> set visited" and nd: "n \<noteq> dest"
  shows "loop_inv edges s dest (n # visited) (expand edges (n # visited) d n p q)" (is "loop_inv _ _ _ _ ?q")
proof -
  have w: "walk edges s p n d" using inv by (auto simp: loop_inv_def)
  have keep: "\<exists>c r. (c, w, r) \<in> set ?q \<and> c \<le> k"
    if "\<exists>c r. (c, w, r) \<in> set ((d, n, p) # q) \<and> c \<le> k" "w \<notin> set (n # visited)" for w k
    using that by (auto simp: set_expand)
  show ?thesis unfolding loop_inv_def
  proof (intro conjI ballI impI)
    show "sorted ?q" using inv by (auto simp: loop_inv_def intro: sorted_expand)
    show "dest \<notin> set (n # visited)" using inv nd by (auto simp: loop_inv_def)
    fix e assume "e \<in> set ?q"
    then show "case e of (c, v, r) \<Rightarrow> walk edges s r v c"
      using inv walk.step [OF w] by (auto simp: set_expand loop_inv_def)
  next
    assume "s \<notin> set (n # visited)"
    then show "\<exists>c r. (c, s, r) \<in> set ?q \<and> c \<le> 0" using inv keep unfolding loop_inv_def by auto
  next
    fix v assume v: "v \<in> set (n # visited)"
    show "\<exists>\<delta>. (\<forall>r c. walk edges s r v c \<longrightarrow> \<delta> \<le> c)
        \<and> (\<forall>w k. adjacent edges v w k \<and> w \<notin> set (n # visited) \<longrightarrow> (\<exists>c r. (c, w, r) \<in> set ?q \<and> c \<le> \<delta> + k))"
    proof (cases "v = n")
      case True
      have "d \<le> c" if "walk edges s r v c" for r c using head_is_least [OF inv nn that] n True by simp
      moreover have "\<exists>c r. (c, w, r) \<in> set ?q \<and> c \<le> d + k" if "adjacent edges v w k" "w \<notin> set (n # visited)" for w k
        using that True by (auto simp: set_expand)
      ultimately show ?thesis by blast
    next
      case False
      then have "v \<in> set visited" using v by simp
      then obtain \<delta> where "\<forall>r c. walk edges s r v c \<longrightarrow> \<delta> \<le> c"
        and "\<forall>w k. adjacent edges v w k \<and> w \<notin> set visited \<longrightarrow> (\<exists>c r. (c, w, r) \<in> set ((d, n, p) # q) \<and> c \<le> \<delta> + k)"
        using inv unfolding loop_inv_def by blast
      then show ?thesis by (meson keep list.set_intros(2))
    qed
  qed
qed

lemma dijkstra_correct:
  "loop_inv edges s dest visited q \<Longrightarrow> nonneg edges \<Longrightarrow>
    (case dijkstra edges dest visited q of
       Some (d, p) \<Rightarrow> walk edges s p dest d \<and> (\<forall>p' c. walk edges s p' dest c \<longrightarrow> d \<le> c)
     | None \<Rightarrow> \<not> (\<exists>p c. walk edges s p dest c))"
proof (induction edges dest visited q rule: dijkstra.induct)
  case (1 edges dest visited)
  then show ?case using open_walk_has_entry [OF 1] by (fastforce simp: loop_inv_def)
next
  case (2 edges dest visited d n p q)
  show ?case
  proof (cases "n = dest")
    case True
    have "dest \<notin> set visited" "walk edges s p n d" using "2.prems"(1) by (auto simp: loop_inv_def)
    then show ?thesis using head_is_least [OF "2.prems"] True by auto
  next
    case False
    show ?thesis
    proof (cases "n \<in> set visited")
      case True
      then show ?thesis using "2.IH"(1) [OF False True loop_inv_skip [OF "2.prems"(1) True] "2.prems"(2)] False by simp
    next
      case new: False
      then show ?thesis
        using "2.IH"(2) [OF False new loop_inv_visit [OF "2.prems" new False] "2.prems"(2)] False by simp
    qed
  qed
qed

lemma loop_inv_start: "loop_inv edges s dest [] [(0, s, [s])]"
  by (auto simp: loop_inv_def intro: walk.start)

lemma shortest_in_Some:
  assumes "nonneg edges" "shortest_in edges s dest = Some (d, p)"
  shows "walk edges s p dest d" "walk edges s p' dest c \<Longrightarrow> d \<le> c"
  using dijkstra_correct [OF loop_inv_start assms(1), of s dest] assms(2) by (auto simp: shortest_in_def)

lemma shortest_in_None:
  "nonneg edges \<Longrightarrow> shortest_in edges s dest = None \<longleftrightarrow> \<not> (\<exists>p c. walk edges s p dest c)"
  using dijkstra_correct [OF loop_inv_start, of edges s dest]
  by (cases "shortest_in edges s dest") (auto simp: shortest_in_def)

end
