(* ===== verification/Planner.thy ===== *)
theory Planner
  imports Agreement Walk_Graph
begin

text \<open>
  \<open>planner.py\<close>: the walk graph, the store catalogue and the plan rows of a journey. The
  quote id of a row (the first 32 digits of the SHA-256 of the printed journey id, version
  and row) is the argument \<open>QH\<close>, a function of those three.
\<close>

definition EDGES :: "edge list" where
  "EDGES =
    [(''station'', ''j1'', 2), (''j1'', ''j2'', 2), (''j2'', ''j3'', 2), (''j3'', ''office'', 2),
     (''j1'', ''corner'', 1), (''corner'', ''j2'', 2), (''j2'', ''wave'', 1), (''wave'', ''j3'', 1),
     (''j3'', ''oat'', 1), (''oat'', ''office'', 2), (''station'', ''j4'', 3), (''j4'', ''park'', 2),
     (''j4'', ''garden'', 1), (''garden'', ''j1'', 3), (''j2'', ''express'', 2), (''express'', ''office'', 4)]"

definition STORES :: "store list" where
  "STORES =
    [\<lparr>st_id = ''corner'', st_queue_until = 7, st_prices = [(''americano'', 3300), (''latte'', 4500)], st_prep = 3,
      st_oat = True, st_decaf = True, st_online = True, st_policy = Some (default_policy ''corner'')\<rparr>,
     \<lparr>st_id = ''wave'', st_queue_until = 1, st_prices = [(''americano'', 3100), (''latte'', 4300)], st_prep = 3,
      st_oat = True, st_decaf = False, st_online = True, st_policy = Some (default_policy ''wave'')\<rparr>,
     \<lparr>st_id = ''oat'', st_queue_until = 0, st_prices = [(''americano'', 3500), (''latte'', 4700)], st_prep = 4,
      st_oat = True, st_decaf = True, st_online = True, st_policy = Some (default_policy ''oat'')\<rparr>,
     \<lparr>st_id = ''garden'', st_queue_until = 0, st_prices = [(''americano'', 4400), (''latte'', 5900)], st_prep = 3,
      st_oat = False, st_decaf = True, st_online = True, st_policy = Some (default_policy ''garden'')\<rparr>,
     \<lparr>st_id = ''express'', st_queue_until = 0, st_prices = [(''americano'', 2500)], st_prep = 2,
      st_oat = False, st_decaf = False, st_online = True, st_policy = Some (default_policy ''express'')\<rparr>]"

definition shortest :: "string \<Rightarrow> string \<Rightarrow> route_error + int \<times> string list" where
  "shortest source destination = (case shortest_in EDGES source destination of
     None \<Rightarrow> Inl Disconnected | Some r \<Rightarrow> Inr r)"

definition menu_price :: "intent \<Rightarrow> store \<Rightarrow> int" where
  "menu_price i st = dget 0 (st_prices st) (in_drink i)
     + (if in_milk i = ''oat'' \<and> in_drink i = ''latte'' then 600 else 0) + (if in_decaf i then 200 else 0)"

definition ordered_at :: "'a trip_scheme \<Rightarrow> store \<Rightarrow> order option" where
  "ordered_at s st = (case tr_order s of None \<Rightarrow> None | Some x \<Rightarrow> if or_store x = st_id st then Some x else None)"

definition row_pricing :: "'a trip_scheme \<Rightarrow> store \<Rightarrow> pricing" where
  "row_pricing s st = (case ordered_at s st of Some x \<Rightarrow> pricing_of x
     | None \<Rightarrow> price_quote s (st_id st) (menu_price (tr_intent s) st))"

definition local_reasons :: "intent \<Rightarrow> store \<Rightarrow> int \<Rightarrow> int \<Rightarrow> int \<Rightarrow> plan_reason list" where
  "local_reasons i st price detour arrival =
    (if map_of (st_prices st) (in_drink i) = None then [MENU] else [])
    @ (if in_milk i = ''oat'' \<and> \<not> st_oat st then [MILK] else [])
    @ (if in_decaf i \<and> \<not> st_decaf st then [DECAF] else [])
    @ (if \<not> st_online st then [OFFLINE] else [])
    @ (if in_budget i < price then [BUDGET] else [])
    @ (if in_max_detour i < detour then [DETOUR] else [])
    @ (if in_deadline i < arrival + 1 then [DEADLINE] else [])"

definition row_terms :: "(terms \<Rightarrow> string) \<Rightarrow> 'a trip_scheme \<Rightarrow> store \<Rightarrow> pricing \<Rightarrow> route_error + terms option" where
  "row_terms TH s st p = (if tr_agreement s then map_sum id Some (assess TH s st p) else Inr None)"

definition make_row :: "'a trip_scheme \<Rightarrow> store \<Rightarrow> int \<Rightarrow> int \<times> string list \<Rightarrow> int \<times> string list \<Rightarrow> terms option \<Rightarrow> plan" where
  "make_row s st direct first second terms =
    (let i = tr_intent s; now = tr_clock s;
         depart = (case ordered_at s st of Some x \<Rightarrow> or_departure_at x | None \<Rightarrow> now) + tr_delay s;
         walk_to = fst first; walk_after = fst second;
         pricing = row_pricing s st; price = pr_cash pricing;
         prep = st_prep st + (if in_drink i = ''latte'' then 1 else 0);
         start = max (max now (st_queue_until st)) (depart + walk_to - prep);
         ready = start + prep; pickup = max (depart + walk_to) ready;
         arrival = pickup + walk_after; detour = walk_to + walk_after - direct;
         reasons = local_reasons i st price detour arrival @ (case terms of None \<Rightarrow> [] | Some t \<Rightarrow> te_reasons t)
     in \<lparr>pl_store = st_id st, pl_walk_to = walk_to, pl_walk_after = walk_after, pl_walk_total = walk_to + walk_after,
         pl_detour = detour, pl_wait = max 0 (ready - depart - walk_to), pl_price = price, pl_pricing = pricing,
         pl_start_at = start, pl_ready_at = ready, pl_pickup_at = pickup, pl_arrival_at = arrival,
         pl_margin = in_deadline i - arrival, pl_prep = prep, pl_queue = max 0 (st_queue_until st - now),
         pl_milk = in_milk i, pl_decaf = in_decaf i, pl_first_leg = snd first, pl_second_leg = snd second,
         pl_route = snd first @ tl (snd second), pl_feasible = (reasons = []), pl_reasons = reasons,
         pl_terms = terms, pl_quote = []\<rparr>)"

type_synonym quote_hash = "string \<Rightarrow> int \<Rightarrow> plan \<Rightarrow> string"

definition plan_row :: "quote_hash \<Rightarrow> (terms \<Rightarrow> string) \<Rightarrow> 'a trip_scheme \<Rightarrow> int \<Rightarrow> store \<Rightarrow> route_error + plan" where
  "plan_row QH TH s direct st =
    (case shortest ''station'' (st_id st) of Inl e \<Rightarrow> Inl e
     | Inr first \<Rightarrow> (case shortest (st_id st) (in_destination (tr_intent s)) of Inl e \<Rightarrow> Inl e
       | Inr second \<Rightarrow> (case row_terms TH s st (row_pricing s st) of Inl e \<Rightarrow> Inl e
         | Inr terms \<Rightarrow>
             let row = make_row s st direct first second terms
             in Inr (row\<lparr>pl_quote := QH (tr_id s) (tr_version s) row\<rparr>))))"

fun plan_rows :: "quote_hash \<Rightarrow> (terms \<Rightarrow> string) \<Rightarrow> 'a trip_scheme \<Rightarrow> int \<Rightarrow> store list \<Rightarrow> route_error + plan list" where
  "plan_rows QH TH s direct [] = Inr []"
| "plan_rows QH TH s direct (st # sts) = (case plan_row QH TH s direct st of Inl e \<Rightarrow> Inl e
     | Inr r \<Rightarrow> map_sum id ((#) r) (plan_rows QH TH s direct sts))"

fun priority_key :: "priority \<Rightarrow> plan \<Rightarrow> int \<times> int \<times> int" where
  "priority_key ByArrival p = (pl_arrival_at p, pl_price p, pl_walk_total p)"
| "priority_key ByPrice p = (pl_price p, pl_arrival_at p, pl_walk_total p)"
| "priority_key ByWalk p = (pl_walk_total p, pl_arrival_at p, pl_price p)"

definition row_key :: "priority \<Rightarrow> plan \<Rightarrow> bool \<times> (int \<times> int \<times> int) \<times> string" where
  "row_key pr p = (\<not> pl_feasible p, priority_key pr p, pl_store p)"

definition plans :: "quote_hash \<Rightarrow> (terms \<Rightarrow> string) \<Rightarrow> 'a trip_scheme \<Rightarrow> route_error + plan list" where
  "plans QH TH s = (case shortest ''station'' (in_destination (tr_intent s)) of Inl e \<Rightarrow> Inl e
     | Inr (direct, _) \<Rightarrow> map_sum id (sort_key (row_key (in_priority (tr_intent s)))) (plan_rows QH TH s direct (tr_stores s)))"

section \<open>Shortest walks\<close>

lemma nonneg_EDGES [simp]: "nonneg EDGES"
  by (simp add: nonneg_def EDGES_def)

lemma shortest_Inr:
  assumes "shortest a b = Inr (d, p)"
  shows "walk EDGES a p b d" "walk EDGES a p' b c \<Longrightarrow> d \<le> c"
  using shortest_in_Some [OF nonneg_EDGES, of a b d p] assms by (auto simp: shortest_def split: option.splits)

text \<open>C19. The walk planner returns for every pair of places: a shortest walk between them in
  the graph, with its length, or an error exactly when no walk joins them.\<close>

theorem shortest_is_shortest:
  "case shortest a b of
     Inr (d, p) \<Rightarrow> walk EDGES a p b d \<and> (\<forall>p' c. walk EDGES a p' b c \<longrightarrow> d \<le> c)
   | Inl e \<Rightarrow> e = Disconnected \<and> \<not> (\<exists>p c. walk EDGES a p b c)"
proof (cases "shortest a b")
  case (Inl e)
  then have "shortest_in EDGES a b = None" "e = Disconnected" by (auto simp: shortest_def split: option.splits)
  then show ?thesis using Inl shortest_in_None [OF nonneg_EDGES, of a b] by simp
next
  case (Inr r)
  obtain d p where r: "r = (d, p)" by (cases r)
  show ?thesis using Inr shortest_Inr [of a b d p] by (auto simp: r)
qed

theorem shortest_is_shortest_witness:
  "shortest ''station'' ''office'' = Inr (8, [''station'', ''j1'', ''j2'', ''j3'', ''office''])
    \<and> walk EDGES ''station'' [''station'', ''j1'', ''j2'', ''j3'', ''office''] ''office'' 8"
proof -
  have e: "shortest ''station'' ''office'' = Inr (8, [''station'', ''j1'', ''j2'', ''j3'', ''office''])" by code_simp
  show ?thesis using shortest_is_shortest [of "''station''" "''office''"] by (simp add: e)
qed

section \<open>Rows\<close>

lemma walk_append: "walk edges v q w d \<Longrightarrow> walk edges s p v c \<Longrightarrow> walk edges s (p @ tl q) w (c + d)"
proof (induction rule: walk.induct)
  case start
  then show ?case by simp
next
  case (step q x d y k)
  have "q \<noteq> []" using walk_ends [OF step.hyps(1)] by simp
  then have "p @ tl (q @ [y]) = (p @ tl q) @ [y]" by (cases q) auto
  moreover have "c + (d + k) = (c + d) + k" by simp
  ultimately show ?case using walk.step [OF step.IH [OF step.prems] step.hyps(2)] by metis
qed

lemma plan_row_Inr:
  assumes "plan_row QH TH s direct st = Inr r"
  obtains first second terms where "shortest ''station'' (st_id st) = Inr first"
    "shortest (st_id st) (in_destination (tr_intent s)) = Inr second"
    "row_terms TH s st (row_pricing s st) = Inr terms"
    "r = (make_row s st direct first second terms)\<lparr>pl_quote := QH (tr_id s) (tr_version s) (make_row s st direct first second terms)\<rparr>"
  using assms by (auto simp: plan_row_def Let_def split: sum.splits)

lemma plan_rows_Inr:
  "plan_rows QH TH s direct sts = Inr rs \<Longrightarrow> list_all2 (\<lambda>st r. plan_row QH TH s direct st = Inr r) sts rs"
proof (induction sts arbitrary: rs)
  case (Cons st sts)
  then obtain r where r: "plan_row QH TH s direct st = Inr r" by (auto split: sum.splits)
  then obtain rs' where "plan_rows QH TH s direct sts = Inr rs'" "rs = r # rs'"
    using Cons.prems by (cases "plan_rows QH TH s direct sts") auto
  then show ?case using Cons.IH r by simp
qed simp

lemma make_row_fields:
  "pl_store (make_row s st direct first second terms) = st_id st"
  "pl_pricing (make_row s st direct first second terms) = row_pricing s st"
  "pl_price (make_row s st direct first second terms) = pr_cash (row_pricing s st)"
  "pl_feasible (make_row s st direct first second terms) \<longleftrightarrow>
    local_reasons (tr_intent s) st (pl_price (make_row s st direct first second terms)) (pl_detour (make_row s st direct first second terms))
      (pl_arrival_at (make_row s st direct first second terms)) @ (case terms of None \<Rightarrow> [] | Some t \<Rightarrow> te_reasons t) = []"
  by (simp_all only: make_row_def Let_def plan.select_convs)

lemma plan_row_store: "plan_row QH TH s direct st = Inr r \<Longrightarrow> pl_store r = st_id st"
  by (erule plan_row_Inr) (simp add: make_row_fields)

lemma plans_Inr:
  assumes "plans QH TH s = Inr rows"
  obtains direct p rs where "shortest ''station'' (in_destination (tr_intent s)) = Inr (direct, p)"
    "list_all2 (\<lambda>st r. plan_row QH TH s direct st = Inr r) (tr_stores s) rs"
    "rows = sort_key (row_key (in_priority (tr_intent s))) rs"
proof -
  obtain direct p where d: "shortest ''station'' (in_destination (tr_intent s)) = Inr (direct, p)"
    using assms by (auto simp: plans_def split: sum.splits)
  then obtain rs where "plan_rows QH TH s direct (tr_stores s) = Inr rs"
    "rows = sort_key (row_key (in_priority (tr_intent s))) rs"
    using assms by (cases "plan_rows QH TH s direct (tr_stores s)") (auto simp: plans_def)
  then show ?thesis using that d plan_rows_Inr by blast
qed

definition timed_walk :: "'a trip_scheme \<Rightarrow> plan \<Rightarrow> bool" where
  "timed_walk s r \<longleftrightarrow> walk EDGES ''station'' (pl_route r) (in_destination (tr_intent s)) (pl_walk_total r)
     \<and> walk EDGES ''station'' (pl_first_leg r) (pl_store r) (pl_walk_to r)
     \<and> 0 \<le> pl_detour r \<and> 0 \<le> pl_wait r
     \<and> tr_clock s \<le> pl_start_at r \<and> pl_ready_at r = pl_start_at r + pl_prep r \<and> pl_ready_at r \<le> pl_pickup_at r
     \<and> pl_arrival_at r = pl_pickup_at r + pl_walk_after r"

definition keeps_limits :: "intent \<Rightarrow> plan \<Rightarrow> bool" where
  "keeps_limits i r \<longleftrightarrow> pl_price r \<le> in_budget i \<and> pl_detour r \<le> in_max_detour i \<and> pl_arrival_at r < in_deadline i"

lemma plan_row_timed:
  assumes r: "plan_row QH TH s direct st = Inr r"
    and d: "shortest ''station'' (in_destination (tr_intent s)) = Inr (direct, p)"
  shows "timed_walk s r"
  using r
proof (cases rule: plan_row_Inr)
  case (1 first second terms)
  obtain a f where f: "first = (a, f)" by (cases first)
  obtain b g where g: "second = (b, g)" by (cases second)
  have w: "walk EDGES ''station'' f (st_id st) a" "walk EDGES (st_id st) g (in_destination (tr_intent s)) b"
    using shortest_Inr(1) 1 f g by auto
  have c: "walk EDGES ''station'' (f @ tl g) (in_destination (tr_intent s)) (a + b)"
    by (rule walk_append [OF w(2) w(1)])
  then have "direct \<le> a + b" using shortest_Inr(2) [OF d] by blast
  then show ?thesis using w c by (simp add: 1(4) timed_walk_def make_row_def Let_def f g) (simp add: max_def)
qed

lemma make_row_feasible:
  assumes "pl_feasible (make_row s st direct first second terms)"
  shows "keeps_limits (tr_intent s) (make_row s st direct first second terms)"
proof -
  let ?r = "make_row s st direct first second terms"
  have "local_reasons (tr_intent s) st (pl_price ?r) (pl_detour ?r) (pl_arrival_at ?r) = []"
    using assms by (simp add: make_row_fields(4))
  then show ?thesis by (simp add: keeps_limits_def local_reasons_def split: if_splits)
qed

lemma plan_row_feasible:
  assumes "plan_row QH TH s direct st = Inr r" "pl_feasible r"
  shows "keeps_limits (tr_intent s) r"
  using assms(1)
proof (cases rule: plan_row_Inr)
  case (1 first second terms)
  then show ?thesis using make_row_feasible [of s st direct first second terms] assms(2)
    by (simp add: keeps_limits_def)
qed

lemma plans_stores_once:
  assumes "plans QH TH s = Inr rows"
  shows "mset (map pl_store rows) = mset (map st_id (tr_stores s))"
  using assms
proof (cases rule: plans_Inr)
  case (1 direct p rs)
  have "map pl_store rs = map st_id (tr_stores s)"
    using 1(2) by (induction rule: list_all2_induct) (auto simp: plan_row_store)
  then show ?thesis by (simp add: 1(3)) (metis mset_map)
qed

lemma plans_rows_sound:
  assumes "plans QH TH s = Inr rows" and "r \<in> set rows"
  shows "timed_walk s r" and "pl_feasible r \<Longrightarrow> keeps_limits (tr_intent s) r"
proof -
  have "timed_walk s r \<and> (pl_feasible r \<longrightarrow> keeps_limits (tr_intent s) r)"
    using assms(1)
  proof (cases rule: plans_Inr)
    case (1 direct p rs)
    have "r \<in> set rs" using assms(2) 1(3) by simp
    then obtain st where "plan_row QH TH s direct st = Inr r" using list_all2_right_mem [OF 1(2)] by blast
    then show ?thesis using plan_row_timed 1(1) plan_row_feasible by blast
  qed
  then show "timed_walk s r" and "pl_feasible r \<Longrightarrow> keeps_limits (tr_intent s) r" by blast+
qed

text \<open>C20. The rows of a journey are its stores, each once, ordered by the customer's priority
  with the feasible ones first. Every row is a real walk from the origin through the store to
  the destination with its true length, never shorter than the direct walk, whose drink is
  started no earlier than now and picked up no earlier than it is ready. A row offered as
  feasible is within the customer's budget, detour and deadline.\<close>

theorem plans_sound:
  assumes "plans QH TH s = Inr rows"
  shows "mset (map pl_store rows) = mset (map st_id (tr_stores s))
    \<and> sorted (map (row_key (in_priority (tr_intent s))) rows)
    \<and> (\<forall>r \<in> set rows. timed_walk s r \<and> (pl_feasible r \<longrightarrow> keeps_limits (tr_intent s) r))"
proof -
  have "sorted (map (row_key (in_priority (tr_intent s))) rows)"
    using assms by (cases rule: plans_Inr) simp
  then show ?thesis using plans_stores_once [OF assms] plans_rows_sound [OF assms] by blast
qed

section \<open>Planning always answers\<close>

text \<open>
  A plannable journey: a known destination, catalogue stores with non-negative prices and a
  policy that can be compared, non-negative points, and an order whose price is funded.
\<close>

definition catalogue_store :: "store \<Rightarrow> bool" where
  "catalogue_store st \<longleftrightarrow> st_id st \<in> {''corner'', ''wave'', ''oat'', ''garden'', ''express''}
     \<and> (\<forall>x \<in> set (st_prices st). 0 \<le> snd x) \<and> is_ok (policy_unverified (policy_or_empty st))"

definition plannable :: "'a trip_scheme \<Rightarrow> bool" where
  "plannable s \<longleftrightarrow> in_destination (tr_intent s) \<in> {''office'', ''park''} \<and> list_all catalogue_store (tr_stores s)
     \<and> 0 \<le> in_points (tr_intent s) \<and> 0 \<le> wa_balance (wallet_for s)
     \<and> (case tr_order s of None \<Rightarrow> True | Some x \<Rightarrow> is_ok (fund (or_store x) (pricing_of x)))"

lemma catalogue_walks:
  "list_all (\<lambda>a. is_ok (shortest ''station'' a) \<and> is_ok (shortest a ''office'') \<and> is_ok (shortest a ''park''))
     [''corner'', ''wave'', ''oat'', ''garden'', ''express'']"
  "is_ok (shortest ''station'' ''office'')" "is_ok (shortest ''station'' ''park'')"
  by code_simp+

lemma menu_price_nonneg:
  assumes "catalogue_store st"
  shows "0 \<le> menu_price i st"
proof -
  have "0 \<le> dget 0 (st_prices st) (in_drink i)"
    using assms by (force simp: dget_def catalogue_store_def split: option.splits dest: map_of_SomeD)
  then show ?thesis by (simp add: menu_price_def)
qed

lemma row_pricing_fundable:
  assumes "plannable s" "st \<in> set (tr_stores s)"
  shows "is_ok (fund (st_id st) (row_pricing s st))"
proof (cases "ordered_at s st")
  case None
  have "catalogue_store st" using assms by (auto simp: plannable_def list_all_iff)
  then have "0 \<le> menu_price (tr_intent s) st" by (rule menu_price_nonneg)
  then have "is_ok (fund (st_id st) (price_quote s (st_id st) (menu_price (tr_intent s) st)))"
    using assms(1) by (intro quote_fundable) (simp_all add: plannable_def)
  then show ?thesis using None by (simp add: row_pricing_def)
next
  case (Some x)
  then have "tr_order s = Some x" "or_store x = st_id st" by (auto simp: ordered_at_def split: option.splits if_splits)
  then show ?thesis using assms(1) Some by (auto simp: row_pricing_def plannable_def)
qed

lemma unverified_ok: "is_ok (policy_unverified p) \<Longrightarrow> is_ok (policy_unverified q) \<Longrightarrow> is_ok (unverified p q)"
  by (auto simp: unverified_def is_ok_iff split: sum.splits bool.splits)

lemma assess_reasons_ok:
  assumes "plannable s" "st \<in> set (tr_stores s)"
  shows "is_ok (assess_reasons s st)"
proof -
  have "is_ok (transfer_reasons s src st sp)" if "src \<in> set (tr_stores s)" for src sp
  proof -
    have "catalogue_store src" "catalogue_store st" using assms that by (auto simp: plannable_def list_all_iff)
    then have "is_ok (unverified (policy_or_empty src) (policy_or_empty st))"
      by (intro unverified_ok) (auto simp: catalogue_store_def)
    then show ?thesis by (auto simp: transfer_reasons_def is_ok_iff Let_def split: bool.split)
  qed
  moreover have "src \<in> set (tr_stores s)" if "source_store s = Some src" for src
    using that by (auto simp: source_store_def find_Some_iff split: option.splits if_splits)
  ultimately show ?thesis by (auto simp: assess_reasons_def split: option.splits)
qed

lemma assess_ok: "is_ok (assess_reasons s st) \<Longrightarrow> is_ok (fund (st_id st) p) \<Longrightarrow> is_ok (assess TH s st p)"
  by (auto simp: assess_def is_ok_iff Let_def)

lemma row_terms_ok:
  assumes "plannable s" "st \<in> set (tr_stores s)"
  shows "is_ok (row_terms TH s st (row_pricing s st))"
  using assess_ok [OF assess_reasons_ok row_pricing_fundable, OF assms assms, of TH]
  by (auto simp: row_terms_def is_ok_iff)

lemma plan_row_ok:
  assumes "plannable s" "st \<in> set (tr_stores s)"
  shows "is_ok (plan_row QH TH s direct st)"
proof -
  have "catalogue_store st" and d: "in_destination (tr_intent s) \<in> {''office'', ''park''}"
    using assms by (auto simp: plannable_def list_all_iff)
  then have "is_ok (shortest ''station'' (st_id st)) \<and> is_ok (shortest (st_id st) ''office'') \<and> is_ok (shortest (st_id st) ''park'')"
    using catalogue_walks(1) by (auto simp: catalogue_store_def)
  then show ?thesis using d row_terms_ok [OF assms, of TH] by (auto simp: plan_row_def is_ok_iff Let_def)
qed

lemma plan_rows_ok: "\<forall>st \<in> set sts. is_ok (plan_row QH TH s direct st) \<Longrightarrow> is_ok (plan_rows QH TH s direct sts)"
  by (induction sts) (auto simp: is_ok_iff)

lemma plans_ok:
  assumes "plannable s"
  shows "is_ok (plans QH TH s)"
proof -
  have "is_ok (shortest ''station'' (in_destination (tr_intent s)))"
    using assms catalogue_walks(2,3) by (auto simp: plannable_def)
  then obtain direct p where d: "shortest ''station'' (in_destination (tr_intent s)) = Inr (direct, p)"
    by (auto simp: is_ok_iff)
  have "is_ok (plan_rows QH TH s direct (tr_stores s))" using plan_row_ok [OF assms] by (intro plan_rows_ok) blast
  then show ?thesis by (auto simp: plans_def is_ok_iff d)
qed

section \<open>Witnesses\<close>

definition sample_journey :: trip where
  "sample_journey = sample_trip\<lparr>tr_stores := STORES\<rparr>"

lemma sample_plannable: "plannable sample_journey"
  by code_simp

lemma sample_rows: "plans (\<lambda>_ _ _. ''q'') (\<lambda>_. ''t'') sample_journey = Inr (the_ok (plans (\<lambda>_ _ _. ''q'') (\<lambda>_. ''t'') sample_journey))"
  using plans_ok [OF sample_plannable, of "\<lambda>_ _ _. ''q''" "\<lambda>_. ''t''"] by (auto simp: is_ok_iff)

theorem plans_sound_witness:
  "mset (map pl_store (the_ok (plans (\<lambda>_ _ _. ''q'') (\<lambda>_. ''t'') sample_journey))) = mset (map st_id STORES)
    \<and> pl_feasible (hd (the_ok (plans (\<lambda>_ _ _. ''q'') (\<lambda>_. ''t'') sample_journey)))"
proof
  show "mset (map pl_store (the_ok (plans (\<lambda>_ _ _. ''q'') (\<lambda>_. ''t'') sample_journey))) = mset (map st_id STORES)"
    using plans_sound [OF sample_rows] by (simp add: sample_journey_def)
  show "pl_feasible (hd (the_ok (plans (\<lambda>_ _ _. ''q'') (\<lambda>_. ''t'') sample_journey)))" by code_simp
qed

end
