(* ===== verification/Journey_Models.thy ===== *)
theory Journey_Models
  imports Merchant Planner
begin

text \<open>
  The persisted journey of the route service and the records it refers to: events, recovery
  schedules, the public part of a durable operation, authorizations and commands. Times of
  the host clock are exact rationals in seconds. As elsewhere display texts are left out.
\<close>

section \<open>Events\<close>

datatype event_kind = INTENT_CREATED | BENEFITS_HELD | PAYMENT_AUTHORIZED | ORDER_RESERVED | STORE_DELAYED
  | ARRIVAL_UPDATED | CLOCK_ADVANCED | ORDER_TRANSFERRED | AUTHORIZATION_ADJUSTED | PREPARATION_STARTED
  | ORDER_READY | BENEFITS_CONSUMED | PICKUP_COMPLETED | PAYMENT_CAPTURED | MERCHANT_SETTLEMENT_SIMULATED
  | BENEFITS_RELEASED | ORDER_CANCELLED | PAYMENT_VOIDED

record transfer_data =
  td_terms :: "terms option"
  td_from :: string
  td_to :: string
  td_old_price :: int
  td_new_price :: int
  td_order :: string
  td_old_pricing :: pricing
  td_new_pricing :: pricing
  td_old_arrival :: int
  td_new_arrival :: int

record payment_data =
  pa_amount :: int
  pa_transaction :: string
  pa_authorization :: string
  pa_payment_revision :: int
  pa_provider_revision :: nat

datatype event_data = No_Data | Intent_Data intent | Pricing_Data pricing | Amount_Data int
  | Reserved_Data string int | Delayed_Data string int | Minutes_Data int | Transfer_Data transfer_data
  | Adjusted_Data int int | Store_Data string | Consumed_Data "string option" int int
  | Settlement_Data string funding | Released_Data "string option" int | Payment_Data payment_data

record journey_event =
  je_seq :: nat
  je_kind :: event_kind
  je_at :: int
  je_data :: event_data

section \<open>Actions, phases and operations\<close>

datatype action = A_reserve | A_reorder | A_transfer | A_reserve_first_reorder | A_disrupt | A_delay
  | A_advance | A_start | A_ready | A_claim | A_cancel | A_recover | A_control_occupy | A_control_clear
  | A_other string

datatype op_phase = At_Merchant merchant_action | DECIDE | FINALIZE | GUEST_ADMIT | GUEST_CANCEL
  | PAY_AUTHORIZE | PAY_AUTHORIZE_REPLACEMENT | PAY_CAPTURE | PAY_VOID | VOID_NEW_AUTH | VOID_OLD_AUTH | PAY_CHECK

datatype op_status = PENDING | COMPLETED | REJECTED

datatype op_decision = UNDECIDED | COMMIT | ABORT

datatype recovery_state = SCHEDULED | REVIEW_REQUIRED | FINISHED

record schedule =
  sc_created_at :: rat
  sc_next_retry_at :: "rat option"
  sc_deadline_at :: rat
  sc_retry_count :: int
  sc_state :: recovery_state
  sc_last_attempt :: "rat option"

datatype step_result = CONFIRMED | COMMIT_RECORDED | ABORT_RECORDED | REPLY_NOT_CONFIRMED
  | RESPONSE_NOT_CONFIRMED | Refused_With string

type_synonym op_history = "(op_phase \<times> step_result) list"

record public_op =
  po_id :: string
  po_action :: action
  po_phase :: op_phase
  po_status :: op_status
  po_decision :: op_decision
  po_failure :: "string option"
  po_history :: op_history
  po_source :: "string option"
  po_target :: string
  po_attempts :: nat
  po_recovery :: "schedule option"
  po_phase_version :: "nat option"

section \<open>Payments seen by a journey\<close>

record authorization =
  au_id :: string
  au_world :: string
  au_order :: string
  au_amount :: int
  au_revision :: int
  au_quote :: string

datatype pay_state = Pay_NOT_STARTED | Pay_NO_CHARGE | Pay_AUTHORIZED | Pay_CAPTURED | Pay_VOIDED | Pay_DECLINED

record payment_view =
  pv_state :: pay_state
  pv_authorization :: "authorization option"
  pv_amount :: "int option"
  pv_last_confirmed :: "payment_data option"

datatype transfer_fault = No_Fault | Target_Reject | After_Target_Hold | After_Source_Release | After_Target_Activation

datatype payment_fault = No_Payment_Fault | Authorize_Reply_Lost | Capture_Reply_Lost | Void_Reply_Lost
  | Notification_Duplicate | Notification_Late

section \<open>Journeys and commands\<close>

text \<open>\<open>jo_world\<close> is \<open>None\<close> and \<open>jo_protocol\<close> is \<open>1\<close> for journeys of older versions.\<close>

record journey = trip +
  jo_events :: "journey_event list"
  jo_world :: "string option"
  jo_protocol :: nat
  jo_active :: "string option"
  jo_handoff :: "public_op option"
  jo_generation_counter :: int
  jo_next_fault :: transfer_fault
  jo_guests :: "(string \<times> string list) list"
  jo_previous :: "order list"
  jo_card :: string
  jo_payment_fault :: payment_fault
  jo_payment_revision :: int
  jo_payment :: "payment_view option"
  jo_first_order :: "string option"
  jo_payment_order :: "string option"
  jo_pending_order :: "string option"

record journey_command =
  jc_action :: action
  jc_version :: int
  jc_request :: string
  jc_quote :: "string option"
  jc_store :: "string option"
  jc_minutes :: int
  jc_code :: "string option"
  jc_cash :: "int option"

text \<open>
  What a request raises: a conflict with its code, a \<open>KeyError\<close>, a \<open>StopIteration\<close>, an
  error of the domain functions, a call to a shop that is not modelled, or another exception
  of the language or of the payment provider by its name.
\<close>

datatype journey_error = Conflict string | Key_Error string | Stop_Iteration | Domain route_error | Unknown_Shop
  | Exception string

end
