(* ===== verification/Journey_Apply.thy ===== *)
theory Journey_Apply
  imports Journey_Models
begin

text \<open>
  \<open>JourneyStore._apply\<close> and what it calls: the effect of one customer or merchant command on
  a journey, before anything is sent to a merchant or to the payment provider. Each branch of
  the handler is a definition; \<open>apply_action\<close> dispatches like the handler. The random order
  id and pickup code of a reservation are the arguments \<open>oid\<close> and \<open>code\<close>.
\<close>

definition domain :: "route_error + 'a \<Rightarrow> journey_error + 'a" where
  "domain r = map_sum Domain id r"

lemma domain_simps [simp]: "domain (Inr x) = Inr x" "domain (Inl e) = Inl (Domain e)"
  by (simp_all add: domain_def)

lemma domain_Inr: "domain r = Inr x \<longleftrightarrow> r = Inr x"
  by (cases r) (auto simp: domain_def)

definition add_event :: "event_kind \<Rightarrow> event_data \<Rightarrow> journey \<Rightarrow> journey" where
  "add_event kind data s = s\<lparr>jo_events := jo_events s @
     [\<lparr>je_seq = length (jo_events s) + 1, je_kind = kind, je_at = tr_clock s, je_data = data\<rparr>]\<rparr>"

text \<open>Payment events of the internal simulation; protocol 2 records the provider's instead.\<close>

definition add_local_event :: "event_kind \<Rightarrow> event_data \<Rightarrow> journey \<Rightarrow> journey" where
  "add_local_event kind data s = (if jo_protocol s \<noteq> 2 then add_event kind data s else s)"

definition plan_at :: "quote_hash \<Rightarrow> (terms \<Rightarrow> string) \<Rightarrow> journey \<Rightarrow> string \<Rightarrow> journey_error + plan" where
  "plan_at QH TH s store_id = bind_ok (domain (plans QH TH s))
     (\<lambda>rows. case List.find (\<lambda>p. pl_store p = store_id) rows of None \<Rightarrow> Inl Stop_Iteration | Some p \<Rightarrow> Inr p)"

definition quote :: "quote_hash \<Rightarrow> (terms \<Rightarrow> string) \<Rightarrow> journey \<Rightarrow> string option \<Rightarrow> journey_error + plan" where
  "quote QH TH s qid = bind_ok (domain (plans QH TH s))
     (\<lambda>rows. case List.find (\<lambda>p. Some (pl_quote p) = qid) rows of
        None \<Rightarrow> Inl (Conflict ''STALE_QUOTE'')
      | Some p \<Rightarrow> ensure (pl_feasible p) (Conflict ''INFEASIBLE'') (Inr p))"

definition reserved_order :: "journey \<Rightarrow> string \<Rightarrow> string \<Rightarrow> plan \<Rightarrow> order" where
  "reserved_order s oid code p =
    \<lparr>or_id = oid, or_store = pl_store p, or_state = RESERVED, or_price = pl_price p, or_pricing = Some (pl_pricing p),
     or_plan = p, or_ready_at = pl_ready_at p, or_departure_at = tr_clock s, or_pickup_code = code,
     or_terms = pl_terms p, or_generation = None, or_picked_up_at = None\<rparr>"

definition apply_reserve ::
  "quote_hash \<Rightarrow> (terms \<Rightarrow> string) \<Rightarrow> string \<Rightarrow> string \<Rightarrow> string option \<Rightarrow> journey \<Rightarrow> journey_error + journey" where
  "apply_reserve QH TH oid code qid s =
    ensure (tr_order s = None) (Conflict ''ORDER_EXISTS'')
     (bind_ok (quote QH TH s qid) (\<lambda>p.
        bind_ok (domain (hold (s\<lparr>tr_order := Some (reserved_order s oid code p)\<rparr>) (pl_pricing p))) (\<lambda>s.
          let s = add_event BENEFITS_HELD (Pricing_Data (pl_pricing p)) s;
              s = add_local_event PAYMENT_AUTHORIZED (Amount_Data (pl_price p)) s
          in Inr (add_event ORDER_RESERVED (Reserved_Data (pl_store p) (pl_price p)) s))))"

definition apply_reorder ::
  "quote_hash \<Rightarrow> (terms \<Rightarrow> string) \<Rightarrow> string \<Rightarrow> string \<Rightarrow> string option \<Rightarrow> journey \<Rightarrow> journey_error + journey" where
  "apply_reorder QH TH oid code qid s = (case tr_order s of
     None \<Rightarrow> Inl (Conflict ''INVALID_STATE'')
   | Some x \<Rightarrow> ensure (or_state x = CANCELLED) (Conflict ''INVALID_STATE'')
       (apply_reserve QH TH oid code qid (s\<lparr>jo_previous := jo_previous s @ [x], tr_order := None\<rparr>)))"

definition apply_cancel :: "order \<Rightarrow> journey \<Rightarrow> journey_error + journey" where
  "apply_cancel x s =
    (if or_state x = CANCELLED then Inr s
     else ensure (or_state x = RESERVED) (Conflict ''ALREADY_PREPARING'')
       (let p = pricing_of x; s = release s;
            s = add_event BENEFITS_RELEASED (Released_Data (pr_coupon p) (pr_points p)) s;
            s = s\<lparr>tr_order := Some (x\<lparr>or_state := CANCELLED\<rparr>)\<rparr>
        in Inr (add_event ORDER_CANCELLED (Amount_Data (or_price x)) s)))"

definition apply_reserve_first_reorder ::
  "quote_hash \<Rightarrow> (terms \<Rightarrow> string) \<Rightarrow> string \<Rightarrow> string \<Rightarrow> journey_command \<Rightarrow> journey \<Rightarrow> journey_error + journey" where
  "apply_reserve_first_reorder QH TH oid code c s = (case tr_order s of
     None \<Rightarrow> Inl (Conflict ''ALREADY_PREPARING'')
   | Some x \<Rightarrow> ensure (or_state x = RESERVED) (Conflict ''ALREADY_PREPARING'')
       (bind_ok (quote QH TH s (jc_quote c)) (\<lambda>chosen.
          ensure (pl_store chosen \<noteq> or_store x) (Conflict ''SAME_STORE'')
           (bind_ok (apply_cancel x s) (\<lambda>s.
              let s = s\<lparr>jo_previous := jo_previous s @ [the (tr_order s)], tr_order := None\<rparr>
              in bind_ok (plan_at QH TH s (pl_store chosen)) (\<lambda>fresh.
                   ensure (pl_feasible fresh) (Conflict ''REORDER_PREFLIGHT_REJECTED'')
                    (ensure (jc_cash c = Some (pl_price fresh)) (Conflict ''REORDER_PRICE_CHANGED'')
                      (apply_reserve QH TH oid code (Some (pl_quote fresh)) s))))))))"

definition apply_disrupt :: "journey_command \<Rightarrow> journey \<Rightarrow> journey_error + journey" where
  "apply_disrupt c s = (case List.find (\<lambda>v. Some (st_id v) = jc_store c) (tr_stores s) of
     None \<Rightarrow> Inl (Conflict ''UNKNOWN_STORE'')
   | Some st \<Rightarrow> ensure (0 < jc_minutes c) (Conflict ''BAD_DELAY'')
       (let s = s\<lparr>tr_stores := upd_first (\<lambda>v. Some (st_id v) = jc_store c)
                (\<lambda>v. v\<lparr>st_queue_until := max (st_queue_until v) (tr_clock s) + jc_minutes c\<rparr>) (tr_stores s)\<rparr>;
            s = (case tr_order s of
                   Some x \<Rightarrow> if or_store x = st_id st \<and> or_state x = PREPARING
                     then s\<lparr>tr_order := Some (x\<lparr>or_ready_at := or_ready_at x + jc_minutes c\<rparr>)\<rparr> else s
                 | None \<Rightarrow> s)
        in Inr (add_event STORE_DELAYED (Delayed_Data (st_id st) (jc_minutes c)) s)))"

definition apply_delay :: "quote_hash \<Rightarrow> (terms \<Rightarrow> string) \<Rightarrow> journey_command \<Rightarrow> journey \<Rightarrow> journey_error + journey" where
  "apply_delay QH TH c s =
    ensure (case tr_order s of None \<Rightarrow> True | Some x \<Rightarrow> or_state x \<notin> {CANCELLED, PICKED_UP}) (Conflict ''TERMINAL'')
     (let s = s\<lparr>tr_delay := tr_delay s + jc_minutes c\<rparr>
      in bind_ok (case tr_order s of
             Some x \<Rightarrow> if or_state x = RESERVED
               then bind_ok (plan_at QH TH s (or_store x)) (\<lambda>p.
                 Inr (s\<lparr>tr_order := Some (x\<lparr>or_plan := p, or_ready_at := pl_ready_at p\<rparr>)\<rparr>)) else Inr s
           | None \<Rightarrow> Inr s)
         (\<lambda>s. Inr (add_event ARRIVAL_UPDATED (Minutes_Data (jc_minutes c)) s)))"

definition apply_advance :: "journey_command \<Rightarrow> journey \<Rightarrow> journey_error + journey" where
  "apply_advance c s =
    ensure (tr_clock s + jc_minutes c \<le> 180) (Conflict ''CLOCK_LIMIT'')
     (Inr (add_event CLOCK_ADVANCED No_Data (s\<lparr>tr_clock := tr_clock s + jc_minutes c\<rparr>)))"

text \<open>\<open>outcomes.current_plan\<close>: the row of the order, with the agreed times once it is being made.\<close>

definition current_plan :: "quote_hash \<Rightarrow> (terms \<Rightarrow> string) \<Rightarrow> journey \<Rightarrow> order \<Rightarrow> journey_error + plan" where
  "current_plan QH TH s x = bind_ok (plan_at QH TH s (or_store x)) (\<lambda>p. Inr
     (if or_state x \<in> {PREPARING, order_state.READY, PICKED_UP} then
        let pickup = (if or_state x = PICKED_UP
              then (case or_picked_up_at x of None \<Rightarrow> or_ready_at x | Some t \<Rightarrow> t)
              else max (max (tr_clock s) (or_departure_at x + tr_delay s + pl_walk_to p)) (or_ready_at x));
            arrival = pickup + pl_walk_after p; margin = in_deadline (tr_intent s) - arrival
        in p\<lparr>pl_ready_at := or_ready_at x, pl_pickup_at := pickup, pl_arrival_at := arrival, pl_margin := margin,
             pl_feasible := (1 \<le> margin \<and> filter (\<lambda>r. r \<notin> {DEADLINE, OFFLINE, MENU}) (pl_reasons p) = [])\<rparr>
      else p))"

definition apply_transfer ::
  "quote_hash \<Rightarrow> (terms \<Rightarrow> string) \<Rightarrow> journey_command \<Rightarrow> order \<Rightarrow> journey \<Rightarrow> journey_error + journey" where
  "apply_transfer QH TH c x s =
    ensure (or_state x = RESERVED) (Conflict ''ALREADY_PREPARING'')
     (bind_ok (quote QH TH s (jc_quote c)) (\<lambda>p.
        ensure (or_store x \<noteq> pl_store p) (Conflict ''SAME_STORE'')
         (bind_ok (current_plan QH TH s x) (\<lambda>old.
            bind_ok (domain (hold s (pl_pricing p))) (\<lambda>s.
              let s = s\<lparr>tr_order := Some (x\<lparr>or_store := pl_store p, or_price := pl_price p,
                      or_pricing := Some (pl_pricing p), or_plan := p, or_ready_at := pl_ready_at p,
                      or_departure_at := tr_clock s,
                      or_terms := (case pl_terms p of None \<Rightarrow> or_terms x | Some t \<Rightarrow> Some t)\<rparr>)\<rparr>;
                  s = add_event ORDER_TRANSFERRED (Transfer_Data
                        \<lparr>td_terms = pl_terms p, td_from = or_store x, td_to = pl_store p, td_old_price = or_price x,
                         td_new_price = pl_price p, td_order = or_id x, td_old_pricing = pricing_of x,
                         td_new_pricing = pl_pricing p, td_old_arrival = pl_arrival_at old,
                         td_new_arrival = pl_arrival_at p\<rparr>) s
              in Inr (add_local_event AUTHORIZATION_ADJUSTED (Adjusted_Data (pl_price p) (pl_price p - or_price x)) s))))))"

definition apply_start :: "quote_hash \<Rightarrow> (terms \<Rightarrow> string) \<Rightarrow> order \<Rightarrow> journey \<Rightarrow> journey_error + journey" where
  "apply_start QH TH x s =
    ensure (or_state x = RESERVED) (Conflict ''INVALID_STATE'')
     (bind_ok (plan_at QH TH s (or_store x)) (\<lambda>p.
        ensure (pl_start_at p \<le> tr_clock s) (Conflict ''TOO_EARLY'')
         (ensure (pl_feasible p) (Conflict ''UNSAFE_START'')
           (Inr (add_event PREPARATION_STARTED (Store_Data (or_store x))
              (s\<lparr>tr_order := Some (x\<lparr>or_state := PREPARING, or_ready_at := tr_clock s + pl_prep p\<rparr>)\<rparr>))))))"

definition apply_ready :: "order \<Rightarrow> journey \<Rightarrow> journey_error + journey" where
  "apply_ready x s =
    ensure (or_state x = PREPARING) (Conflict ''INVALID_STATE'')
     (ensure (or_ready_at x \<le> tr_clock s) (Conflict ''TOO_EARLY'')
       (Inr (add_event ORDER_READY No_Data (s\<lparr>tr_order := Some (x\<lparr>or_state := order_state.READY\<rparr>)\<rparr>))))"

definition apply_claim :: "journey_command \<Rightarrow> order \<Rightarrow> journey \<Rightarrow> journey_error + journey" where
  "apply_claim c x s =
    ensure (or_state x \<in> {order_state.READY, PICKED_UP}) (Conflict ''NOT_READY'')
     (ensure ((case jc_code c of None \<Rightarrow> ''None'' | Some k \<Rightarrow> k) = or_pickup_code x) (Conflict ''BAD_CODE'')
       (if or_state x = PICKED_UP then Inr s
        else let p = pricing_of x in
          bind_ok (domain (consume s p)) (\<lambda>s.
            let s = add_event BENEFITS_CONSUMED (Consumed_Data (pr_coupon p) (pr_points p) (pr_earn p)) s;
                s = s\<lparr>tr_order := Some (x\<lparr>or_state := PICKED_UP, or_picked_up_at := Some (tr_clock s)\<rparr>)\<rparr>;
                s = add_event PICKUP_COMPLETED No_Data s;
                s = add_local_event PAYMENT_CAPTURED (Amount_Data (or_price x)) s
            in if or_terms x = None then Inr s
               else bind_ok (domain (fund (or_store x) p)) (\<lambda>f.
                 Inr (add_event MERCHANT_SETTLEMENT_SIMULATED (Settlement_Data (or_id x) f) s)))))"

definition apply_action ::
  "quote_hash \<Rightarrow> (terms \<Rightarrow> string) \<Rightarrow> string \<Rightarrow> string \<Rightarrow> journey_command \<Rightarrow> journey \<Rightarrow> journey_error + journey" where
  "apply_action QH TH oid code c s =
    (case jc_action c of
       A_reserve_first_reorder \<Rightarrow> apply_reserve_first_reorder QH TH oid code c s
     | A_reorder \<Rightarrow> apply_reorder QH TH oid code (jc_quote c) s
     | A_reserve \<Rightarrow> apply_reserve QH TH oid code (jc_quote c) s
     | A_disrupt \<Rightarrow> apply_disrupt c s
     | A_delay \<Rightarrow> apply_delay QH TH c s
     | A_advance \<Rightarrow> apply_advance c s
     | a \<Rightarrow> (case tr_order s of
          None \<Rightarrow> Inl (Conflict ''NO_ORDER'')
        | Some x \<Rightarrow> (case a of
            A_transfer \<Rightarrow> apply_transfer QH TH c x s
          | A_start \<Rightarrow> apply_start QH TH x s
          | A_ready \<Rightarrow> apply_ready x s
          | A_claim \<Rightarrow> apply_claim c x s
          | A_cancel \<Rightarrow> apply_cancel x s
          | _ \<Rightarrow> Inl (Conflict ''INVALID_COMMAND''))))"

section \<open>New journeys\<close>

definition valid_intent :: "intent \<Rightarrow> bool" where
  "valid_intent i \<longleftrightarrow> in_destination i \<in> {''office'', ''park''} \<and> 3 \<le> in_deadline i \<and> in_deadline i \<le> 90
     \<and> in_drink i \<in> {''americano'', ''latte''} \<and> in_milk i \<in> {''regular'', ''oat''}
     \<and> 1000 \<le> in_budget i \<and> in_budget i \<le> 30000 \<and> 0 \<le> in_max_detour i \<and> in_max_detour i \<le> 20
     \<and> in_coupon i \<in> {None, Some ''welcome500'', Some ''wave1000'', Some ''morning10''}
     \<and> 0 \<le> in_points i \<and> in_points i \<le> 2000 \<and> \<not> (in_drink i = ''americano'' \<and> in_milk i = ''oat'')"

definition new_state ::
  "bool \<Rightarrow> string \<Rightarrow> intent \<Rightarrow> string option \<Rightarrow> string \<Rightarrow> payment_fault \<Rightarrow> journey_error + journey" where
  "new_state payment_enabled uuid i world_id card_token fault =
    (let s = \<lparr>tr_id = uuid, tr_version = 1, tr_clock = 0, tr_delay = 0, tr_intent = i, tr_stores = STORES,
              tr_order = None, tr_wallet = Some initial_wallet, tr_agreement = True, jo_events = [],
              jo_world = Some (case world_id of Some w \<Rightarrow> if w = [] then uuid else w | None \<Rightarrow> uuid), jo_protocol = 1,
              jo_active = None, jo_handoff = None, jo_generation_counter = 0, jo_next_fault = No_Fault, jo_guests = [],
              jo_previous = [], jo_card = ''demo-approved'', jo_payment_fault = No_Payment_Fault, jo_payment_revision = 0,
              jo_payment = None, jo_first_order = None, jo_payment_order = None, jo_pending_order = None\<rparr>
     in if payment_enabled then
          ensure (card_token \<in> {''demo-approved'', ''demo-declined''}) (Conflict ''INVALID_PAYMENT_SETUP'')
            (Inr (add_event INTENT_CREATED (Intent_Data i)
              (s\<lparr>jo_protocol := 2, jo_card := card_token, jo_payment_fault := fault,
                 jo_payment := Some \<lparr>pv_state = Pay_NOT_STARTED, pv_authorization = None, pv_amount = None,
                   pv_last_confirmed = None\<rparr>\<rparr>)))
        else Inr (add_event INTENT_CREATED (Intent_Data i) s))"

end
