(* ===== verification/Journey_Invariant.thy ===== *)
theory Journey_Invariant
  imports Journey_Apply
begin

text \<open>
  What the commands of a journey keep: the wallet is always the one its order accounts for,
  prices are funded, planning never fails, only conflicts are raised, and an order whose
  drink is being made is settled.
\<close>

section \<open>The invariant of a journey\<close>

lemma add_event_simps [simp]:
  "tr_id (add_event k d s) = tr_id s" "tr_version (add_event k d s) = tr_version s"
  "tr_clock (add_event k d s) = tr_clock s" "tr_delay (add_event k d s) = tr_delay s"
  "tr_intent (add_event k d s) = tr_intent s" "tr_stores (add_event k d s) = tr_stores s"
  "tr_order (add_event k d s) = tr_order s" "tr_wallet (add_event k d s) = tr_wallet s"
  "tr_agreement (add_event k d s) = tr_agreement s" "jo_protocol (add_event k d s) = jo_protocol s"
  "jo_previous (add_event k d s) = jo_previous s"
  by (simp_all add: add_event_def)

lemma add_local_event_simps [simp]:
  "tr_id (add_local_event k d s) = tr_id s" "tr_version (add_local_event k d s) = tr_version s"
  "tr_clock (add_local_event k d s) = tr_clock s" "tr_delay (add_local_event k d s) = tr_delay s"
  "tr_intent (add_local_event k d s) = tr_intent s" "tr_stores (add_local_event k d s) = tr_stores s"
  "tr_order (add_local_event k d s) = tr_order s" "tr_wallet (add_local_event k d s) = tr_wallet s"
  "tr_agreement (add_local_event k d s) = tr_agreement s" "jo_protocol (add_local_event k d s) = jo_protocol s"
  "jo_previous (add_local_event k d s) = jo_previous s"
  by (simp_all add: add_local_event_def)

definition picked_up :: "journey \<Rightarrow> bool" where
  "picked_up s = (case tr_order s of None \<Rightarrow> False | Some x \<Rightarrow> or_state x = PICKED_UP)"

definition count_events :: "event_kind \<Rightarrow> journey \<Rightarrow> nat" where
  "count_events k s = length (filter (\<lambda>e. je_kind e = k) (jo_events s))"

lemma count_events_add [simp]:
  "count_events k (add_event k' d s) = count_events k s + (if k' = k then 1 else 0)"
  by (simp add: count_events_def add_event_def)

lemma count_events_local [simp]:
  "count_events k (add_local_event k' d s) = count_events k s + (if k' = k \<and> jo_protocol s \<noteq> 2 then 1 else 0)"
  by (simp add: add_local_event_def)

text \<open>What the wallet of a journey must be, given its order.\<close>

fun wallet_of_state :: "order_state \<Rightarrow> pricing \<Rightarrow> wallet" where
  "wallet_of_state CANCELLED p = initial_wallet"
| "wallet_of_state PICKED_UP p = \<lparr>wa_balance = INITIAL_POINTS + (pr_earn p - pr_points p), wa_held_points = 0,
     wa_held_coupon = None, wa_used_coupons = (case pr_coupon p of None \<Rightarrow> [] | Some k \<Rightarrow> [k]),
     wa_spent = pr_points p, wa_earned = pr_earn p\<rparr>"
| "wallet_of_state _ p = initial_wallet\<lparr>wa_held_points := pr_points p, wa_held_coupon := pr_coupon p\<rparr>"

definition expected_wallet :: "order option \<Rightarrow> wallet" where
  "expected_wallet ord = (case ord of None \<Rightarrow> initial_wallet | Some x \<Rightarrow> wallet_of_state (or_state x) (pricing_of x))"

text \<open>A price that was quoted for a store and can be funded there.\<close>

definition fair_price :: "string \<Rightarrow> pricing \<Rightarrow> bool" where
  "fair_price shop p \<longleftrightarrow> is_ok (fund shop p) \<and> 0 \<le> pr_points p \<and> pr_points p \<le> INITIAL_POINTS \<and> 0 \<le> pr_earn p
     \<and> pr_coupon p \<noteq> Some []"

definition order_ok :: "order option \<Rightarrow> bool" where
  "order_ok ord = (case ord of None \<Rightarrow> True | Some x \<Rightarrow>
     fair_price (or_store x) (pricing_of x) \<and> or_price x = pr_cash (pricing_of x)
     \<and> or_store x \<in> set (map st_id STORES))"

definition known_world :: "'a trip_scheme \<Rightarrow> bool" where
  "known_world s \<longleftrightarrow> in_destination (tr_intent s) \<in> {''office'', ''park''} \<and> 0 \<le> in_points (tr_intent s)
     \<and> map st_id (tr_stores s) = map st_id STORES \<and> list_all catalogue_store (tr_stores s)"

definition journey_inv :: "journey \<Rightarrow> bool" where
  "journey_inv s \<longleftrightarrow> known_world s \<and> order_ok (tr_order s) \<and> wallet_for s = expected_wallet (tr_order s)
     \<and> count_events BENEFITS_CONSUMED s = (if picked_up s then 1 else 0)
     \<and> count_events PAYMENT_CAPTURED s = (if picked_up s \<and> jo_protocol s \<noteq> 2 then 1 else 0)"

lemma fair_balance: "fair_price shop p \<Longrightarrow> 0 \<le> wa_balance (wallet_of_state st p)"
  by (cases st) (auto simp: fair_price_def initial_wallet_def INITIAL_POINTS_def)

lemma inv_plannable: "journey_inv s \<Longrightarrow> plannable s"
  by (auto simp: journey_inv_def plannable_def known_world_def order_ok_def expected_wallet_def fair_balance fair_price_def
      initial_wallet_def INITIAL_POINTS_def split: option.splits intro: fair_balance)

lemma known_world_stores: "known_world s \<Longrightarrow> st \<in> set (tr_stores s) \<Longrightarrow> st_id st \<in> set (map st_id STORES)"
  unfolding known_world_def by (metis image_eqI list.set_map)

section \<open>Rows and quotes of a journey\<close>

lemma plans_row:
  assumes "plans QH TH s = Inr rows" "p \<in> set rows"
  obtains st where "st \<in> set (tr_stores s)" "pl_store p = st_id st" "pl_pricing p = row_pricing s st" "pl_price p = pr_cash (row_pricing s st)"
  using assms(1)
proof (cases rule: plans_Inr)
  case (1 direct q rs)
  then have "p \<in> set rs" using assms(2) by simp
  then obtain st where st: "st \<in> set (tr_stores s)" "plan_row QH TH s direct st = Inr p"
    using list_all2_right_mem [OF 1(2)] by blast
  from st(2) show ?thesis
    by (rule plan_row_Inr) (rule that [OF st(1)], simp_all add: make_row_fields)
qed

lemma plans_stores:
  assumes "plans QH TH s = Inr rows"
  shows "pl_store ` set rows = set (map st_id (tr_stores s))"
proof -
  have "mset (map pl_store rows) = mset (map st_id (tr_stores s))" by (rule plans_stores_once [OF assms])
  then show ?thesis by (metis mset_eq_setD set_map)
qed

lemma plan_at_returns:
  assumes "plannable s" "store_id \<in> set (map st_id (tr_stores s))"
  shows "\<exists>p. plan_at QH TH s store_id = Inr p"
proof -
  obtain rows where r: "plans QH TH s = Inr rows" using plans_ok [OF assms(1)] by (auto simp: is_ok_iff)
  then have "\<exists>p \<in> set rows. pl_store p = store_id" using plans_stores [OF r] assms(2) by (metis image_iff)
  then have "List.find (\<lambda>p. pl_store p = store_id) rows \<noteq> None" by (auto simp: find_None_iff)
  then show ?thesis by (auto simp: plan_at_def r)
qed

lemma plan_at_Inr: "plan_at QH TH s store_id = Inr p \<Longrightarrow> pl_store p = store_id"
  by (auto simp: plan_at_def ok_Inr find_Some_iff split: option.splits)

lemma find_SomeD: "List.find P xs = Some x \<Longrightarrow> x \<in> set xs \<and> P x"
  by (auto simp: find_Some_iff)

lemma quote_Inr:
  assumes "quote QH TH s qid = Inr p"
  obtains rows where "plans QH TH s = Inr rows" "p \<in> set rows" "pl_feasible p" "qid = Some (pl_quote p)"
proof -
  obtain rows where r: "plans QH TH s = Inr rows" using assms by (auto simp: quote_def bind_ok_Inr domain_Inr)
  then obtain p' where f: "List.find (\<lambda>p. Some (pl_quote p) = qid) rows = Some p'" and "pl_feasible p'" "p' = p"
    using assms by (cases "List.find (\<lambda>p. Some (pl_quote p) = qid) rows") (auto simp: quote_def ensure_Inr)
  then show ?thesis using that [OF r] find_SomeD [OF f] by auto
qed

lemma quote_Inl:
  assumes "plannable s" "quote QH TH s qid = Inl e"
  shows "\<exists>code. e = Conflict code"
proof -
  obtain rows where r: "plans QH TH s = Inr rows" using plans_ok [OF assms(1)] by (auto simp: is_ok_iff)
  then show ?thesis using assms(2) by (auto simp: quote_def ok_Inl split: option.splits)
qed

lemma price_quote_fair:
  assumes "journey_inv s" "st \<in> set (tr_stores s)" "wa_balance (wallet_for s) \<le> INITIAL_POINTS"
  shows "fair_price (st_id st) (price_quote s (st_id st) (menu_price (tr_intent s) st))" (is "fair_price _ ?q")
proof -
  have pl: "plannable s" by (rule inv_plannable [OF assms(1)])
  have "catalogue_store st" using pl assms(2) by (auto simp: plannable_def list_all_iff)
  then have g: "0 \<le> menu_price (tr_intent s) st" by (rule menu_price_nonneg)
  have b: "0 \<le> in_points (tr_intent s)" "0 \<le> wa_balance (wallet_for s)" using pl by (auto simp: plannable_def)
  have "pr_coupon ?q \<noteq> Some []"
  proof (cases "pr_discount ?q = 0")
    case False
    then obtain c where "c \<in> set COUPONS" "pr_coupon ?q = Some (co_id c)" by (rule price_quote_coupon)
    then show ?thesis by (auto simp: COUPONS_def)
  qed (simp add: price_quote_no_coupon)
  then show ?thesis using quote_fundable [OF g b] price_quote_points [OF g b, of "st_id st"] assms(3) by (auto simp: fair_price_def)
qed

lemma quote_fair:
  assumes inv: "journey_inv s" and q: "quote QH TH s qid = Inr p" and b: "wa_balance (wallet_for s) \<le> INITIAL_POINTS"
    and other: "\<forall>x. tr_order s = Some x \<longrightarrow> or_store x \<noteq> pl_store p"
  shows "fair_price (pl_store p) (pl_pricing p)" "pl_price p = pr_cash (pl_pricing p)"
    "pl_store p \<in> set (map st_id STORES)" "pl_feasible p"
proof -
  obtain rows where r: "plans QH TH s = Inr rows" "p \<in> set rows" "pl_feasible p"
    using quote_Inr [OF q] by blast
  obtain st where st: "st \<in> set (tr_stores s)" "pl_store p = st_id st" "pl_pricing p = row_pricing s st" "pl_price p = pr_cash (row_pricing s st)"
    using plans_row [OF r(1,2)] by blast
  have "ordered_at s st = None" using other st(2) by (auto simp: ordered_at_def split: option.splits)
  then have "row_pricing s st = price_quote s (st_id st) (menu_price (tr_intent s) st)" by (simp add: row_pricing_def)
  then show "fair_price (pl_store p) (pl_pricing p)" "pl_price p = pr_cash (pl_pricing p)"
    using price_quote_fair [OF inv st(1) b] st by simp_all
  show "pl_store p \<in> set (map st_id STORES)" using known_world_stores st(1,2) inv by (auto simp: journey_inv_def)
  show "pl_feasible p" by (rule r(3))
qed


section \<open>Every command keeps the invariant and raises conflicts only\<close>

lemma known_world_simps [simp]:
  "known_world (add_event k d s) = known_world s" "known_world (add_local_event k d s) = known_world s" "known_world (s\<lparr>tr_order := x\<rparr>) = known_world s"
  "known_world (s\<lparr>tr_wallet := w\<rparr>) = known_world s" "known_world (s\<lparr>jo_previous := pv\<rparr>) = known_world s"
  "known_world (s\<lparr>tr_clock := n\<rparr>) = known_world s" "known_world (s\<lparr>tr_delay := n\<rparr>) = known_world s"
  by (simp_all add: known_world_def)

lemma wallet_for_upd [simp]:
  "wallet_for (add_event k d s) = wallet_for s" "wallet_for (add_local_event k d s) = wallet_for s" "wallet_for (s\<lparr>tr_order := x\<rparr>) = wallet_for s"
  "wallet_for (s\<lparr>jo_previous := pv\<rparr>) = wallet_for s" "wallet_for (s\<lparr>tr_clock := n\<rparr>) = wallet_for s"
  "wallet_for (s\<lparr>tr_delay := n\<rparr>) = wallet_for s" "wallet_for (s\<lparr>tr_stores := sts\<rparr>) = wallet_for s"
  by (simp_all add: wallet_for_def)

lemma count_events_upd [simp]:
  "count_events k (s\<lparr>tr_order := x\<rparr>) = count_events k s" "count_events k (s\<lparr>tr_wallet := w\<rparr>) = count_events k s"
  "count_events k (s\<lparr>jo_previous := pv\<rparr>) = count_events k s" "count_events k (s\<lparr>tr_clock := n\<rparr>) = count_events k s"
  "count_events k (s\<lparr>tr_delay := n\<rparr>) = count_events k s" "count_events k (s\<lparr>tr_stores := sts\<rparr>) = count_events k s"
  by (simp_all add: count_events_def)

lemma pricing_of_simps [simp]:
  "pricing_of (reserved_order s oid code p) = pl_pricing p" "pricing_of (x\<lparr>or_pricing := Some q, or_plan := p, or_ready_at := r, or_departure_at := d, or_terms := t\<rparr>) = q"
  by (simp_all add: pricing_of_def reserved_order_def)

lemma inv_add_event [simp]:
  "k \<notin> {BENEFITS_CONSUMED, PAYMENT_CAPTURED} \<Longrightarrow> journey_inv (add_event k d s) = journey_inv s"
  "k \<notin> {BENEFITS_CONSUMED, PAYMENT_CAPTURED} \<Longrightarrow> journey_inv (add_local_event k d s) = journey_inv s"
  by (simp_all add: journey_inv_def picked_up_def)

lemma reserve_inv:
  assumes inv: "journey_inv s" and a: "apply_reserve QH TH oid code qid s = Inr t"
  shows "journey_inv t"
proof -
  obtain p where o: "tr_order s = None" and q: "quote QH TH s qid = Inr p"
    using a by (auto simp: apply_reserve_def ok_Inr)
  have w: "wallet_for s = initial_wallet" using inv o by (simp add: journey_inv_def expected_wallet_def)
  have fair: "fair_price (pl_store p) (pl_pricing p)" "pl_price p = pr_cash (pl_pricing p)" "pl_store p \<in> set (map st_id STORES)"
    using quote_fair [OF inv q] o w by (auto simp: initial_wallet_def)
  let ?t = "s\<lparr>tr_order := Some (reserved_order s oid code p),
      tr_wallet := Some (initial_wallet\<lparr>wa_held_points := pr_points (pl_pricing p), wa_held_coupon := pr_coupon (pl_pricing p)\<rparr>)\<rparr>"
  have "t = add_event ORDER_RESERVED (Reserved_Data (pl_store p) (pl_price p)) (add_local_event PAYMENT_AUTHORIZED (Amount_Data (pl_price p))
      (add_event BENEFITS_HELD (Pricing_Data (pl_pricing p)) ?t))"
    using a o q w by (auto simp: apply_reserve_def ok_Inr domain_Inr hold_Inr Let_def)
  moreover have "journey_inv ?t" using inv o fair
    by (simp add: journey_inv_def order_ok_def expected_wallet_def picked_up_def) (simp add: reserved_order_def)
  ultimately show ?thesis by simp
qed

lemma pricing_of_upd [simp]:
  "pricing_of (x\<lparr>or_state := a\<rparr>) = pricing_of x" "pricing_of (x\<lparr>or_ready_at := n\<rparr>) = pricing_of x"
  "pricing_of (x\<lparr>or_plan := p\<rparr>) = pricing_of x" "pricing_of (x\<lparr>or_picked_up_at := u\<rparr>) = pricing_of x"
  "pricing_of (x\<lparr>or_generation := g\<rparr>) = pricing_of x"
  by (simp_all add: pricing_of_def legacy_pricing_def split: option.split)

lemma reorder_inv:
  assumes inv: "journey_inv s" and a: "apply_reorder QH TH oid code qid s = Inr t"
  shows "journey_inv t"
proof -
  obtain x where x: "tr_order s = Some x" "or_state x = CANCELLED"
    and r: "apply_reserve QH TH oid code qid (s\<lparr>jo_previous := jo_previous s @ [x], tr_order := None\<rparr>) = Inr t"
    using a by (auto simp: apply_reorder_def ok_Inr split: option.splits)
  have "journey_inv (s\<lparr>jo_previous := jo_previous s @ [x], tr_order := None\<rparr>)"
    using inv x by (simp add: journey_inv_def order_ok_def expected_wallet_def picked_up_def)
  then show ?thesis using r by (rule reserve_inv)
qed

lemma cancel_inv:
  assumes inv: "journey_inv s" and x: "tr_order s = Some x" and a: "apply_cancel x s = Inr t"
  shows "journey_inv t" "\<exists>y. tr_order t = Some y \<and> or_state y = CANCELLED"
proof -
  let ?y = "x\<lparr>or_state := CANCELLED\<rparr>"
  consider (already) "or_state x = CANCELLED" "t = s" | (go) "or_state x = RESERVED"
      "t = add_event ORDER_CANCELLED (Amount_Data (or_price x)) ((add_event BENEFITS_RELEASED
         (Released_Data (pr_coupon (pricing_of x)) (pr_points (pricing_of x))) (release s))\<lparr>tr_order := Some ?y\<rparr>)"
    using a by (auto simp: apply_cancel_def ensure_Inr Let_def split: if_splits)
  then have "journey_inv t \<and> (\<exists>y. tr_order t = Some y \<and> or_state y = CANCELLED)"
  proof cases
    case go
    have "initial_wallet\<lparr>wa_held_points := 0, wa_held_coupon := None\<rparr> = initial_wallet" by (simp add: initial_wallet_def)
    then show ?thesis using inv x go
      by (simp add: journey_inv_def order_ok_def expected_wallet_def picked_up_def wallet_for_release)
        (simp add: release_def)
  qed (use inv x in auto)
  then show "journey_inv t" "\<exists>y. tr_order t = Some y \<and> or_state y = CANCELLED" by auto
qed

lemma drop_cancelled_inv:
  assumes "journey_inv s" "tr_order s = Some x" "or_state x = CANCELLED"
  shows "journey_inv (s\<lparr>jo_previous := pv, tr_order := None\<rparr>)"
  using assms by (simp add: journey_inv_def order_ok_def expected_wallet_def picked_up_def)

lemma reserve_first_inv:
  assumes inv: "journey_inv s" and a: "apply_reserve_first_reorder QH TH oid code c s = Inr t"
  shows "journey_inv t"
proof -
  obtain x where x: "tr_order s = Some x" using a by (auto simp: apply_reserve_first_reorder_def split: option.splits)
  have "\<exists>u qid. apply_cancel x s = Inr u \<and>
      apply_reserve QH TH oid code qid (u\<lparr>jo_previous := jo_previous u @ [the (tr_order u)], tr_order := None\<rparr>) = Inr t"
    using a by (auto simp: apply_reserve_first_reorder_def ok_Inr Let_def x)
  then obtain u qid where u: "apply_cancel x s = Inr u"
    and r: "apply_reserve QH TH oid code qid (u\<lparr>jo_previous := jo_previous u @ [the (tr_order u)], tr_order := None\<rparr>) = Inr t"
    by blast
  obtain y where "tr_order u = Some y" "or_state y = CANCELLED" using cancel_inv(2) [OF inv x u] by blast
  then show ?thesis using r reserve_inv drop_cancelled_inv [OF cancel_inv(1) [OF inv x u]] by blast
qed

lemma disrupt_inv:
  assumes inv: "journey_inv s" and a: "apply_disrupt c s = Inr t"
  shows "journey_inv t"
proof -
  let ?sts = "upd_first (\<lambda>v. Some (st_id v) = jc_store c) (\<lambda>v. v\<lparr>st_queue_until := max (st_queue_until v) (tr_clock s) + jc_minutes c\<rparr>) (tr_stores s)"
  have "catalogue_store (v\<lparr>st_queue_until := n\<rparr>) = catalogue_store v" for v n
    by (simp add: catalogue_store_def policy_or_empty_def)
  then have "list_all catalogue_store ?sts" "map st_id ?sts = map st_id (tr_stores s)"
    using inv by (auto simp: journey_inv_def known_world_def list_all_iff map_upd_first dest!: set_upd_firstD)
  then have k: "known_world (s\<lparr>tr_stores := ?sts\<rparr>)" using inv by (simp add: journey_inv_def known_world_def)
  let ?s = "s\<lparr>tr_stores := ?sts\<rparr>"
  have i: "journey_inv ?s" using inv k by (simp add: journey_inv_def picked_up_def)
  have o: "journey_inv (?s\<lparr>tr_order := Some (x\<lparr>or_ready_at := n\<rparr>)\<rparr>)" if "tr_order s = Some x" for x n
    using i that by (simp add: journey_inv_def order_ok_def expected_wallet_def picked_up_def)
  obtain d where "t = add_event STORE_DELAYED d ?s \<or>
      (\<exists>x n. tr_order s = Some x \<and> t = add_event STORE_DELAYED d (?s\<lparr>tr_order := Some (x\<lparr>or_ready_at := n\<rparr>)\<rparr>))"
    using a by (cases "tr_order s") (auto simp: apply_disrupt_def ensure_Inr Let_def split: option.splits if_splits)
  then show ?thesis using i o by auto
qed

lemma delay_inv:
  assumes inv: "journey_inv s" and a: "apply_delay QH TH c s = Inr t"
  shows "journey_inv t"
proof -
  let ?s = "s\<lparr>tr_delay := tr_delay s + jc_minutes c\<rparr>"
  have i: "journey_inv ?s" using inv by (simp add: journey_inv_def known_world_def picked_up_def)
  have o: "journey_inv (?s\<lparr>tr_order := Some (x\<lparr>or_plan := p, or_ready_at := n\<rparr>)\<rparr>)" if "tr_order s = Some x" for x p n
    using i that by (simp add: journey_inv_def known_world_def order_ok_def expected_wallet_def picked_up_def)
  obtain d where "t = add_event ARRIVAL_UPDATED d ?s \<or>
      (\<exists>x p n. tr_order s = Some x \<and> t = add_event ARRIVAL_UPDATED d (?s\<lparr>tr_order := Some (x\<lparr>or_plan := p, or_ready_at := n\<rparr>)\<rparr>))"
    using a by (cases "tr_order s") (auto simp: apply_delay_def ensure_Inr ok_Inr Let_def split: if_splits)
  then show ?thesis using i o by auto
qed

lemma advance_inv: "journey_inv s \<Longrightarrow> apply_advance c s = Inr t \<Longrightarrow> journey_inv t"
  by (auto simp: apply_advance_def ensure_Inr journey_inv_def picked_up_def)

lemma start_inv:
  assumes inv: "journey_inv s" and x: "tr_order s = Some x" and a: "apply_start QH TH x s = Inr t"
  shows "journey_inv t"
using a inv x
  by (auto simp: apply_start_def ok_Inr journey_inv_def order_ok_def expected_wallet_def picked_up_def)

lemma ready_inv:
  assumes inv: "journey_inv s" and x: "tr_order s = Some x" and a: "apply_ready x s = Inr t"
  shows "journey_inv t"
using a inv x
  by (auto simp: apply_ready_def ok_Inr journey_inv_def order_ok_def expected_wallet_def picked_up_def)

lemma transfer_inv:
  assumes inv: "journey_inv s" and x: "tr_order s = Some x" and a: "apply_transfer QH TH c x s = Inr t"
  shows "journey_inv t"
proof -
  obtain p where r: "or_state x = RESERVED" and q: "quote QH TH s (jc_quote c) = Inr p" and ne: "or_store x \<noteq> pl_store p"
    using a by (auto simp: apply_transfer_def ok_Inr)
  have w: "wallet_for s = initial_wallet\<lparr>wa_held_points := pr_points (pricing_of x), wa_held_coupon := pr_coupon (pricing_of x)\<rparr>"
    using inv x r by (simp add: journey_inv_def expected_wallet_def)
  have fair: "fair_price (pl_store p) (pl_pricing p)" "pl_price p = pr_cash (pl_pricing p)" "pl_store p \<in> set (map st_id STORES)"
    using quote_fair [OF inv q] x ne w by (auto simp: initial_wallet_def)
  let ?x = "x\<lparr>or_store := pl_store p, or_price := pl_price p, or_pricing := Some (pl_pricing p), or_plan := p,
     or_ready_at := pl_ready_at p, or_departure_at := tr_clock s, or_terms := (case pl_terms p of None \<Rightarrow> or_terms x | Some t \<Rightarrow> Some t)\<rparr>"
  let ?w = "initial_wallet\<lparr>wa_held_points := pr_points (pl_pricing p), wa_held_coupon := pr_coupon (pl_pricing p)\<rparr>"
  obtain d e where "t = add_local_event AUTHORIZATION_ADJUSTED d (add_event ORDER_TRANSFERRED e (s\<lparr>tr_wallet := Some ?w, tr_order := Some ?x\<rparr>))"
    using a r q ne by (auto simp: apply_transfer_def ok_Inr domain_Inr hold_Inr Let_def w)
  moreover have "pricing_of ?x = pl_pricing p" by (simp add: pricing_of_def)
  then have "journey_inv (s\<lparr>tr_wallet := Some ?w, tr_order := Some ?x\<rparr>)" using inv x r fair
    by (simp add: journey_inv_def order_ok_def expected_wallet_def picked_up_def)
  ultimately show ?thesis by simp
qed

lemma claim_inv:
  assumes inv: "journey_inv s" and x: "tr_order s = Some x" and a: "apply_claim c x s = Inr t"
  shows "journey_inv t"
proof (cases "or_state x = PICKED_UP")
  case True
  then show ?thesis using a inv by (auto simp: apply_claim_def ensure_Inr)
next
  case False
  let ?p = "pricing_of x"
  let ?y = "x\<lparr>or_state := PICKED_UP, or_picked_up_at := Some (tr_clock s)\<rparr>"
  have r: "or_state x = order_state.READY" using a False by (auto simp: apply_claim_def ensure_Inr)
  obtain u where u: "consume s ?p = Inr u" using a False by (auto simp: apply_claim_def ok_Inr domain_Inr Let_def)
  have w: "wallet_for s = initial_wallet\<lparr>wa_held_points := pr_points ?p, wa_held_coupon := pr_coupon ?p\<rparr>"
    using inv x r by (simp add: journey_inv_def expected_wallet_def)
  have fair: "fair_price (or_store x) ?p" using inv x by (simp add: journey_inv_def order_ok_def)
  have wu: "wallet_for u = wallet_of_state PICKED_UP ?p"
    using consume_Inr(3) [OF u] fair by (auto simp: w initial_wallet_def fair_price_def split: option.splits)
  have us: "u = s\<lparr>tr_wallet := tr_wallet u\<rparr>"
    using u by (auto simp: consume_def Let_def release_def split: if_splits)
  let ?t = "add_local_event PAYMENT_CAPTURED (Amount_Data (or_price x)) (add_event PICKUP_COMPLETED No_Data
     ((add_event BENEFITS_CONSUMED (Consumed_Data (pr_coupon ?p) (pr_points ?p) (pr_earn ?p)) u)\<lparr>tr_order := Some ?y\<rparr>))"
  have clk: "tr_clock u = tr_clock s" by (subst us) simp
  have t: "t = ?t \<or> (\<exists>d. t = add_event MERCHANT_SETTLEMENT_SIMULATED d ?t)"
    using a r u by (auto simp: apply_claim_def ok_Inr domain_Inr Let_def clk split: if_splits)
  have keep: "known_world u = known_world s" "count_events k u = count_events k s" "jo_protocol u = jo_protocol s" for k
    by (subst us, simp)+
  have "journey_inv ?t" using inv x r wu
    by (simp add: journey_inv_def order_ok_def expected_wallet_def picked_up_def keep)
  then show ?thesis using t by auto
qed

lemma apply_action_inv:
  assumes "journey_inv s" and "apply_action QH TH oid code c s = Inr t"
  shows "journey_inv t"
  using assms
  by (auto simp: apply_action_def split: action.splits option.splits
      intro: reserve_inv reorder_inv reserve_first_inv disrupt_inv delay_inv advance_inv transfer_inv start_inv
        ready_inv claim_inv cancel_inv(1))

section \<open>Only conflicts are raised\<close>

definition is_conflict :: "journey_error \<Rightarrow> bool" where
  "is_conflict e \<longleftrightarrow> (\<exists>code. e = Conflict code)"

lemma is_conflict_Conflict [simp]: "is_conflict (Conflict code)"
  by (simp add: is_conflict_def)

lemma hold_fair:
  assumes "fair_price shop p" "wallet_for s = initial_wallet \<or> (\<exists>n k. wallet_for s = initial_wallet\<lparr>wa_held_points := n, wa_held_coupon := k\<rparr>)"
  shows "\<exists>t. hold s p = Inr t"
  using assms by (auto simp: hold_def Let_def fair_price_def initial_wallet_def)

lemma reserve_conflict:
  assumes inv: "journey_inv s" and a: "apply_reserve QH TH oid code qid s = Inl e"
  shows "is_conflict e"
proof (cases "tr_order s")
  case None
  show ?thesis
  proof (cases "quote QH TH s qid")
    case (Inl e')
    then show ?thesis using a None quote_Inl [OF inv_plannable [OF inv] Inl] by (auto simp: apply_reserve_def)
  next
    case (Inr p)
    have w: "wallet_for s = initial_wallet" using inv None by (simp add: journey_inv_def expected_wallet_def)
    have "fair_price (pl_store p) (pl_pricing p)" using quote_fair(1) [OF inv Inr] None w by (simp add: initial_wallet_def)
    then obtain t where "hold (s\<lparr>tr_order := Some (reserved_order s oid code p)\<rparr>) (pl_pricing p) = Inr t"
      using hold_fair [of _ _ "s\<lparr>tr_order := Some (reserved_order s oid code p)\<rparr>"] w by auto
    then show ?thesis using a None Inr by (auto simp: apply_reserve_def Let_def)
  qed
qed (use a in \<open>auto simp: apply_reserve_def\<close>)

lemma inv_stores: "journey_inv s \<Longrightarrow> map st_id (tr_stores s) = map st_id STORES"
  by (simp add: journey_inv_def known_world_def)

lemma plan_at_order:
  assumes "journey_inv s" "tr_order s = Some x"
  shows "\<exists>p. plan_at QH TH s (or_store x) = Inr p"
  using assms inv_plannable [OF assms(1)] by (intro plan_at_returns) (auto simp: journey_inv_def order_ok_def known_world_def)

lemma cancel_conflict: "apply_cancel x s = Inl e \<Longrightarrow> is_conflict e"
  by (auto simp: apply_cancel_def ensure_Inl Let_def split: if_splits)

lemma reorder_conflict:
  assumes inv: "journey_inv s" and a: "apply_reorder QH TH oid code qid s = Inl e"
  shows "is_conflict e"
proof (cases "tr_order s")
  case (Some x)
  show ?thesis
  proof (cases "or_state x = CANCELLED")
    case True
    then show ?thesis using a Some reserve_conflict [OF drop_cancelled_inv [OF inv Some True]] by (simp add: apply_reorder_def)
  qed (use a Some in \<open>auto simp: apply_reorder_def\<close>)
qed (use a in \<open>auto simp: apply_reorder_def\<close>)

lemma quote_store:
  assumes "journey_inv s" "quote QH TH s qid = Inr p"
  shows "pl_store p \<in> set (map st_id (tr_stores s))"
  using quote_Inr [OF assms(2)] plans_stores by (metis image_eqI)

lemma reserve_first_conflict:
  assumes inv: "journey_inv s" and a: "apply_reserve_first_reorder QH TH oid code c s = Inl e"
  shows "is_conflict e"
proof (cases "tr_order s")
  case (Some x)
  show ?thesis
  proof (cases "quote QH TH s (jc_quote c)")
    case (Inl e')
    then show ?thesis using a Some quote_Inl [OF inv_plannable [OF inv] Inl]
      by (auto simp: apply_reserve_first_reorder_def ensure_Inl)
  next
    case (Inr p)
    show ?thesis
    proof (cases "apply_cancel x s")
      case (Inl e')
      then show ?thesis using a Some Inr cancel_conflict [OF Inl] by (auto simp: apply_reserve_first_reorder_def ensure_Inl)
    next
      case u: (Inr u)
      let ?u = "u\<lparr>jo_previous := jo_previous u @ [the (tr_order u)], tr_order := None\<rparr>"
      have iu: "journey_inv ?u" using cancel_inv [OF inv Some u] drop_cancelled_inv by blast
      have "pl_store p \<in> set (map st_id (tr_stores ?u))"
        using quote_store [OF inv Inr] inv_stores [OF inv] inv_stores [OF iu] by simp
      then obtain f where f: "plan_at QH TH ?u (pl_store p) = Inr f" using plan_at_returns [OF inv_plannable [OF iu]] by blast
      show ?thesis using a Some Inr u f reserve_conflict [OF iu, of QH TH oid code "Some (pl_quote f)" e]
        by (auto simp: apply_reserve_first_reorder_def ensure_Inl Let_def)
    qed
  qed
qed (use a in \<open>auto simp: apply_reserve_first_reorder_def\<close>)

lemma disrupt_conflict: "apply_disrupt c s = Inl e \<Longrightarrow> is_conflict e"
  by (auto simp: apply_disrupt_def ensure_Inl Let_def split: option.splits)

lemma delay_conflict:
  assumes inv: "journey_inv s" and a: "apply_delay QH TH c s = Inl e"
  shows "is_conflict e"
proof -
  have d: "journey_inv (s\<lparr>tr_delay := n\<rparr>)" for n using inv by (simp add: journey_inv_def picked_up_def)
  show ?thesis
  proof (cases "tr_order s")
    case (Some x)
    then obtain p where "plan_at QH TH (s\<lparr>tr_delay := tr_delay s + jc_minutes c\<rparr>) (or_store x) = Inr p"
      using plan_at_order [OF d, of _ x QH TH] by auto
    then show ?thesis using a Some by (auto simp: apply_delay_def ok_Inl Let_def split: if_splits)
  qed (use a in \<open>auto simp: apply_delay_def ok_Inl Let_def\<close>)
qed

lemma current_plan_order:
  assumes "journey_inv s" "tr_order s = Some x"
  shows "\<exists>p. current_plan QH TH s x = Inr p"
  using plan_at_order [OF assms, of QH TH] by (auto simp: current_plan_def)

lemma transfer_conflict:
  assumes inv: "journey_inv s" and x: "tr_order s = Some x" and a: "apply_transfer QH TH c x s = Inl e"
  shows "is_conflict e"
proof (cases "or_state x = RESERVED")
  case r: True
  show ?thesis
  proof (cases "quote QH TH s (jc_quote c)")
    case (Inl e')
    then show ?thesis using a r quote_Inl [OF inv_plannable [OF inv] Inl] by (auto simp: apply_transfer_def)
  next
    case (Inr p)
    obtain q where q: "current_plan QH TH s x = Inr q" using current_plan_order [OF inv x] by blast
    have w: "wallet_for s = initial_wallet\<lparr>wa_held_points := pr_points (pricing_of x), wa_held_coupon := pr_coupon (pricing_of x)\<rparr>"
      using inv x r by (simp add: journey_inv_def expected_wallet_def)
    show ?thesis
    proof (cases "or_store x = pl_store p")
      case False
      then have "fair_price (pl_store p) (pl_pricing p)" using quote_fair(1) [OF inv Inr] x w by (simp add: initial_wallet_def)
      then obtain t where "hold s (pl_pricing p) = Inr t" using hold_fair w by blast
      then show ?thesis using a r Inr q False by (simp add: apply_transfer_def Let_def)
    qed (use a r Inr in \<open>auto simp: apply_transfer_def\<close>)
  qed
qed (use a in \<open>auto simp: apply_transfer_def\<close>)

lemma start_conflict:
  assumes inv: "journey_inv s" and x: "tr_order s = Some x" and a: "apply_start QH TH x s = Inl e"
  shows "is_conflict e"
  using a plan_at_order [OF inv x, of QH TH] by (auto simp: apply_start_def ensure_Inl)

lemma ready_conflict: "apply_ready x s = Inl e \<Longrightarrow> is_conflict e"
  by (auto simp: apply_ready_def ensure_Inl)

lemma claim_conflict:
  assumes inv: "journey_inv s" and x: "tr_order s = Some x" and a: "apply_claim c x s = Inl e"
  shows "is_conflict e"
proof (cases "or_state x = order_state.READY")
  case True
  let ?p = "pricing_of x"
  have w: "wallet_for s = initial_wallet\<lparr>wa_held_points := pr_points ?p, wa_held_coupon := pr_coupon ?p\<rparr>"
    using inv x True by (simp add: journey_inv_def expected_wallet_def)
  then have "\<exists>u. consume s ?p = Inr u"
    by (cases "pr_coupon ?p") (simp_all add: consume_def Let_def initial_wallet_def)
  then obtain u where u: "consume s ?p = Inr u" by blast
  obtain f where "fund (or_store x) ?p = Inr f" using inv x by (auto simp: journey_inv_def order_ok_def fair_price_def is_ok_iff)
  then show ?thesis using a True u by (auto simp: apply_claim_def ensure_Inl Let_def split: if_splits)
qed (use a in \<open>auto simp: apply_claim_def ensure_Inl\<close>)

text \<open>The branches of the dispatch.\<close>

lemma apply_action_cases:
  obtains (reserve) "apply_action QH TH oid code c s = apply_reserve QH TH oid code (jc_quote c) s"
  | (reorder) "apply_action QH TH oid code c s = apply_reorder QH TH oid code (jc_quote c) s"
  | (reserve_first) "apply_action QH TH oid code c s = apply_reserve_first_reorder QH TH oid code c s"
  | (disrupt) "apply_action QH TH oid code c s = apply_disrupt c s"
  | (delay) "apply_action QH TH oid code c s = apply_delay QH TH c s"
  | (advance) "apply_action QH TH oid code c s = apply_advance c s"
  | (transfer) x where "tr_order s = Some x" "apply_action QH TH oid code c s = apply_transfer QH TH c x s"
  | (start) x where "tr_order s = Some x" "apply_action QH TH oid code c s = apply_start QH TH x s"
  | (ready) x where "tr_order s = Some x" "apply_action QH TH oid code c s = apply_ready x s"
  | (claim) x where "tr_order s = Some x" "apply_action QH TH oid code c s = apply_claim c x s"
  | (cancel) x where "tr_order s = Some x" "apply_action QH TH oid code c s = apply_cancel x s"
  | (refused) k where "apply_action QH TH oid code c s = Inl (Conflict k)"
  by (cases "tr_order s"; cases "jc_action c") (simp_all add: apply_action_def)

lemma advance_conflict: "apply_advance c s = Inl e \<Longrightarrow> is_conflict e"
  by (auto simp: apply_advance_def ensure_Inl)

lemma apply_action_conflict:
  assumes inv: "journey_inv s" and a: "apply_action QH TH oid code c s = Inl e"
  shows "is_conflict e"
proof (cases rule: apply_action_cases [of QH TH oid code c s])
  case reserve
  then show ?thesis using a reserve_conflict [OF inv] by simp
next
  case reorder
  then show ?thesis using a reorder_conflict [OF inv] by simp
next
  case reserve_first
  then show ?thesis using a reserve_first_conflict [OF inv] by simp
next
  case disrupt
  then show ?thesis using a disrupt_conflict by simp
next
  case delay
  then show ?thesis using a delay_conflict [OF inv] by simp
next
  case advance
  then show ?thesis using a advance_conflict by simp
next
  case (transfer x)
  then show ?thesis using a transfer_conflict [OF inv] by simp
next
  case (start x)
  then show ?thesis using a start_conflict [OF inv] by simp
next
  case (ready x)
  then show ?thesis using a ready_conflict by simp
next
  case (claim x)
  then show ?thesis using a claim_conflict [OF inv] by simp
next
  case (cancel x)
  then show ?thesis using a cancel_conflict by simp
next
  case (refused k)
  then show ?thesis using a by auto
qed

section \<open>After manufacturing began\<close>

text \<open>Once the drink is being made the order keeps its number, store and price.\<close>

fun stage :: "order_state \<Rightarrow> nat" where
  "stage RESERVED = 0" | "stage PREPARING = 1" | "stage order_state.READY = 2" | "stage PICKED_UP = 3" | "stage CANCELLED = 4"

definition same_deal :: "order \<Rightarrow> order \<Rightarrow> bool" where
  "same_deal x y \<longleftrightarrow> or_id y = or_id x \<and> or_store y = or_store x \<and> or_price y = or_price x \<and> pricing_of y = pricing_of x
     \<and> or_pickup_code y = or_pickup_code x \<and> stage (or_state x) \<le> stage (or_state y)
     \<and> or_state y \<in> {PREPARING, order_state.READY, PICKED_UP}"

lemma apply_action_same_deal:
  assumes x: "tr_order s = Some x" "or_state x \<in> {PREPARING, order_state.READY, PICKED_UP}"
    and a: "apply_action QH TH oid code c s = Inr t"
  shows "\<exists>y. tr_order t = Some y \<and> same_deal x y"
proof -
  have r: "same_deal x x" using x(2) by (auto simp: same_deal_def)
  show ?thesis
  proof (cases rule: apply_action_cases [of QH TH oid code c s])
    case reserve
    then show ?thesis using a x by (auto simp: apply_reserve_def)
  next
    case reorder
    then show ?thesis using a x by (auto simp: apply_reorder_def)
  next
    case reserve_first
    then show ?thesis using a x by (auto simp: apply_reserve_first_reorder_def)
  next
    case disrupt
    then have "apply_disrupt c s = Inr t" using a by simp
    then show ?thesis using x r
      by (auto simp: apply_disrupt_def ensure_Inr Let_def same_deal_def split: option.splits if_splits)
  next
    case delay
    then show ?thesis using a x r by (auto simp: apply_delay_def ok_Inr Let_def)
  next
    case advance
    then have "apply_advance c s = Inr t" using a by simp
    then show ?thesis using x r by (auto simp: apply_advance_def ensure_Inr)
  next
    case (transfer y)
    then show ?thesis using a x by (auto simp: apply_transfer_def)
  next
    case (start y)
    then show ?thesis using a x by (auto simp: apply_start_def)
  next
    case (ready y)
    then have "apply_ready x s = Inr t" using a x by simp
    then show ?thesis using x by (auto simp: apply_ready_def ensure_Inr same_deal_def)
  next
    case (claim y)
    then have "apply_claim c x s = Inr t" using a x by simp
    then show ?thesis using x r
      by (auto simp: apply_claim_def ok_Inr domain_Inr Let_def same_deal_def split: if_splits)
  next
    case (cancel y)
    then show ?thesis using a x by (auto simp: apply_cancel_def split: if_splits)
  next
    case (refused k)
    then show ?thesis using a by simp
  qed
qed

section \<open>Runs of commands\<close>

definition journey_step :: "quote_hash \<Rightarrow> (terms \<Rightarrow> string) \<Rightarrow> journey \<Rightarrow> journey_command \<times> string \<times> string \<Rightarrow> journey_error + journey" where
  "journey_step QH TH s cmd = (case cmd of (c, oid, code) \<Rightarrow> apply_action QH TH oid code c s)"

interpretation journey_runs: guarded_steps "journey_step QH TH" journey_inv for QH TH
  by unfold_locales (auto simp: journey_step_def intro: apply_action_inv)

interpretation started_orders: guarded_steps "journey_step QH TH" "\<lambda>s. \<exists>y. tr_order s = Some y \<and> same_deal x y" for QH TH x
proof (unfold_locales, goal_cases)
  case (1 s c t)
  obtain y where y: "tr_order s = Some y" "same_deal x y" using 1(1) by blast
  moreover have "or_state y \<in> {PREPARING, order_state.READY, PICKED_UP}" using y by (simp add: same_deal_def)
  ultimately obtain z where z: "tr_order t = Some z" "same_deal y z"
    using 1(2) apply_action_same_deal by (fastforce simp: journey_step_def split: prod.splits)
  have "same_deal x z" using y(2) z(2) unfolding same_deal_def by auto
  then show ?case using z(1) by blast
qed

lemma catalogue_STORES: "list_all catalogue_store STORES"
  by code_simp

lemma new_state_inv:
  assumes "valid_intent i" "new_state pe uuid i w card_token fault = Inr s"
  shows "journey_inv s"
proof -
  have i: "in_destination i \<in> {''office'', ''park''}" "0 \<le> in_points i"
    using assms(1) unfolding valid_intent_def by blast+
  have "tr_intent s = i" "tr_stores s = STORES" "tr_order s = None" "wallet_for s = initial_wallet"
    "count_events BENEFITS_CONSUMED s = 0" "count_events PAYMENT_CAPTURED s = 0"
    using assms(2) by (auto simp: new_state_def ensure_Inr Let_def count_events_def add_event_def wallet_for_def split: if_splits)
  then show ?thesis using i catalogue_STORES
    by (simp add: journey_inv_def known_world_def order_ok_def expected_wallet_def picked_up_def)
qed

text \<open>C17. The wallet of a journey is exactly what its order says, after any accepted and refused
  commands: untouched without an order or after a cancellation, holding what the approved price
  uses while the order is open, and after the pickup charged once for it. The commands consumed
  the benefits once if the order was picked up and never otherwise. In the internal simulation
  they captured the payment once at the pickup and never before; in a journey with the card
  protocol (2) they never record a capture, which is left to the payment service.\<close>

theorem benefits_match_order:
  assumes "valid_intent i" and "new_state pe uuid i w card_token fault = Inr s0"
  shows "let s = run (journey_step QH TH) s0 cmds in
    wallet_for s = expected_wallet (tr_order s)
    \<and> (\<forall>x. tr_order s = Some x \<longrightarrow> or_price x = pr_cash (pricing_of x) \<and> is_ok (fund (or_store x) (pricing_of x)))
    \<and> count_events BENEFITS_CONSUMED s = (if picked_up s then 1 else 0)
    \<and> count_events PAYMENT_CAPTURED s = (if picked_up s \<and> jo_protocol s \<noteq> 2 then 1 else 0)"
  using journey_runs.run_inv [OF new_state_inv [OF assms], of QH TH cmds]
  by (simp add: journey_inv_def order_ok_def fair_price_def split: option.splits)

text \<open>A command on a journey either succeeds or is refused with a conflict code. No
  command makes planning, pricing, funding or the wallet raise, and no plan is ever missing.\<close>

theorem commands_refuse_with_conflicts:
  assumes "valid_intent i" and "new_state pe uuid i w card_token fault = Inr s0"
    and "apply_action QH TH oid code c (run (journey_step QH TH) s0 cmds) = Inl e"
  shows "\<exists>k. e = Conflict k"
  using apply_action_conflict [OF journey_runs.run_inv [OF new_state_inv [OF assms(1,2)]] assms(3)]
  by (simp add: is_conflict_def)

text \<open>C18. Once the store began to make the drink, no command changes the order's number, store,
  price, benefits or pickup code, cancels it, or takes it back to an earlier stage.\<close>

theorem started_order_is_final:
  assumes "tr_order s = Some x" and "or_state x \<in> {PREPARING, order_state.READY, PICKED_UP}"
  shows "\<exists>y. tr_order (run (journey_step QH TH) s cmds) = Some y \<and> or_id y = or_id x \<and> or_store y = or_store x
    \<and> or_price y = or_price x \<and> pricing_of y = pricing_of x \<and> or_pickup_code y = or_pickup_code x
    \<and> or_state y \<noteq> CANCELLED \<and> stage (or_state x) \<le> stage (or_state y)"
proof -
  have "same_deal x x" using assms(2) by (auto simp: same_deal_def)
  then obtain y where "tr_order (run (journey_step QH TH) s cmds) = Some y" "same_deal x y"
    using started_orders.run_inv [of s x QH TH cmds] assms(1) by blast
  then show ?thesis by (auto simp: same_deal_def)
qed

section \<open>Witnesses\<close>

definition sample_journey_start :: journey where
  "sample_journey_start = the_ok (new_state False ''j'' sample_intent None ''demo-approved'' No_Payment_Fault)"

definition journey_cmd :: "action \<Rightarrow> string option \<Rightarrow> int \<Rightarrow> string option \<Rightarrow> journey_command" where
  "journey_cmd a q n k = \<lparr>jc_action = a, jc_version = 1, jc_request = ''r'', jc_quote = q, jc_store = None,
     jc_minutes = n, jc_code = k, jc_cash = None\<rparr>"

text \<open>The quote id of a sample row is its store.\<close>

definition sample_quotes :: quote_hash where
  "sample_quotes j v p = pl_store p"

definition sample_terms_id :: "terms \<Rightarrow> string" where
  "sample_terms_id t = te_target t"

definition sample_pickup :: "(journey_command \<times> string \<times> string) list" where
  "sample_pickup = [(journey_cmd A_reserve (Some ''wave'') 0 None, ''o'', ''123456''),
     (journey_cmd A_advance None 6 None, [], []), (journey_cmd A_start None 0 None, [], []),
     (journey_cmd A_advance None 4 None, [], []), (journey_cmd A_ready None 0 None, [], []),
     (journey_cmd A_claim None 0 (Some ''123456''), [], [])]"

lemma sample_start: "new_state False ''j'' sample_intent None ''demo-approved'' No_Payment_Fault = Inr sample_journey_start"
  by (simp add: sample_journey_start_def new_state_def Let_def)

lemma sample_intent_valid: "valid_intent sample_intent"
  by code_simp

definition sample_card_start :: journey where
  "sample_card_start = the_ok (new_state True ''j'' sample_intent None ''demo-approved'' No_Payment_Fault)"

lemma sample_card: "new_state True ''j'' sample_intent None ''demo-approved'' No_Payment_Fault = Inr sample_card_start"
  by (simp add: sample_card_start_def new_state_def Let_def)

theorem benefits_match_order_witness:
  "(let s = run (journey_step sample_quotes sample_terms_id) sample_journey_start sample_pickup in
      wallet_for s = expected_wallet (tr_order s) \<and> count_events BENEFITS_CONSUMED s = 1
      \<and> count_events PAYMENT_CAPTURED s = 1 \<and> picked_up s) \<and>
   (let s = run (journey_step sample_quotes sample_terms_id) sample_card_start (take 1 sample_pickup) in
      wallet_for s = expected_wallet (tr_order s) \<and> count_events PAYMENT_CAPTURED s = 0 \<and> jo_protocol s = 2)"
proof -
  let ?s = "run (journey_step sample_quotes sample_terms_id) sample_journey_start sample_pickup"
  let ?t = "run (journey_step sample_quotes sample_terms_id) sample_card_start (take 1 sample_pickup)"
  have s: "(picked_up ?s, jo_protocol ?s) = (True, 1)" and t: "jo_protocol ?t = 2" by code_simp+
  show ?thesis
    using benefits_match_order [OF sample_intent_valid sample_start, of sample_quotes sample_terms_id sample_pickup]
      benefits_match_order [OF sample_intent_valid sample_card, of sample_quotes sample_terms_id "take 1 sample_pickup"] s t
    by (simp add: Let_def)
qed

theorem started_order_is_final_witness:
  "\<exists>y. tr_order (run (journey_step sample_quotes sample_terms_id)
        (run (journey_step sample_quotes sample_terms_id) sample_journey_start (take 3 sample_pickup))
        [(journey_cmd A_cancel None 0 None, [], [])]) = Some y \<and> or_state y \<noteq> CANCELLED"
proof -
  let ?s = "run (journey_step sample_quotes sample_terms_id) sample_journey_start (take 3 sample_pickup)"
  have "map_option or_state (tr_order ?s) = Some PREPARING" by code_simp
  then obtain x where "tr_order ?s = Some x" "or_state x = PREPARING" by auto
  then show ?thesis using started_order_is_final [of ?s x] by blast
qed

end
