(* ===== verification/Durable_Operations.thy ===== *)
theory Durable_Operations
  imports Journey_Invariant
begin

text \<open>
  \<open>recovery_worker.py\<close> and \<open>durable_operations.py\<close>: an operation is a persisted intention
  that is carried out phase by phase against the merchants. One iteration of \<open>resume\<close>
  commits one phase. What the network does to a merchant call is an argument: the call may
  not arrive, its reply may get lost after the merchant committed, or the reply arrives. The
  host clock is an argument as well. Digests, uuids and random codes are arguments.
\<close>

section \<open>Operations\<close>

text \<open>The additional fields of an operation of protocol 2.\<close>

record pay_part =
  pp_phase_version :: nat
  pp_event_base :: nat
  pp_fault :: payment_fault
  pp_old_auth :: "authorization option"
  pp_new_auth :: "authorization option"
  pp_card :: string
  pp_manual_reviews :: nat

record operation =
  op_id :: string
  op_sid :: string
  op_action :: action
  op_phase :: op_phase
  op_status :: op_status
  op_decision :: op_decision
  op_failure :: "string option"
  op_history :: op_history
  op_source :: "string option"
  op_target :: string
  op_attempts :: nat
  op_fault :: transfer_fault
  op_fault_consumed :: bool
  op_candidate :: journey
  op_world :: string
  op_order :: string
  op_source_order :: "string option"
  op_before_generation :: int
  op_generation :: int
  op_guests :: "string list"
  op_guest_index :: nat
  op_recovery :: "schedule option"
  op_payment :: "pay_part option"

definition REPLACEMENTS :: "action list" where
  "REPLACEMENTS = [A_transfer, A_reserve_first_reorder]"

definition ACTIONS :: "action list" where
  "ACTIONS = [A_reserve, A_reorder, A_transfer, A_reserve_first_reorder, A_start, A_ready, A_claim, A_cancel]"

definition public_operation :: "operation \<Rightarrow> public_op" where
  "public_operation op =
    \<lparr>po_id = op_id op, po_action = op_action op, po_phase = op_phase op, po_status = op_status op,
     po_decision = op_decision op, po_failure = op_failure op, po_history = op_history op, po_source = op_source op,
     po_target = op_target op, po_attempts = op_attempts op, po_recovery = op_recovery op,
     po_phase_version = map_option pp_phase_version (op_payment op)\<rparr>"

section \<open>Bounded recovery\<close>

definition RETRY_BASE_SECONDS :: rat where "RETRY_BASE_SECONDS = 3"
definition RETRY_CAP_SECONDS :: rat where "RETRY_CAP_SECONDS = 30"
definition MAX_RETRY_FAILURES :: int where "MAX_RETRY_FAILURES = 8"
definition PREDECISION_SECONDS :: rat where "PREDECISION_SECONDS = 45"

definition initial_schedule :: "rat \<Rightarrow> schedule" where
  "initial_schedule now = \<lparr>sc_created_at = now, sc_next_retry_at = Some (now + RETRY_BASE_SECONDS),
     sc_deadline_at = now + PREDECISION_SECONDS, sc_retry_count = 0, sc_state = SCHEDULED, sc_last_attempt = None\<rparr>"

definition recovery_of :: "rat \<Rightarrow> operation \<Rightarrow> schedule" where
  "recovery_of now op = (case op_recovery op of None \<Rightarrow> initial_schedule now | Some r \<Rightarrow> r)"

definition retry_delay :: "int \<Rightarrow> rat" where
  "retry_delay n = min (RETRY_BASE_SECONDS * 2 ^ nat (min (n - 1) 6)) RETRY_CAP_SECONDS"

definition after_step :: "rat \<Rightarrow> bool \<Rightarrow> operation \<Rightarrow> operation" where
  "after_step now paused op =
    (let r = (recovery_of now op)\<lparr>sc_last_attempt := Some now\<rparr>
     in op\<lparr>op_recovery := Some
       (if op_status op \<noteq> PENDING then r\<lparr>sc_state := FINISHED, sc_next_retry_at := None\<rparr>
        else if paused then
          (let n = sc_retry_count r + 1
           in r\<lparr>sc_retry_count := n, sc_next_retry_at := Some (now + retry_delay n),
                sc_state := (if MAX_RETRY_FAILURES \<le> n then REVIEW_REQUIRED else SCHEDULED)\<rparr>)
        else r)\<rparr>)"

definition expire_undecided :: "rat \<Rightarrow> operation \<Rightarrow> operation" where
  "expire_undecided now op =
    (let r = recovery_of now op; op = op\<lparr>op_recovery := Some r\<rparr>
     in if op_action op \<notin> set REPLACEMENTS \<or> op_decision op \<noteq> UNDECIDED \<or> now < sc_deadline_at r then op
        else op\<lparr>op_decision := ABORT, op_failure := Some ''CONFIRMATION_EXPIRED'',
          op_history := op_history op @ [(op_phase op, ABORT_RECORDED)],
          op_phase := (if op_phase op \<in> {At_Merchant HOLD, DECIDE} then At_Merchant ABORT_TARGET else op_phase op)\<rparr>)"

section \<open>Merchant calls\<close>

datatype net = Reply | Unreached | Reply_Lost

fun phase_name :: "op_phase \<Rightarrow> string" where
  "phase_name (At_Merchant a) = action_name a"
| "phase_name DECIDE = ''DECIDE''"
| "phase_name FINALIZE = ''FINALIZE''"
| "phase_name GUEST_ADMIT = ''GUEST_ADMIT''"
| "phase_name GUEST_CANCEL = ''GUEST_CANCEL''"
| "phase_name PAY_AUTHORIZE = ''PAY_AUTHORIZE''"
| "phase_name PAY_AUTHORIZE_REPLACEMENT = ''PAY_AUTHORIZE_REPLACEMENT''"
| "phase_name PAY_CAPTURE = ''PAY_CAPTURE''"
| "phase_name PAY_VOID = ''PAY_VOID''"
| "phase_name VOID_NEW_AUTH = ''VOID_NEW_AUTH''"
| "phase_name VOID_OLD_AUTH = ''VOID_OLD_AUTH''"
| "phase_name PAY_CHECK = ''PAY_CHECK''"

definition source_action :: "op_phase \<Rightarrow> bool" where
  "source_action ph \<longleftrightarrow> ph \<in> {At_Merchant FREEZE, At_Merchant RELEASE_SOURCE, At_Merchant UNFREEZE}"

definition merchant_action_of :: "op_phase \<Rightarrow> merchant_action" where
  "merchant_action_of ph = (case ph of At_Merchant a \<Rightarrow> a | _ \<Rightarrow> OtherAction (phase_name ph))"

text \<open>\<open>_merchant\<close>: the shop, the operation id and the payload of the call of a phase.\<close>

definition merchant_request :: "operation \<Rightarrow> op_phase \<Rightarrow> string \<times> string \<times> merchant_payload" where
  "merchant_request op ph =
    (if ph \<in> {GUEST_ADMIT, GUEST_CANCEL} then
       (op_target op, op_id op @ '':'' @ phase_name ph @ '':'' @ str_of_nat (op_guest_index op),
        \<lparr>mp_world = op_world op, mp_order = (case drop (op_guest_index op) (op_guests op) of [] \<Rightarrow> [] | g # _ \<Rightarrow> g), mp_generation = 0,
         mp_action = (if ph = GUEST_ADMIT then ADMIT else CANCEL), mp_transfer = [], mp_reject = False\<rparr>)
     else
       (if source_action ph then (case op_source op of None \<Rightarrow> [] | Some shop \<Rightarrow> shop) else op_target op,
        op_id op @ '':'' @ phase_name ph,
        \<lparr>mp_world = op_world op,
         mp_order = (if source_action ph then (case op_source_order op of None \<Rightarrow> op_order op
           | Some x \<Rightarrow> if x = [] then op_order op else x) else op_order op),
         mp_generation = (if source_action ph then op_before_generation op else op_generation op),
         mp_action = merchant_action_of ph,
         mp_transfer = (if op_action op \<in> set REPLACEMENTS then op_id op else []),
         mp_reject = (ph = At_Merchant HOLD \<and> op_fault op = Target_Reject)\<rparr>))"

definition call_merchant ::
  "(json \<Rightarrow> string) \<Rightarrow> net \<Rightarrow> fleet \<Rightarrow> operation \<Rightarrow> op_phase \<Rightarrow> fleet_error + merchant_result option \<times> fleet" where
  "call_merchant H n fl op ph = (case merchant_request op ph of (shop, key, p) \<Rightarrow>
     (case n of Unreached \<Rightarrow> Inr (None, fl)
      | Reply \<Rightarrow> map_sum id (\<lambda>(r, fl'). (Some r, fl')) (fleet_execute H fl shop key p)
      | Reply_Lost \<Rightarrow> map_sum id (\<lambda>(r, fl'). (None, fl')) (fleet_execute H fl shop key p)))"

section \<open>One phase\<close>

fun code_name :: "merchant_code \<Rightarrow> string" where
  "code_name MERCHANT_REJECTED = ''MERCHANT_REJECTED''"
| "code_name STALE_GENERATION = ''STALE_GENERATION''"
| "code_name CAPACITY_FULL = ''CAPACITY_FULL''"
| "code_name MERCHANT_STATE_CONFLICT = ''MERCHANT_STATE_CONFLICT''"
| "code_name TRANSFER_FENCE = ''TRANSFER_FENCE''"
| "code_name COMMAND_CONFLICT = ''COMMAND_CONFLICT''"

definition failure_of :: "merchant_result \<Rightarrow> string option" where
  "failure_of r = (case r of Accepted _ \<Rightarrow> None | Failed c _ \<Rightarrow> Some (code_name c))"

definition lost_fault :: "op_phase \<Rightarrow> transfer_fault option" where
  "lost_fault ph = (if ph = At_Merchant HOLD then Some After_Target_Hold
     else if ph = At_Merchant RELEASE_SOURCE then Some After_Source_Release
     else if ph = At_Merchant ACTIVATE then Some After_Target_Activation else None)"

definition add_history :: "op_phase \<Rightarrow> step_result \<Rightarrow> operation \<Rightarrow> operation" where
  "add_history ph r op = op\<lparr>op_history := op_history op @ [(ph, r)]\<rparr>"

definition phase_after_ok :: "op_decision \<Rightarrow> op_phase \<Rightarrow> op_phase" where
  "phase_after_ok d ph =
    (if ph = At_Merchant FREEZE then At_Merchant (if d = ABORT then ABORT_TARGET else HOLD)
     else if ph = At_Merchant HOLD then DECIDE
     else if ph = At_Merchant RELEASE_SOURCE then At_Merchant ACTIVATE
     else if ph = At_Merchant ACTIVATE then FINALIZE
     else if ph = At_Merchant ABORT_TARGET then At_Merchant UNFREEZE
     else FINALIZE)"

definition is_control :: "action \<Rightarrow> bool" where
  "is_control a \<longleftrightarrow> a \<in> {A_control_occupy, A_control_clear}"

text \<open>What \<open>_step\<close> does with a reply: whether it pauses, and the operation.\<close>

definition on_reply :: "bool \<Rightarrow> operation \<Rightarrow> op_phase \<Rightarrow> merchant_result \<Rightarrow> bool \<times> operation" where
  "on_reply http op ph r =
    (if \<not> http \<and> result_ok r \<and> lost_fault ph = Some (op_fault op) \<and> \<not> op_fault_consumed op then
       (True, add_history ph REPLY_NOT_CONFIRMED (op\<lparr>op_fault_consumed := True\<rparr>))
     else if \<not> result_ok r \<and> is_control (op_action op) then
       (False, op\<lparr>op_status := REJECTED, op_failure := failure_of r\<rparr>)
     else if result_ok r \<and> ph \<in> {GUEST_ADMIT, GUEST_CANCEL} then
       (let op = add_history ph CONFIRMED (op\<lparr>op_guest_index := op_guest_index op + 1\<rparr>)
        in (False, if length (op_guests op) \<le> op_guest_index op then op\<lparr>op_phase := FINALIZE\<rparr> else op))
     else if \<not> result_ok r then
       (let op = op\<lparr>op_failure := failure_of r\<rparr>
        in if op_action op \<in> set REPLACEMENTS \<and> ph = At_Merchant HOLD \<and> op_decision op \<noteq> COMMIT
           then (False, op\<lparr>op_decision := ABORT, op_phase := At_Merchant ABORT_TARGET\<rparr>)
           else if op_action op \<notin> set REPLACEMENTS \<or> ph = At_Merchant FREEZE
           then (False, op\<lparr>op_status := REJECTED\<rparr>)
           else (True, op))
     else
       (let op = add_history ph CONFIRMED op
        in (False, if ph = At_Merchant UNFREEZE then op\<lparr>op_status := REJECTED\<rparr>
                   else op\<lparr>op_phase := phase_after_ok (op_decision op) ph\<rparr>)))"

definition step :: "(json \<Rightarrow> string) \<Rightarrow> bool \<Rightarrow> net \<Rightarrow> fleet \<Rightarrow> operation \<Rightarrow> fleet_error + bool \<times> operation \<times> fleet" where
  "step H http n fl op =
    (if op_phase op = FINALIZE then
       Inr (False, add_history FINALIZE CONFIRMED (op\<lparr>op_status := COMPLETED\<rparr>), fl)
     else if op_phase op = DECIDE then
       Inr (False, (add_history DECIDE COMMIT_RECORDED (op\<lparr>op_decision := COMMIT\<rparr>))\<lparr>op_phase := At_Merchant RELEASE_SOURCE\<rparr>, fl)
     else bind_ok (call_merchant H n fl op (op_phase op)) (\<lambda>(reply, fl').
       case reply of None \<Rightarrow> Inr (True, op, fl')
       | Some r \<Rightarrow> (case on_reply http op (op_phase op) r of (pause, op') \<Rightarrow> Inr (pause, op', fl'))))"

section \<open>The coordinator\<close>

record op_row =
  row_request :: string
  row_fingerprint :: string
  row_op :: operation

record coordinator =
  co_journeys :: "(string \<times> journey) list"
  co_commands :: "((string \<times> string) \<times> string) list"
  co_controls :: "((string \<times> string) \<times> string) list"
  co_operations :: "(string \<times> op_row) list"

definition load :: "coordinator \<Rightarrow> string \<Rightarrow> journey_error + journey" where
  "load co sid = (case map_of (co_journeys co) sid of None \<Rightarrow> Inl (Key_Error sid) | Some s \<Rightarrow> Inr s)"

definition save :: "journey \<Rightarrow> coordinator \<Rightarrow> coordinator" where
  "save s co = co\<lparr>co_journeys := dput (tr_id s) s (co_journeys co)\<rparr>"

definition load_op :: "coordinator \<Rightarrow> string \<Rightarrow> journey_error + operation" where
  "load_op co oid = (case map_of (co_operations co) oid of None \<Rightarrow> Inl (Key_Error oid) | Some r \<Rightarrow> Inr (row_op r))"

text \<open>An \<open>UPDATE\<close> of a row that is not there changes nothing.\<close>

definition save_op :: "operation \<Rightarrow> coordinator \<Rightarrow> coordinator" where
  "save_op op co = (case map_of (co_operations co) (op_id op) of None \<Rightarrow> co
     | Some r \<Rightarrow> co\<lparr>co_operations := dput (op_id op) (r\<lparr>row_op := op\<rparr>) (co_operations co)\<rparr>)"

definition find_operation :: "coordinator \<Rightarrow> string \<Rightarrow> string \<Rightarrow> (string \<times> op_row) option" where
  "find_operation co sid request_id =
    List.find (\<lambda>(oid, r). op_sid (row_op r) = sid \<and> row_request r = request_id) (co_operations co)"

text \<open>The journey after one phase: the candidate of a completed operation, or a new version.\<close>

definition journey_after :: "journey \<Rightarrow> operation \<Rightarrow> journey" where
  "journey_after s op =
    (let s' = (if op_status op = COMPLETED then (op_candidate op)\<lparr>tr_version := tr_version s + 1\<rparr>
               else s\<lparr>tr_version := tr_version s + 1\<rparr>);
         s' = (if op_status op \<noteq> PENDING then s'\<lparr>jo_active := None\<rparr> else s')
     in s'\<lparr>jo_handoff := Some (public_operation op)\<rparr>)"

text \<open>
  One iteration of the loop of \<open>resume\<close>. The result is the journey to show when the loop
  returns here, or \<open>None\<close> to go on.
\<close>

definition resume_tick ::
  "(json \<Rightarrow> string) \<Rightarrow> bool \<Rightarrow> bool \<Rightarrow> bool \<Rightarrow> rat \<Rightarrow> net \<Rightarrow> string \<Rightarrow> string \<Rightarrow> coordinator \<times> fleet
    \<Rightarrow> journey_error + journey option \<times> coordinator \<times> fleet" where
  "resume_tick H http automatic first tick n sid oid st = (case st of (co, fl) \<Rightarrow>
     bind_ok (load co sid) (\<lambda>s. bind_ok (load_op co oid) (\<lambda>op.
       ensure (op_sid op = sid) (Conflict ''UNKNOWN_OPERATION'')
        (if op_status op \<noteq> PENDING then Inr (Some s, co, fl)
         else ensure (jo_active s = Some oid) (Conflict ''OPERATION_FENCE'')
          (let op = (if op_recovery op = None
                     then op\<lparr>op_recovery := Some ((initial_schedule tick)\<lparr>sc_next_retry_at := Some tick\<rparr>)\<rparr> else op);
               r = recovery_of tick op
           in if first \<and> automatic \<and> (sc_state r = REVIEW_REQUIRED
                 \<or> (case sc_next_retry_at r of None \<Rightarrow> False | Some t \<Rightarrow> tick < t)) then Inr (Some s, co, fl)
              else
                let op = (if first \<and> \<not> automatic \<and> sc_state r = REVIEW_REQUIRED
                          then op\<lparr>op_recovery := Some (r\<lparr>sc_state := SCHEDULED, sc_retry_count := 0\<rparr>)\<rparr> else op);
                    op = expire_undecided tick op;
                    op = op\<lparr>op_attempts := op_attempts op + 1\<rparr>
                in (case step H http n fl op of
                      Inl e \<Rightarrow> Inl Unknown_Shop
                    | Inr (pause, op, fl) \<Rightarrow>
                        let op = after_step tick pause op; s = journey_after s op
                        in Inr (if pause \<or> op_status op \<noteq> PENDING then Some s else None,
                                save s (save_op op co), fl)))))))"

fun resume_loop ::
  "(json \<Rightarrow> string) \<Rightarrow> bool \<Rightarrow> bool \<Rightarrow> bool \<Rightarrow> (rat \<times> net) list \<Rightarrow> string \<Rightarrow> string \<Rightarrow> coordinator \<times> fleet
    \<Rightarrow> (journey_error + journey) \<times> coordinator \<times> fleet" where
  "resume_loop H http automatic first [] sid oid st = (load (fst st) sid, st)"
| "resume_loop H http automatic first ((tick, n) # env) sid oid st =
    (case resume_tick H http automatic first tick n sid oid st of
       Inl e \<Rightarrow> (Inl e, st)
     | Inr (Some s, st') \<Rightarrow> (Inr s, st')
     | Inr (None, st') \<Rightarrow> resume_loop H http automatic False env sid oid st')"

text \<open>
  \<open>range(12)\<close>: one call carries out at most twelve phases; \<open>env\<close> gives the clock and the
  fate of the merchant call of each.
\<close>

type_synonym environment = "nat \<Rightarrow> rat \<times> net"

definition resume ::
  "(json \<Rightarrow> string) \<Rightarrow> bool \<Rightarrow> bool \<Rightarrow> environment \<Rightarrow> string \<Rightarrow> string \<Rightarrow> coordinator \<times> fleet
    \<Rightarrow> (journey_error + journey) \<times> coordinator \<times> fleet" where
  "resume H http automatic env sid oid st = (case load_op (fst st) oid of Inl e \<Rightarrow> (Inl e, st)
     | Inr _ \<Rightarrow> resume_loop H http automatic True (map env [0..<12]) sid oid st)"

section \<open>Commands\<close>

text \<open>What the transaction of \<open>command\<close> decides to do after its commit.\<close>

datatype command_result = Fall_Through | Show journey bool | Resume_Op string bool

definition opening_phase :: "action \<Rightarrow> op_phase" where
  "opening_phase a =
    (if a \<in> set REPLACEMENTS then At_Merchant FREEZE
     else (case a of A_reserve \<Rightarrow> At_Merchant ADMIT | A_reorder \<Rightarrow> At_Merchant ADMIT | A_start \<Rightarrow> At_Merchant START
       | A_ready \<Rightarrow> At_Merchant merchant_action.READY | A_claim \<Rightarrow> At_Merchant CLAIM | _ \<Rightarrow> At_Merchant CANCEL))"

definition order_generation :: "order option \<Rightarrow> int" where
  "order_generation ord = (case ord of None \<Rightarrow> 0 | Some x \<Rightarrow> (case or_generation x of None \<Rightarrow> 0 | Some g \<Rightarrow> g))"

definition planned_generation :: "journey \<Rightarrow> action \<Rightarrow> int" where
  "planned_generation s a =
    (if a = A_transfer then max (order_generation (tr_order s)) (jo_generation_counter s) + 1
     else if a \<in> {A_reserve, A_reorder, A_reserve_first_reorder} then 0
     else order_generation (tr_order s))"

definition new_operation ::
  "string \<Rightarrow> rat \<Rightarrow> action \<Rightarrow> journey \<Rightarrow> journey \<Rightarrow> order \<Rightarrow> string \<Rightarrow> operation" where
  "new_operation oid now a s candidate after sid =
    \<lparr>op_id = oid, op_sid = sid, op_action = a, op_phase = opening_phase a, op_status = PENDING, op_decision = UNDECIDED,
     op_failure = None, op_history = [], op_source = map_option or_store (tr_order s), op_target = or_store after,
     op_attempts = 0, op_fault = (if a = A_transfer then jo_next_fault s else No_Fault), op_fault_consumed = False,
     op_candidate = candidate, op_world = (case jo_world s of None \<Rightarrow> [] | Some w \<Rightarrow> w), op_order = or_id after,
     op_source_order = map_option or_id (tr_order s), op_before_generation = order_generation (tr_order s),
     op_generation = planned_generation s a, op_guests = [], op_guest_index = 0,
     op_recovery = Some (initial_schedule now), op_payment = None\<rparr>"

text \<open>The journey and the candidate of a transfer share the new generation and reset the fault.\<close>

definition mark_transfer :: "action \<Rightarrow> int \<Rightarrow> journey \<Rightarrow> journey" where
  "mark_transfer a g s = (if a = A_transfer then s\<lparr>jo_generation_counter := g, jo_next_fault := No_Fault\<rparr> else s)"

definition command_tx ::
  "(journey_command \<Rightarrow> string) \<Rightarrow> quote_hash \<Rightarrow> (terms \<Rightarrow> string) \<Rightarrow> string \<times> string \<times> string \<Rightarrow> rat \<Rightarrow> string \<Rightarrow> journey_command
    \<Rightarrow> coordinator \<Rightarrow> journey_error + command_result \<times> coordinator" where
  "command_tx CH QH TH ids now sid c co = (case ids of (oid, order_id, code) \<Rightarrow>
     bind_ok (load co sid) (\<lambda>s.
       if jo_world s = None then Inr (Fall_Through, co)
       else (case find_operation co sid (jc_request c) of
         Some (prev, row) \<Rightarrow> ensure (row_fingerprint row = CH c) (Conflict ''IDEMPOTENCY_CONFLICT'') (Inr (Resume_Op prev True, co))
       | None \<Rightarrow> (case map_of (co_commands co) (sid, jc_request c) of
           Some fp \<Rightarrow> ensure (fp = CH c) (Conflict ''IDEMPOTENCY_CONFLICT'') (Inr (Show s True, co))
         | None \<Rightarrow>
             ensure (tr_version s = jc_version c) (Conflict ''STALE_VERSION'')
              (if jc_action c = A_recover
               then Inr (case jo_active s of None \<Rightarrow> Show s False | Some active \<Rightarrow> Resume_Op active False, co)
               else ensure (jo_active s = None) (Conflict ''TRANSFER_PENDING'')
                (if jc_action c \<notin> set ACTIONS then Inr (Fall_Through, co)
                 else bind_ok (apply_action QH TH order_id code c s) (\<lambda>cand.
                   case tr_order cand of None \<Rightarrow> Inl (Key_Error ''order'')
                   | Some after \<Rightarrow>
                       let a = jc_action c; g = planned_generation s a;
                           cand = mark_transfer a g (cand\<lparr>tr_order := Some (after\<lparr>or_generation := Some g\<rparr>)\<rparr>);
                           op = new_operation oid now a s cand after sid;
                           s' = (mark_transfer a g s)\<lparr>jo_active := Some oid, jo_handoff := Some (public_operation op),
                                  tr_version := tr_version s + 1\<rparr>;
                           row = \<lparr>row_request = jc_request c, row_fingerprint = CH c, row_op = op\<rparr>
                       in Inr (Resume_Op oid False,
                               save s' (co\<lparr>co_operations := co_operations co @ [(oid, row)]\<rparr>)))))))))"

definition durable_command ::
  "(json \<Rightarrow> string) \<Rightarrow> bool \<Rightarrow> (journey_command \<Rightarrow> string) \<Rightarrow> quote_hash \<Rightarrow> (terms \<Rightarrow> string) \<Rightarrow> string \<times> string \<times> string \<Rightarrow> rat
    \<Rightarrow> environment \<Rightarrow> string \<Rightarrow> journey_command \<Rightarrow> coordinator \<times> fleet
    \<Rightarrow> (journey_error + journey option) \<times> coordinator \<times> fleet" where
  "durable_command H http CH QH TH ids now env sid c st = (case st of (co, fl) \<Rightarrow>
     (case command_tx CH QH TH ids now sid c co of
        Inl e \<Rightarrow> (Inl e, st)
      | Inr (Fall_Through, co') \<Rightarrow> (Inr None, co', fl)
      | Inr (Show s _, co') \<Rightarrow> (Inr (Some s), co', fl)
      | Inr (Resume_Op oid _, co') \<Rightarrow>
          (case resume H http False env sid oid (co', fl) of (r, st') \<Rightarrow> (map_sum id Some r, st'))))"

section \<open>Guest controls\<close>

datatype control_action = C_fault | C_occupy | C_clear | C_other string

record control_command =
  cc_action :: control_action
  cc_version :: int
  cc_request :: string
  cc_store :: "string option"
  cc_fault :: "transfer_fault option"

definition guest_count :: "(string \<times> string list) list \<Rightarrow> nat" where
  "guest_count guests = sum_list (map (length \<circ> snd) guests)"

definition control_operation ::
  "string \<Rightarrow> rat \<Rightarrow> string \<Rightarrow> journey \<Rightarrow> control_command \<Rightarrow> string \<Rightarrow> string list \<Rightarrow> journey \<Rightarrow> operation" where
  "control_operation oid now sid s c shop targets candidate =
    \<lparr>op_id = oid, op_sid = sid,
     op_action = (if cc_action c = C_occupy then A_control_occupy else A_control_clear),
     op_phase = (if cc_action c = C_occupy then GUEST_ADMIT else if targets \<noteq> [] then GUEST_CANCEL else FINALIZE),
     op_status = PENDING, op_decision = UNDECIDED, op_failure = None, op_history = [], op_source = None, op_target = shop,
     op_attempts = 0, op_fault = No_Fault, op_fault_consumed = False, op_candidate = candidate,
     op_world = (case jo_world s of None \<Rightarrow> [] | Some w \<Rightarrow> w),
     op_order = (case targets of [] \<Rightarrow> ''EMPTY'' | t # _ \<Rightarrow> t), op_source_order = None, op_before_generation = 0,
     op_generation = 0, op_guests = targets, op_guest_index = 0, op_recovery = Some (initial_schedule now), op_payment = None\<rparr>"

definition control_tx ::
  "(control_command \<Rightarrow> string) \<Rightarrow> (string \<Rightarrow> string \<Rightarrow> string) \<Rightarrow> string \<Rightarrow> rat \<Rightarrow> string \<Rightarrow> control_command
    \<Rightarrow> coordinator \<Rightarrow> journey_error + command_result \<times> coordinator" where
  "control_tx CH GH oid now sid c co =
    bind_ok (load co sid) (\<lambda>s.
      ensure (jo_world s \<noteq> None) (Conflict ''LEGACY_JOURNEY'')
       (case find_operation co sid (''control:'' @ cc_request c) of
          Some (prev, row) \<Rightarrow> ensure (row_fingerprint row = CH c) (Conflict ''IDEMPOTENCY_CONFLICT'') (Inr (Resume_Op prev True, co))
        | None \<Rightarrow> (case map_of (co_controls co) (sid, cc_request c) of
            Some fp \<Rightarrow> ensure (fp = CH c) (Conflict ''IDEMPOTENCY_CONFLICT'') (Inr (Show s True, co))
          | None \<Rightarrow>
              ensure (tr_version s = cc_version c) (Conflict ''STALE_VERSION'')
               (ensure (jo_active s = None) (Conflict ''TRANSFER_PENDING'')
                 (case cc_store c of None \<Rightarrow> Inl (Conflict ''UNKNOWN_STORE'')
                  | Some shop \<Rightarrow>
                      ensure (map_of CAPACITY shop \<noteq> None) (Conflict ''UNKNOWN_STORE'')
                       (ensure (case tr_order s of None \<Rightarrow> True | Some x \<Rightarrow> shop \<noteq> or_store x) (Conflict ''SAME_STORE'')
                         (ensure (cc_action c = C_occupy \<longrightarrow> guest_count (jo_guests s) < 4) (Conflict ''GUEST_LIMIT'')
                           (let old = dget [] (jo_guests s) shop;
                                targets = (if cc_action c = C_occupy then [''GUEST-'' @ GH sid (cc_request c)] else old);
                                guests = dput shop (if cc_action c = C_occupy then old @ targets else []) (jo_guests s);
                                op = control_operation oid now sid s c shop targets (s\<lparr>jo_guests := guests\<rparr>);
                                s' = s\<lparr>jo_active := Some oid, jo_handoff := Some (public_operation op), tr_version := tr_version s + 1\<rparr>;
                                row = \<lparr>row_request = ''control:'' @ cc_request c, row_fingerprint = CH c, row_op = op\<rparr>
                            in Inr (Resume_Op oid False,
                                 save s' (co\<lparr>co_operations := co_operations co @ [(oid, row)],
                                   co_controls := dput (sid, cc_request c) (CH c) (co_controls co)\<rparr>))))))))))"

definition durable_control ::
  "(json \<Rightarrow> string) \<Rightarrow> bool \<Rightarrow> (control_command \<Rightarrow> string) \<Rightarrow> (string \<Rightarrow> string \<Rightarrow> string) \<Rightarrow> string \<Rightarrow> rat
    \<Rightarrow> environment \<Rightarrow> string \<Rightarrow> control_command \<Rightarrow> coordinator \<times> fleet
    \<Rightarrow> (journey_error + journey) \<times> coordinator \<times> fleet" where
  "durable_control H http CH GH oid now env sid c st = (case st of (co, fl) \<Rightarrow>
     (case control_tx CH GH oid now sid c co of
        Inl e \<Rightarrow> (Inl e, st)
      | Inr (Resume_Op op True, co') \<Rightarrow> resume H http False env sid op (co', fl)
      | Inr (Resume_Op op False, co') \<Rightarrow>
          (case resume H http False env sid op (co', fl) of
             (Inr s, st') \<Rightarrow> (case jo_handoff s of
                Some h \<Rightarrow> if po_status h = REJECTED
                  then (Inl (Conflict (case po_failure h of None \<Rightarrow> [] | Some f \<Rightarrow> f)), st') else (Inr s, st')
              | None \<Rightarrow> (Inr s, st'))
           | (Inl e, st') \<Rightarrow> (Inl e, st'))
      | Inr (Show s _, co') \<Rightarrow> (Inr s, co', fl)
      | Inr (Fall_Through, co') \<Rightarrow> (load co' sid, co', fl)))"

section \<open>The recovery worker\<close>

definition due_key :: "operation \<Rightarrow> rat" where
  "due_key op = (case op_recovery op of None \<Rightarrow> 0 | Some r \<Rightarrow> (case sc_next_retry_at r of None \<Rightarrow> 0 | Some t \<Rightarrow> t))"

definition is_due :: "rat \<Rightarrow> operation \<Rightarrow> bool" where
  "is_due now op \<longleftrightarrow> op_status op = PENDING
     \<and> (case op_recovery op of None \<Rightarrow> True | Some r \<Rightarrow> sc_state r \<noteq> REVIEW_REQUIRED) \<and> due_key op \<le> now"

definition due_operations :: "rat \<Rightarrow> nat \<Rightarrow> coordinator \<Rightarrow> operation list" where
  "due_operations now limit co =
    take limit (sort_key (\<lambda>op. (due_key op, op_id op)) (filter (is_due now) (map (row_op \<circ> snd) (co_operations co))))"

record worker_report =
  wr_attempted :: nat
  wr_completed :: nat
  wr_pending :: nat
  wr_errors :: nat

text \<open>
  A failing iteration is counted and does not stop the others. \<open>rs\<close> resumes one operation
  (with protocol 1 it is \<open>resume\<close>, automatic, at the time of the worker).
\<close>

fun run_rows ::
  "(operation \<Rightarrow> 'st \<Rightarrow> (journey_error + journey) \<times> 'st) \<Rightarrow> operation list \<Rightarrow> worker_report \<Rightarrow> 'st \<Rightarrow> worker_report \<times> 'st" where
  "run_rows rs [] w st = (w, st)"
| "run_rows rs (op # ops) w st =
    (case rs op st of
       (Inl e, st') \<Rightarrow> run_rows rs ops (w\<lparr>wr_errors := wr_errors w + 1\<rparr>) st'
     | (Inr s, st') \<Rightarrow> run_rows rs ops
         (let w = w\<lparr>wr_attempted := wr_attempted w + 1\<rparr>
          in if jo_active s \<noteq> None then w\<lparr>wr_pending := wr_pending w + 1\<rparr> else w\<lparr>wr_completed := wr_completed w + 1\<rparr>) st')"

definition run_once ::
  "(operation \<Rightarrow> 'st \<Rightarrow> (journey_error + journey) \<times> 'st) \<Rightarrow> rat \<Rightarrow> nat \<Rightarrow> coordinator \<Rightarrow> 'st \<Rightarrow> (worker_report \<times> 'st) option" where
  "run_once rs now limit co st =
    (if \<not> (1 \<le> limit \<and> limit \<le> 64) then None
     else Some (run_rows rs (due_operations now limit co)
       \<lparr>wr_attempted = 0, wr_completed = 0, wr_pending = 0, wr_errors = 0\<rparr> st))"

section \<open>Reading back what was saved\<close>

lemma load_op_save [simp]: "load_op (save s co) oid = load_op co oid"
  by (simp add: load_op_def save_def)

lemma load_op_save_op: "load_op co (op_id op) = Inr op0 \<Longrightarrow> load_op (save_op op co) oid = (if oid = op_id op then Inr op else load_op co oid)"
  by (auto simp: load_op_def save_op_def split: option.splits)

lemma load_op_saved: "load_op co oid = Inr op0 \<Longrightarrow> op_id op = oid \<Longrightarrow> load_op (save_op op co) oid = Inr op"
  using load_op_save_op by metis

end
