(* ===== verification/Handoff.thy ===== *)
theory Handoff
  imports Durable_Operations
begin

text \<open>
  The handoff of an order between two merchants, as a step relation over the operation and
  the merchant databases. A step is one phase of the coordinator with any fate of its
  merchant call, any expiry and any recovery bookkeeping, or a command of somebody else. The
  invariant says phase by phase what the two shops hold; the theorems read it off.
\<close>

section \<open>Steps\<close>

definition request_shop :: "operation \<Rightarrow> op_phase \<Rightarrow> string" where
  "request_shop op ph = fst (merchant_request op ph)"

definition request_key :: "operation \<Rightarrow> op_phase \<Rightarrow> string" where
  "request_key op ph = fst (snd (merchant_request op ph))"

definition request_payload :: "operation \<Rightarrow> op_phase \<Rightarrow> merchant_payload" where
  "request_payload op ph = snd (snd (merchant_request op ph))"

definition expired :: "operation \<Rightarrow> operation" where
  "expired op = op\<lparr>op_decision := ABORT, op_failure := Some ''CONFIRMATION_EXPIRED'',
     op_history := op_history op @ [(op_phase op, ABORT_RECORDED)],
     op_phase := (if op_phase op \<in> {At_Merchant HOLD, DECIDE} then At_Merchant ABORT_TARGET else op_phase op)\<rparr>"

text \<open>A command of another order under another operation id, or a policy change.\<close>

definition foreign :: "operation \<Rightarrow> fleet_command \<Rightarrow> bool" where
  "foreign op c = (case c of SetAccepting _ _ _ \<Rightarrow> True
     | Execute shop key p \<Rightarrow> mp_world p \<noteq> op_world op \<or>
         (mp_order p \<noteq> op_order op \<and> Some (mp_order p) \<noteq> op_source_order op \<and> (\<forall>ph. key \<noteq> request_key op ph)))"

inductive handoff :: "(json \<Rightarrow> string) \<Rightarrow> bool \<Rightarrow> operation \<times> fleet \<Rightarrow> operation \<times> fleet \<Rightarrow> bool" for H http where
  own: "op_status op = PENDING \<Longrightarrow> op1 = op \<or> op_decision op = UNDECIDED \<and> op1 = expired op \<Longrightarrow>
    step H http n fl (op1\<lparr>op_recovery := r, op_attempts := k\<rparr>) = Inr (pause, op2, fl') \<Longrightarrow>
    handoff H http (op, fl) (op2\<lparr>op_recovery := r'\<rparr>, fl')"
| other: "foreign op c \<Longrightarrow> fleet_step H fl c = Inr fl' \<Longrightarrow> handoff H http (op, fl) (op, fl')"

inductive_cases handoffE: "handoff H http (op, fl) (op', fl')"

section \<open>What the shops hold\<close>

definition receipt_of :: "operation \<Rightarrow> fleet \<Rightarrow> op_phase \<Rightarrow> (string \<times> merchant_result) option" where
  "receipt_of op fl ph = find_receipt (fl (request_shop op ph)) (op_world op, request_key op ph)"

definition print_of :: "(json \<Rightarrow> string) \<Rightarrow> operation \<Rightarrow> op_phase \<Rightarrow> string" where
  "print_of H op ph = H (dumps_tree (payload_json (request_payload op ph)))"

definition unsent :: "operation \<Rightarrow> fleet \<Rightarrow> merchant_action list \<Rightarrow> bool" where
  "unsent op fl as \<longleftrightarrow> (\<forall>a \<in> set as. receipt_of op fl (At_Merchant a) = None)"

definition granted :: "(json \<Rightarrow> string) \<Rightarrow> operation \<Rightarrow> fleet \<Rightarrow> merchant_action \<Rightarrow> bool" where
  "granted H op fl a \<longleftrightarrow> (\<exists>s. receipt_of op fl (At_Merchant a) = Some (print_of H op (At_Merchant a), Accepted s))"

definition denied :: "(json \<Rightarrow> string) \<Rightarrow> operation \<Rightarrow> fleet \<Rightarrow> merchant_action \<Rightarrow> bool" where
  "denied H op fl a \<longleftrightarrow> (\<exists>c p. receipt_of op fl (At_Merchant a) = Some (print_of H op (At_Merchant a), Failed c p))"

definition source_shop :: "operation \<Rightarrow> string" where
  "source_shop op = request_shop op (At_Merchant FREEZE)"

definition source_order_of :: "operation \<Rightarrow> string" where
  "source_order_of op = mp_order (request_payload op (At_Merchant FREEZE))"

definition source_seat :: "operation \<Rightarrow> fleet \<Rightarrow> seat option" where
  "source_seat op fl = row_of (fl (source_shop op)) (op_world op) (source_order_of op)"

definition target_seat :: "operation \<Rightarrow> fleet \<Rightarrow> seat option" where
  "target_seat op fl = row_of (fl (op_target op)) (op_world op) (op_order op)"

definition source_is :: "operation \<Rightarrow> fleet \<Rightarrow> seat_phase \<Rightarrow> bool" where
  "source_is op fl ph \<longleftrightarrow> (\<exists>s. source_seat op fl = Some s \<and> seat_phase s = ph \<and> seat_generation s = op_before_generation op
     \<and> (ph = Frozen \<longrightarrow> seat_transfer s = op_id op))"

definition target_is :: "operation \<Rightarrow> fleet \<Rightarrow> seat_phase \<Rightarrow> bool" where
  "target_is op fl ph \<longleftrightarrow> (\<exists>s. target_seat op fl = Some s \<and> seat_phase s = ph \<and> seat_generation s = op_generation op
     \<and> (ph = Held \<longrightarrow> seat_transfer s = op_id op))"

definition target_free :: "operation \<Rightarrow> fleet \<Rightarrow> bool" where
  "target_free op fl \<longleftrightarrow> (\<forall>s. target_seat op fl = Some s \<longrightarrow> seat_generation s < op_generation op \<and> terminal s)"

text \<open>An operation that replaces an order of one known shop by one of another.\<close>

definition replacement :: "operation \<Rightarrow> bool" where
  "replacement op \<longleftrightarrow> op_action op \<in> set REPLACEMENTS \<and> source_shop op \<noteq> op_target op
     \<and> map_of CAPACITY (source_shop op) \<noteq> None \<and> map_of CAPACITY (op_target op) \<noteq> None"

fun phase_inv :: "(json \<Rightarrow> string) \<Rightarrow> operation \<Rightarrow> fleet \<Rightarrow> op_phase \<Rightarrow> bool" where
  "phase_inv H op fl (At_Merchant FREEZE) \<longleftrightarrow> op_decision op \<noteq> COMMIT \<and> target_free op fl
     \<and> unsent op fl [HOLD, ACTIVATE, ABORT_TARGET, RELEASE_SOURCE, UNFREEZE]
     \<and> (unsent op fl [FREEZE] \<or> granted H op fl FREEZE \<and> source_is op fl Frozen \<or> denied H op fl FREEZE)"
| "phase_inv H op fl (At_Merchant HOLD) \<longleftrightarrow> op_decision op = UNDECIDED \<and> source_is op fl Frozen
     \<and> unsent op fl [ACTIVATE, ABORT_TARGET, RELEASE_SOURCE, UNFREEZE]
     \<and> (unsent op fl [HOLD] \<and> target_free op fl \<or> granted H op fl HOLD \<and> target_is op fl Held
        \<or> denied H op fl HOLD \<and> target_free op fl)"
| "phase_inv H op fl DECIDE \<longleftrightarrow> op_decision op = UNDECIDED \<and> source_is op fl Frozen \<and> target_is op fl Held
     \<and> unsent op fl [ACTIVATE, ABORT_TARGET, RELEASE_SOURCE, UNFREEZE]"
| "phase_inv H op fl (At_Merchant RELEASE_SOURCE) \<longleftrightarrow> op_decision op = COMMIT \<and> target_is op fl Held
     \<and> unsent op fl [ACTIVATE, ABORT_TARGET, UNFREEZE]
     \<and> (unsent op fl [RELEASE_SOURCE] \<and> source_is op fl Frozen \<or> granted H op fl RELEASE_SOURCE \<and> source_is op fl Released)"
| "phase_inv H op fl (At_Merchant ACTIVATE) \<longleftrightarrow> op_decision op = COMMIT \<and> source_is op fl Released
     \<and> unsent op fl [ABORT_TARGET, UNFREEZE]
     \<and> (unsent op fl [ACTIVATE] \<and> target_is op fl Held \<or> granted H op fl ACTIVATE \<and> target_is op fl Reserved)"
| "phase_inv H op fl FINALIZE \<longleftrightarrow> op_decision op = COMMIT \<and> source_is op fl Released \<and> target_is op fl Reserved"
| "phase_inv H op fl (At_Merchant ABORT_TARGET) \<longleftrightarrow> op_decision op = ABORT \<and> source_is op fl Frozen
     \<and> unsent op fl [ACTIVATE, RELEASE_SOURCE, UNFREEZE]
     \<and> (unsent op fl [ABORT_TARGET] \<and> (target_free op fl \<or> target_is op fl Held)
        \<or> granted H op fl ABORT_TARGET \<and> target_is op fl Aborted)"
| "phase_inv H op fl (At_Merchant UNFREEZE) \<longleftrightarrow> op_decision op = ABORT \<and> target_is op fl Aborted
     \<and> unsent op fl [ACTIVATE, RELEASE_SOURCE]
     \<and> (unsent op fl [UNFREEZE] \<and> source_is op fl Frozen \<or> granted H op fl UNFREEZE \<and> source_is op fl Reserved)"
| "phase_inv H op fl _ \<longleftrightarrow> False"

definition rejected_inv :: "(json \<Rightarrow> string) \<Rightarrow> operation \<Rightarrow> fleet \<Rightarrow> bool" where
  "rejected_inv H op fl \<longleftrightarrow> op_decision op \<noteq> COMMIT
     \<and> (denied H op fl FREEZE \<and> target_free op fl \<or> source_is op fl Reserved \<and> target_is op fl Aborted)"

definition handoff_inv :: "(json \<Rightarrow> string) \<Rightarrow> operation \<Rightarrow> fleet \<Rightarrow> bool" where
  "handoff_inv H op fl \<longleftrightarrow> fleet_inv fl \<and> replacement op \<and> (case op_status op of
     PENDING \<Rightarrow> phase_inv H op fl (op_phase op)
   | COMPLETED \<Rightarrow> phase_inv H op fl FINALIZE
   | REJECTED \<Rightarrow> rejected_inv H op fl)"

section \<open>The fixed part of an operation\<close>

text \<open>Steps keep what the merchant calls are made of.\<close>

definition same_plan :: "operation \<Rightarrow> operation \<Rightarrow> bool" where
  "same_plan op op' \<longleftrightarrow> op_id op' = op_id op \<and> op_action op' = op_action op \<and> op_source op' = op_source op \<and> op_target op' = op_target op
     \<and> op_world op' = op_world op \<and> op_order op' = op_order op \<and> op_source_order op' = op_source_order op
     \<and> op_before_generation op' = op_before_generation op \<and> op_generation op' = op_generation op
     \<and> op_fault op' = op_fault op \<and> op_guests op' = op_guests op"

lemma same_plan_refl [simp]: "same_plan op op"
  by (simp add: same_plan_def)

lemma same_plan_trans: "same_plan a b \<Longrightarrow> same_plan b c \<Longrightarrow> same_plan a c"
  by (simp add: same_plan_def)

lemma same_plan_request:
  "same_plan op op' \<Longrightarrow> merchant_request op' (At_Merchant a) = merchant_request op (At_Merchant a)"
  by (simp add: same_plan_def merchant_request_def split: option.split)

lemma same_plan_simps:
  assumes "same_plan op op'"
  shows "request_shop op' (At_Merchant a) = request_shop op (At_Merchant a)"
    "request_key op' (At_Merchant a) = request_key op (At_Merchant a)"
    "request_payload op' (At_Merchant a) = request_payload op (At_Merchant a)"
    "receipt_of op' fl (At_Merchant a) = receipt_of op fl (At_Merchant a)"
    "print_of H op' (At_Merchant a) = print_of H op (At_Merchant a)"
    "source_shop op' = source_shop op" "source_seat op' fl = source_seat op fl" "target_seat op' fl = target_seat op fl"
  using assms same_plan_request [OF assms]
  by (simp_all add: request_shop_def request_key_def request_payload_def receipt_of_def print_of_def source_shop_def
      source_order_of_def source_seat_def target_seat_def same_plan_def)

lemma same_plan_preds:
  assumes "same_plan op op'"
  shows "unsent op' fl as = unsent op fl as" "granted H op' fl a = granted H op fl a" "denied H op' fl a = denied H op fl a"
    "source_is op' fl ph = source_is op fl ph" "target_is op' fl ph = target_is op fl ph" "target_free op' fl = target_free op fl"
    "replacement op' = replacement op"
  using assms same_plan_simps [OF assms]
  by (simp_all add: unsent_def granted_def denied_def source_is_def target_is_def target_free_def replacement_def same_plan_def)

lemma same_plan_phase_inv:
  "same_plan op op' \<Longrightarrow> op_decision op' = op_decision op \<Longrightarrow> phase_inv H op' fl ph = phase_inv H op fl ph"
  by (cases "(H, op, fl, ph)" rule: phase_inv.cases) (simp_all add: same_plan_preds)

section \<open>The effect of one merchant call\<close>

definition saga_actions :: "merchant_action list" where
  "saga_actions = [FREEZE, HOLD, ACTIVATE, ABORT_TARGET, RELEASE_SOURCE, UNFREEZE]"

definition at_source :: "merchant_action \<Rightarrow> bool" where
  "at_source a \<longleftrightarrow> a \<in> {FREEZE, RELEASE_SOURCE, UNFREEZE}"

lemma action_name_inj: "a \<in> set saga_actions \<Longrightarrow> b \<in> set saga_actions \<Longrightarrow> action_name a = action_name b \<longleftrightarrow> a = b"
  by (auto simp: saga_actions_def)

lemma request_simps:
  "request_shop op (At_Merchant a) = (if at_source a then source_shop op else op_target op)"
  "request_key op (At_Merchant a) = op_id op @ '':'' @ action_name a"
  "mp_world (request_payload op (At_Merchant a)) = op_world op"
  "mp_order (request_payload op (At_Merchant a)) = (if at_source a then source_order_of op else op_order op)"
  "mp_generation (request_payload op (At_Merchant a)) = (if at_source a then op_before_generation op else op_generation op)"
  "mp_action (request_payload op (At_Merchant a)) = a"
  by (simp_all add: request_shop_def request_key_def request_payload_def merchant_request_def source_shop_def source_order_of_def
      source_action_def at_source_def merchant_action_of_def split: option.split)

lemma request_transfer:
  "op_action op \<in> set REPLACEMENTS \<Longrightarrow> mp_transfer (request_payload op (At_Merchant a)) = op_id op"
  by (simp add: request_payload_def merchant_request_def)

definition seat_at :: "operation \<Rightarrow> fleet \<Rightarrow> merchant_action \<Rightarrow> seat option" where
  "seat_at op fl a = (if at_source a then source_seat op fl else target_seat op fl)"

text \<open>A call that is on record changes nothing; a new one is decided, recorded and applied.\<close>

lemma call_effect:
  assumes inv: "fleet_inv fl" and rep: "replacement op" and a: "a \<in> set saga_actions"
    and e: "fleet_execute H fl (request_shop op (At_Merchant a)) (request_key op (At_Merchant a)) (request_payload op (At_Merchant a)) = Inr (r, fl')"
  obtains (replay) f r0 where "receipt_of op fl (At_Merchant a) = Some (f, r0)" "fl' = fl" "f = print_of H op (At_Merchant a) \<Longrightarrow> r = r0"
  | (fresh) acc u cap where "receipt_of op fl (At_Merchant a) = None"
      "receipt_of op fl' (At_Merchant a) = Some (print_of H op (At_Merchant a), r)"
      "\<forall>b \<in> set saga_actions. b \<noteq> a \<longrightarrow> receipt_of op fl' (At_Merchant b) = receipt_of op fl (At_Merchant b)"
      "r = merchant_transition (seat_at op fl a) (request_payload op (At_Merchant a)) acc u cap"
      "\<forall>b. at_source b = at_source a \<longrightarrow> seat_at op fl' b = (case r of Accepted s \<Rightarrow> Some s | Failed _ _ \<Rightarrow> seat_at op fl a)"
      "\<forall>b. at_source b \<noteq> at_source a \<longrightarrow> seat_at op fl' b = seat_at op fl b"
proof -
  let ?shop = "request_shop op (At_Merchant a)" and ?key = "request_key op (At_Merchant a)" and ?p = "request_payload op (At_Merchant a)"
  obtain cap db where cap: "map_of CAPACITY ?shop = Some cap" and x: "execute_shop H cap (fl ?shop) ?key ?p = (r, db)"
    and fl': "fl' = fl(?shop := db)" using e by (auto simp: execute_Inr)
  have si: "shop_inv cap (fl ?shop)" using fleet_invD [OF inv cap] by simp
  have ne: "source_shop op \<noteq> op_target op" using rep by (simp add: replacement_def)
  show ?thesis
  proof (cases "receipt_of op fl (At_Merchant a)")
    case (Some y)
    obtain f r0 where y: "y = (f, r0)" by (cases y)
    then have fr: "find_receipt (fl ?shop) (mp_world ?p, ?key) = Some (f, r0)" using Some by (simp add: receipt_of_def request_simps)
    show ?thesis
      by (rule replay [OF Some [unfolded y]]) (use x fr fl' in \<open>auto simp: execute_shop_def Let_def print_of_def\<close>)
  next
    case None
    then have nr: "find_receipt (fl ?shop) (mp_world ?p, ?key) = None" by (simp add: receipt_of_def request_simps)
    have rec: "find_receipt db k = (case find_receipt (fl ?shop) k of
        None \<Rightarrow> if k = (mp_world ?p, ?key) then Some (H (dumps_tree (payload_json ?p)), r) else None | Some z \<Rightarrow> Some z)" for k
      by (rule execute_shop_receipt [OF x])
    have r1: "receipt_of op fl' (At_Merchant a) = Some (print_of H op (At_Merchant a), r)"
      using nr by (simp add: receipt_of_def fl' rec request_simps print_of_def)
    have r2: "\<forall>b \<in> set saga_actions. b \<noteq> a \<longrightarrow> receipt_of op fl' (At_Merchant b) = receipt_of op fl (At_Merchant b)"
      using a by (auto simp: receipt_of_def fl' rec request_simps action_name_inj split: option.splits)
    have seat: "row_of (fl ?shop) (mp_world ?p) (mp_order ?p) = seat_at op fl a"
      by (simp add: seat_at_def source_seat_def target_seat_def request_simps)
    have d: "r = merchant_transition (seat_at op fl a) ?p (dget True (policy (fl ?shop)) (mp_world ?p)) (seats_used (fl ?shop) (mp_world ?p)) cap
      \<and> row_of db (mp_world ?p) (mp_order ?p) = (case r of Accepted s \<Rightarrow> Some s | Failed _ _ \<Rightarrow> seat_at op fl a)"
      using x
    proof (cases rule: execute_shop_cases)
      case (accepted s)
      then show ?thesis using row_of_accepted [OF si accepted(3)] by (simp add: decide_command_def seat)
    next
      case (failed code ph)
      then show ?thesis using seat by (simp add: decide_command_def)
    qed (use nr in simp)
    have s1: "\<forall>b. at_source b = at_source a \<longrightarrow> seat_at op fl' b = (case r of Accepted s \<Rightarrow> Some s | Failed _ _ \<Rightarrow> seat_at op fl a)"
      using d by (auto simp: seat_at_def source_seat_def target_seat_def request_simps fl')
    have s2: "\<forall>b. at_source b \<noteq> at_source a \<longrightarrow> seat_at op fl' b = seat_at op fl b"
      using ne by (auto simp: seat_at_def source_seat_def target_seat_def request_simps fl')
    show ?thesis using fresh [OF None r1 r2] d s1 s2 by blast
  qed
qed

section \<open>What a merchant answers in each phase\<close>

lemma transition_freeze:
  "merchant_transition row p acc u cap = Accepted s \<Longrightarrow> mp_action p = FREEZE \<Longrightarrow>
    seat_phase s = Frozen \<and> seat_generation s = mp_generation p \<and> seat_transfer s = mp_transfer p"
  by (auto simp: merchant_transition_def Let_def split: option.splits if_splits)

lemma transition_hold:
  "merchant_transition row p acc u cap = Accepted s \<Longrightarrow> mp_action p = HOLD \<Longrightarrow>
    seat_phase s = Held \<and> seat_generation s = mp_generation p \<and> seat_transfer s = mp_transfer p"
  by (auto simp: merchant_transition_def Let_def split: option.splits if_splits)

lemma receipt_cases:
  "granted H op fl a \<Longrightarrow> \<not> unsent op fl [a]" "denied H op fl a \<Longrightarrow> \<not> unsent op fl [a]" "granted H op fl a \<Longrightarrow> \<not> denied H op fl a"
  by (auto simp: granted_def denied_def unsent_def)

lemma unsent_Cons: "unsent op fl (a # b # as) \<longleftrightarrow> unsent op fl [a] \<and> unsent op fl (b # as)"
  by (auto simp: unsent_def)

text \<open>After a new call at one shop: its receipt, the receipts of the other phases, the two seats.\<close>

lemma fresh_frame:
  assumes "\<forall>b \<in> set saga_actions. b \<noteq> a \<longrightarrow> receipt_of op fl' (At_Merchant b) = receipt_of op fl (At_Merchant b)"
  shows "b \<in> set saga_actions \<Longrightarrow> b \<noteq> a \<Longrightarrow> unsent op fl' [b] = unsent op fl [b]"
  using assms by (simp add: unsent_def)

lemma fresh_receipt:
  assumes "receipt_of op fl' (At_Merchant a) = Some (print_of H op (At_Merchant a), r)"
  shows "result_ok r \<Longrightarrow> granted H op fl' a" "\<not> result_ok r \<Longrightarrow> denied H op fl' a" "\<not> unsent op fl' [a]"
  using assms by (cases r; auto simp: granted_def denied_def unsent_def)+

lemma replay_receipt:
  assumes "receipt_of op fl (At_Merchant a) = Some (f, r0)" "f = print_of H op (At_Merchant a) \<Longrightarrow> r = r0"
  shows "granted H op fl a \<Longrightarrow> result_ok r" "denied H op fl a \<Longrightarrow> \<not> result_ok r" "\<not> unsent op fl [a]"
  using assms by (auto simp: granted_def denied_def unsent_def)

lemma own_seat:
  assumes "\<forall>b. at_source b = at_source a \<longrightarrow> seat_at op fl' b = x"
  shows "at_source a \<Longrightarrow> source_seat op fl' = x" "\<not> at_source a \<Longrightarrow> target_seat op fl' = x"
  using spec [OF assms, of a] by (simp_all add: seat_at_def)

lemma other_seat:
  assumes "\<forall>b. at_source b \<noteq> at_source a \<longrightarrow> seat_at op fl' b = seat_at op fl b"
  shows "at_source a \<Longrightarrow> target_seat op fl' = target_seat op fl" "\<not> at_source a \<Longrightarrow> source_seat op fl' = source_seat op fl"
  using spec [OF assms, of HOLD] spec [OF assms, of FREEZE] by (simp_all add: seat_at_def at_source_def)

lemma seat_preds_cong:
  "target_seat op fl' = target_seat op fl \<Longrightarrow> target_is op fl' ph = target_is op fl ph"
  "target_seat op fl' = target_seat op fl \<Longrightarrow> target_free op fl' = target_free op fl"
  "source_seat op fl' = source_seat op fl \<Longrightarrow> source_is op fl' ph = source_is op fl ph"
  by (simp_all add: target_is_def target_free_def source_is_def)

text \<open>
  A call of the phase keeps what the phase knows, and its receipt tells what was answered.
\<close>

abbreviation call_ok :: "(json \<Rightarrow> string) \<Rightarrow> operation \<Rightarrow> fleet \<Rightarrow> merchant_action \<Rightarrow> merchant_result \<Rightarrow> fleet \<Rightarrow> bool" where
  "call_ok H op fl a r fl' \<equiv> fleet_inv fl \<and> replacement op \<and> a \<in> set saga_actions \<and>
     fleet_execute H fl (request_shop op (At_Merchant a)) (request_key op (At_Merchant a)) (request_payload op (At_Merchant a)) = Inr (r, fl')"

abbreviation answered :: "(json \<Rightarrow> string) \<Rightarrow> operation \<Rightarrow> fleet \<Rightarrow> merchant_action \<Rightarrow> merchant_result \<Rightarrow> bool" where
  "answered H op fl' a r \<equiv> (if result_ok r then granted H op fl' a else denied H op fl' a)"

lemma call_cases:
  assumes "call_ok H op fl a r fl'"
  obtains (replay) "fl' = fl" "\<not> unsent op fl [a]" "granted H op fl a \<Longrightarrow> result_ok r" "denied H op fl a \<Longrightarrow> \<not> result_ok r"
  | (fresh) acc u cap where "unsent op fl [a]" "\<not> unsent op fl' [a]" "answered H op fl' a r"
      "\<And>b. b \<in> set saga_actions \<Longrightarrow> b \<noteq> a \<Longrightarrow> unsent op fl' [b] = unsent op fl [b]"
      "merchant_transition (seat_at op fl a) (request_payload op (At_Merchant a)) acc u cap = r"
      "at_source a \<Longrightarrow> target_seat op fl' = target_seat op fl \<and> source_seat op fl' = (case r of Accepted s \<Rightarrow> Some s | Failed _ _ \<Rightarrow> source_seat op fl)"
      "\<not> at_source a \<Longrightarrow> source_seat op fl' = source_seat op fl \<and> target_seat op fl' = (case r of Accepted s \<Rightarrow> Some s | Failed _ _ \<Rightarrow> target_seat op fl)"
proof -
  have inv: "fleet_inv fl" and rep: "replacement op" and a: "a \<in> set saga_actions"
    and e: "fleet_execute H fl (request_shop op (At_Merchant a)) (request_key op (At_Merchant a)) (request_payload op (At_Merchant a)) = Inr (r, fl')"
    using assms by auto
  from inv rep a e show ?thesis
  proof (cases rule: call_effect)
    case (replay f r0)
    then show ?thesis using that(1) replay_receipt [of op fl a f r0 H r] by blast
  next
    case (fresh acc u cap)
    show ?thesis
    proof (rule that(2))
      show "unsent op fl [a]" using fresh(1) by (simp add: unsent_def)
      show "\<not> unsent op fl' [a]" by (rule fresh_receipt(3) [OF fresh(2)])
      show "answered H op fl' a r" using fresh_receipt(1,2) [OF fresh(2)] by (simp split: if_splits)
      show "unsent op fl' [b] = unsent op fl [b]" if "b \<in> set saga_actions" "b \<noteq> a" for b using fresh_frame [OF fresh(3) that] .
      show "merchant_transition (seat_at op fl a) (request_payload op (At_Merchant a)) acc u cap = r" by (rule fresh(4) [symmetric])
    next
      assume s: "at_source a"
      show "target_seat op fl' = target_seat op fl \<and> source_seat op fl' = (case r of Accepted s \<Rightarrow> Some s | Failed _ _ \<Rightarrow> source_seat op fl)"
        using own_seat(1) [OF fresh(5) s] other_seat(1) [OF fresh(6) s] s by (simp only: seat_at_def if_True simp_thms)
    next
      assume s: "\<not> at_source a"
      show "source_seat op fl' = source_seat op fl \<and> target_seat op fl' = (case r of Accepted s \<Rightarrow> Some s | Failed _ _ \<Rightarrow> target_seat op fl)"
        using own_seat(2) [OF fresh(5) s] other_seat(2) [OF fresh(6) s] s by (simp only: seat_at_def if_False simp_thms)
    qed
  qed
qed

lemma at_source_simps [simp]:
  "at_source FREEZE" "at_source RELEASE_SOURCE" "at_source UNFREEZE" "\<not> at_source HOLD" "\<not> at_source ACTIVATE" "\<not> at_source ABORT_TARGET"
  by (simp_all add: at_source_def)

lemmas call_simps = seat_at_def request_simps request_transfer replacement_def

lemma freeze_call:
  assumes c: "call_ok H op fl FREEZE r fl'" and ph: "phase_inv H op fl (At_Merchant FREEZE)"
  shows "phase_inv H op fl' (At_Merchant FREEZE) \<and> answered H op fl' FREEZE r"
  using c
proof (cases rule: call_cases)
  case replay
  then show ?thesis using ph by auto
next
  case (fresh acc u cap)
  have s: "source_is op fl' Frozen" if "r = Accepted x" for x
    using fresh(6) transition_freeze [OF fresh(5) [unfolded that]] that c by (simp add: source_is_def call_simps)
  show ?thesis using ph s fresh(3,4) seat_preds_cong(2) [of op fl' fl] fresh(6)
    by (cases r) (simp_all add: unsent_Cons saga_actions_def)
qed

lemma hold_call:
  assumes c: "call_ok H op fl HOLD r fl'" and ph: "phase_inv H op fl (At_Merchant HOLD)"
  shows "phase_inv H op fl' (At_Merchant HOLD) \<and> answered H op fl' HOLD r"
  using c
proof (cases rule: call_cases)
  case replay
  then show ?thesis using ph by auto
next
  case (fresh acc u cap)
  have fr: "target_free op fl" using ph fresh(1) receipt_cases [of H op fl HOLD] by auto
  have s: "target_is op fl' Held" if "r = Accepted x" for x
    using fresh(7) transition_hold [OF fresh(5) [unfolded that]] that c by (simp add: target_is_def call_simps)
  show ?thesis using ph s fr fresh(3,4) seat_preds_cong(2,3) [of op fl' fl] fresh(7)
    by (cases r) (simp_all add: unsent_Cons saga_actions_def)
qed

text \<open>The fenced moves of this operation's seat are accepted.\<close>

lemma transition_fenced:
  assumes "mp_action p \<in> set fenced_actions" "expected_phases (mp_action p) = Some [seat_phase s]" "phase_after (mp_action p) = Some ph"
    and "seat_generation s = mp_generation p" "seat_transfer s = mp_transfer p" "\<not> terminal s"
  shows "\<exists>x. merchant_transition (Some s) p acc u cap = Accepted x \<and> seat_phase x = ph \<and> seat_generation x = mp_generation p"
  using assms by (auto simp: merchant_transition_def Let_def fenced_actions_def terminal_def)

lemma transition_tombstone:
  assumes "mp_action p = ABORT_TARGET" "\<forall>s. row = Some s \<longrightarrow> seat_generation s < mp_generation p \<and> terminal s"
  shows "\<exists>x. merchant_transition row p acc u cap = Accepted x \<and> seat_phase x = Aborted \<and> seat_generation x = mp_generation p"
  using assms by (cases row) (auto simp: merchant_transition_def Let_def terminal_def)

lemma release_call:
  assumes c: "call_ok H op fl RELEASE_SOURCE r fl'" and ph: "phase_inv H op fl (At_Merchant RELEASE_SOURCE)"
  shows "phase_inv H op fl' (At_Merchant RELEASE_SOURCE) \<and> granted H op fl' RELEASE_SOURCE \<and> result_ok r"
  using c
proof (cases rule: call_cases)
  case replay
  then show ?thesis using ph by auto
next
  case (fresh acc u cap)
  obtain s where s: "source_seat op fl = Some s" "seat_phase s = Frozen" "seat_generation s = op_before_generation op" "seat_transfer s = op_id op"
    using ph fresh(1) receipt_cases [of H op fl RELEASE_SOURCE] by (auto simp: source_is_def)
  obtain x where x: "r = Accepted x" "seat_phase x = Released" "seat_generation x = op_before_generation op"
    using transition_fenced [of "request_payload op (At_Merchant RELEASE_SOURCE)" s Released acc u cap] fresh(5) s c
    by (auto simp: call_simps fenced_actions_def terminal_def TERMINAL_PHASES_def)
  then show ?thesis using ph fresh(3,4,6) seat_preds_cong(1) [of op fl' fl] by (simp add: unsent_Cons saga_actions_def source_is_def)
qed

lemma unfreeze_call:
  assumes c: "call_ok H op fl UNFREEZE r fl'" and ph: "phase_inv H op fl (At_Merchant UNFREEZE)"
  shows "phase_inv H op fl' (At_Merchant UNFREEZE) \<and> granted H op fl' UNFREEZE \<and> result_ok r"
  using c
proof (cases rule: call_cases)
  case replay
  then show ?thesis using ph by auto
next
  case (fresh acc u cap)
  obtain s where s: "source_seat op fl = Some s" "seat_phase s = Frozen" "seat_generation s = op_before_generation op" "seat_transfer s = op_id op"
    using ph fresh(1) receipt_cases [of H op fl UNFREEZE] by (auto simp: source_is_def)
  obtain x where x: "r = Accepted x" "seat_phase x = Reserved" "seat_generation x = op_before_generation op"
    using transition_fenced [of "request_payload op (At_Merchant UNFREEZE)" s Reserved acc u cap] fresh(5) s c
    by (auto simp: call_simps fenced_actions_def terminal_def TERMINAL_PHASES_def)
  then show ?thesis using ph fresh(3,4,6) seat_preds_cong(1) [of op fl' fl] by (simp add: unsent_Cons saga_actions_def source_is_def)
qed

lemma activate_call:
  assumes c: "call_ok H op fl ACTIVATE r fl'" and ph: "phase_inv H op fl (At_Merchant ACTIVATE)"
  shows "phase_inv H op fl' (At_Merchant ACTIVATE) \<and> granted H op fl' ACTIVATE \<and> result_ok r"
  using c
proof (cases rule: call_cases)
  case replay
  then show ?thesis using ph by auto
next
  case (fresh acc u cap)
  obtain s where s: "target_seat op fl = Some s" "seat_phase s = Held" "seat_generation s = op_generation op" "seat_transfer s = op_id op"
    using ph fresh(1) receipt_cases [of H op fl ACTIVATE] by (auto simp: target_is_def)
  obtain x where x: "r = Accepted x" "seat_phase x = Reserved" "seat_generation x = op_generation op"
    using transition_fenced [of "request_payload op (At_Merchant ACTIVATE)" s Reserved acc u cap] fresh(5) s c
    by (auto simp: call_simps fenced_actions_def terminal_def TERMINAL_PHASES_def)
  then show ?thesis using ph fresh(3,4,7) seat_preds_cong(3) [of op fl' fl] by (simp add: unsent_Cons saga_actions_def target_is_def)
qed

lemma abort_call:
  assumes c: "call_ok H op fl ABORT_TARGET r fl'" and ph: "phase_inv H op fl (At_Merchant ABORT_TARGET)"
  shows "phase_inv H op fl' (At_Merchant ABORT_TARGET) \<and> granted H op fl' ABORT_TARGET \<and> result_ok r"
  using c
proof (cases rule: call_cases)
  case replay
  then show ?thesis using ph by auto
next
  case (fresh acc u cap)
  have t: "target_free op fl \<or> target_is op fl Held" using ph fresh(1) receipt_cases [of H op fl ABORT_TARGET] by auto
  have tr: "mp_transfer (request_payload op (At_Merchant ABORT_TARGET)) = op_id op" using c by (simp add: call_simps)
  have "\<exists>x. r = Accepted x \<and> seat_phase x = Aborted \<and> seat_generation x = op_generation op"
    using t
  proof
    assume "target_free op fl"
    then show ?thesis
      using transition_tombstone [of "request_payload op (At_Merchant ABORT_TARGET)" "target_seat op fl" acc u cap] fresh(5)
      by (auto simp: target_free_def call_simps)
  next
    assume "target_is op fl Held"
    then obtain s where "target_seat op fl = Some s" "seat_phase s = Held" "seat_generation s = op_generation op" "seat_transfer s = op_id op"
      by (auto simp: target_is_def)
    then show ?thesis
      using transition_fenced [of "request_payload op (At_Merchant ABORT_TARGET)" s Aborted acc u cap] fresh(5) tr
      by (auto simp: seat_at_def request_simps fenced_actions_def terminal_def TERMINAL_PHASES_def)
  qed
  then obtain x where x: "r = Accepted x" "seat_phase x = Aborted" "seat_generation x = op_generation op" by blast
  show ?thesis using x ph fresh(3,4,7) seat_preds_cong(3) [of op fl' fl] by (simp add: unsent_Cons saga_actions_def target_is_def)
qed

section \<open>The invariant is kept\<close>

lemma fleet_execute_inv: "fleet_inv fl \<Longrightarrow> fleet_execute H fl shop key p = Inr (r, fl') \<Longrightarrow> fleet_inv fl'"
  using fleet_step_inv [of fl H "Execute shop key p" fl'] by simp

lemma call_keeps:
  assumes c: "call_ok H op fl a r fl'" and ph: "phase_inv H op fl (At_Merchant a)"
  shows "phase_inv H op fl' (At_Merchant a) \<and> answered H op fl' a r \<and> (a \<notin> {FREEZE, HOLD} \<longrightarrow> result_ok r)"
proof -
  have "a \<in> {FREEZE, HOLD, RELEASE_SOURCE, ACTIVATE, ABORT_TARGET, UNFREEZE}" using c by (simp add: saga_actions_def) blast
  then consider "a = FREEZE" | "a = HOLD" | "a = RELEASE_SOURCE" | "a = ACTIVATE" | "a = ABORT_TARGET" | "a = UNFREEZE" by blast
  then show ?thesis
  proof cases
    case 1 then show ?thesis using freeze_call [OF c [unfolded 1] ph [unfolded 1]] by simp
  next
    case 2 then show ?thesis using hold_call [OF c [unfolded 2] ph [unfolded 2]] by simp
  next
    case 3 then show ?thesis using release_call [OF c [unfolded 3] ph [unfolded 3]] by (simp del: phase_inv.simps add: 3)
  next
    case 4 then show ?thesis using activate_call [OF c [unfolded 4] ph [unfolded 4]] by (simp del: phase_inv.simps add: 4)
  next
    case 5 then show ?thesis using abort_call [OF c [unfolded 5] ph [unfolded 5]] by (simp del: phase_inv.simps add: 5)
  next
    case 6 then show ?thesis using unfreeze_call [OF c [unfolded 6] ph [unfolded 6]] by (simp del: phase_inv.simps add: 6)
  qed
qed

lemma phase_inv_saga: "phase_inv H op fl (At_Merchant a) \<Longrightarrow> a \<in> set saga_actions"
  by (cases a) (simp_all add: saga_actions_def)

text \<open>The invariant without the fleet's own part.\<close>

definition stage_inv :: "(json \<Rightarrow> string) \<Rightarrow> operation \<Rightarrow> fleet \<Rightarrow> bool" where
  "stage_inv H op fl \<longleftrightarrow> (case op_status op of
     PENDING \<Rightarrow> phase_inv H op fl (op_phase op)
   | COMPLETED \<Rightarrow> phase_inv H op fl FINALIZE
   | REJECTED \<Rightarrow> rejected_inv H op fl)"

lemma handoff_inv_stage: "handoff_inv H op fl \<longleftrightarrow> fleet_inv fl \<and> replacement op \<and> stage_inv H op fl"
  by (simp add: handoff_inv_def stage_inv_def)

lemma stage_inv_cong:
  "same_plan op op' \<Longrightarrow> op_decision op' = op_decision op \<Longrightarrow> op_status op' = op_status op \<Longrightarrow> op_phase op' = op_phase op \<Longrightarrow>
    stage_inv H op' fl = stage_inv H op fl"
  unfolding stage_inv_def rejected_inv_def by (simp add: same_plan_phase_inv same_plan_preds split: op_status.split)

lemma expired_stage:
  assumes "stage_inv H op fl" "op_status op = PENDING" "op_decision op = UNDECIDED"
  shows "stage_inv H (expired op) fl" "same_plan op (expired op)"
proof -
  show sp: "same_plan op (expired op)" by (simp add: same_plan_def expired_def)
  have f: "op_status (expired op) = PENDING" "op_decision (expired op) = ABORT"
    "op_phase (expired op) = (if op_phase op \<in> {At_Merchant HOLD, DECIDE} then At_Merchant ABORT_TARGET else op_phase op)"
    using assms by (simp_all add: expired_def)
  show "stage_inv H (expired op) fl"
    using assms by (cases "(H, op, fl, op_phase op)" rule: phase_inv.cases)
      (auto simp: stage_inv_def f same_plan_preds [OF sp] unsent_Cons)
qed

lemma reply_stage:
  assumes ph: "phase_inv H op fl (At_Merchant a)" and st: "op_status op = PENDING" "op_phase op = At_Merchant a" and rep: "replacement op"
    and ans: "answered H op fl a r" "a \<notin> {FREEZE, HOLD} \<longrightarrow> result_ok r"
    and o: "on_reply http op (At_Merchant a) r = (pause, op2)"
  shows "stage_inv H op2 fl \<and> same_plan op op2"
proof -
  have act: "op_action op \<in> set REPLACEMENTS" "\<not> is_control (op_action op)" using rep by (auto simp: replacement_def is_control_def REPLACEMENTS_def)
  consider "pause" "op_decision op2 = op_decision op" "op_status op2 = op_status op" "op_phase op2 = op_phase op" "same_plan op op2"
    | (freeze) "a = FREEZE" "result_ok r" "op2 = (add_history (At_Merchant a) CONFIRMED op)\<lparr>op_phase := phase_after_ok (op_decision op) (At_Merchant a)\<rparr>"
    | (move) "a \<notin> {FREEZE, UNFREEZE}" "result_ok r" "op2 = (add_history (At_Merchant a) CONFIRMED op)\<lparr>op_phase := phase_after_ok (op_decision op) (At_Merchant a)\<rparr>"
    | (undone) "a = UNFREEZE" "result_ok r" "op2 = (add_history (At_Merchant a) CONFIRMED op)\<lparr>op_status := REJECTED\<rparr>"
    | (nofreeze) "a = FREEZE" "\<not> result_ok r" "op2 = op\<lparr>op_failure := failure_of r, op_status := REJECTED\<rparr>"
    | (nohold) "a = HOLD" "\<not> result_ok r" "op2 = op\<lparr>op_failure := failure_of r, op_decision := ABORT, op_phase := At_Merchant ABORT_TARGET\<rparr>"
    using o ans(2) act ph by (auto simp: on_reply_def Let_def same_plan_def add_history_def split: if_splits)
  then show ?thesis
  proof cases
    case 1
    then show ?thesis using stage_inv_cong [of op op2] ph st by (simp add: stage_inv_def)
  next
    case freeze
    have sp: "same_plan op op2" by (simp add: freeze same_plan_def add_history_def)
    have f: "op_status op2 = PENDING" "op_decision op2 = op_decision op" "op_phase op2 = phase_after_ok (op_decision op) (At_Merchant FREEZE)"
      using freeze st by (simp_all add: add_history_def)
    show ?thesis using ph ans(1) freeze(1,2) sp receipt_cases(1,3) [of H op fl FREEZE]
      by (cases "op_decision op") (simp_all add: stage_inv_def f same_plan_preds [OF sp] unsent_Cons phase_after_ok_def)
  next
    case move
    have sp: "same_plan op op2" by (simp add: move same_plan_def add_history_def)
    have f: "op_status op2 = PENDING" "op_decision op2 = op_decision op" "op_phase op2 = phase_after_ok (op_decision op) (At_Merchant a)"
      using move st by (simp_all add: add_history_def)
    show ?thesis using ph ans(1) move(1,2) sp receipt_cases(1,3) [of H op fl a] phase_inv_saga [OF ph]
      by (auto simp: stage_inv_def f same_plan_preds [OF sp] unsent_Cons phase_after_ok_def saga_actions_def)
  next
    case undone
    have sp: "same_plan op op2" by (simp add: undone same_plan_def add_history_def)
    have f: "op_status op2 = REJECTED" "op_decision op2 = op_decision op" using undone by (simp_all add: add_history_def)
    show ?thesis using ph ans(1) undone(1,2) sp receipt_cases(1,3) [of H op fl UNFREEZE]
      by (simp add: stage_inv_def f rejected_inv_def same_plan_preds [OF sp])
  next
    case nofreeze
    have sp: "same_plan op op2" by (simp add: nofreeze same_plan_def)
    have f: "op_status op2 = REJECTED" "op_decision op2 = op_decision op" using nofreeze by simp_all
    show ?thesis using ph ans(1) nofreeze(1,2) sp by (simp add: stage_inv_def f rejected_inv_def same_plan_preds [OF sp])
  next
    case nohold
    have sp: "same_plan op op2" by (simp add: nohold same_plan_def)
    have f: "op_status op2 = PENDING" "op_decision op2 = ABORT" "op_phase op2 = At_Merchant ABORT_TARGET" using nohold st by simp_all
    show ?thesis using ph ans(1) nohold(1,2) sp receipt_cases(2,3) [of H op fl HOLD]
      by (auto simp: stage_inv_def f same_plan_preds [OF sp] unsent_Cons)
  qed
qed

lemma step_stage:
  assumes inv: "fleet_inv fl" and rep: "replacement op" and stage: "stage_inv H op fl" and st: "op_status op = PENDING"
    and step: "step H http n fl op = Inr (pause, op2, fl')"
  shows "fleet_inv fl' \<and> stage_inv H op2 fl' \<and> same_plan op op2"
proof -
  have ph: "phase_inv H op fl (op_phase op)" using stage st by (simp add: stage_inv_def)
  consider (final) "op_phase op = FINALIZE" | (decide) "op_phase op = DECIDE" | (call) a where "op_phase op = At_Merchant a"
    using ph by (cases "(H, op, fl, op_phase op)" rule: phase_inv.cases) auto
  then show ?thesis
  proof cases
    case final
    then have o: "op2 = add_history FINALIZE CONFIRMED (op\<lparr>op_status := COMPLETED\<rparr>)" "fl' = fl" using step by (auto simp: step_def)
    have sp: "same_plan op op2" by (simp add: o same_plan_def add_history_def)
    have f: "op_status op2 = COMPLETED" "op_decision op2 = op_decision op" by (simp_all add: o add_history_def)
    show ?thesis using ph final inv sp by (simp add: stage_inv_def f same_plan_preds [OF sp] o(2))
  next
    case decide
    then have o: "op2 = (add_history DECIDE COMMIT_RECORDED (op\<lparr>op_decision := COMMIT\<rparr>))\<lparr>op_phase := At_Merchant RELEASE_SOURCE\<rparr>" "fl' = fl"
      using step by (auto simp: step_def)
    have sp: "same_plan op op2" by (simp add: o same_plan_def add_history_def)
    have f: "op_status op2 = PENDING" "op_decision op2 = COMMIT" "op_phase op2 = At_Merchant RELEASE_SOURCE" by (simp_all add: o st add_history_def)
    show ?thesis using ph decide inv sp by (simp add: stage_inv_def f same_plan_preds [OF sp] unsent_Cons o(2))
  next
    case (call a)
    let ?x = "fleet_execute H fl (request_shop op (At_Merchant a)) (request_key op (At_Merchant a)) (request_payload op (At_Merchant a))"
    have req: "merchant_request op (At_Merchant a) = (request_shop op (At_Merchant a), request_key op (At_Merchant a), request_payload op (At_Merchant a))"
      by (simp add: request_shop_def request_key_def request_payload_def)
    have a: "a \<in> set saga_actions" using ph call phase_inv_saga by simp
    consider (stay) "op2 = op" "fl' = fl" | (lost) r where "?x = Inr (r, fl')" "op2 = op"
      | (reply) r where "?x = Inr (r, fl')" "on_reply http op (At_Merchant a) r = (pause, op2)"
      using step call by (cases n; cases ?x) (auto simp: step_def call_merchant_def req split: prod.splits)
    then show ?thesis
    proof cases
      case stay
      then show ?thesis using inv stage by simp
    next
      case (lost r)
      have "fleet_inv fl'" using fleet_execute_inv [OF inv lost(1)] .
      then show ?thesis using call_keeps [of fl op a H r fl'] inv rep a lost ph st by (simp add: stage_inv_def call)
    next
      case (reply r)
      have "fleet_inv fl'" using fleet_execute_inv [OF inv reply(1)] .
      moreover have k: "phase_inv H op fl' (At_Merchant a)" "answered H op fl' a r" "a \<notin> {FREEZE, HOLD} \<longrightarrow> result_ok r"
        using call_keeps [of fl op a H r fl'] inv rep a reply(1) ph by (simp_all add: call)
      ultimately show ?thesis using reply_stage [OF k(1) st call rep k(2,3) reply(2)] by simp
    qed
  qed
qed

lemma foreign_frame:
  assumes f: "foreign op c" and s: "fleet_step H fl c = Inr fl'" and inv: "fleet_inv fl"
  shows "receipt_of op fl' (At_Merchant a) = receipt_of op fl (At_Merchant a)" "source_seat op fl' = source_seat op fl" "target_seat op fl' = target_seat op fl"
proof -
  have row: "row_of (fl' shop) (op_world op) ord = row_of (fl shop) (op_world op) ord"
    if "ord = op_order op \<or> Some ord = op_source_order op" for shop ord
  proof (cases c)
    case (Execute sh key p)
    then obtain res cap db where cap: "map_of CAPACITY sh = Some cap" and x: "execute_shop H cap (fl sh) key p = (res, db)" and fl': "fl' = fl(sh := db)"
      using s by (cases "fleet_execute H fl sh key p") (auto simp: execute_Inr)
    have ne: "mp_world p \<noteq> op_world op \<or> mp_order p \<noteq> ord" using f that by (auto simp: foreign_def Execute)
    have "row_of db (op_world op) ord = row_of (fl sh) (op_world op) ord"
      using x
    proof (cases rule: execute_shop_cases)
      case (accepted s)
      show ?thesis using row_of_accepted [OF _ accepted(3)] fleet_invD [OF inv cap] ne by (auto simp: accepted(4))
    qed auto
    then show ?thesis by (simp add: fl')
  next
    case (SetAccepting sh w b)
    then show ?thesis using s by (auto simp: set_accepting_def split: if_splits)
  qed
  show "target_seat op fl' = target_seat op fl" using row by (simp add: target_seat_def)
  have "source_order_of op = op_order op \<or> Some (source_order_of op) = op_source_order op"
    by (simp add: source_order_of_def request_payload_def merchant_request_def source_action_def split: option.split)
  then show "source_seat op fl' = source_seat op fl" using row by (simp add: source_seat_def)
  show "receipt_of op fl' (At_Merchant a) = receipt_of op fl (At_Merchant a)"
  proof (cases c)
    case (Execute sh key p)
    then obtain res cap db where x: "execute_shop H cap (fl sh) key p = (res, db)" and fl': "fl' = fl(sh := db)"
      using s by (cases "fleet_execute H fl sh key p") (auto simp: execute_Inr)
    have "(op_world op, request_key op (At_Merchant a)) \<noteq> (mp_world p, key)" using f by (auto simp: foreign_def Execute)
    then show ?thesis using execute_shop_receipt [OF x, of "(op_world op, request_key op (At_Merchant a))"]
      by (auto simp: receipt_of_def fl' split: option.split)
  next
    case (SetAccepting sh w b)
    then show ?thesis using s by (auto simp: set_accepting_def receipt_of_def split: if_splits)
  qed
qed

lemma frame_preds:
  assumes "\<And>a. receipt_of op fl' (At_Merchant a) = receipt_of op fl (At_Merchant a)" "source_seat op fl' = source_seat op fl" "target_seat op fl' = target_seat op fl"
  shows "stage_inv H op fl' = stage_inv H op fl"
proof -
  have p: "unsent op fl' as = unsent op fl as" "granted H op fl' a = granted H op fl a" "denied H op fl' a = denied H op fl a"
    "source_is op fl' ph = source_is op fl ph" "target_is op fl' ph = target_is op fl ph" "target_free op fl' = target_free op fl" for as a ph
    using assms by (simp_all add: unsent_def granted_def denied_def source_is_def target_is_def target_free_def)
  have "phase_inv H op fl' ph = phase_inv H op fl ph" for ph
    by (cases "(H, op, fl, ph)" rule: phase_inv.cases) (simp_all add: p)
  then show ?thesis by (cases "op_status op") (simp_all add: stage_inv_def rejected_inv_def p)
qed

lemma handoff_step_inv:
  assumes "handoff H http (op, fl) (op', fl')" "handoff_inv H op fl"
  shows "handoff_inv H op' fl' \<and> same_plan op op'"
proof (rule handoffE [OF assms(1)], goal_cases)
  case (1 op1 n k r pause op2 r')
  note own = 1
  let ?o = "op1\<lparr>op_recovery := r, op_attempts := k\<rparr>"
  have sp: "same_plan op op1 \<and> stage_inv H op1 fl \<and> op_status op1 = PENDING"
    using own(2,3) assms(2) expired_stage [of H op fl] by (auto simp: handoff_inv_stage expired_def)
  then have sp': "same_plan op ?o" "stage_inv H ?o fl" using stage_inv_cong [of op1 ?o] by (simp_all add: same_plan_def)
  have st: "op_status ?o = PENDING" using sp by simp
  have rep: "replacement ?o" using assms(2) same_plan_preds(7) [OF sp'(1)] by (simp add: handoff_inv_stage)
  have s: "fleet_inv fl' \<and> stage_inv H op2 fl' \<and> same_plan ?o op2"
    using step_stage [OF _ rep sp'(2) st own(4)] assms(2) by (simp add: handoff_inv_stage)
  then have x: "same_plan op op'" using same_plan_trans [OF sp'(1)] own(1) by (auto simp: same_plan_def)
  have "stage_inv H op' fl'" using s stage_inv_cong [of op2 op'] own(1) by (simp add: same_plan_def)
  then show ?thesis using x s assms(2) same_plan_preds(7) [OF x] by (simp add: handoff_inv_stage)
next
  case (2 c)
  have st: "stage_inv H op fl" and inv: "fleet_inv fl" and rep: "replacement op" using assms(2) by (simp_all add: handoff_inv_stage)
  have "stage_inv H op fl'" using frame_preds [OF foreign_frame [OF 2(2,3) inv]] st by simp
  then show ?case using 2(1) fleet_step_inv [OF inv 2(3)] rep by (simp add: handoff_inv_stage)
qed

section \<open>Runs\<close>

text \<open>An operation that was just opened: no merchant has heard of it, the target seat is free.\<close>

definition handoff_start :: "operation \<Rightarrow> fleet \<Rightarrow> bool" where
  "handoff_start op fl \<longleftrightarrow> op_status op = PENDING \<and> op_phase op = At_Merchant FREEZE \<and> op_decision op = UNDECIDED
     \<and> replacement op \<and> unsent op fl saga_actions \<and> target_free op fl"

lemma handoff_start_inv: "fleet_inv fl \<Longrightarrow> handoff_start op fl \<Longrightarrow> handoff_inv H op fl"
  by (auto simp: handoff_start_def handoff_inv_def saga_actions_def unsent_def)

lemma handoff_run_inv:
  assumes "(handoff H http)\<^sup>*\<^sup>* (op, fl) (op', fl')" "handoff_inv H op fl"
  shows "handoff_inv H op' fl' \<and> same_plan op op'"
  using assms
proof (induction "(op', fl')" arbitrary: op' fl')
  case base
  then show ?case by simp
next
  case (step st)
  obtain op1 fl1 where st: "st = (op1, fl1)" by (cases st)
  have i: "handoff_inv H op1 fl1 \<and> same_plan op op1" using step.hyps(3) [OF st] step.prems by blast
  then show ?case using handoff_step_inv [OF step.hyps(2) [unfolded st]] same_plan_trans by blast
qed

text \<open>
  Until the source grants the freeze, its seat is the one it had when the operation was opened
  (\<open>s0\<close>), and the operation does not leave its first phase except by being rejected.
\<close>

definition freeze_inv :: "(json \<Rightarrow> string) \<Rightarrow> seat option \<Rightarrow> operation \<Rightarrow> fleet \<Rightarrow> bool" where
  "freeze_inv H s0 op fl \<longleftrightarrow> granted H op fl FREEZE \<or> source_seat op fl = s0 \<and> op_status op \<noteq> COMPLETED
     \<and> (op_status op = PENDING \<longrightarrow> op_phase op = At_Merchant FREEZE)"

lemma freeze_inv_cong:
  "same_plan op op' \<Longrightarrow> op_status op' = op_status op \<Longrightarrow> op_phase op' = op_phase op \<Longrightarrow> freeze_inv H s0 op' fl = freeze_inv H s0 op fl"
  by (simp add: freeze_inv_def same_plan_preds same_plan_simps)

lemma call_keeps_granted:
  assumes c: "call_ok H op fl a r fl'" and g: "granted H op fl FREEZE"
  shows "granted H op fl' FREEZE"
proof -
  have inv: "fleet_inv fl" and rep: "replacement op" and a: "a \<in> set saga_actions"
    and e: "fleet_execute H fl (request_shop op (At_Merchant a)) (request_key op (At_Merchant a)) (request_payload op (At_Merchant a)) = Inr (r, fl')"
    using c by auto
  from inv rep a e show ?thesis
  proof (cases rule: call_effect)
    case (replay f r0)
    then show ?thesis using g by simp
  next
    case (fresh acc u cap)
    have "a \<noteq> FREEZE" using fresh(1) g by (auto simp: granted_def)
    moreover have "FREEZE \<in> set saga_actions" by (simp add: saga_actions_def)
    ultimately show ?thesis using fresh(3) g by (metis granted_def)
  qed
qed

text \<open>A freeze call is granted or leaves the source as it is.\<close>

lemma freeze_call_seat:
  assumes c: "call_ok H op fl FREEZE r fl'" and ph: "phase_inv H op fl (At_Merchant FREEZE)"
  shows "granted H op fl' FREEZE \<and> result_ok r \<or> \<not> result_ok r \<and> source_seat op fl' = source_seat op fl"
  using c
proof (cases rule: call_cases)
  case replay
  then show ?thesis using freeze_call [OF c ph] by (auto split: if_splits)
next
  case (fresh acc u cap)
  then show ?thesis using freeze_call [OF c ph] by (cases r) auto
qed

lemma reply_freeze:
  assumes rep: "replacement op" and st: "op_status op = PENDING" "op_phase op = At_Merchant FREEZE"
    and r: "\<not> result_ok r" and o: "on_reply http op (At_Merchant FREEZE) r = (pause, op2)"
  shows "op_status op2 = REJECTED"
  using assms by (auto simp: on_reply_def Let_def replacement_def is_control_def REPLACEMENTS_def split: if_splits)

lemma step_freeze:
  assumes inv: "fleet_inv fl" and rep: "replacement op" and stage: "stage_inv H op fl" and st: "op_status op = PENDING"
    and fr: "freeze_inv H s0 op fl" and step: "step H http n fl op = Inr (pause, op2, fl')"
  shows "freeze_inv H s0 op2 fl'"
proof -
  have sp: "same_plan op op2" using step_stage [OF inv rep stage st step] by blast
  have ph: "phase_inv H op fl (op_phase op)" using stage st by (simp add: stage_inv_def)
  consider (fin) "op_phase op \<in> {FINALIZE, DECIDE}" | (call) a where "op_phase op = At_Merchant a"
    using ph by (cases "(H, op, fl, op_phase op)" rule: phase_inv.cases) auto
  then show ?thesis
  proof cases
    case fin
    then have "granted H op fl FREEZE" using fr st by (auto simp: freeze_inv_def)
    moreover have "fl' = fl" using fin step by (auto simp: step_def)
    ultimately show ?thesis by (simp add: freeze_inv_def same_plan_preds [OF sp])
  next
    case (call a)
    let ?x = "fleet_execute H fl (request_shop op (At_Merchant a)) (request_key op (At_Merchant a)) (request_payload op (At_Merchant a))"
    have req: "merchant_request op (At_Merchant a) = (request_shop op (At_Merchant a), request_key op (At_Merchant a), request_payload op (At_Merchant a))"
      by (simp add: request_shop_def request_key_def request_payload_def)
    have a: "a \<in> set saga_actions" using ph call phase_inv_saga by simp
    consider (stay) "op2 = op" "fl' = fl" | (sent) r where "?x = Inr (r, fl')"
        "op2 = op \<or> on_reply http op (At_Merchant a) r = (pause, op2)"
      using step call by (cases n; cases ?x) (auto simp: step_def call_merchant_def req split: prod.splits)
    then show ?thesis
    proof cases
      case stay
      then show ?thesis using fr by simp
    next
      case (sent r)
      have c: "call_ok H op fl a r fl'" using inv rep a sent(1) by simp
      show ?thesis
      proof (cases "granted H op fl FREEZE")
        case True
        then show ?thesis using call_keeps_granted [OF c] by (simp add: freeze_inv_def same_plan_preds [OF sp])
      next
        case False
        then have f: "a = FREEZE" and s0: "source_seat op fl = s0" using fr st call by (auto simp: freeze_inv_def)
        have "granted H op fl' FREEZE \<or> \<not> result_ok r \<and> source_seat op fl' = s0"
          using freeze_call_seat [OF c [unfolded f]] ph call f s0 by auto
        then show ?thesis
          using sent(2) st call f reply_freeze [OF rep st(1), of r http pause op2]
          by (auto simp: freeze_inv_def same_plan_preds [OF sp] same_plan_simps [OF sp])
      qed
    qed
  qed
qed

lemma handoff_step_freeze:
  assumes "handoff H http (op, fl) (op', fl')" "handoff_inv H op fl" "freeze_inv H s0 op fl"
  shows "freeze_inv H s0 op' fl'"
proof (rule handoffE [OF assms(1)], goal_cases)
  case (1 op1 n k r pause op2 r')
  note own = 1
  let ?o = "op1\<lparr>op_recovery := r, op_attempts := k\<rparr>"
  have e: "same_plan op op1 \<and> stage_inv H op1 fl \<and> op_status op1 = PENDING \<and> freeze_inv H s0 op1 fl"
  proof (cases "op1 = op")
    case True
    then show ?thesis using own(2) assms(2,3) by (simp add: handoff_inv_stage)
  next
    case False
    then have x: "op1 = expired op" "op_decision op = UNDECIDED" using own(3) by auto
    have sp: "same_plan op (expired op)" "stage_inv H (expired op) fl"
      using expired_stage [of H op fl] x(2) own(2) assms(2) by (simp_all add: handoff_inv_stage)
    have "op_status (expired op) = PENDING" "op_phase op = At_Merchant FREEZE \<longrightarrow> op_phase (expired op) = At_Merchant FREEZE"
      using own(2) by (simp_all add: expired_def)
    then show ?thesis using sp assms(3) own(2) by (auto simp: x(1) freeze_inv_def same_plan_preds [OF sp(1)] same_plan_simps [OF sp(1)])
  qed
  then have o: "same_plan op ?o" "stage_inv H ?o fl" "op_status ?o = PENDING" "freeze_inv H s0 ?o fl"
    using stage_inv_cong [of op1 ?o] freeze_inv_cong [of op1 ?o] by (simp_all add: same_plan_def)
  have rep: "replacement ?o" using assms(2) same_plan_preds(7) [OF o(1)] by (simp add: handoff_inv_stage)
  have "freeze_inv H s0 op2 fl'"
    using step_freeze [OF _ rep o(2,3,4) own(4)] assms(2) by (simp add: handoff_inv_stage)
  then show ?case using freeze_inv_cong [of op2 op'] own(1) by (simp add: same_plan_def)
next
  case (2 c)
  have inv: "fleet_inv fl" using assms(2) by (simp add: handoff_inv_stage)
  note fr = foreign_frame [OF 2(2,3) inv]
  then show ?case using assms(3) 2(1) by (simp add: freeze_inv_def granted_def)
qed

lemma handoff_run_freeze:
  assumes "(handoff H http)\<^sup>*\<^sup>* (op, fl) (op', fl')" "handoff_inv H op fl" "freeze_inv H s0 op fl"
  shows "freeze_inv H s0 op' fl'"
  using assms
proof (induction "(op', fl')" arbitrary: op' fl')
  case base
  then show ?case by simp
next
  case (step st)
  obtain op1 fl1 where st: "st = (op1, fl1)" by (cases st)
  have "freeze_inv H s0 op1 fl1" using step.hyps(3) [OF st] step.prems by blast
  moreover have "handoff_inv H op1 fl1" using handoff_run_inv [OF step.hyps(1) [unfolded st] step.prems(1)] by blast
  ultimately show ?case using handoff_step_freeze [OF step.hyps(2) [unfolded st]] by blast
qed

text \<open>A shop makes an order when it holds a live reservation of it.\<close>

definition makes :: "seat option \<Rightarrow> bool" where
  "makes s \<longleftrightarrow> (\<exists>x. s = Some x \<and> seat_phase x \<in> {Reserved, Preparing, Ready})"

lemma makes_simps:
  "source_is op fl Frozen \<Longrightarrow> \<not> makes (source_seat op fl)" "source_is op fl Released \<Longrightarrow> \<not> makes (source_seat op fl)"
  "target_is op fl Held \<Longrightarrow> \<not> makes (target_seat op fl)" "target_is op fl Aborted \<Longrightarrow> \<not> makes (target_seat op fl)"
  "target_free op fl \<Longrightarrow> \<not> makes (target_seat op fl)"
  by (auto simp: makes_def source_is_def target_is_def target_free_def terminal_def TERMINAL_PHASES_def)

lemma phase_inv_makes: "phase_inv H op fl ph \<Longrightarrow> \<not> (makes (source_seat op fl) \<and> makes (target_seat op fl))"
  by (cases "(H, op, fl, ph)" rule: phase_inv.cases) (auto dest: makes_simps)

text \<open>C23. While an order moves between two shops, whatever replies, losses, retries, expiries and
  other customers' commands happen, there is no moment at which both shops hold a live
  reservation of it: at most one shop makes the drink.\<close>

theorem never_two_makers:
  assumes "handoff_start op (run (fleet_step H) empty_fleet before)"
    and "(handoff H http)\<^sup>*\<^sup>* (op, run (fleet_step H) empty_fleet before) (op', fl)"
  shows "\<not> (makes (source_seat op fl) \<and> makes (target_seat op fl))"
proof -
  have i: "handoff_inv H op' fl" and sp: "same_plan op op'"
    using handoff_run_inv [OF assms(2)] handoff_start_inv [OF fleet_runs.run_inv [OF empty_fleet_inv] assms(1)] by blast+
  then have "\<not> (makes (source_seat op' fl) \<and> makes (target_seat op' fl))"
    using phase_inv_makes [of H op' fl] unfolding handoff_inv_def rejected_inv_def
    by (cases "op_status op'") (auto dest: makes_simps simp del: phase_inv.simps)
  then show ?thesis by (simp add: same_plan_simps [OF sp])
qed

text \<open>C24. How a replacement ends. Completed, it was committed, the source seat is released and the
  target holds the reservation of the new generation. Rejected, it was not committed and the
  target holds nothing of this attempt; at the source, either the freeze was refused and the seat is
  exactly what it was when the operation was opened, or the reservation the freeze took away is
  back. In particular a shop that was making the order before a rejected replacement still is.\<close>

theorem handoff_outcome:
  assumes "handoff_start op (run (fleet_step H) empty_fleet before)"
    and "(handoff H http)\<^sup>*\<^sup>* (op, run (fleet_step H) empty_fleet before) (op', fl)"
  shows "(op_status op' = COMPLETED \<longrightarrow> op_decision op' = COMMIT \<and> source_is op fl Released \<and> target_is op fl Reserved) \<and>
    (op_status op' = REJECTED \<longrightarrow> op_decision op' \<noteq> COMMIT \<and>
      (denied H op fl FREEZE \<and> source_seat op fl = source_seat op (run (fleet_step H) empty_fleet before) \<and> target_free op fl
       \<or> source_is op fl Reserved \<and> target_is op fl Aborted) \<and>
      (makes (source_seat op (run (fleet_step H) empty_fleet before)) \<longrightarrow> makes (source_seat op fl)))"
proof -
  let ?fl = "run (fleet_step H) empty_fleet before"
  have i0: "handoff_inv H op ?fl" by (rule handoff_start_inv [OF fleet_runs.run_inv [OF empty_fleet_inv] assms(1)])
  have i: "handoff_inv H op' fl" and sp: "same_plan op op'" using handoff_run_inv [OF assms(2) i0] by blast+
  have "freeze_inv H (source_seat op ?fl) op ?fl" using assms(1) by (simp add: freeze_inv_def handoff_start_def)
  then have f: "freeze_inv H (source_seat op ?fl) op' fl" by (rule handoff_run_freeze [OF assms(2) i0])
  have d: "source_seat op fl = source_seat op ?fl" if "denied H op fl FREEZE"
    using f that receipt_cases(3) [of H op fl FREEZE] by (auto simp: freeze_inv_def same_plan_preds [OF sp] same_plan_simps [OF sp])
  have m: "source_is op fl Reserved \<Longrightarrow> makes (source_seat op fl)" by (auto simp: source_is_def makes_def)
  show ?thesis using i d m by (auto simp: handoff_inv_def rejected_inv_def same_plan_preds [OF sp])
qed

section \<open>The coordinator takes handoff steps\<close>

definition row_ok :: "coordinator \<Rightarrow> string \<Rightarrow> operation \<Rightarrow> bool" where
  "row_ok co oid op \<longleftrightarrow> load_op co oid = Inr op \<and> op_id op = oid"

lemma expire_undecided_alt:
  "expire_undecided now op = (let op1 = (if op_action op \<notin> set REPLACEMENTS \<or> op_decision op \<noteq> UNDECIDED \<or> now < sc_deadline_at (recovery_of now op)
     then op else expired op) in op1\<lparr>op_recovery := Some (recovery_of now op)\<rparr>)"
  by (auto simp: expire_undecided_def expired_def Let_def)

text \<open>What one iteration hands to the phase.\<close>

definition prepared :: "bool \<Rightarrow> bool \<Rightarrow> rat \<Rightarrow> operation \<Rightarrow> operation" where
  "prepared automatic first tick op =
    (let op = (if op_recovery op = None then op\<lparr>op_recovery := Some ((initial_schedule tick)\<lparr>sc_next_retry_at := Some tick\<rparr>)\<rparr> else op);
         r = recovery_of tick op;
         op = (if first \<and> \<not> automatic \<and> sc_state r = REVIEW_REQUIRED
               then op\<lparr>op_recovery := Some (r\<lparr>sc_state := SCHEDULED, sc_retry_count := 0\<rparr>)\<rparr> else op);
         op = expire_undecided tick op
     in op\<lparr>op_attempts := op_attempts op + 1\<rparr>)"

lemma prepared_cases:
  obtains op1 r k where "prepared automatic first tick op = op1\<lparr>op_recovery := r, op_attempts := k\<rparr>"
    "op1 = op \<or> op_decision op = UNDECIDED \<and> op1 = expired op"
proof -
  define op0 where "op0 = (let op = (if op_recovery op = None then op\<lparr>op_recovery := Some ((initial_schedule tick)\<lparr>sc_next_retry_at := Some tick\<rparr>)\<rparr> else op);
         r = recovery_of tick op in (if first \<and> \<not> automatic \<and> sc_state r = REVIEW_REQUIRED
               then op\<lparr>op_recovery := Some (r\<lparr>sc_state := SCHEDULED, sc_retry_count := 0\<rparr>)\<rparr> else op))"
  obtain r0 where o: "op0 = op\<lparr>op_recovery := r0\<rparr>"
  proof
    show "op0 = op\<lparr>op_recovery := op_recovery op0\<rparr>" by (simp add: op0_def Let_def)
  qed
  have p: "prepared automatic first tick op = (expire_undecided tick op0)\<lparr>op_attempts := op_attempts (expire_undecided tick op0) + 1\<rparr>"
    by (simp add: prepared_def op0_def Let_def)
  have e: "expired (op\<lparr>op_recovery := r0\<rparr>) = (expired op)\<lparr>op_recovery := r0\<rparr>" by (simp add: expired_def)
  show ?thesis
  proof (cases "op_action op \<notin> set REPLACEMENTS \<or> op_decision op \<noteq> UNDECIDED \<or> tick < sc_deadline_at (recovery_of tick op0)")
    case True
    then show ?thesis using that [of "op_attempts (expire_undecided tick op0) + 1" "Some (recovery_of tick op0)" op]
      by (simp add: p expire_undecided_alt Let_def o)
  next
    case False
    then show ?thesis using that [of "op_attempts (expire_undecided tick op0) + 1" "Some (recovery_of tick op0)" "expired op"]
      by (simp add: p expire_undecided_alt Let_def o e)
  qed
qed

lemma resume_tick_cases:
  assumes t: "resume_tick H http automatic first tick n sid oid (co, fl) = Inr (res, co', fl')"
    and l: "load_op co oid = Inr op" and s: "load co sid = Inr s"
  obtains (shown) "res = Some s" "co' = co" "fl' = fl"
      "op_status op \<noteq> PENDING \<or> first \<and> automatic"
  | (stepped) pause op2 where "op_status op = PENDING" "jo_active s = Some oid" "step H http n fl (prepared automatic first tick op) = Inr (pause, op2, fl')"
      "co' = save (journey_after s (after_step tick pause op2)) (save_op (after_step tick pause op2) co)"
      "res = (if pause \<or> op_status op2 \<noteq> PENDING then Some (journey_after s (after_step tick pause op2)) else None)"
proof (cases "op_status op \<noteq> PENDING")
  case True
  then show ?thesis using t l s shown by (simp add: resume_tick_def ensure_def split: if_splits)
next
  case False
  have st: "op_status (after_step tick pause op2) = op_status op2" for pause op2 by (simp add: after_step_def Let_def)
  show ?thesis
    using t False l s shown stepped
    by (auto simp: resume_tick_def prepared_def Let_def ensure_def st split: if_splits sum.splits prod.splits)
qed

lemma on_reply_id: "on_reply http op ph r = (pause, op2) \<Longrightarrow> op_id op2 = op_id op"
  by (auto simp: on_reply_def Let_def add_history_def split: if_splits)

lemma step_id: "step H http n fl op = Inr (pause, op2, fl') \<Longrightarrow> op_id op2 = op_id op"
  by (cases "call_merchant H n fl op (op_phase op)")
    (auto simp: step_def add_history_def split: if_splits option.splits prod.splits dest: on_reply_id)

text \<open>C22. The phase-by-phase coordinator refines the handoff relation: one iteration of \<open>resume\<close>
  either leaves the operation and the merchants as they were or is exactly one handoff step of
  them, and the stored record of no other operation changes.\<close>

theorem resume_refines_handoff:
  assumes t: "resume_tick H http automatic first tick n sid oid (co, fl) = Inr (res, co', fl')"
    and row: "row_ok co oid op"
  shows "\<exists>op'. row_ok co' oid op' \<and> ((op', fl') = (op, fl) \<or> handoff H http (op, fl) (op', fl')) \<and>
    (\<forall>oid'. oid' \<noteq> oid \<longrightarrow> load_op co' oid' = load_op co oid')"
proof -
  have l: "load_op co oid = Inr op" and i: "op_id op = oid" using row by (simp_all add: row_ok_def)
  obtain s where s: "load co sid = Inr s" using t by (cases "load co sid") (simp_all add: resume_tick_def)
  from t l s show ?thesis
  proof (cases rule: resume_tick_cases)
    case shown
    then show ?thesis using row by blast
  next
    case (stepped pause op2)
    obtain op1 r k where p: "prepared automatic first tick op = op1\<lparr>op_recovery := r, op_attempts := k\<rparr>"
      "op1 = op \<or> op_decision op = UNDECIDED \<and> op1 = expired op" by (rule prepared_cases)
    obtain r' where a: "after_step tick pause op2 = op2\<lparr>op_recovery := r'\<rparr>" by (simp add: after_step_def Let_def)
    have h: "handoff H http (op, fl) (op2\<lparr>op_recovery := r'\<rparr>, fl')"
      by (rule handoff.own [OF stepped(1) p(2) stepped(3) [unfolded p(1)]])
    have "op_id op2 = oid" using step_id [OF stepped(3)] p(2) i by (auto simp: p(1) expired_def)
    then have "row_ok co' oid (op2\<lparr>op_recovery := r'\<rparr>) \<and> (\<forall>oid'. oid' \<noteq> oid \<longrightarrow> load_op co' oid' = load_op co oid')"
      using l stepped(4) by (simp add: row_ok_def a load_op_save_op)
    then show ?thesis using h by blast
  qed
qed

section \<open>A working network ends the operation\<close>

fun phases_left :: "op_phase \<Rightarrow> nat" where
  "phases_left (At_Merchant FREEZE) = 6"
| "phases_left (At_Merchant HOLD) = 5"
| "phases_left DECIDE = 4"
| "phases_left (At_Merchant RELEASE_SOURCE) = 3"
| "phases_left (At_Merchant ACTIVATE) = 2"
| "phases_left (At_Merchant ABORT_TARGET) = 2"
| "phases_left _ = 1"

lemma phases_left_le: "phases_left ph \<le> 6"
  by (cases ph rule: phases_left.cases) simp_all

lemma prepared_inv:
  assumes "handoff_inv H op fl" "op_status op = PENDING"
  shows "handoff_inv H (prepared automatic first tick op) fl" "op_status (prepared automatic first tick op) = PENDING"
    "phases_left (op_phase (prepared automatic first tick op)) \<le> phases_left (op_phase op)"
proof -
  obtain op1 r k where p: "prepared automatic first tick op = op1\<lparr>op_recovery := r, op_attempts := k\<rparr>"
    "op1 = op \<or> op_decision op = UNDECIDED \<and> op1 = expired op" by (rule prepared_cases)
  have sp: "same_plan op op1 \<and> stage_inv H op1 fl \<and> op_status op1 = PENDING"
    using p(2) assms expired_stage [of H op fl] by (auto simp: handoff_inv_stage expired_def)
  let ?p = "op1\<lparr>op_recovery := r, op_attempts := k\<rparr>"
  have "same_plan op ?p" using sp by (simp add: same_plan_def)
  then have "replacement ?p" using same_plan_preds(7) [of op ?p] assms(1) by (simp add: handoff_inv_stage)
  moreover have "stage_inv H ?p fl" using sp stage_inv_cong [of op1 ?p H fl] by (simp add: same_plan_def)
  ultimately show "handoff_inv H (prepared automatic first tick op) fl" using assms(1) by (simp add: p(1) handoff_inv_stage)
  show "op_status (prepared automatic first tick op) = PENDING" using sp by (simp add: p(1))
  show "phases_left (op_phase (prepared automatic first tick op)) \<le> phases_left (op_phase op)"
    using p(2) by (auto simp: p(1) expired_def)
qed

lemma known_shop_answers: "map_of CAPACITY shop \<noteq> None \<Longrightarrow> \<exists>r fl'. fleet_execute H fl shop key p = Inr (r, fl')"
  by (auto simp: fleet_execute_def split: option.split prod.split)

lemma step_progress:
  assumes inv: "handoff_inv H op fl" and st: "op_status op = PENDING"
  obtains op2 fl' where "step H True Reply fl op = Inr (False, op2, fl')"
    "op_status op2 \<noteq> PENDING \<or> phases_left (op_phase op2) < phases_left (op_phase op)"
proof -
  have ph: "phase_inv H op fl (op_phase op)" using inv st by (simp add: handoff_inv_def)
  have rep: "replacement op" and fi: "fleet_inv fl" using inv by (simp_all add: handoff_inv_def)
  consider (final) "op_phase op = FINALIZE" | (decide) "op_phase op = DECIDE" | (call) a where "op_phase op = At_Merchant a"
    using ph by (cases "(H, op, fl, op_phase op)" rule: phase_inv.cases) auto
  then show ?thesis
  proof cases
    case (call a)
    let ?x = "fleet_execute H fl (request_shop op (At_Merchant a)) (request_key op (At_Merchant a)) (request_payload op (At_Merchant a))"
    have req: "merchant_request op (At_Merchant a) = (request_shop op (At_Merchant a), request_key op (At_Merchant a), request_payload op (At_Merchant a))"
      by (simp add: request_shop_def request_key_def request_payload_def)
    have a: "a \<in> set saga_actions" using ph call phase_inv_saga by simp
    have "map_of CAPACITY (request_shop op (At_Merchant a)) \<noteq> None" using rep by (simp add: request_simps replacement_def)
    then obtain r fl' where x: "?x = Inr (r, fl')" using known_shop_answers by blast
    have k: "phase_inv H op fl' (At_Merchant a)" "a \<notin> {FREEZE, HOLD} \<longrightarrow> result_ok r"
      using call_keeps [of fl op a H r fl'] fi rep a x ph by (simp_all add: call)
    have act: "op_action op \<in> set REPLACEMENTS" "\<not> is_control (op_action op)" using rep by (auto simp: replacement_def is_control_def REPLACEMENTS_def)
    have r: "fst (on_reply True op (At_Merchant a) r) = False"
      "op_status (snd (on_reply True op (At_Merchant a) r)) \<noteq> PENDING \<or>
       phases_left (op_phase (snd (on_reply True op (At_Merchant a) r))) < phases_left (op_phase op)"
      using a k act by (auto simp: on_reply_def Let_def call saga_actions_def add_history_def phase_after_ok_def)
    have "step H True Reply fl op = Inr (fst (on_reply True op (At_Merchant a) r), snd (on_reply True op (At_Merchant a) r), fl')"
      using x by (simp add: step_def call call_merchant_def req split: prod.split)
    then show ?thesis using that r by metis
  qed (use that in \<open>auto simp: step_def add_history_def\<close>)
qed

lemma load_op_Inr_status: "row_ok co oid op \<Longrightarrow> load_op co oid = Inr op"
  by (simp add: row_ok_def)

lemma resume_tick_steps:
  assumes "load co sid = Inr s" "load_op co oid = Inr op" "op_sid op = sid" "op_status op = PENDING" "jo_active s = Some oid"
    and "step H http n fl (prepared False first tick op) = Inr (pause, op2, fl')"
  shows "resume_tick H http False first tick n sid oid (co, fl) =
    Inr (if pause \<or> op_status op2 \<noteq> PENDING then Some (journey_after s (after_step tick pause op2)) else None,
         save (journey_after s (after_step tick pause op2)) (save_op (after_step tick pause op2) co), fl')"
proof -
  have st: "op_status (after_step tick pause op2) = op_status op2" by (simp add: after_step_def Let_def)
  show ?thesis using assms unfolding resume_tick_def prepared_def Let_def by (simp add: ensure_def st split: if_splits)
qed

lemma load_save: "load (save s co) sid = (if sid = tr_id s then Inr s else load co sid)"
  by (simp add: load_def save_def)

lemma load_save_op [simp]: "load (save_op op co) sid = load co sid"
  by (simp add: load_def save_op_def split: option.split)

lemma step_sid: "step H http n fl op = Inr (pause, op2, fl') \<Longrightarrow> op_sid op2 = op_sid op \<and> op_candidate op2 = op_candidate op"
proof -
  assume s: "step H http n fl op = Inr (pause, op2, fl')"
  have "on_reply http op ph r = (pause, op2) \<Longrightarrow> op_sid op2 = op_sid op \<and> op_candidate op2 = op_candidate op" for ph r
    by (auto simp: on_reply_def Let_def add_history_def split: if_splits)
  with s show ?thesis by (cases "call_merchant H n fl op (op_phase op)")
    (auto simp: step_def add_history_def split: if_splits option.splits prod.splits)
qed

lemma prepared_keeps: "op_sid (prepared automatic first tick op) = op_sid op" "op_candidate (prepared automatic first tick op) = op_candidate op"
  "op_id (prepared automatic first tick op) = op_id op"
  by (simp_all add: prepared_def expire_undecided_def Let_def)

lemma loop_finishes:
  assumes "handoff_inv H op fl" "row_ok co oid op" "op_sid op = sid" "op_status op = PENDING"
    and "load co sid = Inr s" "tr_id s = sid" "jo_active s = Some oid"
    and "\<forall>x \<in> set env. snd x = Reply" "phases_left (op_phase op) \<le> length env"
  shows "\<exists>s' co' fl' op2. resume_loop H True False first env sid oid (co, fl) = (Inr s', co', fl') \<and> row_ok co' oid op2 \<and>
    op_status op2 \<noteq> PENDING \<and> jo_active s' = None \<and> (handoff H True)\<^sup>*\<^sup>* (op, fl) (op2, fl')"
  using assms
proof (induction env arbitrary: op fl co s first)
  case Nil
  then show ?case by (cases "op_phase op" rule: phases_left.cases) simp_all
next
  case (Cons x env)
  obtain tick where x: "x = (tick, Reply)" using Cons.prems(8) by (cases x) simp
  let ?p = "prepared False first tick op"
  have pi: "handoff_inv H ?p fl" "op_status ?p = PENDING" "phases_left (op_phase ?p) \<le> phases_left (op_phase op)"
    using prepared_inv [OF Cons.prems(1,4)] by blast+
  obtain op2 fl' where s2: "step H True Reply fl ?p = Inr (False, op2, fl')"
    and prog: "op_status op2 \<noteq> PENDING \<or> phases_left (op_phase op2) < phases_left (op_phase ?p)"
    using step_progress [OF pi(1,2)] by blast
  let ?o = "after_step tick False op2"
  obtain r' where a: "?o = op2\<lparr>op_recovery := r'\<rparr>" by (simp add: after_step_def Let_def)
  let ?s = "journey_after s ?o" and ?co = "save (journey_after s ?o) (save_op ?o co)"
  have t: "resume_tick H True False first tick Reply sid oid (co, fl) = Inr (if op_status op2 \<noteq> PENDING then Some ?s else None, ?co, fl')"
    using resume_tick_steps [OF Cons.prems(5) load_op_Inr_status [OF Cons.prems(2)] Cons.prems(3,4,7) s2] by simp
  obtain op1 r k where p: "?p = op1\<lparr>op_recovery := r, op_attempts := k\<rparr>"
    "op1 = op \<or> op_decision op = UNDECIDED \<and> op1 = expired op" by (rule prepared_cases)
  have h: "handoff H True (op, fl) (?o, fl')" unfolding a
    by (rule handoff.own [OF Cons.prems(4) p(2) s2 [unfolded p(1)]])
  have id: "op_id ?o = oid" "op_sid ?o = sid"
    using step_id [OF s2] step_sid [OF s2] Cons.prems(2,3) by (simp_all add: a prepared_keeps row_ok_def)
  have row: "row_ok ?co oid ?o"
    using load_op_save_op [of co ?o op] id Cons.prems(2) by (simp add: row_ok_def)
  show ?case
  proof (cases "op_status op2 = PENDING")
    case False
    have "jo_active ?s = None" using False by (simp add: journey_after_def Let_def a)
    then show ?thesis using t False row h by (auto simp: x a)
  next
    case True
    have s': "tr_id ?s = sid" "jo_active ?s = Some oid" using True Cons.prems(6,7) by (simp_all add: journey_after_def Let_def a)
    have inv: "handoff_inv H ?o fl'" using handoff_step_inv [OF h Cons.prems(1)] by blast
    have "\<exists>s' co' fl'' op3. resume_loop H True False False env sid oid (?co, fl') = (Inr s', co', fl'') \<and> row_ok co' oid op3 \<and>
      op_status op3 \<noteq> PENDING \<and> jo_active s' = None \<and> (handoff H True)\<^sup>*\<^sup>* (?o, fl') (op3, fl'')"
    proof (rule Cons.IH [OF inv row id(2)])
      show "op_status ?o = PENDING" using True by (simp add: a)
      show "load ?co sid = Inr ?s" using s' by (simp add: load_save)
      show "phases_left (op_phase ?o) \<le> length env" using prog True pi(3) Cons.prems(9) by (simp add: a)
    qed (use s' Cons.prems(8) in auto)
    then obtain s' co' fl'' op3 where rest: "resume_loop H True False False env sid oid (?co, fl') = (Inr s', co', fl'')" "row_ok co' oid op3"
      "op_status op3 \<noteq> PENDING" "jo_active s' = None" "(handoff H True)\<^sup>*\<^sup>* (?o, fl') (op3, fl'')" by blast
    have "(handoff H True)\<^sup>*\<^sup>* (op, fl) (op3, fl'')" using converse_rtranclp_into_rtranclp [of "handoff H True", OF h rest(5)] .
    moreover have "resume_loop H True False first (x # env) sid oid (co, fl) = (Inr s', co', fl'')" using t True rest(1) by (simp add: x)
    ultimately show ?thesis using rest(2-4) by blast
  qed
qed

lemma resume_row: "row_ok co oid op \<Longrightarrow>
    resume H http automatic env sid oid (co, fl) = resume_loop H http automatic True (map env [0..<12]) sid oid (co, fl)"
  by (simp add: resume_def row_ok_def)

text \<open>C25. However much went wrong so far (lost calls, lost replies, expiries, other traffic), one
  call of \<open>resume\<close> over a network that answers carries a pending replacement to its end: it
  is completed or rejected within the twelve phases of the call, and the journey is free again.\<close>

theorem resume_finishes:
  assumes "handoff_start op0 (run (fleet_step H) empty_fleet before)"
    and "(handoff H True)\<^sup>*\<^sup>* (op0, run (fleet_step H) empty_fleet before) (op, fl)"
    and "row_ok co oid op" "op_sid op = sid" "op_status op = PENDING"
    and "load co sid = Inr s" "tr_id s = sid" "jo_active s = Some oid" and "\<forall>i < 12. snd (env i) = Reply"
  shows "\<exists>s' co' fl' op2. resume H True False env sid oid (co, fl) = (Inr s', co', fl') \<and> row_ok co' oid op2 \<and>
    op_status op2 \<noteq> PENDING \<and> jo_active s' = None \<and> (handoff H True)\<^sup>*\<^sup>* (op, fl) (op2, fl')"
  unfolding resume_row [OF assms(3)]
proof (rule loop_finishes [OF _ assms(3-8)])
  show "handoff_inv H op fl"
    using handoff_run_inv [OF assms(2)] handoff_start_inv [OF fleet_runs.run_inv [OF empty_fleet_inv] assms(1)] by blast
  show "phases_left (op_phase op) \<le> length (map env [0..<12])" using phases_left_le [of "op_phase op"] by simp
qed (use assms(9) in auto)

section \<open>Witnesses\<close>

definition sample_before :: "fleet_command list" where
  "sample_before = [Execute ''oat'' ''r'' \<lparr>mp_world = ''w'', mp_order = ''o'', mp_generation = 0, mp_action = ADMIT, mp_transfer = [], mp_reject = False\<rparr>]"

definition sample_transfer :: operation where
  "sample_transfer = \<lparr>op_id = ''t'', op_sid = ''j'', op_action = A_transfer, op_phase = At_Merchant FREEZE, op_status = PENDING,
     op_decision = UNDECIDED, op_failure = None, op_history = [], op_source = Some ''oat'', op_target = ''garden'',
     op_attempts = 0, op_fault = No_Fault, op_fault_consumed = False, op_candidate = sample_journey_start, op_world = ''w'',
     op_order = ''o'', op_source_order = Some ''o'', op_before_generation = 0, op_generation = 1, op_guests = [],
     op_guest_index = 0, op_recovery = Some (initial_schedule 0), op_payment = None\<rparr>"

definition sample_active :: journey where
  "sample_active = sample_journey_start\<lparr>jo_active := Some ''t''\<rparr>"

definition sample_coordinator :: coordinator where
  "sample_coordinator = \<lparr>co_journeys = [(''j'', sample_active)], co_commands = [], co_controls = [],
     co_operations = [(''t'', \<lparr>row_request = ''q'', row_fingerprint = ''f'', row_op = sample_transfer\<rparr>)]\<rparr>"

abbreviation sample_fleet :: fleet where
  "sample_fleet \<equiv> run (fleet_step sample_digest) empty_fleet sample_before"

lemma sample_handoff_start: "handoff_start sample_transfer sample_fleet"
proof -
  have u: "unsent sample_transfer sample_fleet saga_actions" by code_simp
  have f: "target_seat sample_transfer sample_fleet = None" by code_simp
  have r: "replacement sample_transfer" by code_simp
  show ?thesis unfolding handoff_start_def
    using u r by (simp add: target_free_def f) (simp add: sample_transfer_def)
qed

lemma sample_row: "row_ok sample_coordinator ''t'' sample_transfer"
  "load sample_coordinator ''j'' = Inr sample_active" "tr_id sample_active = ''j''" "jo_active sample_active = Some ''t''"
  "op_sid sample_transfer = ''j''" "op_status sample_transfer = PENDING"
  by (simp_all add: row_ok_def load_op_def load_def sample_coordinator_def sample_transfer_def sample_active_def sample_journey_start_def
      new_state_def Let_def add_event_def)

theorem resume_finishes_witness:
  "\<exists>s' co' fl' op2. resume sample_digest True False (\<lambda>_. (0, Reply)) ''j'' ''t'' (sample_coordinator, sample_fleet) = (Inr s', co', fl') \<and>
    row_ok co' ''t'' op2 \<and> op_status op2 \<noteq> PENDING \<and> jo_active s' = None \<and>
    (handoff sample_digest True)\<^sup>*\<^sup>* (sample_transfer, sample_fleet) (op2, fl')"
  by (rule resume_finishes [OF sample_handoff_start rtranclp.rtrancl_refl sample_row(1,5,6,2,3,4)]) simp

lemma sample_run:
  obtains s' co' fl' op where "resume sample_digest True False (\<lambda>_. (0, Reply)) ''j'' ''t'' (sample_coordinator, sample_fleet) = (Inr s', co', fl')"
    "row_ok co' ''t'' op" "op_status op \<noteq> PENDING" "(handoff sample_digest True)\<^sup>*\<^sup>* (sample_transfer, sample_fleet) (op, fl')"
proof -
  have len: "phases_left (op_phase sample_transfer) \<le> length (map (\<lambda>_. (0::rat, Reply)) [0..<12])"
    using phases_left_le [of "op_phase sample_transfer"] by simp
  show ?thesis
    using loop_finishes [OF handoff_start_inv [OF fleet_runs.run_inv [OF empty_fleet_inv] sample_handoff_start, where H = sample_digest]
        sample_row(1,5,6,2,3,4) _ len, where first = True] that
    by (auto simp: resume_row [OF sample_row(1)])
qed

theorem never_two_makers_witness:
  "\<exists>op fl. (handoff sample_digest True)\<^sup>*\<^sup>* (sample_transfer, sample_fleet) (op, fl) \<and> op_status op \<noteq> PENDING \<and>
    \<not> (makes (source_seat sample_transfer fl) \<and> makes (target_seat sample_transfer fl))"
proof -
  obtain op fl where r: "op_status op \<noteq> PENDING" "(handoff sample_digest True)\<^sup>*\<^sup>* (sample_transfer, sample_fleet) (op, fl)"
    by (rule sample_run)
  then show ?thesis using never_two_makers [OF sample_handoff_start r(2)] by blast
qed

text \<open>The run of the sample operation over an answering network, and where it ends.\<close>

lemma sample_completes:
  "map_sum id op_status (load_op (fst (snd (resume sample_digest True False (\<lambda>_. (0, Reply)) ''j'' ''t'' (sample_coordinator, sample_fleet)))) ''t'')
    = Inr COMPLETED"
  by code_simp

text \<open>And a refused freeze: the source never had the order (an empty fleet), so the shop refuses,
  the operation is rejected and the seat is what it was.\<close>

lemma sample_refused_start: "handoff_start sample_transfer (run (fleet_step sample_digest) empty_fleet [])"
proof -
  have u: "unsent sample_transfer empty_fleet saga_actions" by code_simp
  have f: "target_seat sample_transfer empty_fleet = None" by code_simp
  have r: "replacement sample_transfer" by code_simp
  show ?thesis unfolding handoff_start_def
    using u r by (simp add: target_free_def f) (simp add: sample_transfer_def)
qed

lemma sample_refused:
  obtains op fl where "handoff sample_digest True (sample_transfer, empty_fleet) (op, fl)" "op_status op = REJECTED"
proof -
  have "case step sample_digest True Reply empty_fleet (sample_transfer\<lparr>op_recovery := None, op_attempts := 1\<rparr>) of
      Inr (pause, op2, fl') \<Rightarrow> op_status op2 = REJECTED | _ \<Rightarrow> False" by code_simp
  then obtain pause op2 fl' where s: "step sample_digest True Reply empty_fleet (sample_transfer\<lparr>op_recovery := None, op_attempts := 1\<rparr>) =
      Inr (pause, op2, fl')" "op_status op2 = REJECTED" by (auto split: sum.splits)
  have p: "op_status sample_transfer = PENDING" by (simp add: sample_transfer_def)
  show ?thesis
    by (rule that [of "op2\<lparr>op_recovery := None\<rparr>" fl']) (use handoff.own [OF p disjI1 [OF refl] s(1)] s(2) in auto)
qed

theorem handoff_outcome_witness:
  "(\<exists>op fl. (handoff sample_digest True)\<^sup>*\<^sup>* (sample_transfer, sample_fleet) (op, fl) \<and> op_status op = COMPLETED \<and>
    op_decision op = COMMIT \<and> source_is sample_transfer fl Released \<and> target_is sample_transfer fl Reserved) \<and>
   (\<exists>op fl. (handoff sample_digest True)\<^sup>*\<^sup>* (sample_transfer, run (fleet_step sample_digest) empty_fleet []) (op, fl) \<and>
    op_status op = REJECTED \<and> op_decision op \<noteq> COMMIT)"
proof
  obtain s' co' fl' op2 where r: "resume sample_digest True False (\<lambda>_. (0, Reply)) ''j'' ''t'' (sample_coordinator, sample_fleet) = (Inr s', co', fl')"
    "row_ok co' ''t'' op2" "op_status op2 \<noteq> PENDING" "(handoff sample_digest True)\<^sup>*\<^sup>* (sample_transfer, sample_fleet) (op2, fl')"
    by (rule sample_run)
  have "op_status op2 = COMPLETED" using sample_completes r(1,2) by (simp add: row_ok_def)
  then show "\<exists>op fl. (handoff sample_digest True)\<^sup>*\<^sup>* (sample_transfer, sample_fleet) (op, fl) \<and> op_status op = COMPLETED \<and>
    op_decision op = COMMIT \<and> source_is sample_transfer fl Released \<and> target_is sample_transfer fl Reserved"
    using handoff_outcome [OF sample_handoff_start r(4)] r(4) by blast
next
  obtain op fl where "handoff sample_digest True (sample_transfer, empty_fleet) (op, fl)" and rej: "op_status op = REJECTED"
    by (rule sample_refused)
  then have r: "(handoff sample_digest True)\<^sup>*\<^sup>* (sample_transfer, run (fleet_step sample_digest) empty_fleet []) (op, fl)" by auto
  then show "\<exists>op fl. (handoff sample_digest True)\<^sup>*\<^sup>* (sample_transfer, run (fleet_step sample_digest) empty_fleet []) (op, fl) \<and>
    op_status op = REJECTED \<and> op_decision op \<noteq> COMMIT"
    using handoff_outcome [OF sample_refused_start r] rej by blast
qed

theorem resume_refines_handoff_witness:
  "\<exists>res co' fl' op'. resume_tick sample_digest True False True 0 Reply ''j'' ''t'' (sample_coordinator, sample_fleet) = Inr (res, co', fl') \<and>
    row_ok co' ''t'' op' \<and> ((op', fl') = (sample_transfer, sample_fleet) \<or> handoff sample_digest True (sample_transfer, sample_fleet) (op', fl'))"
proof -
  have i: "handoff_inv sample_digest sample_transfer sample_fleet"
    by (rule handoff_start_inv [OF fleet_runs.run_inv [OF empty_fleet_inv] sample_handoff_start])
  obtain op2 fl' where s: "step sample_digest True Reply sample_fleet (prepared False True 0 sample_transfer) = Inr (False, op2, fl')"
    using step_progress [OF prepared_inv(1,2) [OF i sample_row(6)]] by blast
  obtain res co' where t: "resume_tick sample_digest True False True 0 Reply ''j'' ''t'' (sample_coordinator, sample_fleet) = Inr (res, co', fl')"
    using resume_tick_steps [OF sample_row(2) load_op_Inr_status [OF sample_row(1)] sample_row(5,6,4) s] by blast
  then show ?thesis using resume_refines_handoff [OF t sample_row(1)] by blast
qed

end
