(* ===== verification/Recovery.thy ===== *)
theory Recovery
  imports Handoff
begin

text \<open>
  The recovery worker and the command table: the schedule of automatic attempts is bounded, a
  pass of the worker accounts for every operation it selects, and the rows of the command
  table are only ever added to.
\<close>

section \<open>Bounded retries\<close>

lemma retry_delay_bounds: "1 \<le> n \<Longrightarrow> 3 \<le> retry_delay n \<and> retry_delay n \<le> 30"
  by (simp add: retry_delay_def RETRY_BASE_SECONDS_def RETRY_CAP_SECONDS_def)

text \<open>Failed attempts at the given times, one after the other.\<close>

definition attempts :: "rat list \<Rightarrow> operation \<Rightarrow> operation" where
  "attempts ts op = fold (\<lambda>t. after_step t True) ts op"

lemma after_step_fields:
  "op_status (after_step t p op) = op_status op" "op_action (after_step t p op) = op_action op" "op_id (after_step t p op) = op_id op"
  by (simp_all add: after_step_def Let_def)

lemma attempts_status [simp]: "op_status (attempts ts op) = op_status op"
  by (induction ts arbitrary: op) (simp_all add: attempts_def after_step_fields)

lemma attempts_recovery:
  assumes "op_status op = PENDING" "op_recovery op = Some (initial_schedule t0)"
  shows "\<exists>r. op_recovery (attempts ts op) = Some r \<and> sc_retry_count r = int (length ts)
     \<and> sc_state r = (if 8 \<le> length ts then REVIEW_REQUIRED else SCHEDULED)
     \<and> (ts \<noteq> [] \<longrightarrow> sc_next_retry_at r = Some (last ts + retry_delay (int (length ts))))"
proof (induction ts rule: rev_induct)
  case Nil
  then show ?case using assms(2) by (simp add: attempts_def initial_schedule_def)
next
  case (snoc t ts)
  have a: "attempts (ts @ [t]) op = after_step t True (attempts ts op)" by (simp add: attempts_def)
  show ?case using snoc assms(1)
    by (auto simp: a after_step_def Let_def recovery_of_def MAX_RETRY_FAILURES_def add.commute)
qed

text \<open>C26. Automatic recovery is bounded: after every failed attempt the next one is due after at
  least 3 and at most 30 seconds, and from the eighth failure on the worker does not select the
  operation at any time until somebody resumes it by hand.\<close>

theorem automatic_retries_bounded:
  assumes "op_status op = PENDING" "op_recovery op = Some (initial_schedule t0)" and "ts \<noteq> []"
  shows "last ts + 3 \<le> due_key (attempts ts op) \<and> due_key (attempts ts op) \<le> last ts + 30
    \<and> (8 \<le> length ts \<longrightarrow> (\<forall>now. \<not> is_due now (attempts ts op)))
    \<and> (length ts < 8 \<longrightarrow> is_due (last ts + 30) (attempts ts op))"
proof -
  obtain r where r: "op_recovery (attempts ts op) = Some r" "sc_state r = (if 8 \<le> length ts then REVIEW_REQUIRED else SCHEDULED)"
    "sc_next_retry_at r = Some (last ts + retry_delay (int (length ts)))"
    using attempts_recovery [OF assms(1,2), of ts] assms(3) by blast
  have "1 \<le> int (length ts)" using assms(3) by (cases ts) auto
  then show ?thesis using retry_delay_bounds [of "int (length ts)"] r assms(1) by (simp add: due_key_def is_due_def)
qed

section \<open>The worker\<close>

lemma run_rows_counts:
  "run_rows rs ops w st = (w', st') \<Longrightarrow>
    wr_attempted w' + wr_errors w' = wr_attempted w + wr_errors w + length ops \<and>
    wr_completed w' + wr_pending w' + wr_attempted w = wr_completed w + wr_pending w + wr_attempted w'"
proof (induction ops arbitrary: w st)
  case Nil
  then show ?case by simp
next
  case (Cons op ops)
  obtain x st1 where x: "rs op st = (x, st1)" by (cases "rs op st")
  show ?case
  proof (cases x)
    case (Inl e)
    then show ?thesis using Cons.IH [of "w\<lparr>wr_errors := wr_errors w + 1\<rparr>" st1] Cons.prems x by simp
  next
    case (Inr s)
    show ?thesis using Cons.IH [of "(let w = w\<lparr>wr_attempted := wr_attempted w + 1\<rparr>
          in if jo_active s \<noteq> None then w\<lparr>wr_pending := wr_pending w + 1\<rparr> else w\<lparr>wr_completed := wr_completed w + 1\<rparr>)" st1]
        Cons.prems x Inr by (simp add: Let_def split: if_splits)
  qed
qed

lemma due_operations_facts:
  "length (due_operations now limit co) \<le> limit" "op \<in> set (due_operations now limit co) \<Longrightarrow> is_due now op"
  by (auto simp: due_operations_def dest: in_set_takeD)

text \<open>One pass of the worker: an operation that raises is counted and does not stop the others.\<close>

lemma run_once_total:
  assumes "run_once rs now limit co st = Some (w, st')"
  shows "wr_attempted w + wr_errors w = length (due_operations now limit co)" "wr_completed w + wr_pending w = wr_attempted w"
    "length (due_operations now limit co) \<le> limit"
  using assms run_rows_counts [of rs "due_operations now limit co" "\<lparr>wr_attempted = 0, wr_completed = 0, wr_pending = 0, wr_errors = 0\<rparr>" st w st']
    due_operations_facts(1)
  by (auto simp: run_once_def split: if_splits)

section \<open>Repeated commands\<close>

text \<open>The rows without their operations: ids, journeys, request ids and fingerprints.\<close>

definition rows_of :: "coordinator \<Rightarrow> (string \<times> string \<times> string \<times> string) list" where
  "rows_of co = map (\<lambda>(oid, r). (oid, op_sid (row_op r), row_request r, row_fingerprint r)) (co_operations co)"

lemma rows_of_save [simp]: "rows_of (save s co) = rows_of co"
  by (simp add: rows_of_def save_def)

lemma rows_dput:
  "map_of d k = Some r \<Longrightarrow> op_sid (row_op r) = op_sid op \<Longrightarrow>
    map (\<lambda>(oid, r). (oid, op_sid (row_op r), row_request r, row_fingerprint r)) (dput k (r\<lparr>row_op := op\<rparr>) d) =
    map (\<lambda>(oid, r). (oid, op_sid (row_op r), row_request r, row_fingerprint r)) d"
  for d :: "(string \<times> op_row) list"
  by (induction d) (auto split: if_splits)

lemma rows_of_save_op:
  assumes "load_op co (op_id op) = Inr op0" "op_sid op = op_sid op0"
  shows "rows_of (save_op op co) = rows_of co"
  using assms rows_dput [of "co_operations co" "op_id op" _ op] by (auto simp: rows_of_def save_op_def load_op_def split: option.splits)

lemma find_rows:
  "map_option fst (List.find (\<lambda>(oid, r). op_sid (row_op r) = sid \<and> row_request r = q) d) =
     map_option fst (List.find (\<lambda>(oid, s, q', f). s = sid \<and> q' = q) (map (\<lambda>(oid, r). (oid, op_sid (row_op r), row_request r, row_fingerprint r)) d))"
  "map_option (row_fingerprint \<circ> snd) (List.find (\<lambda>(oid, r). op_sid (row_op r) = sid \<and> row_request r = q) d) =
     map_option (snd \<circ> snd \<circ> snd) (List.find (\<lambda>(oid, s, q', f). s = sid \<and> q' = q) (map (\<lambda>(oid, r). (oid, op_sid (row_op r), row_request r, row_fingerprint r)) d))"
  by (induction d) auto

lemma find_operation_rows:
  assumes "rows_of co' = rows_of co" "find_operation co sid q = Some (oid, row)"
  shows "\<exists>row'. find_operation co' sid q = Some (oid, row') \<and> row_fingerprint row' = row_fingerprint row"
proof -
  have "map_option fst (find_operation co' sid q) = map_option fst (find_operation co sid q)"
    "map_option (row_fingerprint \<circ> snd) (find_operation co' sid q) = map_option (row_fingerprint \<circ> snd) (find_operation co sid q)"
    using assms(1) unfolding find_operation_def rows_of_def find_rows by simp_all
  then show ?thesis using assms(2) by auto
qed

text \<open>Rows are stored under the ids of their operations.\<close>

definition keyed :: "coordinator \<Rightarrow> bool" where
  "keyed co \<longleftrightarrow> (\<forall>(oid, r) \<in> set (co_operations co). op_id (row_op r) = oid)"

lemma keyed_load: "keyed co \<Longrightarrow> load_op co oid = Inr op \<Longrightarrow> op_id op = oid"
  by (auto simp: keyed_def load_op_def dest!: map_of_SomeD split: option.splits)

lemma keyed_save [simp]: "keyed (save s co) = keyed co"
  by (simp add: keyed_def save_def)

lemma keyed_save_op: "keyed co \<Longrightarrow> keyed (save_op op co)"
  by (fastforce simp: keyed_def save_op_def dest: set_dputD split: option.split)

lemma resume_tick_rows:
  assumes t: "resume_tick H http automatic first tick n sid oid (co, fl) = Inr (res, co', fl')" and k: "keyed co"
  shows "rows_of co' = rows_of co \<and> keyed co'"
proof -
  obtain s where s: "load co sid = Inr s" using t by (cases "load co sid") (simp_all add: resume_tick_def)
  obtain op where l: "load_op co oid = Inr op" using t s by (cases "load_op co oid") (simp_all add: resume_tick_def)
  from t l s show ?thesis
  proof (cases rule: resume_tick_cases)
    case shown
    then show ?thesis using k by simp
  next
    case (stepped pause op2)
    have "op_id (after_step tick pause op2) = oid" "op_sid (after_step tick pause op2) = op_sid op"
      using step_id [OF stepped(3)] step_sid [OF stepped(3)] keyed_load [OF k l] by (simp_all add: prepared_keeps after_step_def Let_def)
    then show ?thesis using rows_of_save_op [of co "after_step tick pause op2" op] keyed_save_op k l stepped(4) by simp
  qed
qed

lemma resume_loop_rows:
  "resume_loop H http automatic first env sid oid (co, fl) = (r, co', fl') \<Longrightarrow> keyed co \<Longrightarrow> rows_of co' = rows_of co \<and> keyed co'"
proof (induction env arbitrary: first co fl)
  case (Cons x env)
  obtain tick n where x: "x = (tick, n)" by (cases x)
  show ?case
  proof (cases "resume_tick H http automatic first tick n sid oid (co, fl)")
    case (Inr y)
    obtain res co1 fl1 where y: "y = (res, co1, fl1)" by (cases y)
    have r: "rows_of co1 = rows_of co \<and> keyed co1" using resume_tick_rows Inr Cons.prems(2) by (simp add: y)
    then show ?thesis using Cons.prems(1) Cons.IH [of False co1 fl1] Inr by (cases res) (auto simp: x y)
  qed (use Cons.prems in \<open>auto simp: x\<close>)
qed simp

lemma command_opens:
  assumes "command_tx CH QH TH ids now sid c co = Inr (res, co')" "co_operations co' \<noteq> co_operations co"
  shows "\<exists>oid row. res = Resume_Op oid False \<and> co_operations co' = co_operations co @ [(oid, row)] \<and> row_request row = jc_request c
      \<and> row_fingerprint row = CH c \<and> op_id (row_op row) = oid \<and> op_sid (row_op row) = sid \<and> find_operation co sid (jc_request c) = None"
proof -
  obtain oid' order_id code where ids: "ids = (oid', order_id, code)" by (cases ids)
  obtain s where s: "load co sid = Inr s" using assms by (cases "load co sid") (simp_all add: command_tx_def ids)
  show ?thesis
    using assms s
    by (cases "apply_action QH TH order_id code c s")
      (auto simp: command_tx_def ids ensure_def Let_def new_operation_def save_def split: if_splits option.splits prod.splits)
qed

theorem automatic_retries_bounded_witness:
  "85 \<le> due_key (attempts [3, 6, 12, 24, 48, 60, 70, 82] sample_transfer)
    \<and> due_key (attempts [3, 6, 12, 24, 48, 60, 70, 82] sample_transfer) \<le> 112
    \<and> (\<forall>now. \<not> is_due now (attempts [3, 6, 12, 24, 48, 60, 70, 82] sample_transfer))"
  using automatic_retries_bounded [of sample_transfer 0 "[3, 6, 12, 24, 48, 60, 70, 82]"] by (simp add: sample_transfer_def)

end
