(* ===== verification/Payment_Domain.thy ===== *)
theory Payment_Domain
  imports Py_Values
begin

text \<open>
  \<open>payments/domain.py\<close>: the strict command format of the synthetic payment provider. A request
  arrives as a JSON value; \<open>validate\<close> accepts it or raises, and what it accepts is a
  \<open>pay_command\<close>. \<open>command_json\<close> is the dictionary of a command.
\<close>

section \<open>Commands\<close>

datatype pay_action = AUTHORIZE | CAPTURE | VOID

fun pay_action_name :: "pay_action \<Rightarrow> string" where
  "pay_action_name AUTHORIZE = ''AUTHORIZE''"
| "pay_action_name CAPTURE = ''CAPTURE''"
| "pay_action_name VOID = ''VOID''"

record pay_command =
  pc_action :: pay_action
  pc_world :: string
  pc_order :: string
  pc_key :: string
  pc_auth :: string
  pc_amount :: int
  pc_revision :: int
  pc_quote :: string
  pc_card :: "string option"

text \<open>
  \<open>PaymentError\<close> carries a code and an HTTP status. A set membership test of a list or a
  dictionary is a \<open>TypeError\<close>; bad options are a \<open>ValueError\<close>; a violated constraint
  of a table is an \<open>IntegrityError\<close>.
\<close>

datatype pay_error = Payment_Error string int | Type_Error | Value_Error | Integrity_Error

definition is_key_char :: "char \<Rightarrow> bool" where
  "is_key_char c = (let n = of_char c :: nat in
    48 \<le> n \<and> n \<le> 57 \<or> 65 \<le> n \<and> n \<le> 90 \<or> 97 \<le> n \<and> n \<le> 122 \<or> c \<in> set '':_-'')"

definition is_KEY :: "string \<Rightarrow> bool" where
  "is_KEY s \<longleftrightarrow> 1 \<le> length s \<and> length s \<le> 180 \<and> list_all is_key_char s"

definition is_hex_char :: "char \<Rightarrow> bool" where
  "is_hex_char c = (let n = of_char c :: nat in 48 \<le> n \<and> n \<le> 57 \<or> 97 \<le> n \<and> n \<le> 102)"

definition is_DIGEST :: "string \<Rightarrow> bool" where
  "is_DIGEST s \<longleftrightarrow> length s = 64 \<and> list_all is_hex_char s"

definition COMMON :: "string list" where
  "COMMON = [''action'', ''world_id'', ''order_id'', ''operation_key'', ''authorization_id'', ''amount_krw'',
     ''currency'', ''payment_revision'', ''quote_fingerprint'']"

definition test_cards :: "string list" where
  "test_cards = [''demo-approved'', ''demo-declined'']"

definition key :: "json \<Rightarrow> pay_error + string" where
  "key v = (case v of JStr s \<Rightarrow> if is_KEY s then Inr s else Inl (Payment_Error ''INVALID_IDENTIFIER'' 422)
     | _ \<Rightarrow> Inl (Payment_Error ''INVALID_IDENTIFIER'' 422))"

fun action_of :: "json \<Rightarrow> pay_action option" where
  "action_of (JStr s) = List.find (\<lambda>a. pay_action_name a = s) [AUTHORIZE, CAPTURE, VOID]"
| "action_of _ = None"

definition int_in :: "int \<Rightarrow> int \<Rightarrow> json \<Rightarrow> int option" where
  "int_in lo hi v = (case v of JInt n \<Rightarrow> if lo \<le> n \<and> n \<le> hi then Some n else None | _ \<Rightarrow> None)"

definition digest_of :: "json \<Rightarrow> string option" where
  "digest_of v = (case v of JStr s \<Rightarrow> if is_DIGEST s then Some s else None | _ \<Rightarrow> None)"

definition card_of :: "json \<Rightarrow> pay_error + string" where
  "card_of v = (if \<not> hashable v then Inl Type_Error
     else (case v of JStr s \<Rightarrow> if s \<in> set test_cards then Inr s else Inl (Payment_Error ''INVALID_TEST_CARD'' 422)
           | _ \<Rightarrow> Inl (Payment_Error ''INVALID_TEST_CARD'' 422)))"

definition require_some :: "'a option \<Rightarrow> string \<Rightarrow> pay_error + 'a" where
  "require_some x code = (case x of None \<Rightarrow> Inl (Payment_Error code 422) | Some y \<Rightarrow> Inr y)"

definition validate :: "json \<Rightarrow> pay_error + pay_command" where
  "validate v = (case v of
     JObj d \<Rightarrow>
       (if \<not> hashable (pget d ''action'') then Inl Type_Error
        else bind_ok (require_some (action_of (pget d ''action'')) ''INVALID_ACTION'') (\<lambda>a.
          ensure (set (map fst d) = set (COMMON @ (if a = AUTHORIZE then [''card_token''] else []))) (Payment_Error ''INVALID_FIELDS'' 422)
           (bind_ok (key (pget d ''world_id'')) (\<lambda>w. bind_ok (key (pget d ''order_id'')) (\<lambda>ord.
            bind_ok (key (pget d ''operation_key'')) (\<lambda>k. bind_ok (key (pget d ''authorization_id'')) (\<lambda>au.
            bind_ok (require_some (int_in 1 30000 (pget d ''amount_krw'')) ''INVALID_AMOUNT'') (\<lambda>amount.
            bind_ok (require_some (int_in 1 10000 (pget d ''payment_revision'')) ''INVALID_REVISION'') (\<lambda>rev.
            ensure (pget d ''currency'' = JStr ''KRW'') (Payment_Error ''INVALID_CURRENCY'' 422)
             (bind_ok (require_some (digest_of (pget d ''quote_fingerprint'')) ''INVALID_QUOTE'') (\<lambda>q.
              bind_ok (if has_key d ''card_token'' then map_sum id Some (card_of (pget d ''card_token'')) else Inr None) (\<lambda>tok.
              Inr \<lparr>pc_action = a, pc_world = w, pc_order = ord, pc_key = k, pc_auth = au, pc_amount = amount,
                pc_revision = rev, pc_quote = q, pc_card = tok\<rparr>))))))))))))
   | _ \<Rightarrow> Inl (Payment_Error ''INVALID_ACTION'' 422))"

definition command_fields :: "pay_command \<Rightarrow> json_obj" where
  "command_fields c =
    [(''action'', JStr (pay_action_name (pc_action c))), (''world_id'', JStr (pc_world c)), (''order_id'', JStr (pc_order c)),
     (''operation_key'', JStr (pc_key c)), (''authorization_id'', JStr (pc_auth c)), (''amount_krw'', JInt (pc_amount c)),
     (''currency'', JStr ''KRW''), (''payment_revision'', JInt (pc_revision c)), (''quote_fingerprint'', JStr (pc_quote c))]
     @ (case pc_card c of None \<Rightarrow> [] | Some tok \<Rightarrow> [(''card_token'', JStr tok)])"

definition command_json :: "pay_command \<Rightarrow> json" where
  "command_json c = JObj (command_fields c)"

definition valid_command :: "pay_command \<Rightarrow> bool" where
  "valid_command c \<longleftrightarrow> is_KEY (pc_world c) \<and> is_KEY (pc_order c) \<and> is_KEY (pc_key c) \<and> is_KEY (pc_auth c)
     \<and> 1 \<le> pc_amount c \<and> pc_amount c \<le> 30000 \<and> 1 \<le> pc_revision c \<and> pc_revision c \<le> 10000 \<and> is_DIGEST (pc_quote c)
     \<and> (case pc_card c of None \<Rightarrow> pc_action c \<noteq> AUTHORIZE | Some tok \<Rightarrow> pc_action c = AUTHORIZE \<and> tok \<in> set test_cards)"

text \<open>The character classes on the bits of a character, for evaluation.\<close>

lemma is_hex_char_code [code]:
  "is_hex_char (Char b0 b1 b2 b3 b4 b5 b6 b7) =
    (\<not> b7 \<and> b5 \<and> (if b6 then \<not> b4 \<and> \<not> b3 \<and> (b0 \<or> b1 \<or> b2) \<and> \<not> (b0 \<and> b1 \<and> b2) else b4 \<and> \<not> (b3 \<and> (b1 \<or> b2))))"
  by (cases b0; cases b1; cases b2; cases b3; cases b4; cases b5; cases b6; cases b7) (simp_all add: is_hex_char_def of_char_def)

lemma is_key_char_code [code]:
  "is_key_char (Char b0 b1 b2 b3 b4 b5 b6 b7) =
    (\<not> b7 \<and> (if b6 then (let low = (b0 \<or> b1 \<or> b2 \<or> b3 \<or> b4) \<and> \<not> (b4 \<and> b3 \<and> (b2 \<or> b1 \<and> b0)) in low \<or> \<not> b5 \<and> b4 \<and> b3 \<and> b2 \<and> b1 \<and> b0)
      else b5 \<and> (b4 \<and> (\<not> b3 \<or> \<not> b2 \<and> \<not> (b0 \<and> b1)) \<or> \<not> b4 \<and> b3 \<and> b2 \<and> \<not> b1 \<and> b0)))"
  by (cases b0; cases b1; cases b2; cases b3; cases b4; cases b5; cases b6; cases b7) (simp_all add: is_key_char_def of_char_def Let_def)

section \<open>Commands and their dictionaries\<close>

lemma pget_Cons [simp]: "pget ((k, v) # d) j = (if k = j then v else pget d j)"
  by (simp add: pget_def dget_def)

lemma pget_Nil [simp]: "pget [] j = JNull"
  by (simp add: pget_def dget_def)

lemma action_of_name [simp]: "action_of (JStr (pay_action_name a)) = Some a"
  by (cases a) simp_all

lemma action_of_Some: "action_of v = Some a \<Longrightarrow> v = JStr (pay_action_name a)"
  by (cases v) (auto split: if_splits)

declare action_of.simps [simp del]

lemma key_JStr [simp]: "key (JStr s) = (if is_KEY s then Inr s else Inl (Payment_Error ''INVALID_IDENTIFIER'' 422))"
  by (simp add: key_def)

lemma key_Inr: "key v = Inr s \<longleftrightarrow> v = JStr s \<and> is_KEY s"
  by (cases v) (auto simp: key_def)

lemma int_in_Some: "int_in lo hi v = Some n \<longleftrightarrow> v = JInt n \<and> lo \<le> n \<and> n \<le> hi"
  by (cases v) (auto simp: int_in_def)

lemma digest_of_Some: "digest_of v = Some s \<longleftrightarrow> v = JStr s \<and> is_DIGEST s"
  by (cases v) (auto simp: digest_of_def)

lemma card_of_Inr: "card_of v = Inr s \<longleftrightarrow> v = JStr s \<and> s \<in> set test_cards"
  by (cases v) (auto simp: card_of_def)

lemma require_some_Inr: "require_some x code = Inr y \<longleftrightarrow> x = Some y"
  by (cases x) (simp_all add: require_some_def)

lemma has_key_iff: "has_key d k \<longleftrightarrow> k \<in> set (map fst d)"
  by (simp add: has_key_def map_of_eq_None_iff)

text \<open>A dictionary and a command say the same: the same fields with the same values.\<close>

definition says :: "json_obj \<Rightarrow> pay_command \<Rightarrow> bool" where
  "says d c \<longleftrightarrow> set (map fst d) = set (map fst (command_fields c)) \<and> (\<forall>k \<in> set (map fst d). pget d k = pget (command_fields c) k)"

lemma command_keys: "set (map fst (command_fields c)) = set (COMMON @ (if pc_card c = None then [] else [''card_token'']))"
  by (cases "pc_card c") (simp_all add: command_fields_def COMMON_def)

lemma action_of_AUTHORIZE [simp]: "action_of (JStr ''AUTHORIZE'') = Some AUTHORIZE"
  using action_of_name [of AUTHORIZE] by simp

lemma validate_says:
  assumes "says d c" "valid_command c"
  shows "validate (JObj d) = Inr c"
proof -
  have k: "set (map fst d) = set (COMMON @ (if pc_card c = None then [] else [''card_token'']))"
    using assms(1) command_keys by (simp add: says_def)
  have v: "pget d k = pget (command_fields c) k" if "k \<in> set (COMMON @ (if pc_card c = None then [] else [''card_token'']))" for k
    using assms(1) that k unfolding says_def by blast
  have a: "(pc_card c = None) = (pc_action c \<noteq> AUTHORIZE)" using assms(2) by (auto simp: valid_command_def split: option.splits)
  have p: "pget d ''action'' = JStr (pay_action_name (pc_action c))" "pget d ''world_id'' = JStr (pc_world c)" "pget d ''order_id'' = JStr (pc_order c)"
    "pget d ''operation_key'' = JStr (pc_key c)" "pget d ''authorization_id'' = JStr (pc_auth c)" "pget d ''amount_krw'' = JInt (pc_amount c)"
    "pget d ''currency'' = JStr ''KRW''" "pget d ''payment_revision'' = JInt (pc_revision c)" "pget d ''quote_fingerprint'' = JStr (pc_quote c)"
    by (subst v; simp add: COMMON_def command_fields_def)+
  have card: "pget d ''card_token'' = JStr x" if "pc_card c = Some x" for x
    by (subst v; simp add: COMMON_def command_fields_def that)
  have hk: "has_key d ''card_token'' = (pc_card c \<noteq> None)" using k by (simp add: has_key_iff COMMON_def)
  show ?thesis
  proof (cases "pc_card c")
    case None
    have kk: "set (map fst d) = set COMMON" using k None by simp
    have na: "pc_action c \<noteq> AUTHORIZE" using a None by simp
    show ?thesis unfolding validate_def json.case p hk kk using assms(2) None na
      by (cases c) (simp add: valid_command_def require_some_def int_in_def digest_of_def)
  next
    case (Some x)
    have kk: "set (map fst d) = set (COMMON @ [''card_token''])" using k Some by simp
    have na: "pc_action c = AUTHORIZE" using a Some by simp
    show ?thesis unfolding validate_def json.case p hk kk card [OF Some] using assms(2) Some na
      by (cases c) (simp add: valid_command_def require_some_def int_in_def digest_of_def card_of_def)
  qed
qed

lemma validate_Inr:
  assumes "validate v = Inr c"
  shows "valid_command c \<and> (\<exists>d. v = JObj d \<and> says d c)"
proof -
  obtain d where v: "v = JObj d" using assms by (cases v) (auto simp: validate_def)
  have h: "pget d ''action'' = JStr (pay_action_name (pc_action c)) \<and> pget d ''world_id'' = JStr (pc_world c) \<and> pget d ''order_id'' = JStr (pc_order c) \<and>
    pget d ''operation_key'' = JStr (pc_key c) \<and> pget d ''authorization_id'' = JStr (pc_auth c) \<and> pget d ''amount_krw'' = JInt (pc_amount c) \<and>
    pget d ''currency'' = JStr ''KRW'' \<and> pget d ''payment_revision'' = JInt (pc_revision c) \<and> pget d ''quote_fingerprint'' = JStr (pc_quote c) \<and>
    set (map fst d) = set (COMMON @ (if pc_action c = AUTHORIZE then [''card_token''] else [])) \<and> valid_command (c\<lparr>pc_action := CAPTURE, pc_card := None\<rparr>) \<and>
    (if has_key d ''card_token'' then \<exists>x. pc_card c = Some x \<and> pget d ''card_token'' = JStr x \<and> x \<in> set test_cards else pc_card c = None)"
    using assms unfolding v validate_def
    by (simp add: ok_Inr key_Inr require_some_Inr int_in_Some digest_of_Some split: if_splits)
      (auto simp: valid_command_def map_sum_Inr card_of_Inr dest!: action_of_Some)
  have hk: "has_key d ''card_token'' \<longleftrightarrow> pc_action c = AUTHORIZE" using h by (simp add: has_key_iff COMMON_def)
  have val: "valid_command c" using h hk by (auto simp: valid_command_def split: option.splits if_splits)
  have keys: "set (map fst d) = set (map fst (command_fields c))"
    unfolding command_keys using h hk by (auto split: if_splits)
  have "pget d k = pget (command_fields c) k" if "k \<in> set (COMMON @ (if pc_card c = None then [] else [''card_token'']))" for k
  proof -
    have f: "pc_card c = None \<longleftrightarrow> pc_action c \<noteq> AUTHORIZE" using val by (auto simp: valid_command_def split: option.splits)
    show ?thesis
    proof (cases "pc_card c")
      case None
      then have "k \<in> {''action'', ''world_id'', ''order_id'', ''operation_key'', ''authorization_id'', ''amount_krw'',
        ''currency'', ''payment_revision'', ''quote_fingerprint''}" using that by (simp add: COMMON_def)
      then show ?thesis by (elim insertE emptyE) (simp_all add: h command_fields_def)
    next
      case (Some x)
      then have "has_key d ''card_token''" using f hk by simp
      then have c: "pget d ''card_token'' = JStr x" using h Some by simp
      have "k \<in> {''action'', ''world_id'', ''order_id'', ''operation_key'', ''authorization_id'', ''amount_krw'',
        ''currency'', ''payment_revision'', ''quote_fingerprint'', ''card_token''}" using that Some by (simp add: COMMON_def)
      then show ?thesis by (elim insertE emptyE) (simp_all add: h c Some command_fields_def)
    qed
  qed
  then have "says d c" unfolding says_def keys using command_keys by blast
  then show ?thesis using val v by blast
qed

text \<open>C27. The command format round trips: the dictionary of a command is accepted exactly when the
  command is well formed, and then it is read back as it was; whatever is accepted says
  exactly the fields of a well-formed command.\<close>

theorem validate_round_trip:
  "validate v = Inr c \<longleftrightarrow> valid_command c \<and> (\<exists>d. v = JObj d \<and> says d c)"
  using validate_Inr validate_says by blast

end
