(* ===== verification/Payment_Ledger.thy ===== *)
theory Payment_Ledger
  imports Payment_Domain
begin

text \<open>
  \<open>payments/repository.py\<close>: the ledger of the synthetic payment provider. Authorizations,
  immutable receipts, transactions and the outbox of notifications are committed together.
  The clock and the uuids of a call are arguments (one instant per call), the SHA-256 of a
  command's canonical text is the argument \<open>H\<close> on its tree. A violated UNIQUE constraint is
  an \<open>Integrity_Error\<close> of the operation.
\<close>

section \<open>Tables\<close>

datatype auth_status = Authorized | Captured | Voided

record auth_row =
  ar_id :: string
  ar_world :: string
  ar_order :: string
  ar_amount :: int
  ar_revision :: int
  ar_quote :: string
  ar_card :: string
  ar_status :: auth_status
  ar_created :: rat
  ar_updated :: rat

record tx_row =
  tx_seq :: nat
  tx_id :: string
  tx_auth :: string
  tx_world :: string
  tx_order :: string
  tx_kind :: pay_action
  tx_amount :: int
  tx_at :: rat

record pay_event =
  pe_event :: string
  pe_world :: string
  pe_order :: string
  pe_auth :: string
  pe_tx :: string
  pe_revision :: nat
  pe_kind :: pay_action
  pe_payment_revision :: int
  pe_amount :: int

record outbox_row =
  ob_event :: string
  ob_world :: string
  ob_order :: string
  ob_revision :: nat
  ob_body :: pay_event
  ob_delivered :: bool
  ob_attempts :: nat
  ob_next_at :: rat
  ob_copies :: nat
  ob_owner :: "string option"
  ob_version :: nat
  ob_until :: "rat option"

datatype pay_outcome = O_Authorized | O_Captured | O_Voided | O_Declined

text \<open>The reply repeats the command without the card.\<close>

record pay_result =
  pr_command :: pay_command
  pr_ok :: bool
  pr_outcome :: pay_outcome
  pr_tx :: "string option"
  pr_revision :: "nat option"
  pr_code :: "string option"

record ledger =
  le_limit :: int
  le_auths :: "auth_row list"
  le_commands :: "(string \<times> string \<times> pay_result) list"
  le_txs :: "tx_row list"
  le_outbox :: "outbox_row list"
  le_faults :: "(string \<times> string \<times> string) list"

definition new_ledger :: "int \<Rightarrow> ledger" where
  "new_ledger limit = \<lparr>le_limit = limit, le_auths = [], le_commands = [], le_txs = [], le_outbox = [], le_faults = []\<rparr>"

section \<open>Commands\<close>

text \<open>The delivery options and the clock and uuids of a call.\<close>

record call_env =
  ce_copies :: nat
  ce_delay :: rat
  ce_now :: rat
  ce_tx :: string
  ce_event :: string

definition find_auth :: "ledger \<Rightarrow> string \<Rightarrow> auth_row option" where
  "find_auth l aid = List.find (\<lambda>a. ar_id a = aid) (le_auths l)"

definition find_tx :: "ledger \<Rightarrow> string \<Rightarrow> pay_action \<Rightarrow> tx_row option" where
  "find_tx l aid kind = List.find (\<lambda>t. tx_auth t = aid \<and> tx_kind t = kind) (le_txs l)"

definition order_captured :: "ledger \<Rightarrow> string \<Rightarrow> string \<Rightarrow> bool" where
  "order_captured l w ord \<longleftrightarrow> (\<exists>t \<in> set (le_txs l). tx_world t = w \<and> tx_order t = ord \<and> tx_kind t = CAPTURE)"

definition active :: "auth_row \<Rightarrow> bool" where
  "active a \<longleftrightarrow> ar_status a \<in> {Authorized, Captured}"

definition credit_used :: "ledger \<Rightarrow> string \<Rightarrow> string \<Rightarrow> int" where
  "credit_used l w tok = sum_list (map ar_amount (filter (\<lambda>a. ar_world a = w \<and> ar_card a = tok \<and> active a) (le_auths l)))"

definition bound_to :: "auth_row \<Rightarrow> pay_command \<Rightarrow> bool" where
  "bound_to a c \<longleftrightarrow> ar_world a = pc_world c \<and> ar_order a = pc_order c \<and> ar_id a = pc_auth c \<and> ar_amount a = pc_amount c
     \<and> ar_revision a = pc_revision c \<and> ar_quote a = pc_quote c"

definition response :: "pay_command \<Rightarrow> pay_outcome \<Rightarrow> string \<Rightarrow> nat \<Rightarrow> pay_result" where
  "response c outcome tid rv = \<lparr>pr_command = c\<lparr>pc_card := None\<rparr>, pr_ok = True, pr_outcome = outcome, pr_tx = Some tid,
     pr_revision = Some rv, pr_code = None\<rparr>"

definition declined :: "pay_command \<Rightarrow> string \<Rightarrow> pay_result" where
  "declined c code = \<lparr>pr_command = c\<lparr>pc_card := None\<rparr>, pr_ok = False, pr_outcome = O_Declined, pr_tx = None,
     pr_revision = None, pr_code = Some code\<rparr>"

definition existing_receipt :: "pay_command \<Rightarrow> pay_outcome \<Rightarrow> pay_action \<Rightarrow> ledger \<Rightarrow> pay_error + pay_result \<times> ledger" where
  "existing_receipt c outcome kind l = (case find_tx l (pc_auth c) kind of
     None \<Rightarrow> Inl (Payment_Error ''LEDGER_INCONSISTENT'' 409)
   | Some t \<Rightarrow> Inr (response c outcome (tx_id t) (tx_seq t), l))"

text \<open>The UNIQUE constraints of the transaction table and of the outbox.\<close>

definition insert_allowed :: "tx_row \<Rightarrow> string \<Rightarrow> ledger \<Rightarrow> bool" where
  "insert_allowed t ev l \<longleftrightarrow> (\<forall>u \<in> set (le_txs l). tx_id u \<noteq> tx_id t \<and> \<not> (tx_auth u = tx_auth t \<and> tx_kind u = tx_kind t))
     \<and> \<not> (tx_kind t = CAPTURE \<and> order_captured l (tx_world t) (tx_order t)) \<and> (\<forall>o' \<in> set (le_outbox l). ob_event o' \<noteq> ev)"

definition new_tx_row :: "pay_command \<Rightarrow> call_env \<Rightarrow> nat \<Rightarrow> tx_row" where
  "new_tx_row c env rv = \<lparr>tx_seq = rv, tx_id = ce_tx env, tx_auth = pc_auth c, tx_world = pc_world c, tx_order = pc_order c,
     tx_kind = pc_action c, tx_amount = pc_amount c, tx_at = ce_now env\<rparr>"

definition new_outbox_row :: "pay_command \<Rightarrow> call_env \<Rightarrow> nat \<Rightarrow> outbox_row" where
  "new_outbox_row c env rv = \<lparr>ob_event = ce_event env, ob_world = pc_world c, ob_order = pc_order c, ob_revision = rv,
     ob_body = \<lparr>pe_event = ce_event env, pe_world = pc_world c, pe_order = pc_order c, pe_auth = pc_auth c, pe_tx = ce_tx env,
       pe_revision = rv, pe_kind = pc_action c, pe_payment_revision = pc_revision c, pe_amount = pc_amount c\<rparr>,
     ob_delivered = False, ob_attempts = 0, ob_next_at = ce_now env + ce_delay env, ob_copies = ce_copies env,
     ob_owner = None, ob_version = 0, ob_until = None\<rparr>"

definition record_tx :: "pay_command \<Rightarrow> pay_outcome \<Rightarrow> call_env \<Rightarrow> ledger \<Rightarrow> pay_error + pay_result \<times> ledger" where
  "record_tx c outcome env l =
    (let rv = length (le_txs l) + 1; t = new_tx_row c env rv
     in ensure (insert_allowed t (ce_event env) l) Integrity_Error
          (Inr (response c outcome (ce_tx env) rv, l\<lparr>le_txs := le_txs l @ [t], le_outbox := le_outbox l @ [new_outbox_row c env rv]\<rparr>)))"

definition new_auth_row :: "pay_command \<Rightarrow> string \<Rightarrow> rat \<Rightarrow> auth_row" where
  "new_auth_row c tok now = \<lparr>ar_id = pc_auth c, ar_world = pc_world c, ar_order = pc_order c, ar_amount = pc_amount c,
     ar_revision = pc_revision c, ar_quote = pc_quote c, ar_card = tok, ar_status = Authorized, ar_created = now, ar_updated = now\<rparr>"

definition set_status :: "string \<Rightarrow> auth_status \<Rightarrow> rat \<Rightarrow> ledger \<Rightarrow> ledger" where
  "set_status aid st now l = l\<lparr>le_auths := map (\<lambda>a. if ar_id a = aid then a\<lparr>ar_status := st, ar_updated := now\<rparr> else a) (le_auths l)\<rparr>"

definition apply_authorize :: "call_env \<Rightarrow> auth_row option \<Rightarrow> pay_command \<Rightarrow> ledger \<Rightarrow> pay_error + pay_result \<times> ledger" where
  "apply_authorize env row c l =
    (let tok = (case pc_card c of None \<Rightarrow> [] | Some k \<Rightarrow> k)
     in if order_captured l (pc_world c) (pc_order c) then Inl (Payment_Error ''ORDER_ALREADY_CAPTURED'' 409)
        else (case row of
          Some a \<Rightarrow> ensure (ar_status a = Authorized \<and> ar_card a = tok) (Payment_Error ''AUTHORIZATION_NOT_ACTIVE'' 409)
            (existing_receipt c O_Authorized AUTHORIZE l)
        | None \<Rightarrow>
            if tok = ''demo-declined'' then Inr (declined c ''DECLINED'', l)
            else if le_limit l < credit_used l (pc_world c) tok + pc_amount c then Inr (declined c ''LIMIT_EXCEEDED'', l)
            else record_tx c O_Authorized env (l\<lparr>le_auths := le_auths l @ [new_auth_row c tok (ce_now env)]\<rparr>)))"

definition apply_settle :: "call_env \<Rightarrow> auth_row \<Rightarrow> pay_command \<Rightarrow> ledger \<Rightarrow> pay_error + pay_result \<times> ledger" where
  "apply_settle env a c l =
    (let (st, outcome) = (if pc_action c = CAPTURE then (Captured, O_Captured) else (Voided, O_Voided))
     in if ar_status a = st then existing_receipt c outcome (pc_action c) l
        else ensure (ar_status a = Authorized) (Payment_Error ''AUTHORIZATION_NOT_ACTIVE'' 409)
         (ensure (\<not> (pc_action c = CAPTURE \<and> order_captured l (pc_world c) (pc_order c))) (Payment_Error ''ORDER_ALREADY_CAPTURED'' 409)
           (record_tx c outcome env (set_status (pc_auth c) st (ce_now env) l))))"

definition ledger_apply :: "call_env \<Rightarrow> pay_command \<Rightarrow> ledger \<Rightarrow> pay_error + pay_result \<times> ledger" where
  "ledger_apply env c l =
    (let row = find_auth l (pc_auth c)
     in ensure (case row of None \<Rightarrow> True | Some a \<Rightarrow> bound_to a c) (Payment_Error ''AUTHORIZATION_BINDING_CONFLICT'' 409)
         (if pc_action c = AUTHORIZE then apply_authorize env row c l
          else (case row of None \<Rightarrow> Inl (Payment_Error ''AUTHORIZATION_NOT_FOUND'' 409) | Some a \<Rightarrow> apply_settle env a c l)))"

text \<open>The transaction of \<open>execute\<close>: an error rolls it back, so the ledger stays.\<close>

definition execute_tx :: "(json \<Rightarrow> string) \<Rightarrow> call_env \<Rightarrow> pay_command \<Rightarrow> ledger \<Rightarrow> (pay_error + pay_result) \<times> ledger" where
  "execute_tx H env c l = (case map_of (le_commands l) (pc_key c) of
     Some (f, r) \<Rightarrow> (if f \<noteq> H (dumps_tree (command_json c)) then Inl (Payment_Error ''IDEMPOTENCY_CONFLICT'' 409) else Inr r, l)
   | None \<Rightarrow> (case ledger_apply env c l of
       Inl e \<Rightarrow> (Inl e, l)
     | Inr (r, l') \<Rightarrow> (Inr r, l'\<lparr>le_commands := le_commands l' @ [(pc_key c, H (dumps_tree (command_json c)), r)]\<rparr>)))"

definition execute :: "(json \<Rightarrow> string) \<Rightarrow> call_env \<Rightarrow> json \<Rightarrow> ledger \<Rightarrow> (pay_error + pay_result) \<times> ledger" where
  "execute H env v l = (case validate v of
     Inl e \<Rightarrow> (Inl e, l)
   | Inr c \<Rightarrow> if \<not> (ce_copies env \<in> {1, 2} \<and> 0 \<le> ce_delay env \<and> ce_delay env \<le> 3) then (Inl Value_Error, l)
       else execute_tx H env c l)"

section \<open>Reading\<close>

definition operation_of :: "string \<Rightarrow> ledger \<Rightarrow> pay_error + pay_result option" where
  "operation_of k l = bind_ok (key (JStr k)) (\<lambda>k. Inr (map_option snd (map_of (le_commands l) k)))"

record pay_snapshot =
  ps_revision :: nat
  ps_auths :: "auth_row list"
  ps_txs :: "tx_row list"
  ps_held :: int
  ps_captured :: int
  ps_captures :: nat

text \<open>The card tokens of the rows are not part of the reply.\<close>

definition pay_snapshot_of :: "string \<Rightarrow> string \<Rightarrow> ledger \<Rightarrow> pay_error + pay_snapshot" where
  "pay_snapshot_of w ord l = bind_ok (key (JStr w)) (\<lambda>w. bind_ok (key (JStr ord)) (\<lambda>ord.
    (let auths = sort_key (\<lambda>a. (ar_revision a, ar_id a)) (filter (\<lambda>a. ar_world a = w \<and> ar_order a = ord) (le_auths l));
         txs = sort_key tx_seq (filter (\<lambda>t. tx_world t = w \<and> tx_order t = ord) (le_txs l));
         captures = filter (\<lambda>t. tx_kind t = CAPTURE) txs
     in Inr \<lparr>ps_revision = fold max (map tx_seq txs) 0, ps_auths = map (\<lambda>a. a\<lparr>ar_card := []\<rparr>) auths, ps_txs = txs,
          ps_held = sum_list (map ar_amount (filter (\<lambda>a. ar_status a = Authorized) auths)),
          ps_captured = sum_list (map tx_amount captures), ps_captures = length captures\<rparr>)))"

definition fault_modes :: "string list" where
  "fault_modes = [''drop_reply'', ''duplicate_notification'', ''late_notification'']"

definition consume_fault :: "string \<Rightarrow> string \<Rightarrow> string \<Rightarrow> ledger \<Rightarrow> pay_error + bool \<times> ledger" where
  "consume_fault w k mode l =
    (if mode \<notin> set fault_modes then Inr (False, l)
     else bind_ok (key (JStr w)) (\<lambda>w. bind_ok (key (JStr k)) (\<lambda>k.
       if (w, k, mode) \<in> set (le_faults l) then Inr (False, l) else Inr (True, l\<lparr>le_faults := le_faults l @ [(w, k, mode)]\<rparr>))))"

section \<open>The outbox\<close>

definition claimable :: "rat \<Rightarrow> outbox_row \<Rightarrow> bool" where
  "claimable now o' \<longleftrightarrow> \<not> ob_delivered o' \<and> ob_attempts o' < 8 \<and> ob_next_at o' \<le> now
     \<and> (case ob_until o' of None \<Rightarrow> True | Some t \<Rightarrow> t \<le> now)"

definition claim_row :: "string \<Rightarrow> rat \<Rightarrow> outbox_row \<Rightarrow> outbox_row" where
  "claim_row worker until o' = o'\<lparr>ob_owner := Some worker, ob_version := ob_version o' + 1, ob_until := Some until\<rparr>"

definition claim_notifications :: "string \<Rightarrow> int \<Rightarrow> int \<Rightarrow> rat \<Rightarrow> ledger \<Rightarrow> pay_error + outbox_row list \<times> ledger" where
  "claim_notifications worker limit lease now l = bind_ok (key (JStr worker)) (\<lambda>worker.
     ensure (1 \<le> limit \<and> limit \<le> 64 \<and> 1 \<le> lease \<and> lease \<le> 120) Value_Error
      (let rows = take (nat limit) (sort_key ob_revision (filter (claimable now) (le_outbox l)));
           rows = map (claim_row worker (now + of_int lease)) rows
       in Inr (rows, l\<lparr>le_outbox := map (\<lambda>o'. if ob_event o' \<in> set (map ob_event rows)
            then claim_row worker (now + of_int lease) o' else o') (le_outbox l)\<rparr>)))"

definition delivery_delay :: "nat \<Rightarrow> rat" where
  "delivery_delay attempts = min (3 * 2 ^ min attempts 4) 30"

definition holds_claim :: "outbox_row \<Rightarrow> rat \<Rightarrow> outbox_row \<Rightarrow> bool" where
  "holds_claim claim now o' \<longleftrightarrow> ob_event o' = ob_event claim \<and> ob_owner o' = ob_owner claim \<and> ob_version o' = ob_version claim
     \<and> \<not> ob_delivered o' \<and> (case ob_until o' of None \<Rightarrow> False | Some t \<Rightarrow> now < t)"

definition finish_row :: "bool \<Rightarrow> rat \<Rightarrow> outbox_row \<Rightarrow> outbox_row" where
  "finish_row ok now o' = o'\<lparr>ob_delivered := ok, ob_attempts := ob_attempts o' + 1, ob_next_at := now + delivery_delay (ob_attempts o'),
     ob_owner := None, ob_until := None\<rparr>"

definition finish_notification :: "outbox_row \<Rightarrow> bool \<Rightarrow> rat \<Rightarrow> ledger \<Rightarrow> bool \<times> ledger" where
  "finish_notification claim ok now l =
    (if \<exists>o' \<in> set (le_outbox l). holds_claim claim now o'
     then (True, l\<lparr>le_outbox := map (\<lambda>o'. if ob_event o' = ob_event claim then finish_row ok now o' else o') (le_outbox l)\<rparr>)
     else (False, l))"

section \<open>The invariant of the ledger\<close>

definition has_tx :: "ledger \<Rightarrow> string \<Rightarrow> pay_action \<Rightarrow> bool" where
  "has_tx l aid kind \<longleftrightarrow> (\<exists>t \<in> set (le_txs l). tx_auth t = aid \<and> tx_kind t = kind)"

definition tx_matches :: "tx_row \<Rightarrow> auth_row \<Rightarrow> bool" where
  "tx_matches t a \<longleftrightarrow> tx_auth t = ar_id a \<and> tx_world t = ar_world a \<and> tx_order t = ar_order a \<and> tx_amount t = ar_amount a"

definition captures_of :: "ledger \<Rightarrow> tx_row list" where
  "captures_of l = filter (\<lambda>t. tx_kind t = CAPTURE) (le_txs l)"

definition tables_inv :: "ledger \<Rightarrow> bool" where
  "tables_inv l \<longleftrightarrow> distinct (map ar_id (le_auths l)) \<and> map tx_seq (le_txs l) = [1..<length (le_txs l) + 1]
     \<and> distinct (map (\<lambda>t. (tx_auth t, tx_kind t)) (le_txs l)) \<and> distinct (map (\<lambda>t. (tx_world t, tx_order t)) (captures_of l))
     \<and> map (pe_tx \<circ> ob_body) (le_outbox l) = map tx_id (le_txs l) \<and> (\<forall>t \<in> set (le_txs l). \<exists>a \<in> set (le_auths l). tx_matches t a)"

definition status_inv :: "ledger \<Rightarrow> bool" where
  "status_inv l \<longleftrightarrow> (\<forall>a \<in> set (le_auths l). has_tx l (ar_id a) AUTHORIZE \<and> (has_tx l (ar_id a) CAPTURE \<longleftrightarrow> ar_status a = Captured)
     \<and> (has_tx l (ar_id a) VOID \<longleftrightarrow> ar_status a = Voided))"

definition credit_inv :: "ledger \<Rightarrow> bool" where
  "credit_inv l \<longleftrightarrow> (\<forall>w tok. credit_used l w tok \<le> le_limit l) \<and> (\<forall>a \<in> set (le_auths l). 1 \<le> ar_amount a)"

definition ledger_inv :: "ledger \<Rightarrow> bool" where
  "ledger_inv l \<longleftrightarrow> tables_inv l \<and> status_inv l \<and> credit_inv l"

lemma new_ledger_inv: "0 \<le> limit \<Longrightarrow> ledger_inv (new_ledger limit)"
  by (simp add: ledger_inv_def tables_inv_def status_inv_def credit_inv_def new_ledger_def captures_of_def credit_used_def)

lemma find_auth_Some:
  "find_auth l aid = Some a \<Longrightarrow> a \<in> set (le_auths l) \<and> ar_id a = aid"
  by (auto simp: find_auth_def find_Some_iff)

lemma find_auth_None: "find_auth l aid = None \<longleftrightarrow> aid \<notin> ar_id ` set (le_auths l)"
  by (auto simp: find_auth_def find_None_iff)

lemma find_tx_None: "find_tx l aid kind = None \<longleftrightarrow> \<not> has_tx l aid kind"
  by (auto simp: find_tx_def find_None_iff has_tx_def)

lemma record_tx_Inr:
  "record_tx c outcome env l = Inr (r, l') \<Longrightarrow> \<exists>t ob. l' = l\<lparr>le_txs := le_txs l @ [t], le_outbox := le_outbox l @ [ob]\<rparr> \<and> insert_allowed t (ce_event env) l \<and>
    tx_seq t = length (le_txs l) + 1 \<and> tx_id t = ce_tx env \<and> tx_auth t = pc_auth c \<and> tx_world t = pc_world c \<and> tx_order t = pc_order c \<and>
    tx_kind t = pc_action c \<and> tx_amount t = pc_amount c \<and> pe_tx (ob_body ob) = ce_tx env \<and> ob_event ob = ce_event env \<and>
    r = response c outcome (ce_tx env) (length (le_txs l) + 1)"
  by (rule exI [of _ "new_tx_row c env (length (le_txs l) + 1)"], rule exI [of _ "new_outbox_row c env (length (le_txs l) + 1)"])
    (auto simp: record_tx_def Let_def ensure_Inr new_tx_row_def new_outbox_row_def)

lemma order_captured_alt: "order_captured l w ord \<longleftrightarrow> (w, ord) \<in> (\<lambda>t. (tx_world t, tx_order t)) ` set (captures_of l)"
  by (auto simp: order_captured_def captures_of_def)

lemma append_tx_tables:
  assumes i: "tables_inv l" and t: "insert_allowed t ev l" "tx_seq t = length (le_txs l) + 1" "pe_tx (ob_body ob) = tx_id t"
    and a: "a \<in> set (le_auths l)" "tx_matches t a"
  shows "tables_inv (l\<lparr>le_txs := le_txs l @ [t], le_outbox := le_outbox l @ [ob]\<rparr>)"
  using assms by (auto simp: tables_inv_def insert_allowed_def captures_of_def order_captured_def)

lemma has_tx_append: "has_tx (l\<lparr>le_txs := le_txs l @ [t], le_outbox := obs\<rparr>) aid kind \<longleftrightarrow> has_tx l aid kind \<or> tx_auth t = aid \<and> tx_kind t = kind"
  by (auto simp: has_tx_def)

lemma credit_used_txs [simp]: "credit_used (l\<lparr>le_txs := ts, le_outbox := obs\<rparr>) w tok = credit_used l w tok"
  by (simp add: credit_used_def)

lemma credit_append: "credit_used (l\<lparr>le_auths := le_auths l @ [a]\<rparr>) w tok =
    credit_used l w tok + (if ar_world a = w \<and> ar_card a = tok \<and> active a then ar_amount a else 0)"
  by (simp add: credit_used_def)

lemma new_auth_row_simps [simp]:
  "ar_id (new_auth_row c tok now) = pc_auth c" "ar_world (new_auth_row c tok now) = pc_world c" "ar_order (new_auth_row c tok now) = pc_order c"
  "ar_amount (new_auth_row c tok now) = pc_amount c" "ar_card (new_auth_row c tok now) = tok" "ar_status (new_auth_row c tok now) = Authorized"
  by (simp_all add: new_auth_row_def)

text \<open>A first authorization.\<close>

lemma authorize_inv:
  assumes i: "ledger_inv l" and new: "find_auth l (pc_auth c) = None" and c: "1 \<le> pc_amount c" "pc_action c = AUTHORIZE"
    and lim: "credit_used l (pc_world c) tok + pc_amount c \<le> le_limit l"
    and r: "record_tx c O_Authorized env (l\<lparr>le_auths := le_auths l @ [new_auth_row c tok now]\<rparr>) = Inr (r, l')"
  shows "ledger_inv l'"
proof -
  let ?a = "new_auth_row c tok now" and ?l = "l\<lparr>le_auths := le_auths l @ [new_auth_row c tok now]\<rparr>"
  obtain t ob where l': "l' = ?l\<lparr>le_txs := le_txs ?l @ [t], le_outbox := le_outbox ?l @ [ob]\<rparr>" and ok: "insert_allowed t (ce_event env) ?l"
    and t: "tx_seq t = length (le_txs ?l) + 1" "tx_id t = ce_tx env" "tx_auth t = pc_auth c" "tx_world t = pc_world c" "tx_order t = pc_order c"
      "tx_kind t = pc_action c" "tx_amount t = pc_amount c" "pe_tx (ob_body ob) = ce_tx env"
    using record_tx_Inr [OF r] by blast
  have id: "pc_auth c \<notin> ar_id ` set (le_auths l)" using new by (simp add: find_auth_None)
  have tb: "tables_inv ?l" using i id by (auto simp: ledger_inv_def tables_inv_def captures_of_def)
  have m: "tx_matches t ?a" using t by (simp add: tx_matches_def)
  have "tables_inv l'" unfolding l' by (rule append_tx_tables [OF tb ok t(1), of ob ?a]) (use t m in simp_all)
  moreover have "status_inv l'"
  proof -
    have none: "\<not> has_tx l (pc_auth c) k" for k
    proof
      assume "has_tx l (pc_auth c) k"
      then obtain u x where "tx_auth u = pc_auth c" "x \<in> set (le_auths l)" "tx_matches u x"
        using i by (auto simp: ledger_inv_def tables_inv_def has_tx_def)
      then have "ar_id x = pc_auth c" by (simp add: tx_matches_def)
      then show False using id \<open>x \<in> set (le_auths l)\<close> by (metis imageI)
    qed
    have h: "has_tx l' aid k \<longleftrightarrow> has_tx l aid k \<or> pc_auth c = aid \<and> k = AUTHORIZE" for aid k
      using t c(2) unfolding l' has_tx_append by (auto simp: has_tx_def)
    have "le_auths l' = le_auths l @ [?a]" by (simp add: l')
    then show ?thesis using i id none unfolding status_inv_def h by (auto simp: ledger_inv_def status_inv_def)
  qed
  moreover have "credit_inv l'"
    using i lim c(1) by (auto simp: l' ledger_inv_def credit_inv_def credit_append)
  ultimately show ?thesis by (simp add: ledger_inv_def)
qed

text \<open>A capture or a release of an authorization.\<close>

lemma set_status_auths: "le_auths (set_status aid st now l) = map (\<lambda>a. if ar_id a = aid then a\<lparr>ar_status := st, ar_updated := now\<rparr> else a) (le_auths l)"
  by (simp add: set_status_def)

lemma set_status_simps [simp]:
  "le_txs (set_status aid st now l) = le_txs l" "le_outbox (set_status aid st now l) = le_outbox l" "le_limit (set_status aid st now l) = le_limit l"
  "has_tx (set_status aid st now l) = has_tx l" "le_commands (set_status aid st now l) = le_commands l"
  by (simp_all add: set_status_def has_tx_def fun_eq_iff)

lemma credit_set_status:
  assumes "\<forall>a \<in> set (le_auths l). ar_id a = aid \<longrightarrow> active a" "\<forall>a \<in> set (le_auths l). 0 \<le> ar_amount a"
  shows "credit_used (set_status aid st now l) w tok \<le> credit_used l w tok"
proof -
  have "sum_list (map ar_amount (filter (\<lambda>a. ar_world a = w \<and> ar_card a = tok \<and> active a)
      (map (\<lambda>a. if ar_id a = aid then a\<lparr>ar_status := st, ar_updated := now\<rparr> else a) as)))
    \<le> sum_list (map ar_amount (filter (\<lambda>a. ar_world a = w \<and> ar_card a = tok \<and> active a) as))"
    if "\<forall>a \<in> set as. ar_id a = aid \<longrightarrow> active a" "\<forall>a \<in> set as. 0 \<le> ar_amount a" for as
    using that by (induction as) (auto simp: active_def)
  then show ?thesis using assms by (simp add: credit_used_def set_status_auths)
qed

lemma settle_inv:
  assumes i: "ledger_inv l" and f: "find_auth l (pc_auth c) = Some a" and b: "bound_to a c" and st: "ar_status a = Authorized"
    and k: "(pc_action c, s) \<in> {(CAPTURE, Captured), (VOID, Voided)}"
    and r: "record_tx c outcome env (set_status (pc_auth c) s now l) = Inr (r, l')"
  shows "ledger_inv l'"
proof -
  let ?l = "set_status (pc_auth c) s now l"
  obtain t ob where l': "l' = ?l\<lparr>le_txs := le_txs ?l @ [t], le_outbox := le_outbox ?l @ [ob]\<rparr>" and ok: "insert_allowed t (ce_event env) ?l"
    and t: "tx_seq t = length (le_txs ?l) + 1" "tx_id t = ce_tx env" "tx_auth t = pc_auth c" "tx_world t = pc_world c" "tx_order t = pc_order c"
      "tx_kind t = pc_action c" "tx_amount t = pc_amount c" "pe_tx (ob_body ob) = ce_tx env"
    using record_tx_Inr [OF r] by blast
  have a: "a \<in> set (le_auths l)" "ar_id a = pc_auth c" using find_auth_Some [OF f] by auto
  have uniq: "x = a" if "x \<in> set (le_auths l)" "ar_id x = pc_auth c" for x
    using i a that by (auto simp: ledger_inv_def tables_inv_def distinct_map inj_on_def)
  let ?a = "a\<lparr>ar_status := s, ar_updated := now\<rparr>"
  have ids: "map ar_id (le_auths ?l) = map ar_id (le_auths l)" by (simp add: set_status_auths)
  have mm: "\<exists>x' \<in> set (le_auths ?l). tx_matches u x'" if "x \<in> set (le_auths l)" "tx_matches u x" for u x
  proof
    show "(if ar_id x = pc_auth c then x\<lparr>ar_status := s, ar_updated := now\<rparr> else x) \<in> set (le_auths ?l)"
      using that(1) by (auto simp: set_status_auths)
    show "tx_matches u (if ar_id x = pc_auth c then x\<lparr>ar_status := s, ar_updated := now\<rparr> else x)"
      using that(2) by (simp add: tx_matches_def)
  qed
  have tb: "tables_inv ?l" using i ids mm by (fastforce simp: ledger_inv_def tables_inv_def captures_of_def)
  have ain: "?a \<in> set (le_auths ?l)" using a by (auto simp: set_status_auths image_iff)
  have m: "tx_matches t ?a" using t b by (simp add: tx_matches_def bound_to_def)
  have "tables_inv l'" unfolding l' by (rule append_tx_tables [OF tb ok t(1), of ob ?a]) (use t m ain in simp_all)
  moreover have "status_inv l'"
  proof -
    have h: "has_tx l' aid kd \<longleftrightarrow> has_tx l aid kd \<or> pc_auth c = aid \<and> kd = pc_action c" for aid kd
      using t unfolding l' has_tx_append by auto
    have old: "has_tx l (pc_auth c) AUTHORIZE" "\<not> has_tx l (pc_auth c) CAPTURE" "\<not> has_tx l (pc_auth c) VOID"
      using i a st by (auto simp: ledger_inv_def status_inv_def)
    have aut: "le_auths l' = map (\<lambda>x. if ar_id x = pc_auth c then x\<lparr>ar_status := s, ar_updated := now\<rparr> else x) (le_auths l)"
      by (simp add: l' set_status_auths)
    have other: "has_tx l (ar_id x) AUTHORIZE \<and> (has_tx l (ar_id x) CAPTURE \<longleftrightarrow> ar_status x = Captured) \<and> (has_tx l (ar_id x) VOID \<longleftrightarrow> ar_status x = Voided)"
      if "x \<in> set (le_auths l)" for x using i that by (simp add: ledger_inv_def status_inv_def)
    have mine: "has_tx l' (ar_id y) AUTHORIZE \<and> (has_tx l' (ar_id y) CAPTURE \<longleftrightarrow> ar_status y = Captured) \<and> (has_tx l' (ar_id y) VOID \<longleftrightarrow> ar_status y = Voided)"
      if "x \<in> set (le_auths l)" "y = (if ar_id x = pc_auth c then x\<lparr>ar_status := s, ar_updated := now\<rparr> else x)" for x y
    proof (cases "ar_id x = pc_auth c")
      case True
      then show ?thesis using that(2) old k by (cases s) (auto simp: h)
    next
      case False
      then show ?thesis using that(2) other [OF that(1)] by (simp add: h)
    qed
    show ?thesis unfolding status_inv_def aut set_map
    proof
      fix y assume "y \<in> (\<lambda>x. if ar_id x = pc_auth c then x\<lparr>ar_status := s, ar_updated := now\<rparr> else x) ` set (le_auths l)"
      then show "has_tx l' (ar_id y) AUTHORIZE \<and> (has_tx l' (ar_id y) CAPTURE \<longleftrightarrow> ar_status y = Captured) \<and> (has_tx l' (ar_id y) VOID \<longleftrightarrow> ar_status y = Voided)"
        by (rule imageE) (rule mine)
    qed
  qed
  moreover have "credit_inv l'"
  proof -
    have act: "\<forall>x \<in> set (le_auths l). ar_id x = pc_auth c \<longrightarrow> active x" using uniq st by (auto simp: active_def)
    have am: "\<forall>x \<in> set (le_auths l). 1 \<le> ar_amount x" using i by (simp add: ledger_inv_def credit_inv_def)
    then have am0: "\<forall>x \<in> set (le_auths l). 0 \<le> ar_amount x" by auto
    have "credit_used l' w tok \<le> le_limit l'" for w tok
      using credit_set_status [OF act am0, of s now w tok] i by (auto simp: l' ledger_inv_def credit_inv_def intro: order_trans)
    then show ?thesis using am by (auto simp: credit_inv_def l' set_status_auths)
  qed
  ultimately show ?thesis by (simp add: ledger_inv_def)
qed

lemma ledger_apply_inv:
  assumes i: "ledger_inv l" and v: "valid_command c" and e: "ledger_apply env c l = Inr (r, l')"
  shows "ledger_inv l'"
proof (cases "pc_action c = AUTHORIZE")
  case True
  have e: "apply_authorize env (find_auth l (pc_auth c)) c l = Inr (r, l')"
    using e True by (simp add: ledger_apply_def Let_def ensure_Inr)
  show ?thesis
  proof (cases "find_auth l (pc_auth c)")
    case None
    have am: "1 \<le> pc_amount c" using v by (simp add: valid_command_def)
    let ?tok = "case pc_card c of None \<Rightarrow> [] | Some k \<Rightarrow> k"
    consider (same) "l' = l" | (new) "credit_used l (pc_world c) ?tok + pc_amount c \<le> le_limit l"
        "record_tx c O_Authorized env (l\<lparr>le_auths := le_auths l @ [new_auth_row c ?tok (ce_now env)]\<rparr>) = Inr (r, l')"
      using e None unfolding apply_authorize_def Let_def by (auto split: if_splits)
    then show ?thesis
    proof cases
      case new
      show ?thesis by (rule authorize_inv [OF i None am True new])
    qed (use i in simp)
  next
    case (Some a)
    then show ?thesis using e i by (auto simp: apply_authorize_def Let_def ensure_Inr existing_receipt_def split: if_splits option.splits)
  qed
next
  case False
  then obtain a where a: "find_auth l (pc_auth c) = Some a" "bound_to a c" "apply_settle env a c l = Inr (r, l')"
    using e by (auto simp: ledger_apply_def Let_def ensure_Inr split: option.splits)
  have k: "pc_action c = VOID" if "pc_action c \<noteq> CAPTURE" using False that by (cases "pc_action c") auto
  show ?thesis using a(3) i k settle_inv [OF i a(1,2)]
    by (auto simp: apply_settle_def ensure_Inr existing_receipt_def split: if_splits option.splits)
qed

section \<open>Runs of the provider\<close>

datatype ledger_op = Pay call_env json | Fault_Used string string string | Claim string int int rat | Finish outbox_row bool rat

fun ledger_step :: "(json \<Rightarrow> string) \<Rightarrow> ledger \<Rightarrow> ledger_op \<Rightarrow> pay_error + ledger" where
  "ledger_step H l (Pay env v) = (case execute H env v l of (Inl e, _) \<Rightarrow> Inl e | (Inr _, l') \<Rightarrow> Inr l')"
| "ledger_step H l (Fault_Used w k m) = map_sum id snd (consume_fault w k m l)"
| "ledger_step H l (Claim worker limit lease now) = map_sum id snd (claim_notifications worker limit lease now l)"
| "ledger_step H l (Finish claim ok now) = Inr (snd (finish_notification claim ok now l))"

lemma ledger_inv_commands [simp]: "ledger_inv (l\<lparr>le_commands := x\<rparr>) = ledger_inv l"
  by (simp add: ledger_inv_def tables_inv_def status_inv_def credit_inv_def captures_of_def has_tx_def credit_used_def)

lemma ledger_inv_faults [simp]: "ledger_inv (l\<lparr>le_faults := x\<rparr>) = ledger_inv l"
  by (simp add: ledger_inv_def tables_inv_def status_inv_def credit_inv_def captures_of_def has_tx_def credit_used_def)

lemma ledger_inv_outbox:
  "map ob_body obs = map ob_body (le_outbox l) \<Longrightarrow> ledger_inv (l\<lparr>le_outbox := obs\<rparr>) = ledger_inv l"
  using map_map [of pe_tx ob_body obs] map_map [of pe_tx ob_body "le_outbox l"]
  by (simp add: ledger_inv_def tables_inv_def status_inv_def credit_inv_def captures_of_def has_tx_def credit_used_def del: map_map)

lemma outbox_map_inv: "(\<And>x. ob_body (f x) = ob_body x) \<Longrightarrow> ledger_inv (l\<lparr>le_outbox := map f (le_outbox l)\<rparr>) = ledger_inv l"
  by (rule ledger_inv_outbox) simp

lemma claim_effect:
  assumes "claim_notifications worker limit lease now l = Inr (rows, l')"
  shows "rows = map (claim_row worker (now + of_int lease)) (take (nat limit) (sort_key ob_revision (filter (claimable now) (le_outbox l)))) \<and>
    l' = l\<lparr>le_outbox := map (\<lambda>o'. if ob_event o' \<in> set (map ob_event rows) then claim_row worker (now + of_int lease) o' else o') (le_outbox l)\<rparr>"
  using assms by (auto simp: claim_notifications_def Let_def ok_Inr split: if_splits)

lemma finish_effect:
  obtains "snd (finish_notification claim ok now l) = l" | "snd (finish_notification claim ok now l) =
    l\<lparr>le_outbox := map (\<lambda>o'. if ob_event o' = ob_event claim then finish_row ok now o' else o') (le_outbox l)\<rparr>"
  by (cases "\<exists>o' \<in> set (le_outbox l). holds_claim claim now o'") (simp_all only: finish_notification_def if_True if_False snd_conv)

lemma validate_valid: "validate v = Inr c \<Longrightarrow> valid_command c"
  by (simp add: validate_Inr)

text \<open>A call either answers from its receipt, or is applied and its receipt stored.\<close>

lemma execute_cases:
  assumes "execute H env v l = (Inr r, l')"
  obtains (replay) c where "validate v = Inr c" "map_of (le_commands l) (pc_key c) = Some (H (dumps_tree (command_json c)), r)" "l' = l"
  | (applied) c l1 where "validate v = Inr c" "map_of (le_commands l) (pc_key c) = None" "ledger_apply env c l = Inr (r, l1)"
      "l' = l1\<lparr>le_commands := le_commands l1 @ [(pc_key c, H (dumps_tree (command_json c)), r)]\<rparr>"
proof -
  obtain c where c: "validate v = Inr c" "execute_tx H env c l = (Inr r, l')"
    using assms by (auto simp: execute_def split: sum.splits if_splits)
  show ?thesis
  proof (cases "map_of (le_commands l) (pc_key c)")
    case None
    then obtain l1 where "ledger_apply env c l = Inr (r, l1)"
      "l' = l1\<lparr>le_commands := le_commands l1 @ [(pc_key c, H (dumps_tree (command_json c)), r)]\<rparr>"
      using c(2) by (auto simp: execute_tx_def split: sum.splits prod.splits)
    then show ?thesis using applied c(1) None by blast
  next
    case (Some x)
    obtain f r' where x: "x = (f, r')" by (cases x)
    have "f = H (dumps_tree (command_json c))" "r' = r" "l' = l"
      using c(2) by (simp_all add: execute_tx_def Some x split: if_splits)
    then show ?thesis using replay [OF c(1)] Some x by simp
  qed
qed

lemma execute_inv:
  assumes "ledger_inv l" "execute H env v l = (Inr r, l')"
  shows "ledger_inv l'"
  using assms(2)
proof (cases rule: execute_cases)
  case (applied c l1)
  have "ledger_inv l1" by (rule ledger_apply_inv [OF assms(1) validate_valid [OF applied(1)] applied(3)])
  then show ?thesis using applied(4) by simp
qed (use assms(1) in simp)

lemma execute_error_keeps: "execute H env v l = (Inl e, l') \<Longrightarrow> l' = l"
  by (auto simp: execute_def execute_tx_def split: sum.splits if_splits option.splits prod.splits)

lemma ledger_step_inv: "ledger_inv l \<Longrightarrow> ledger_step H l x = Inr l' \<Longrightarrow> ledger_inv l'"
proof (cases x)
  case (Pay env v)
  assume "ledger_inv l" "ledger_step H l x = Inr l'"
  then show ?thesis using Pay execute_inv by (cases "execute H env v l") (auto split: sum.splits)
next
  case (Fault_Used w k m)
  assume "ledger_inv l" "ledger_step H l x = Inr l'"
  then show ?thesis using Fault_Used by (auto simp: consume_fault_def map_sum_Inr ok_Inr split: if_splits)
next
  case (Claim worker limit lease now)
  assume i: "ledger_inv l" and s: "ledger_step H l x = Inr l'"
  obtain rows where c: "claim_notifications worker limit lease now l = Inr (rows, l')" using s Claim by (auto simp: map_sum_Inr)
  have k: "ob_body (if ob_event o' \<in> set (map ob_event rows) then claim_row worker (now + of_int lease) o' else o') = ob_body o'" for o'
    by (simp add: claim_row_def)
  show ?thesis unfolding conjunct2 [OF claim_effect [OF c]] using outbox_map_inv [OF k, of l] i by blast
next
  case (Finish claim ok now)
  assume i: "ledger_inv l" and s: "ledger_step H l x = Inr l'"
  then show ?thesis using outbox_map_inv [of "\<lambda>o'. if ob_event o' = ob_event claim then finish_row ok now o' else o'" l] Finish
    by (rule_tac finish_effect [of claim ok now l]) (auto simp: finish_row_def)
qed

interpretation ledger_runs: guarded_steps "ledger_step H" ledger_inv for H
  by unfold_locales (rule ledger_step_inv)

section \<open>Money\<close>

lemma sum_filter_sort: "sum_list (map f (filter P (sort_key g xs))) = sum_list (map f (filter P xs))" for f :: "'a \<Rightarrow> int"
  by (rule sum_list_perm) simp

lemma sum_sort: "sum_list (map f (sort_key g xs)) = sum_list (map f xs)" for f :: "'a \<Rightarrow> int"
  using sum_filter_sort [of f "\<lambda>_. True" g xs] by simp

lemma single_distinct: "set xs = {a} \<Longrightarrow> distinct xs \<Longrightarrow> xs = [a]"
  by (cases xs; cases "tl xs") auto

lemma snapshot_captures:
  assumes i: "ledger_inv l" and s: "pay_snapshot_of w ord l = Inr s"
  shows "ps_captures s \<le> 1 \<and> ps_captured s = sum_list (map ar_amount (filter (\<lambda>a. ar_status a = Captured) (ps_auths s)))"
proof -
  define cs where "cs = filter (\<lambda>t. tx_kind t = CAPTURE) (filter (\<lambda>t. tx_world t = w \<and> tx_order t = ord) (le_txs l))"
  define as where "as = filter (\<lambda>a. ar_status a = Captured) (filter (\<lambda>a. ar_world a = w \<and> ar_order a = ord) (le_auths l))"
  have s1: "ps_captures s = length cs" "ps_captured s = sum_list (map tx_amount cs)"
    "sum_list (map ar_amount (filter (\<lambda>a. ar_status a = Captured) (ps_auths s))) = sum_list (map ar_amount as)"
    using s by (auto simp: pay_snapshot_of_def Let_def ok_Inr cs_def as_def sum_sort filter_sort comp_def filter_map
      simp del: filter_filter split: if_splits)
  have "map (\<lambda>t. (tx_world t, tx_order t)) cs = filter (\<lambda>x. x = (w, ord)) (map (\<lambda>t. (tx_world t, tx_order t)) (captures_of l))"
    by (simp add: cs_def captures_of_def filter_map comp_def conj_ac)
  then have d: "distinct (map (\<lambda>t. (tx_world t, tx_order t)) cs)" using i by (simp add: ledger_inv_def tables_inv_def)
  have one: "length cs \<le> 1"
  proof (rule ccontr)
    assume "\<not> length cs \<le> 1"
    then obtain t u ts where "cs = t # u # ts" by (cases cs; cases "tl cs") auto
    moreover have "tx_world x = w \<and> tx_order x = ord" if "x \<in> set cs" for x using that by (simp add: cs_def)
    ultimately show False using d by auto
  qed
  have capt: "\<exists>t \<in> set cs. tx_auth t = ar_id a" if "a \<in> set as" for a
  proof -
    have a: "a \<in> set (le_auths l)" "ar_status a = Captured" "ar_world a = w" "ar_order a = ord" using that by (auto simp: as_def)
    then obtain t where t: "t \<in> set (le_txs l)" "tx_auth t = ar_id a" "tx_kind t = CAPTURE"
      using i by (auto simp: ledger_inv_def status_inv_def has_tx_def)
    then obtain b where b: "b \<in> set (le_auths l)" "tx_matches t b" using i by (auto simp: ledger_inv_def tables_inv_def)
    have "b = a" using i a(1) b t(2) by (auto simp: ledger_inv_def tables_inv_def distinct_map inj_on_def tx_matches_def)
    then have "t \<in> set cs" using t b(2) a by (auto simp: cs_def tx_matches_def)
    then show ?thesis using t(2) by blast
  qed
  have das: "distinct (map ar_id as)" using i by (auto simp: as_def ledger_inv_def tables_inv_def distinct_map inj_on_def)
  have "sum_list (map tx_amount cs) = sum_list (map ar_amount as)"
  proof (cases cs)
    case Nil
    then have "set as = {}" using capt by fastforce
    then show ?thesis using Nil by simp
  next
    case (Cons t ts)
    then have cs: "cs = [t]" using one by simp
    then have t: "t \<in> set (le_txs l)" "tx_kind t = CAPTURE" "tx_world t = w" "tx_order t = ord" by (auto simp: cs_def filter_eq_Cons_iff)
    obtain a where a: "a \<in> set (le_auths l)" "tx_matches t a" using i t(1) by (auto simp: ledger_inv_def tables_inv_def)
    have "has_tx l (ar_id a) CAPTURE" using t a(2) by (auto simp: has_tx_def tx_matches_def)
    then have "ar_status a = Captured" using i a(1) by (auto simp: ledger_inv_def status_inv_def)
    then have ain: "a \<in> set as" using a t by (auto simp: as_def tx_matches_def)
    have "b = a" if "b \<in> set as" for b
    proof -
      have "ar_id b = ar_id a" using capt [OF that] a(2) by (auto simp: cs tx_matches_def)
      then show ?thesis using das that ain by (auto simp: distinct_map inj_on_def)
    qed
    then have "set as = {a}" using ain by blast
    moreover have "distinct as" using das by (simp add: distinct_map)
    ultimately have "as = [a]" by (rule single_distinct)
    then show ?thesis using cs a(2) by (simp add: tx_matches_def)
  qed
  then show ?thesis using s1 one by simp
qed

section \<open>What a call can raise\<close>

definition fresh_ids :: "call_env \<Rightarrow> ledger \<Rightarrow> bool" where
  "fresh_ids env l \<longleftrightarrow> (\<forall>t \<in> set (le_txs l). tx_id t \<noteq> ce_tx env) \<and> (\<forall>o' \<in> set (le_outbox l). ob_event o' \<noteq> ce_event env)"

definition pay_conflicts :: "string list" where
  "pay_conflicts = [''IDEMPOTENCY_CONFLICT'', ''AUTHORIZATION_BINDING_CONFLICT'', ''ORDER_ALREADY_CAPTURED'',
     ''AUTHORIZATION_NOT_ACTIVE'', ''AUTHORIZATION_NOT_FOUND'']"

lemma no_tx_of_unknown:
  assumes "ledger_inv l" "find_auth l aid = None"
  shows "\<not> has_tx l aid k"
proof
  assume "has_tx l aid k"
  then obtain u x where "tx_auth u = aid" "x \<in> set (le_auths l)" "tx_matches u x"
    using assms(1) by (auto simp: ledger_inv_def tables_inv_def has_tx_def)
  then have "ar_id x = aid" by (simp add: tx_matches_def)
  then show False using assms(2) \<open>x \<in> set (le_auths l)\<close> by (metis find_auth_None imageI)
qed

lemma record_tx_ok:
  assumes "fresh_ids env l" "\<not> has_tx l (pc_auth c) (pc_action c)" "pc_action c = CAPTURE \<longrightarrow> \<not> order_captured l (pc_world c) (pc_order c)"
  shows "record_tx c outcome env l \<noteq> Inl e"
  using assms by (auto simp: record_tx_def Let_def ensure_Inl insert_allowed_def new_tx_row_def fresh_ids_def has_tx_def)

lemma record_tx_Inl: "record_tx c outcome env l = Inl e \<Longrightarrow> e = Integrity_Error"
  by (auto simp: record_tx_def Let_def ensure_Inl)

lemma existing_receipt_ok: "has_tx l (pc_auth c) k \<Longrightarrow> existing_receipt c outcome k l \<noteq> Inl e"
  by (auto simp: existing_receipt_def find_tx_None split: option.split)

lemma settle_error:
  assumes i: "ledger_inv l" and f: "find_auth l (pc_auth c) = Some a" "bound_to a c" and fr: "fresh_ids env l"
    and k: "pc_action c \<noteq> AUTHORIZE" and e: "apply_settle env a c l = Inl e"
  shows "\<exists>code \<in> set pay_conflicts. e = Payment_Error code 409"
proof -
  have a: "a \<in> set (le_auths l)" "ar_id a = pc_auth c" using find_auth_Some [OF f(1)] by auto
  have st: "has_tx l (pc_auth c) CAPTURE \<longleftrightarrow> ar_status a = Captured" "has_tx l (pc_auth c) VOID \<longleftrightarrow> ar_status a = Voided"
    using i a(1) unfolding a(2) [symmetric] by (simp_all add: ledger_inv_def status_inv_def)
  let ?s = "if pc_action c = CAPTURE then Captured else Voided" and ?o = "if pc_action c = CAPTURE then O_Captured else O_Voided"
  have k': "pc_action c = CAPTURE \<or> pc_action c = VOID" using k by (cases "pc_action c") auto
  have rec: "existing_receipt c ?o (pc_action c) l \<noteq> Inl e" if "ar_status a = ?s"
    using existing_receipt_ok [of l c "pc_action c" ?o e] st that k' by auto
  have new: "record_tx c ?o env (set_status (pc_auth c) ?s (ce_now env) l) \<noteq> Inl e"
    if "ar_status a = Authorized" "\<not> (pc_action c = CAPTURE \<and> order_captured l (pc_world c) (pc_order c))"
    using record_tx_ok [of env "set_status (pc_auth c) ?s (ce_now env) l" c ?o e] st that k' fr
    by (auto simp: fresh_ids_def order_captured_def)
  show ?thesis
    using e rec new by (cases "pc_action c = CAPTURE"; cases "ar_status a = ?s")
      (auto simp: apply_settle_def ensure_Inl pay_conflicts_def)
qed

lemma authorize_error:
  assumes i: "ledger_inv l" and fr: "fresh_ids env l" and k: "pc_action c = AUTHORIZE"
    and e: "apply_authorize env (find_auth l (pc_auth c)) c l = Inl e"
  shows "\<exists>code \<in> set pay_conflicts. e = Payment_Error code 409"
proof (cases "find_auth l (pc_auth c)")
  case None
  let ?tok = "case pc_card c of None \<Rightarrow> [] | Some k \<Rightarrow> k"
  have "record_tx c O_Authorized env (l\<lparr>le_auths := le_auths l @ [new_auth_row c ?tok (ce_now env)]\<rparr>) \<noteq> Inl e"
    by (rule record_tx_ok) (use fr k no_tx_of_unknown [OF i None] in \<open>auto simp: fresh_ids_def has_tx_def\<close>)
  then show ?thesis using e None by (auto simp: apply_authorize_def Let_def pay_conflicts_def split: if_splits)
next
  case (Some a)
  have "has_tx l (pc_auth c) AUTHORIZE" using i find_auth_Some [OF Some] by (metis ledger_inv_def status_inv_def)
  then show ?thesis using e Some existing_receipt_ok [of l c AUTHORIZE O_Authorized e]
    by (auto simp: apply_authorize_def Let_def ensure_Inl pay_conflicts_def split: if_splits)
qed

lemma ledger_apply_error:
  assumes "ledger_inv l" "fresh_ids env l" "ledger_apply env c l = Inl e"
  shows "\<exists>code \<in> set pay_conflicts. e = Payment_Error code 409"
proof (cases "(case find_auth l (pc_auth c) of None \<Rightarrow> True | Some a \<Rightarrow> bound_to a c)")
  case False
  then show ?thesis using assms(3) by (simp add: ledger_apply_def Let_def pay_conflicts_def)
next
  case True
  show ?thesis
  proof (cases "pc_action c = AUTHORIZE")
    case a: True
    then show ?thesis using authorize_error [OF assms(1,2) a] assms(3) True by (simp add: ledger_apply_def Let_def)
  next
    case False
    then show ?thesis using settle_error [OF assms(1) _ _ assms(2) False] assms(3) True
      by (cases "find_auth l (pc_auth c)") (auto simp: ledger_apply_def Let_def pay_conflicts_def)
  qed
qed

section \<open>Receipts\<close>

lemma record_tx_commands: "record_tx c outcome env l = Inr (r, l') \<Longrightarrow> le_commands l' = le_commands l"
  by (auto simp: record_tx_def Let_def ensure_Inr)

lemma existing_receipt_same: "existing_receipt c outcome k l = Inr (r, l') \<Longrightarrow> l' = l"
  by (auto simp: existing_receipt_def split: option.splits)

lemma ledger_apply_commands:
  assumes "ledger_apply env c l = Inr (r, l')"
  shows "le_commands l' = le_commands l"
proof -
  consider "apply_authorize env (find_auth l (pc_auth c)) c l = Inr (r, l')" | a where "apply_settle env a c l = Inr (r, l')"
    using assms by (auto simp: ledger_apply_def Let_def ensure_Inr split: if_splits option.splits)
  then show ?thesis
  proof cases
    case 1
    then show ?thesis by (auto simp: apply_authorize_def Let_def ensure_Inr split: if_splits option.splits
        dest!: record_tx_commands existing_receipt_same)
  next
    case 2
    then show ?thesis by (auto simp: apply_settle_def Let_def ensure_Inr split: if_splits
        dest!: record_tx_commands existing_receipt_same)
  qed
qed

definition pay_exec :: "(json \<Rightarrow> string) \<Rightarrow> ledger \<Rightarrow> string \<Rightarrow> call_env \<times> pay_command \<Rightarrow> (pay_error + pay_result) \<times> ledger" where
  "pay_exec H l k x = execute_tx H (fst x) ((snd x)\<lparr>pc_key := k\<rparr>) l"

definition pay_receipt :: "ledger \<Rightarrow> string \<Rightarrow> (string \<times> (pay_error + pay_result)) option" where
  "pay_receipt l k = map_option (\<lambda>(f, r). (f, Inr r)) (map_of (le_commands l) k)"

lemma execute_tx_receipt:
  assumes "execute_tx H env c l = (res, l')"
  shows "pay_receipt l j \<noteq> None \<Longrightarrow> pay_receipt l' j = pay_receipt l j"
    "pay_receipt l (pc_key c) = None \<Longrightarrow> res = Inr r \<Longrightarrow> pay_receipt l' (pc_key c) = Some (H (dumps_tree (command_json c)), res)"
proof -
  have "map_of (le_commands l') j = Some x" if j: "map_of (le_commands l) j = Some x" for x
  proof (cases "map_of (le_commands l) (pc_key c)")
    case None
    then show ?thesis using assms j ledger_apply_commands by (fastforce simp: execute_tx_def map_add_Some_iff split: sum.splits)
  next
    case (Some y)
    then show ?thesis using assms j by (cases y) (simp add: execute_tx_def)
  qed
  then show "pay_receipt l j \<noteq> None \<Longrightarrow> pay_receipt l' j = pay_receipt l j" by (auto simp: pay_receipt_def)
  assume n: "pay_receipt l (pc_key c) = None" "res = Inr r"
  then have nm: "map_of (le_commands l) (pc_key c) = None" by (simp add: pay_receipt_def)
  obtain l1 where l1: "ledger_apply env c l = Inr (r, l1)"
      "l' = l1\<lparr>le_commands := le_commands l1 @ [(pc_key c, H (dumps_tree (command_json c)), r)]\<rparr>"
    using assms n(2) nm by (auto simp: execute_tx_def split: sum.splits)
  have "map_of (le_commands l' ) (pc_key c) = Some (H (dumps_tree (command_json c)), r)"
    using nm ledger_apply_commands [OF l1(1)] by (simp add: l1(2) map_add_def)
  then show "pay_receipt l' (pc_key c) = Some (H (dumps_tree (command_json c)), res)" by (simp add: pay_receipt_def n(2))
qed

interpretation pay_receipts: receipt_store "pay_exec H" pay_receipt
  "\<lambda>k x. H (dumps_tree (command_json ((snd x)\<lparr>pc_key := k\<rparr>)))" "\<lambda>r. \<exists>e. r = Inl e" for H
proof (unfold_locales, goal_cases)
  case (1 s k c r)
  then show ?case by (auto simp: pay_exec_def execute_tx_def pay_receipt_def)
next
  case (2 s k f r' c)
  then show ?case by (auto simp: pay_exec_def execute_tx_def pay_receipt_def)
next
  case (3 s k c r t)
  obtain r' where "r = Inr r'" using 3(3) by (cases r) auto
  then show ?case using execute_tx_receipt(2) [of H "fst c" "(snd c)\<lparr>pc_key := k\<rparr>" s r t r'] 3 by (simp add: pay_exec_def)
next
  case (4 s k c r t j)
  then show ?case using execute_tx_receipt(1) [of H "fst c" "(snd c)\<lparr>pc_key := k\<rparr>" s r t j] by (simp add: pay_exec_def)
qed

section \<open>The outbox keeps its rows\<close>

text \<open>What a claim does to the outbox: it maps a function over the rows.\<close>

lemma claim_map:
  assumes "claim_notifications worker limit lease now l = Inr (rows, l')"
  obtains f where "le_outbox l' = map f (le_outbox l)" "\<And>x. ob_event (f x) = ob_event x" "\<And>x. ob_version x \<le> ob_version (f x)"
    "\<And>x. ob_event x \<in> ob_event ` set rows \<Longrightarrow> f x = claim_row worker (now + of_int lease) x"
    "\<And>r. r \<in> set rows \<Longrightarrow> \<exists>x \<in> set (le_outbox l). r = claim_row worker (now + of_int lease) x"
proof (rule that)
  let ?f = "\<lambda>o'. if ob_event o' \<in> set (map ob_event rows) then claim_row worker (now + of_int lease) o' else o'"
  show "le_outbox l' = map ?f (le_outbox l)" unfolding conjunct2 [OF claim_effect [OF assms]] by simp
  show "ob_event (?f x) = ob_event x" "ob_version x \<le> ob_version (?f x)" for x by (simp_all add: claim_row_def)
  show "?f x = claim_row worker (now + of_int lease) x" if "ob_event x \<in> ob_event ` set rows" for x using that by simp
  show "\<exists>x \<in> set (le_outbox l). r = claim_row worker (now + of_int lease) x" if r: "r \<in> set rows" for r
  proof -
    obtain x where x: "x \<in> set (take (nat limit) (sort_key ob_revision (filter (claimable now) (le_outbox l))))" "r = claim_row worker (now + of_int lease) x"
      using r unfolding conjunct1 [OF claim_effect [OF assms]] by auto
    then show ?thesis using in_set_takeD [OF x(1)] by auto
  qed
qed

text \<open>A step changes rows of the outbox in place or appends a new row with a new event id.\<close>

definition outbox_grows :: "ledger \<Rightarrow> ledger \<Rightarrow> bool" where
  "outbox_grows l l' \<longleftrightarrow> (\<exists>f new. le_outbox l' = map f (le_outbox l) @ new
     \<and> (\<forall>x. ob_event (f x) = ob_event x \<and> ob_version x \<le> ob_version (f x))
     \<and> (new = [] \<or> (\<exists>ob. new = [ob] \<and> (\<forall>x \<in> set (le_outbox l). ob_event x \<noteq> ob_event ob))))"

lemma outbox_grows_same: "le_outbox l' = le_outbox l \<Longrightarrow> outbox_grows l l'"
  unfolding outbox_grows_def by (rule exI [of _ "\<lambda>x. x"], rule exI [of _ "[]"]) simp

lemma outbox_grows_map:
  "le_outbox l' = map f (le_outbox l) \<Longrightarrow> (\<And>x. ob_event (f x) = ob_event x \<and> ob_version x \<le> ob_version (f x)) \<Longrightarrow> outbox_grows l l'"
  unfolding outbox_grows_def by (rule exI [of _ f], rule exI [of _ "[]"]) simp

lemma record_tx_outbox:
  assumes "record_tx c outcome env l = Inr (r, l')"
  shows "outbox_grows l l'"
  unfolding outbox_grows_def
  by (rule exI [of _ "\<lambda>x. x"], rule exI [of _ "[new_outbox_row c env (length (le_txs l) + 1)]"])
    (use assms in \<open>auto simp: record_tx_def Let_def ensure_Inr insert_allowed_def new_outbox_row_def\<close>)

lemma outbox_grows_cong: "le_outbox a = le_outbox b \<Longrightarrow> outbox_grows a l = outbox_grows b l"
  by (simp add: outbox_grows_def)

lemma ledger_apply_outbox:
  assumes "ledger_apply env c l = Inr (r, l')"
  shows "outbox_grows l l'"
proof -
  consider "apply_authorize env (find_auth l (pc_auth c)) c l = Inr (r, l')" | a where "apply_settle env a c l = Inr (r, l')"
    using assms by (auto simp: ledger_apply_def Let_def ensure_Inr split: if_splits option.splits)
  then consider "l' = l" | l1 o' where "le_outbox l1 = le_outbox l" "record_tx c o' env l1 = Inr (r, l')"
  proof cases
    case 1
    then have "l' = l \<or> (\<exists>as. record_tx c O_Authorized env (l\<lparr>le_auths := as\<rparr>) = Inr (r, l'))"
      by (auto simp: apply_authorize_def Let_def ensure_Inr split: if_splits option.splits dest!: existing_receipt_same)
    then show ?thesis using that(1) that(2) [of "l\<lparr>le_auths := _\<rparr>"] by fastforce
  next
    case 2
    then have "l' = l \<or> (\<exists>st o'. record_tx c o' env (set_status (pc_auth c) st (ce_now env) l) = Inr (r, l'))"
      by (auto simp: apply_settle_def Let_def ensure_Inr split: if_splits dest!: existing_receipt_same)
    then show ?thesis using that(1) that(2) [of "set_status _ _ _ l"] by fastforce
  qed
  then show ?thesis
  proof cases
    case 1 then show ?thesis by (simp add: outbox_grows_same)
  next
    case 2 then show ?thesis using record_tx_outbox outbox_grows_cong by blast
  qed
qed

lemma ledger_step_outbox:
  assumes "ledger_step H l x = Inr l'"
  shows "outbox_grows l l'"
proof (cases x)
  case (Pay env v)
  obtain r where e: "execute H env v l = (Inr r, l')" using assms Pay by (cases "execute H env v l") (auto split: sum.splits)
  then show ?thesis
  proof (cases rule: execute_cases)
    case (applied c l1)
    then show ?thesis using ledger_apply_outbox [OF applied(3)] by (simp add: outbox_grows_def)
  qed (simp add: outbox_grows_same)
next
  case (Fault_Used w k m)
  then show ?thesis using assms by (intro outbox_grows_same) (auto simp: consume_fault_def map_sum_Inr ok_Inr split: if_splits)
next
  case (Claim worker limit lease now)
  then obtain rows where c: "claim_notifications worker limit lease now l = Inr (rows, l')" using assms by (auto simp: map_sum_Inr)
  show ?thesis by (rule claim_map [OF c], rule outbox_grows_map) auto
next
  case (Finish claim ok now)
  have s: "l' = snd (finish_notification claim ok now l)" using assms Finish by simp
  consider "l' = l" | "le_outbox l' = map (\<lambda>o'. if ob_event o' = ob_event claim then finish_row ok now o' else o') (le_outbox l)"
    using finish_effect [of claim ok now l] s by force
  then show ?thesis
  proof cases
    case 1 then show ?thesis by (simp add: outbox_grows_same)
  next
    case 2 then show ?thesis by (rule outbox_grows_map) (simp add: finish_row_def)
  qed
qed

interpretation outbox_ids: guarded_steps "ledger_step H" "\<lambda>l. distinct (map ob_event (le_outbox l))" for H
proof (unfold_locales, goal_cases)
  case (1 l x l')
  obtain f new where f: "le_outbox l' = map f (le_outbox l) @ new" "\<forall>x. ob_event (f x) = ob_event x \<and> ob_version x \<le> ob_version (f x)"
    "new = [] \<or> (\<exists>ob. new = [ob] \<and> (\<forall>x \<in> set (le_outbox l). ob_event x \<noteq> ob_event ob))"
    using ledger_step_outbox [OF 1(2)] by (auto simp: outbox_grows_def)
  have "map ob_event (map f (le_outbox l)) = map ob_event (le_outbox l)" using f(2) by simp
  then have "map ob_event (le_outbox l') = map ob_event (le_outbox l) @ map ob_event new" by (simp add: f(1))
  then show ?case using 1(1) f(3) by (auto simp: image_iff)
qed

definition version_at_least :: "string \<Rightarrow> nat \<Rightarrow> ledger \<Rightarrow> bool" where
  "version_at_least ev n l \<longleftrightarrow> (\<exists>x \<in> set (le_outbox l). ob_event x = ev) \<and> (\<forall>x \<in> set (le_outbox l). ob_event x = ev \<longrightarrow> n \<le> ob_version x)"

interpretation lease_versions: guarded_steps "ledger_step H" "version_at_least ev n" for H ev n
proof (unfold_locales, goal_cases)
  case (1 l x l')
  obtain f new where f: "le_outbox l' = map f (le_outbox l) @ new" "\<And>x. ob_event (f x) = ob_event x" "\<And>x. ob_version x \<le> ob_version (f x)"
    "new = [] \<or> (\<exists>ob. new = [ob] \<and> (\<forall>x \<in> set (le_outbox l). ob_event x \<noteq> ob_event ob))"
    using ledger_step_outbox [OF 1(2)] unfolding outbox_grows_def by blast
  obtain y where y: "y \<in> set (le_outbox l)" "ob_event y = ev" using 1(1) by (auto simp: version_at_least_def)
  have "\<exists>x \<in> set (le_outbox l'). ob_event x = ev" using y f(1,2) by auto
  moreover have "n \<le> ob_version x" if x: "x \<in> set (le_outbox l')" "ob_event x = ev" for x
  proof -
    have "x \<notin> set new" using f(4) x(2) y by auto
    then obtain z where "z \<in> set (le_outbox l)" "x = f z" using x(1) f(1) by auto
    then show ?thesis using 1(1) x(2) f(2) f(3) [of z] by (auto simp: version_at_least_def intro: order_trans)
  qed
  ultimately show ?case by (simp add: version_at_least_def)
qed

lemma claimed_version:
  assumes d: "distinct (map ob_event (le_outbox l))" and c: "claim_notifications worker limit lease now l = Inr (rows, l')" and r: "r \<in> set rows"
  shows "version_at_least (ob_event r) (ob_version r) l'"
proof -
  obtain f where f: "le_outbox l' = map f (le_outbox l)" "\<And>x. ob_event (f x) = ob_event x" "\<And>x. ob_version x \<le> ob_version (f x)"
    "\<And>x. ob_event x \<in> ob_event ` set rows \<Longrightarrow> f x = claim_row worker (now + of_int lease) x"
    "\<And>r. r \<in> set rows \<Longrightarrow> \<exists>x \<in> set (le_outbox l). r = claim_row worker (now + of_int lease) x"
    using claim_map [OF c] by blast
  obtain x where x: "x \<in> set (le_outbox l)" "r = claim_row worker (now + of_int lease) x" using f(5) [OF r] by blast
  have er: "ob_event r = ob_event x" using x(2) by (simp add: claim_row_def)
  have fx: "f y = r" if "y \<in> set (le_outbox l)" "ob_event y = ob_event r" for y
  proof -
    have "y = x" using d that x(1) er by (auto simp: distinct_map inj_on_def)
    moreover have "ob_event x \<in> ob_event ` set rows" using r er by (metis imageI)
    ultimately show ?thesis using f(4) x(2) by simp
  qed
  have "r \<in> set (le_outbox l')" using fx [OF x(1)] er x(1) f(1) by (metis image_eqI set_map)
  moreover have "ob_version r \<le> ob_version z" if z: "z \<in> set (le_outbox l')" "ob_event z = ob_event r" for z
  proof -
    obtain y where y: "y \<in> set (le_outbox l)" "z = f y" using z(1) f(1) by auto
    then have "z = r" using fx [OF y(1)] f(2) z(2) by simp
    then show ?thesis by simp
  qed
  ultimately show ?thesis by (auto simp: version_at_least_def)
qed

lemma claimed_after:
  assumes v: "version_at_least ev n l" and c: "claim_notifications worker limit lease now l = Inr (rows, l')" and r: "r \<in> set rows" "ob_event r = ev"
  shows "version_at_least ev (Suc n) l'"
proof -
  obtain f where f: "le_outbox l' = map f (le_outbox l)" "\<And>x. ob_event (f x) = ob_event x" "\<And>x. ob_version x \<le> ob_version (f x)"
    "\<And>x. ob_event x \<in> ob_event ` set rows \<Longrightarrow> f x = claim_row worker (now + of_int lease) x"
    "\<And>r. r \<in> set rows \<Longrightarrow> \<exists>x \<in> set (le_outbox l). r = claim_row worker (now + of_int lease) x"
    using claim_map [OF c] by blast
  have e: "ev \<in> ob_event ` set rows" using r by blast
  obtain y where y: "y \<in> set (le_outbox l)" "ob_event y = ev" using v by (auto simp: version_at_least_def)
  have "f y \<in> set (le_outbox l')" "ob_event (f y) = ev" using y f(1,2) by auto
  moreover have "Suc n \<le> ob_version z" if z: "z \<in> set (le_outbox l')" "ob_event z = ev" for z
  proof -
    obtain u where u: "u \<in> set (le_outbox l)" "z = f u" using z(1) f(1) by auto
    then have "ob_event u = ev" using f(2) z(2) by simp
    then show ?thesis using v u f(4) [of u] e by (simp add: version_at_least_def claim_row_def)
  qed
  ultimately show ?thesis by (auto simp: version_at_least_def)
qed

section \<open>The provider's promises\<close>

text \<open>C28. Whatever calls, retries, races and deliveries reach the provider, an order is captured at
  most once, and what its snapshot shows as captured is exactly the amount of the
  authorization that was captured.\<close>

theorem one_capture_per_order:
  assumes "0 \<le> limit" and "pay_snapshot_of w ord (run (ledger_step H) (new_ledger limit) ops) = Inr s"
  shows "ps_captures s \<le> 1 \<and> ps_captured s = sum_list (map ar_amount (filter (\<lambda>a. ar_status a = Captured) (ps_auths s)))"
  using snapshot_captures [OF ledger_runs.run_inv [OF new_ledger_inv [OF assms(1)]] assms(2)] .

text \<open>The credit limit holds for every card in every world: what is held or captured on it
  never exceeds the limit the ledger was opened with.\<close>

lemma le_limit_step: "ledger_step H l x = Inr l' \<Longrightarrow> le_limit l' = le_limit l"
proof -
  have rec: "record_tx c o' env k = Inr (r, k') \<Longrightarrow> le_limit k' = le_limit k" for c o' env k r k'
    by (auto simp: record_tx_def Let_def ensure_Inr)
  have app: "ledger_apply env c k = Inr (r, k') \<Longrightarrow> le_limit k' = le_limit k" for env c k r k'
    by (auto simp: ledger_apply_def apply_authorize_def apply_settle_def Let_def ensure_Inr split: if_splits option.splits
        dest!: rec existing_receipt_same)
  assume s: "ledger_step H l x = Inr l'"
  show ?thesis
  proof (cases x)
    case (Pay env v)
    obtain r where e: "execute H env v l = (Inr r, l')" using s Pay by (cases "execute H env v l") (auto split: sum.splits)
    then show ?thesis by (cases rule: execute_cases) (auto dest: app)
  next
    case (Fault_Used w k m)
    then show ?thesis using s by (auto simp: consume_fault_def map_sum_Inr ok_Inr split: if_splits)
  next
    case (Claim worker limit lease now)
    then show ?thesis using s by (auto simp: map_sum_Inr claim_notifications_def ok_Inr Let_def split: if_splits)
  next
    case (Finish claim ok now)
    then show ?thesis using s by (auto simp: finish_notification_def)
  qed
qed

interpretation limits: guarded_steps "ledger_step H" "\<lambda>l. le_limit l = n" for H n
  by unfold_locales (simp add: le_limit_step)

theorem credit_limit_kept:
  assumes "0 \<le> limit"
  shows "credit_used (run (ledger_step H) (new_ledger limit) ops) w tok \<le> limit"
proof -
  have "ledger_inv (run (ledger_step H) (new_ledger limit) ops)" by (rule ledger_runs.run_inv [OF new_ledger_inv [OF assms]])
  moreover have "le_limit (run (ledger_step H) (new_ledger limit) ops) = limit"
    by (rule limits.run_inv) (simp add: new_ledger_def)
  ultimately show ?thesis by (metis ledger_inv_def credit_inv_def)
qed

text \<open>A payment call that raises changes nothing, and with fresh ids it raises one of the
  documented conflicts, a format error, or refuses its options: the tables never reject a row
  and no receipt is ever missing.\<close>

theorem payment_errors_documented:
  assumes "0 \<le> limit" and "fresh_ids env (run (ledger_step H) (new_ledger limit) ops)"
    and "execute H env v (run (ledger_step H) (new_ledger limit) ops) = (Inl e, l')"
  shows "l' = run (ledger_step H) (new_ledger limit) ops \<and>
    (validate v = Inl e \<or> e = Value_Error \<or> (\<exists>code \<in> set pay_conflicts. e = Payment_Error code 409))"
proof -
  let ?l = "run (ledger_step H) (new_ledger limit) ops"
  have i: "ledger_inv ?l" by (rule ledger_runs.run_inv [OF new_ledger_inv [OF assms(1)]])
  have k: "l' = ?l" by (rule execute_error_keeps [OF assms(3)])
  show ?thesis
  proof (cases "validate v")
    case (Inl e')
    then show ?thesis using assms(3) k by (simp add: execute_def)
  next
    case (Inr c)
    consider "e = Value_Error" | "execute_tx H env c ?l = (Inl e, l')"
      using assms(3) Inr by (auto simp: execute_def split: if_splits)
    then show ?thesis
    proof cases
      case 2
      then consider "e = Payment_Error ''IDEMPOTENCY_CONFLICT'' 409" | "ledger_apply env c ?l = Inl e"
        by (auto simp: execute_tx_def split: option.splits if_splits sum.splits)
      then show ?thesis using k ledger_apply_error [OF i assms(2)] by cases (auto simp: pay_conflicts_def)
    qed (use k in simp)
  qed
qed

text \<open>C29. A payment call may be sent again with the same operation key after anything else
  happened: it gives the reply of the first time and moves no money.\<close>

interpretation kept_pay_receipts: guarded_steps "ledger_step H" "\<lambda>l. pay_receipt l k = Some x" for H k x
proof (unfold_locales, goal_cases)
  case (1 l op l')
  show ?case
  proof (cases op)
    case (Pay env v)
    obtain r where e: "execute H env v l = (Inr r, l')" using 1(2) Pay by (cases "execute H env v l") (auto split: sum.splits)
    then obtain c where "execute_tx H env c l = (Inr r, l')" by (auto simp: execute_def split: sum.splits if_splits)
    then show ?thesis using execute_tx_receipt(1) 1(1) by fastforce
  next
    case (Fault_Used w k m)
    then show ?thesis using 1 by (auto simp: consume_fault_def map_sum_Inr ok_Inr pay_receipt_def split: if_splits)
  next
    case (Claim worker limit lease now)
    then show ?thesis using 1 by (auto simp: map_sum_Inr claim_notifications_def ok_Inr Let_def pay_receipt_def split: if_splits)
  next
    case (Finish claim ok now)
    then show ?thesis using 1 by (auto simp: finish_notification_def pay_receipt_def)
  qed
qed

theorem payment_retry_is_safe:
  assumes "execute H env v l = (Inr r, l1)" and "ce_copies env' \<in> {1, 2} \<and> 0 \<le> ce_delay env' \<and> ce_delay env' \<le> 3"
  shows "execute H env' v (run (ledger_step H) l1 later) = (Inr r, run (ledger_step H) l1 later)"
proof -
  obtain c where c: "validate v = Inr c" "execute_tx H env c l = (Inr r, l1)" using assms(1) by (auto simp: execute_def split: sum.splits if_splits)
  have p: "pay_exec H l (pc_key c) (env, c) = (Inr r, l1)" using c(2) by (simp add: pay_exec_def)
  have "pay_receipt l1 (pc_key c) = Some (H (dumps_tree (command_json c)), Inr r)"
    using pay_receipts.not_refused_stored [OF p] by simp
  then have "pay_receipt (run (ledger_step H) l1 later) (pc_key c) = Some (H (dumps_tree (command_json c)), Inr r)"
    by (rule kept_pay_receipts.run_inv)
  then have "pay_exec H (run (ledger_step H) l1 later) (pc_key c) (env', c) = (Inr r, run (ledger_step H) l1 later)"
    using pay_receipts.replay [of _ "pc_key c" H "(env', c)"] by simp
  then show ?thesis using c(1) assms(2) by (simp add: execute_def pay_exec_def)
qed

text \<open>Outbox leases fence: once a notification was claimed again, an acknowledgement with the
  older claim is refused and changes nothing, whatever happened in between.\<close>

theorem stale_claim_refused:
  assumes "claim_notifications w1 n1 d1 t1 (run (ledger_step H) (new_ledger limit) ops) = Inr (rows1, l1)" and "r1 \<in> set rows1"
    and "claim_notifications w2 n2 d2 t2 (run (ledger_step H) l1 between) = Inr (rows2, l2)" and "r2 \<in> set rows2"
    and "ob_event r2 = ob_event r1"
  shows "finish_notification r1 ok t (run (ledger_step H) l2 later) = (False, run (ledger_step H) l2 later)"
proof -
  have d: "distinct (map ob_event (le_outbox (run (ledger_step H) (new_ledger limit) ops)))"
    by (rule outbox_ids.run_inv) (simp add: new_ledger_def)
  have "version_at_least (ob_event r1) (ob_version r1) l1" by (rule claimed_version [OF d assms(1,2)])
  then have "version_at_least (ob_event r1) (ob_version r1) (run (ledger_step H) l1 between)" by (rule lease_versions.run_inv)
  then have "version_at_least (ob_event r1) (Suc (ob_version r1)) l2" by (rule claimed_after [OF _ assms(3,4,5)])
  then have "version_at_least (ob_event r1) (Suc (ob_version r1)) (run (ledger_step H) l2 later)" by (rule lease_versions.run_inv)
  then have "\<not> (\<exists>x \<in> set (le_outbox (run (ledger_step H) l2 later)). holds_claim r1 t x)"
    by (fastforce simp: version_at_least_def holds_claim_def)
  then show ?thesis by (simp add: finish_notification_def)
qed

section \<open>Witnesses\<close>

definition pay_digest :: string where
  "pay_digest = replicate 64 (CHR ''a'')"

definition pay_json :: "pay_action \<Rightarrow> string \<Rightarrow> json" where
  "pay_json a k = JObj (command_fields \<lparr>pc_action = a, pc_world = ''w'', pc_order = ''o'', pc_key = k, pc_auth = ''AUTH-1'', pc_amount = 4500,
     pc_revision = 1, pc_quote = pay_digest, pc_card = (if a = AUTHORIZE then Some ''demo-approved'' else None)\<rparr>)"

definition pay_env :: "string \<Rightarrow> rat \<Rightarrow> call_env" where
  "pay_env x now = \<lparr>ce_copies = 1, ce_delay = 0, ce_now = now, ce_tx = ''TX-'' @ x, ce_event = ''EV-'' @ x\<rparr>"

definition sample_print :: "json \<Rightarrow> string" where
  "sample_print = json_texts"

definition sample_payments :: "ledger_op list" where
  "sample_payments = [Pay (pay_env ''1'' 0) (pay_json AUTHORIZE ''k1''), Pay (pay_env ''2'' 1) (pay_json CAPTURE ''k2'')]"

definition sample_ledger :: ledger where
  "sample_ledger = run (ledger_step sample_print) (new_ledger 100000) sample_payments"

theorem one_capture_per_order_witness:
  "\<exists>s. pay_snapshot_of ''w'' ''o'' (run (ledger_step sample_print) (new_ledger 100000) sample_payments) = Inr s \<and> ps_captured s = 4500 \<and> ps_captures s \<le> 1"
proof -
  have "map_sum id ps_captured (pay_snapshot_of ''w'' ''o'' (run (ledger_step sample_print) (new_ledger 100000) sample_payments)) = Inr 4500"
    by code_simp
  then obtain s where s: "pay_snapshot_of ''w'' ''o'' (run (ledger_step sample_print) (new_ledger 100000) sample_payments) = Inr s" "ps_captured s = 4500"
    by (auto simp: map_sum_Inr)
  then show ?thesis using one_capture_per_order [OF _ s(1)] by auto
qed

theorem credit_limit_kept_witness:
  "credit_used (run (ledger_step sample_print) (new_ledger 5000) (sample_payments @ sample_payments)) ''w'' ''demo-approved'' \<le> 5000"
  by (rule credit_limit_kept) simp

theorem payment_retry_is_safe_witness:
  "\<exists>r l. execute sample_print (pay_env ''1'' 0) (pay_json AUTHORIZE ''k1'') (new_ledger 100000) = (Inr r, l) \<and>
    execute sample_print (pay_env ''9'' 5) (pay_json AUTHORIZE ''k1'') (run (ledger_step sample_print) l sample_payments)
      = (Inr r, run (ledger_step sample_print) l sample_payments)"
proof -
  have "is_ok (fst (execute sample_print (pay_env ''1'' 0) (pay_json AUTHORIZE ''k1'') (new_ledger 100000)))" by code_simp
  then obtain r l where x: "execute sample_print (pay_env ''1'' 0) (pay_json AUTHORIZE ''k1'') (new_ledger 100000) = (Inr r, l)"
    by (cases "execute sample_print (pay_env ''1'' 0) (pay_json AUTHORIZE ''k1'') (new_ledger 100000)") (auto simp: is_ok_iff)
  show ?thesis using payment_retry_is_safe [OF x, of "pay_env ''9'' 5" sample_payments] x by (auto simp: pay_env_def)
qed


end
