(* ===== verification/Payment_Gateway.thy ===== *)
theory Payment_Gateway
  imports Payment_Ledger Durable_Operations
begin

text \<open>
  \<open>payments/http_client.py\<close> and the request handler of \<open>payments/http_server.py\<close>: the
  payment provider as the coordinator sees it. A request is a path (unquoted) and a JSON
  value, an answer is a status and a JSON value or a closed connection. The client accepts an
  answer only when it is bound to its command; everything else is unconfirmed, never a decline.
  Not modelled: tokens, TLS, header and length checks and the limit of concurrent requests. The
  times of the rows are left out of the snapshot.
\<close>

section \<open>Answers\<close>

datatype http_reply = Http int json | Closed

datatype call_error = Unavailable | Raised pay_error

fun outcome_name :: "pay_outcome \<Rightarrow> string" where
  "outcome_name O_Authorized = ''AUTHORIZED''"
| "outcome_name O_Captured = ''CAPTURED''"
| "outcome_name O_Voided = ''VOIDED''"
| "outcome_name O_Declined = ''DECLINED''"

fun confirmed_outcome :: "pay_action \<Rightarrow> pay_outcome" where
  "confirmed_outcome AUTHORIZE = O_Authorized"
| "confirmed_outcome CAPTURE = O_Captured"
| "confirmed_outcome VOID = O_Voided"

definition json_opt :: "('a \<Rightarrow> json) \<Rightarrow> 'a option \<Rightarrow> json" where
  "json_opt f x = (case x of None \<Rightarrow> JNull | Some y \<Rightarrow> f y)"

definition result_fields :: "pay_result \<Rightarrow> json_obj" where
  "result_fields r = command_fields (pr_command r) @
     [(''ok'', JBool (pr_ok r)), (''outcome'', JStr (outcome_name (pr_outcome r))), (''transaction_id'', json_opt JStr (pr_tx r)),
      (''provider'', JStr ''DEMO_PLATFORM''), (''mode'', JStr ''synthetic'')]
     @ (case pr_revision r of None \<Rightarrow> [] | Some n \<Rightarrow> [(''revision'', JInt (int n))])
     @ (case pr_code r of None \<Rightarrow> [] | Some s \<Rightarrow> [(''code'', JStr s)])"

fun status_name :: "auth_status \<Rightarrow> string" where
  "status_name Authorized = ''AUTHORIZED''"
| "status_name Captured = ''CAPTURED''"
| "status_name Voided = ''VOIDED''"

definition auth_json :: "auth_row \<Rightarrow> json" where
  "auth_json a = JObj [(''authorization_id'', JStr (ar_id a)), (''world_id'', JStr (ar_world a)), (''order_id'', JStr (ar_order a)),
     (''amount_krw'', JInt (ar_amount a)), (''currency'', JStr ''KRW''), (''payment_revision'', JInt (ar_revision a)),
     (''quote_fingerprint'', JStr (ar_quote a)), (''status'', JStr (status_name (ar_status a)))]"

definition tx_json :: "tx_row \<Rightarrow> json" where
  "tx_json t = JObj [(''seq'', JInt (int (tx_seq t))), (''id'', JStr (tx_id t)), (''authorization_id'', JStr (tx_auth t)),
     (''world_id'', JStr (tx_world t)), (''order_id'', JStr (tx_order t)), (''kind'', JStr (pay_action_name (tx_kind t))),
     (''amount_krw'', JInt (tx_amount t))]"

definition snapshot_json :: "string \<Rightarrow> string \<Rightarrow> pay_snapshot \<Rightarrow> json" where
  "snapshot_json w ord s = JObj [(''mode'', JStr ''synthetic''), (''provider'', JStr ''DEMO_PLATFORM''), (''world_id'', JStr w),
     (''order_id'', JStr ord), (''currency'', JStr ''KRW''), (''revision'', JInt (int (ps_revision s))),
     (''authorizations'', JList (map auth_json (ps_auths s))), (''transactions'', JList (map tx_json (ps_txs s))),
     (''held_krw'', JInt (ps_held s)), (''captured_krw'', JInt (ps_captured s)), (''capture_count'', JInt (int (ps_captures s)))]"

section \<open>The server\<close>

definition code_body :: "string \<Rightarrow> json" where
  "code_body code = JObj [(''code'', JStr code)]"

definition error_reply :: "pay_error \<Rightarrow> http_reply" where
  "error_reply e = (case e of Payment_Error code st \<Rightarrow> Http st (code_body code)
     | Value_Error \<Rightarrow> Http 400 (code_body ''INVALID_JSON'')
     | Integrity_Error \<Rightarrow> Http 503 (code_body ''PAYMENT_UNAVAILABLE'')
     | Type_Error \<Rightarrow> Closed)"

definition command_path :: "json_obj \<Rightarrow> string" where
  "command_path d =
    (if pget d ''action'' = JStr ''AUTHORIZE'' then ''/v1/authorizations''
     else ''/v1/authorizations/'' @ py_str (dget (JStr []) d ''authorization_id'') @ ''/'' @ str_lower (py_str (dget (JStr []) d ''action'')))"

text \<open>A reply is dropped at most once for an operation, and only after the commit.\<close>

definition server_post :: "(json \<Rightarrow> string) \<Rightarrow> call_env \<Rightarrow> string \<Rightarrow> json \<Rightarrow> ledger \<Rightarrow> http_reply \<times> ledger" where
  "server_post H env path v l = (case v of
     JObj d \<Rightarrow>
       (let fault = dget (JStr ''none'') d ''fault''; c = ddel ''fault'' d
        in if \<not> hashable fault then (Closed, l)
           else if fault \<notin> JStr ` set (''none'' # fault_modes) then (error_reply (Payment_Error ''INVALID_FAULT'' 422), l)
           else if path \<noteq> command_path c then (error_reply (Payment_Error ''ACTION_PATH_MISMATCH'' 422), l)
           else (case execute H (env\<lparr>ce_copies := (if fault = JStr ''duplicate_notification'' then 2 else 1),
                   ce_delay := (if fault = JStr ''late_notification'' then 2 else 0)\<rparr>) (JObj c) l of
               (Inl e, l') \<Rightarrow> (error_reply e, l')
             | (Inr r, l') \<Rightarrow>
                 if pr_ok r \<and> fault = JStr ''drop_reply'' then
                   (case consume_fault (py_str (pget c ''world_id'')) (py_str (pget c ''operation_key'')) ''drop_reply'' l' of
                      Inl e \<Rightarrow> (error_reply e, l')
                    | Inr (True, l'') \<Rightarrow> (Closed, l'')
                    | Inr (False, l'') \<Rightarrow> (Http 200 (JObj (result_fields r)), l''))
                 else (Http 200 (JObj (result_fields r)), l')))
   | _ \<Rightarrow> (error_reply (Payment_Error ''INVALID_BODY'' 422), l))"

definition server_operation :: "string \<Rightarrow> ledger \<Rightarrow> http_reply" where
  "server_operation k l = (case operation_of k l of
     Inl e \<Rightarrow> error_reply e
   | Inr None \<Rightarrow> Http 404 (code_body ''NOT_FOUND'')
   | Inr (Some r) \<Rightarrow> Http 200 (JObj (result_fields r)))"

definition server_snapshot :: "string \<Rightarrow> string \<Rightarrow> ledger \<Rightarrow> http_reply" where
  "server_snapshot w ord l = (case pay_snapshot_of w ord l of Inl e \<Rightarrow> error_reply e | Inr s \<Rightarrow> Http 200 (snapshot_json w ord s))"

section \<open>The client\<close>

text \<open>\<open>_request\<close>: with \<open>optional\<close> a 404 is an answer, without it is unconfirmed.\<close>

definition client_reply :: "bool \<Rightarrow> http_reply \<Rightarrow> call_error + json_obj option" where
  "client_reply optional r = (case r of
     Closed \<Rightarrow> Inl Unavailable
   | Http st v \<Rightarrow>
       if optional \<and> st = 404 then Inr None
       else (case v of
         JObj d \<Rightarrow>
           if st \<in> {409, 422} then (case pget d ''code'' of
               JStr code \<Rightarrow> if length code \<le> 100 then Inl (Raised (Payment_Error code st)) else Inl Unavailable
             | _ \<Rightarrow> Inl Unavailable)
           else if 200 \<le> st \<and> st < 300 then Inr (Some d) else Inl Unavailable
       | _ \<Rightarrow> Inl Unavailable))"

text \<open>
  \<open>_bound\<close>, giving what an accepted reply says. A revision of the provider counts from 1.
\<close>

definition bound_fields :: "json_obj \<Rightarrow> pay_command \<Rightarrow> bool" where
  "bound_fields d c \<longleftrightarrow> (\<forall>(k, v) \<in> set (command_fields c). k = ''card_token'' \<or> py_eq (pget d k) v)"

definition bound_reply :: "json_obj \<Rightarrow> pay_command \<Rightarrow> call_error + pay_result" where
  "bound_reply d c = ensure (bound_fields d c) Unavailable
    (case pget d ''ok'' of
       JBool ok \<Rightarrow> ensure (pget d ''provider'' = JStr ''DEMO_PLATFORM'' \<and> pget d ''mode'' = JStr ''synthetic'') Unavailable
         (if ok then (case (pget d ''transaction_id'', pget d ''revision'') of
             (JStr tid, JInt n) \<Rightarrow> ensure (pget d ''outcome'' = JStr (outcome_name (confirmed_outcome (pc_action c)))) Unavailable
               (Inr (response c (confirmed_outcome (pc_action c)) tid (nat n)))
           | _ \<Rightarrow> Inl Unavailable)
          else ensure (pget d ''outcome'' = JStr ''DECLINED'' \<and> pget d ''transaction_id'' = JNull) Unavailable
            (ensure (hashable (pget d ''code'')) (Raised Type_Error)
              (case pget d ''code'' of
                 JStr code \<Rightarrow> ensure (code \<in> {''DECLINED'', ''LIMIT_EXCEEDED''}) Unavailable (Inr (declined c code))
               | _ \<Rightarrow> Inl Unavailable)))
     | _ \<Rightarrow> Inl Unavailable)"

text \<open>What the network does to a request that would be answered with \<open>reply\<close>.\<close>

definition transfer_reply :: "net \<Rightarrow> (ledger \<Rightarrow> http_reply \<times> ledger) \<Rightarrow> ledger \<Rightarrow> http_reply \<times> ledger" where
  "transfer_reply n server l = (case n of Unreached \<Rightarrow> (Closed, l) | Reply \<Rightarrow> server l | Reply_Lost \<Rightarrow> (Closed, snd (server l)))"

definition raised :: "pay_error + 'a \<Rightarrow> call_error + 'a" where
  "raised r = map_sum Raised id r"

definition client_execute ::
  "(json \<Rightarrow> string) \<Rightarrow> net \<Rightarrow> call_env \<Rightarrow> string \<Rightarrow> json \<Rightarrow> ledger \<Rightarrow> (call_error + pay_result) \<times> ledger" where
  "client_execute H n env fault v l = (case validate v of
     Inl e \<Rightarrow> (Inl (Raised e), l)
   | Inr c \<Rightarrow> if fault \<notin> set (''none'' # fault_modes) then (Inl (Raised Value_Error), l)
       else (case transfer_reply n (server_post H env (command_path (command_fields c)) (JObj (command_fields c @ [(''fault'', JStr fault)]))) l of
         (reply, l') \<Rightarrow> (bind_ok (client_reply False reply) (\<lambda>d. case d of None \<Rightarrow> Inl Unavailable | Some d \<Rightarrow> bound_reply d c), l')))"

definition client_operation :: "net \<Rightarrow> json \<Rightarrow> ledger \<Rightarrow> call_error + pay_result option" where
  "client_operation n v l = bind_ok (raised (validate v)) (\<lambda>c.
     bind_ok (client_reply True (fst (transfer_reply n (\<lambda>l. (server_operation (pc_key c) l, l)) l))) (\<lambda>d.
       case d of None \<Rightarrow> Inr None | Some d \<Rightarrow> map_sum id Some (bound_reply d c)))"

definition count_field :: "json_obj \<Rightarrow> string \<Rightarrow> int option" where
  "count_field d k = (case pget d k of JInt n \<Rightarrow> if n < 0 then None else Some n | _ \<Rightarrow> None)"

text \<open>A row of a snapshot: its amount and its mark (the kind or the status).\<close>

definition snapshot_row :: "string \<Rightarrow> string \<Rightarrow> string \<Rightarrow> json \<Rightarrow> (int \<times> json) option" where
  "snapshot_row mark w ord v = (case v of
     JObj d \<Rightarrow> if pget d ''world_id'' \<noteq> JStr w \<or> pget d ''order_id'' \<noteq> JStr ord then None
       else (case pget d ''amount_krw'' of JInt n \<Rightarrow> if 0 < n then Some (n, pget d mark) else None | _ \<Rightarrow> None)
   | _ \<Rightarrow> None)"

definition snapshot_rows :: "string \<Rightarrow> string \<Rightarrow> string \<Rightarrow> json \<Rightarrow> (int \<times> json) list option" where
  "snapshot_rows mark w ord v = (case v of
     JList rows \<Rightarrow> those (map (snapshot_row mark w ord) rows)
   | _ \<Rightarrow> None)"

definition marked :: "string \<Rightarrow> (int \<times> json) list \<Rightarrow> int list" where
  "marked s rows = map fst (filter (\<lambda>(_, m). m = JStr s) rows)"

definition snapshot_ok :: "string \<Rightarrow> string \<Rightarrow> json_obj \<Rightarrow> bool" where
  "snapshot_ok w ord d \<longleftrightarrow>
    pget d ''world_id'' = JStr w \<and> pget d ''order_id'' = JStr ord \<and> pget d ''provider'' = JStr ''DEMO_PLATFORM'' \<and>
    (case (count_field d ''revision'', count_field d ''held_krw'', count_field d ''captured_krw'', count_field d ''capture_count'',
       snapshot_rows ''kind'' w ord (pget d ''transactions''), snapshot_rows ''status'' w ord (pget d ''authorizations'')) of
      (Some _, Some held, Some captured, Some n, Some txs, Some auths) \<Rightarrow>
        sum_list (marked ''CAPTURE'' txs) = captured \<and> int (length (marked ''CAPTURE'' txs)) = n \<and>
        sum_list (marked ''AUTHORIZED'' auths) = held
    | _ \<Rightarrow> False)"

definition client_snapshot :: "net \<Rightarrow> string \<Rightarrow> string \<Rightarrow> ledger \<Rightarrow> call_error + json_obj" where
  "client_snapshot n w ord l = bind_ok (raised (key (JStr w))) (\<lambda>w. bind_ok (raised (key (JStr ord))) (\<lambda>ord.
     bind_ok (client_reply False (fst (transfer_reply n (\<lambda>l. (server_snapshot w ord l, l)) l))) (\<lambda>d.
       case d of None \<Rightarrow> Inl Unavailable | Some d \<Rightarrow> ensure (snapshot_ok w ord d) Unavailable (Inr d))))"

section \<open>Bound replies\<close>

lemma bound_fields_result:
  assumes "pr_command r = c\<lparr>pc_card := None\<rparr>"
  shows "bound_fields (result_fields r) c"
  by (cases "pc_card c") (simp_all add: bound_fields_def result_fields_def command_fields_def assms)

lemma pget_result:
  "pget (result_fields r) ''ok'' = JBool (pr_ok r)" "pget (result_fields r) ''outcome'' = JStr (outcome_name (pr_outcome r))"
  "pget (result_fields r) ''transaction_id'' = json_opt JStr (pr_tx r)" "pget (result_fields r) ''provider'' = JStr ''DEMO_PLATFORM''"
  "pget (result_fields r) ''mode'' = JStr ''synthetic''"
  "pget (result_fields r) ''revision'' = json_opt (\<lambda>n. JInt (int n)) (pr_revision r)"
  "pget (result_fields r) ''code'' = json_opt JStr (pr_code r)"
  by (cases "pc_card (pr_command r)"; cases "pr_revision r"; cases "pr_code r"; simp add: result_fields_def command_fields_def json_opt_def)+

definition provider_result :: "pay_command \<Rightarrow> pay_result \<Rightarrow> bool" where
  "provider_result c r \<longleftrightarrow> (\<exists>tid rv. r = response c (confirmed_outcome (pc_action c)) tid rv)
     \<or> (\<exists>code \<in> {''DECLINED'', ''LIMIT_EXCEEDED''}. r = declined c code)"

lemma response_simps [simp]:
  "pr_command (response c out tid rv) = c\<lparr>pc_card := None\<rparr>" "pr_ok (response c out tid rv)" "pr_outcome (response c out tid rv) = out"
  "pr_tx (response c out tid rv) = Some tid" "pr_revision (response c out tid rv) = Some rv" "pr_code (response c out tid rv) = None"
  by (simp_all add: response_def)

lemma declined_simps [simp]:
  "pr_command (declined c code) = c\<lparr>pc_card := None\<rparr>" "\<not> pr_ok (declined c code)" "pr_outcome (declined c code) = O_Declined"
  "pr_tx (declined c code) = None" "pr_revision (declined c code) = None" "pr_code (declined c code) = Some code"
  by (simp_all add: declined_def)

lemma provider_result_command: "provider_result c r \<Longrightarrow> pr_command r = c\<lparr>pc_card := None\<rparr>"
  by (auto simp: provider_result_def)

lemma bound_result:
  assumes "valid_command c" "provider_result c r"
  shows "bound_reply (result_fields r) c = Inr r"
proof -
  have "bound_fields (result_fields r) c" using assms by (simp add: bound_fields_result provider_result_command)
  then show ?thesis using assms(2)
    by (auto simp: bound_reply_def provider_result_def pget_result json_opt_def ensure_def)
qed

lemma ledger_apply_result:
  assumes "valid_command c" "ledger_apply env c l = Inr (r, l')"
  shows "provider_result c r"
proof -
  have settle: "provider_result c r" if "apply_settle env a c l = Inr (r, l')" "pc_action c \<noteq> AUTHORIZE" for a
    using that by (cases "pc_action c")
      (auto simp: apply_settle_def provider_result_def existing_receipt_def ensure_Inr record_tx_def Let_def split: if_splits option.splits)
  have "provider_result c r" if "apply_authorize env row c l = Inr (r, l')" "pc_action c = AUTHORIZE" for row
    using that
    by (auto simp: apply_authorize_def provider_result_def existing_receipt_def ensure_Inr record_tx_def Let_def split: if_splits option.splits)
  then show ?thesis using assms(2) settle by (auto simp: ledger_apply_def ensure_Inr Let_def split: if_splits option.splits)
qed

section \<open>A command over the network\<close>

definition fault_env :: "call_env \<Rightarrow> string \<Rightarrow> call_env" where
  "fault_env env fault = env\<lparr>ce_copies := (if fault = ''duplicate_notification'' then 2 else 1), ce_delay := (if fault = ''late_notification'' then 2 else 0)\<rparr>"

lemma fields_no_fault: "map_of (command_fields c) ''fault'' = None" "ddel ''fault'' (command_fields c @ [(''fault'', v)]) = command_fields c"
  by (cases "pc_card c"; simp add: command_fields_def ddel_def)+

lemma pget_command: "pget (command_fields c) ''world_id'' = JStr (pc_world c)" "pget (command_fields c) ''operation_key'' = JStr (pc_key c)"
  by (cases "pc_card c"; simp add: command_fields_def)+

lemma server_post_command:
  assumes f: "fault \<in> set (''none'' # fault_modes)"
  shows "server_post H env (command_path (command_fields c)) (JObj (command_fields c @ [(''fault'', JStr fault)])) l =
    (case execute H (fault_env env fault) (command_json c) l of
       (Inl e, l') \<Rightarrow> (error_reply e, l')
     | (Inr r, l') \<Rightarrow>
         if pr_ok r \<and> fault = ''drop_reply'' then
           (case consume_fault (pc_world c) (pc_key c) ''drop_reply'' l' of
              Inl e \<Rightarrow> (error_reply e, l') | Inr (True, l'') \<Rightarrow> (Closed, l'') | Inr (False, l'') \<Rightarrow> (Http 200 (JObj (result_fields r)), l''))
         else (Http 200 (JObj (result_fields r)), l'))"
proof -
  have d: "dget (JStr ''none'') (command_fields c @ [(''fault'', JStr fault)]) ''fault'' = JStr fault"
    by (simp add: dget_def map_add_def fields_no_fault)
  have m: "JStr fault \<in> JStr ` set (''none'' # fault_modes)" using f by blast
  show ?thesis unfolding server_post_def
    by (simp only: json.simps Let_def d fields_no_fault pget_command m py_str_JStr hashable.simps command_json_def fault_env_def json.inject
        not_True_eq_False simp_thms if_False if_True)
qed

lemma validate_command: "valid_command c \<Longrightarrow> validate (command_json c) = Inr c"
  by (auto simp: command_json_def says_def intro: validate_says)

lemma consume_ok:
  assumes "valid_command c"
  shows "\<exists>b. consume_fault (pc_world c) (pc_key c) ''drop_reply'' l = Inr (b, if b then l\<lparr>le_faults := le_faults l @ [(pc_world c, pc_key c, ''drop_reply'')]\<rparr> else l)"
  using assms by (auto simp: consume_fault_def fault_modes_def valid_command_def)

lemma execute_fresh:
  assumes "valid_command c" "map_of (le_commands l) (pc_key c) = None" "fault \<in> set (''none'' # fault_modes)"
  obtains (refused) e where "execute H (fault_env env fault) (command_json c) l = (Inl e, l)"
  | (stored) r l1 where "execute H (fault_env env fault) (command_json c) l = (Inr r, l1)" "provider_result c r"
      "map_of (le_commands l1) (pc_key c) = Some (H (dumps_tree (command_json c)), r)"
proof -
  have e: "execute H (fault_env env fault) (command_json c) l = execute_tx H (fault_env env fault) c l"
    using assms(1,3) by (simp add: execute_def validate_command fault_env_def)
  show ?thesis
  proof (cases "ledger_apply (fault_env env fault) c l")
    case (Inl x)
    then show ?thesis using assms(2) by (intro refused [of x]) (simp add: e execute_tx_def)
  next
    case (Inr p)
    obtain r l' where p: "p = (r, l')" by (cases p)
    have "le_commands l' = le_commands l" using Inr p ledger_apply_commands by blast
    then have "map_of (le_commands l') (pc_key c) = None" using assms(2) by simp
    then show ?thesis using assms(2) Inr p ledger_apply_result [OF assms(1)]
      by (intro stored [of r "l'\<lparr>le_commands := le_commands l' @ [(pc_key c, H (dumps_tree (command_json c)), r)]\<rparr>"])
        (auto simp: e execute_tx_def map_add_def)
  qed
qed

lemma client_operation_stored:
  assumes "valid_command c" "provider_result c r" "map_of (le_commands l) (pc_key c) = Some (f, r)"
  shows "client_operation Reply (command_json c) l = Inr (Some r)"
  using assms bound_result [OF assms(1,2)]
  by (simp add: client_operation_def raised_def validate_command transfer_reply_def server_operation_def operation_of_def
      valid_command_def client_reply_def)

lemma stored_for_ever:
  assumes "map_of (le_commands l) k = Some (f, r)"
  shows "map_of (le_commands (run (ledger_step H) l later)) k = Some (f, r)"
proof -
  have "pay_receipt l k = Some (f, Inr r)" using assms by (simp add: pay_receipt_def)
  then have "pay_receipt (run (ledger_step H) l later) k = Some (f, Inr r)" by (rule kept_pay_receipts.run_inv)
  then show ?thesis by (auto simp: pay_receipt_def split: option.splits prod.splits)
qed

definition receipt_kept :: "(json \<Rightarrow> string) \<Rightarrow> pay_command \<Rightarrow> pay_result \<Rightarrow> ledger \<Rightarrow> bool" where
  "receipt_kept H c r l \<longleftrightarrow> (\<forall>later. client_operation Reply (command_json c) (run (ledger_step H) l later) = Inr (Some r))"

lemma receipt_keptI:
  assumes "valid_command c" "provider_result c r" "map_of (le_commands l) (pc_key c) = Some (f, r)"
  shows "receipt_kept H c r l"
  unfolding receipt_kept_def using client_operation_stored [OF assms(1,2) stored_for_ever [OF assms(3)]] by blast

text \<open>The answers a server gives, and what is stored.\<close>

lemma server_answers:
  assumes v: "valid_command c" and k: "map_of (le_commands l) (pc_key c) = None" and f: "fault \<in> set (''none'' # fault_modes)"
    and s: "server_post H env (command_path (command_fields c)) (JObj (command_fields c @ [(''fault'', JStr fault)])) l = (reply, l')"
  shows "(l' = l \<and> (\<exists>e. reply = error_reply e)) \<or>
    (\<exists>r. provider_result c r \<and> receipt_kept H c r l' \<and> (reply = Http 200 (JObj (result_fields r)) \<or> reply = Closed))"
  using v k f
proof (cases rule: execute_fresh [where H = H and env = env])
  case (refused e)
  then show ?thesis using s by (simp add: server_post_command [OF f]) blast
next
  case (stored r l1)
  obtain b where b: "consume_fault (pc_world c) (pc_key c) ''drop_reply'' l1
      = Inr (b, if b then l1\<lparr>le_faults := le_faults l1 @ [(pc_world c, pc_key c, ''drop_reply'')]\<rparr> else l1)"
    using consume_ok [OF v] by blast
  have kept: "receipt_kept H c r l1" "receipt_kept H c r (l1\<lparr>le_faults := x\<rparr>)" for x
    using receipt_keptI [OF v stored(2), of _ _ H] stored(3) by simp_all
  show ?thesis using s b kept stored(1,2)
    by (cases b) (auto simp: server_post_command [OF f] split: if_splits)
qed

lemma client_execute_command:
  assumes "valid_command c" "fault \<in> set (''none'' # fault_modes)"
  shows "client_execute H n env fault (command_json c) l =
    (case transfer_reply n (server_post H env (command_path (command_fields c)) (JObj (command_fields c @ [(''fault'', JStr fault)]))) l of
       (reply, l') \<Rightarrow> (bind_ok (client_reply False reply) (\<lambda>d. case d of None \<Rightarrow> Inl Unavailable | Some d \<Rightarrow> bound_reply d c), l'))"
  using assms by (simp add: client_execute_def validate_command)

lemma accepted_reply:
  assumes "valid_command c" "provider_result c r"
  shows "bind_ok (client_reply False (Http 200 (JObj (result_fields r)))) (\<lambda>d. case d of None \<Rightarrow> Inl Unavailable | Some d \<Rightarrow> bound_reply d c) = Inr r"
  using bound_result [OF assms] by (simp add: client_reply_def)

text \<open>The code body of an error is never bound to a command.\<close>

lemma code_not_bound: "bound_reply [(''code'', JStr code)] c = Inl Unavailable"
  by (simp add: bound_reply_def bound_fields_def command_fields_def ensure_def py_eq_def)

lemma error_not_accepted:
  "\<exists>x. bind_ok (client_reply False (error_reply e)) (\<lambda>d. case d of None \<Rightarrow> Inl Unavailable | Some d \<Rightarrow> bound_reply d c) = Inl x"
  using code_not_bound [of _ c] by (cases e) (auto simp: error_reply_def client_reply_def code_body_def)

text \<open>C32.
  Uncertainty never means decline. Whatever the network does to a fresh, well-formed command
  (not delivered, reply lost, dropped on purpose), either nothing happened at the provider and
  the client reports an error, or the provider stored one receipt: then the client reports
  exactly that receipt or that it is unconfirmed, and looking the operation up gives that
  receipt from then on, whatever the provider does in between.
\<close>

theorem receipt_decides:
  assumes v: "valid_command c" and k: "map_of (le_commands l) (pc_key c) = None" and f: "fault \<in> set (''none'' # fault_modes)"
    and e: "client_execute H n env fault (command_json c) l = (answer, l')"
  shows "(l' = l \<and> (\<exists>x. answer = Inl x)) \<or>
    (\<exists>r. answer \<in> {Inr r, Inl Unavailable} \<and> (\<forall>later. client_operation Reply (command_json c) (run (ledger_step H) l' later) = Inr (Some r)))"
proof -
  obtain reply l1 where s: "server_post H env (command_path (command_fields c)) (JObj (command_fields c @ [(''fault'', JStr fault)])) l = (reply, l1)"
    by (cases "server_post H env (command_path (command_fields c)) (JObj (command_fields c @ [(''fault'', JStr fault)])) l")
  note answers = server_answers [OF v k f s]
  have closed: "bind_ok (client_reply False Closed) g = Inl Unavailable" for g :: "json_obj option \<Rightarrow> call_error + pay_result"
    by (simp add: client_reply_def)
  show ?thesis
  proof (cases n)
    case Unreached
    then show ?thesis using e by (auto simp: client_execute_command [OF v f] transfer_reply_def closed)
  next
    case Reply_Lost
    then have "answer = Inl Unavailable" "l' = l1" using e by (simp_all add: client_execute_command [OF v f] transfer_reply_def closed s)
    then show ?thesis using answers by (auto simp: receipt_kept_def)
  next
    case Reply
    have a: "answer = bind_ok (client_reply False reply) (\<lambda>d. case d of None \<Rightarrow> Inl Unavailable | Some d \<Rightarrow> bound_reply d c)" "l' = l1"
      using e by (simp_all add: Reply client_execute_command [OF v f] transfer_reply_def s)
    show ?thesis using answers
    proof (elim disjE exE conjE)
      fix x assume "l1 = l" "reply = error_reply x"
      then show ?thesis using a error_not_accepted [of x c] by auto
    next
      fix r assume "provider_result c r" "receipt_kept H c r l1" "reply = Http 200 (JObj (result_fields r))"
      then show ?thesis using a accepted_reply [OF v] by (auto simp: receipt_kept_def)
    next
      fix r assume "receipt_kept H c r l1" "reply = Closed"
      then show ?thesis using a closed by (auto simp: receipt_kept_def)
    qed
  qed
qed


definition pay_sample :: "pay_action \<Rightarrow> string \<Rightarrow> pay_command" where
  "pay_sample a k = \<lparr>pc_action = a, pc_world = ''w'', pc_order = ''o'', pc_key = k, pc_auth = ''AUTH-1'', pc_amount = 4500,
     pc_revision = 1, pc_quote = pay_digest, pc_card = (if a = AUTHORIZE then Some ''demo-approved'' else None)\<rparr>"

theorem receipt_decides_witness:
  "\<exists>l' r. client_execute sample_print Reply (pay_env ''1'' 0) ''drop_reply'' (command_json (pay_sample AUTHORIZE ''k1'')) (new_ledger 100000) = (Inl Unavailable, l')
     \<and> client_operation Reply (command_json (pay_sample AUTHORIZE ''k1'')) (run (ledger_step sample_print) l' sample_payments) = Inr (Some r)"
proof -
  let ?x = "client_execute sample_print Reply (pay_env ''1'' 0) ''drop_reply'' (command_json (pay_sample AUTHORIZE ''k1'')) (new_ledger 100000)"
  have a: "fst ?x = Inl Unavailable" "le_commands (snd ?x) \<noteq> le_commands (new_ledger 100000)" by code_simp+
  obtain l' where x: "?x = (Inl Unavailable, l')" using a(1) by (cases ?x) simp
  have v: "valid_command (pay_sample AUTHORIZE ''k1'')" by code_simp
  have "l' \<noteq> new_ledger 100000" using a(2) x by auto
  then show ?thesis using receipt_decides [OF v _ _ x] x by (auto simp: new_ledger_def fault_modes_def)
qed

end
