(* ===== verification/Payment_Steps.thy ===== *)
theory Payment_Steps
  imports Payment_Gateway
begin

text \<open>
  \<open>payment_steps.py\<close>: the pure phase rules of protocol 2, where an operation also moves money
  at the payment provider. A reply of a merchant, of the provider or of a check is a
  \<open>step_reply\<close>; display texts are left out.
\<close>

section \<open>The payment part of an operation\<close>

definition PAY_PHASES :: "op_phase list" where
  "PAY_PHASES = [PAY_AUTHORIZE, PAY_AUTHORIZE_REPLACEMENT, PAY_CAPTURE, PAY_VOID, VOID_NEW_AUTH, VOID_OLD_AUTH]"

definition old_auth :: "operation \<Rightarrow> authorization option" where
  "old_auth op = Option.bind (op_payment op) pp_old_auth"

definition new_auth :: "operation \<Rightarrow> authorization option" where
  "new_auth op = Option.bind (op_payment op) pp_new_auth"

definition next_phase :: "op_phase \<Rightarrow> operation \<Rightarrow> operation" where
  "next_phase ph op = op\<lparr>op_phase := ph\<rparr>"

definition approving :: "op_phase \<Rightarrow> bool" where
  "approving ph \<longleftrightarrow> ph \<in> {PAY_AUTHORIZE, PAY_AUTHORIZE_REPLACEMENT}"

definition phase_auth :: "operation \<Rightarrow> op_phase \<Rightarrow> authorization option" where
  "phase_auth op ph = (if approving ph \<or> ph = VOID_NEW_AUTH then new_auth op else old_auth op)"

definition phase_action :: "op_phase \<Rightarrow> pay_action" where
  "phase_action ph = (if approving ph then AUTHORIZE else if ph = PAY_CAPTURE then CAPTURE else VOID)"

text \<open>\<open>None\<close>: a \<open>ValueError\<close>, phases without a charge skip the provider.\<close>

definition auth_command :: "operation \<Rightarrow> op_phase \<Rightarrow> pay_command option" where
  "auth_command op ph = (case phase_auth op ph of
     None \<Rightarrow> None
   | Some a \<Rightarrow> Some \<lparr>pc_action = phase_action ph, pc_world = au_world a, pc_order = au_order a,
       pc_key = op_id op @ '':'' @ phase_name ph, pc_auth = au_id a, pc_amount = au_amount a, pc_revision = au_revision a,
       pc_quote = au_quote a, pc_card = (if phase_action ph = AUTHORIZE then map_option pp_card (op_payment op) else None)\<rparr>)"

fun fault_action :: "payment_fault \<Rightarrow> pay_action option" where
  "fault_action Authorize_Reply_Lost = Some AUTHORIZE"
| "fault_action Capture_Reply_Lost = Some CAPTURE"
| "fault_action Void_Reply_Lost = Some VOID"
| "fault_action _ = None"

definition transport_fault :: "operation \<Rightarrow> pay_command \<Rightarrow> string" where
  "transport_fault op c = (let fault = (case op_payment op of None \<Rightarrow> No_Payment_Fault | Some p \<Rightarrow> pp_fault p)
     in if fault_action fault = Some (pc_action c) then ''drop_reply''
        else (case fault of Notification_Duplicate \<Rightarrow> ''duplicate_notification'' | Notification_Late \<Rightarrow> ''late_notification'' | _ \<Rightarrow> ''none''))"

text \<open>A new authorization that is not the old one.\<close>

definition replaces_auth :: "operation \<Rightarrow> bool" where
  "replaces_auth op \<longleftrightarrow> new_auth op \<noteq> None \<and> new_auth op \<noteq> old_auth op"

text \<open>The result says whether the operation expired.\<close>

definition expire :: "operation \<Rightarrow> rat \<Rightarrow> bool \<times> operation" where
  "expire op now =
    (if op_action op \<noteq> A_transfer \<or> op_decision op \<noteq> UNDECIDED
        \<or> (case op_recovery op of None \<Rightarrow> True | Some r \<Rightarrow> now < sc_deadline_at r) then (False, op)
     else
       (let op = op\<lparr>op_decision := ABORT, op_failure := Some ''CONFIRMATION_EXPIRED'',
              op_history := op_history op @ [(op_phase op, ABORT_RECORDED)]\<rparr>
        in (True, if op_phase op = DECIDE then next_phase (if replaces_auth op then VOID_NEW_AUTH else At_Merchant ABORT_TARGET) op
                  else if op_phase op = At_Merchant HOLD then next_phase (At_Merchant ABORT_TARGET) op else op)))"

section \<open>Replies\<close>

datatype step_reply = Step_Done | Merchant_Reply merchant_result | Pay_Reply pay_result | Check_Reply bool
  | Pay_Refused string

fun reply_ok :: "step_reply \<Rightarrow> bool" where
  "reply_ok Step_Done = True"
| "reply_ok (Merchant_Reply r) = result_ok r"
| "reply_ok (Pay_Reply r) = pr_ok r"
| "reply_ok (Check_Reply b) = b"
| "reply_ok (Pay_Refused _) = False"

fun reply_code :: "step_reply \<Rightarrow> string option" where
  "reply_code Step_Done = None"
| "reply_code (Merchant_Reply r) = failure_of r"
| "reply_code (Pay_Reply r) = pr_code r"
| "reply_code (Check_Reply _) = Some ''AUTHORIZATION_NOT_ACTIVE''"
| "reply_code (Pay_Refused code) = Some code"

definition rejected :: "operation \<Rightarrow> operation" where
  "rejected op = op\<lparr>op_status := REJECTED\<rparr>"

definition aborted :: "operation \<Rightarrow> operation" where
  "aborted op = op\<lparr>op_decision := ABORT\<rparr>"

definition to_review :: "operation \<Rightarrow> operation" where
  "to_review op = op\<lparr>op_recovery := map_option (\<lambda>r. r\<lparr>sc_state := REVIEW_REQUIRED\<rparr>) (op_recovery op)\<rparr>"

text \<open>\<open>op['action'].upper()\<close> as a phase.\<close>

fun action_phase :: "action \<Rightarrow> op_phase" where
  "action_phase A_start = At_Merchant START"
| "action_phase A_ready = At_Merchant merchant_action.READY"
| "action_phase A_claim = At_Merchant CLAIM"
| "action_phase A_cancel = At_Merchant CANCEL"
| "action_phase (A_other s) = At_Merchant (OtherAction (str_upper s))"
| "action_phase A_reserve = At_Merchant (OtherAction ''RESERVE'')"
| "action_phase A_reorder = At_Merchant (OtherAction ''REORDER'')"
| "action_phase A_transfer = At_Merchant (OtherAction ''TRANSFER'')"
| "action_phase A_reserve_first_reorder = At_Merchant (OtherAction ''RESERVE_FIRST_REORDER'')"
| "action_phase A_disrupt = At_Merchant (OtherAction ''DISRUPT'')"
| "action_phase A_delay = At_Merchant (OtherAction ''DELAY'')"
| "action_phase A_advance = At_Merchant (OtherAction ''ADVANCE'')"
| "action_phase A_recover = At_Merchant (OtherAction ''RECOVER'')"
| "action_phase A_control_occupy = At_Merchant (OtherAction ''CONTROL_OCCUPY'')"
| "action_phase A_control_clear = At_Merchant (OtherAction ''CONTROL_CLEAR'')"

definition on_refusal :: "string \<Rightarrow> operation \<Rightarrow> operation" where
  "on_refusal code op =
    (let ph = op_phase op; op = op\<lparr>op_failure := Some code\<rparr>
     in if approving ph \<and> code \<in> {''DECLINED'', ''LIMIT_EXCEEDED''} then
          (if op_action op = A_transfer then next_phase (At_Merchant ABORT_TARGET) (aborted op) else rejected (aborted op))
        else if ph = At_Merchant ADMIT then
          (if new_auth op \<noteq> None then next_phase VOID_NEW_AUTH (aborted op) else rejected (aborted op))
        else if ph = At_Merchant HOLD \<and> op_decision op \<noteq> COMMIT then next_phase (At_Merchant ABORT_TARGET) (aborted op)
        else if ph = At_Merchant FREEZE then rejected op
        else to_review op)"

definition on_success :: "operation \<Rightarrow> operation" where
  "on_success op = (case op_phase op of
     PAY_AUTHORIZE \<Rightarrow> next_phase (if op_decision op = ABORT then VOID_NEW_AUTH
       else if op_action op = A_transfer then DECIDE else At_Merchant ADMIT) op
   | PAY_AUTHORIZE_REPLACEMENT \<Rightarrow> next_phase (if op_decision op = ABORT then VOID_NEW_AUTH
       else if op_action op = A_transfer then DECIDE else At_Merchant ADMIT) op
   | VOID_NEW_AUTH \<Rightarrow> if op_action op = A_transfer then next_phase (At_Merchant ABORT_TARGET) op else rejected op
   | PAY_CAPTURE \<Rightarrow> next_phase (At_Merchant CLAIM) (op\<lparr>op_decision := COMMIT\<rparr>)
   | PAY_CHECK \<Rightarrow> next_phase (action_phase (op_action op)) op
   | At_Merchant a \<Rightarrow>
       (if a = FREEZE then next_phase (At_Merchant (if op_decision op = ABORT then ABORT_TARGET else HOLD)) op
        else if a = HOLD then next_phase (if replaces_auth op then PAY_AUTHORIZE_REPLACEMENT else DECIDE) op
        else if a = RELEASE_SOURCE then next_phase (At_Merchant ACTIVATE) op
        else if a = ACTIVATE then next_phase (if old_auth op \<noteq> None \<and> new_auth op \<noteq> old_auth op then VOID_OLD_AUTH else FINALIZE) op
        else if a = ABORT_TARGET then next_phase (At_Merchant UNFREEZE) op
        else if a = UNFREEZE then rejected op
        else if a = CANCEL then next_phase (if old_auth op \<noteq> None then PAY_VOID else FINALIZE) op
        else next_phase FINALIZE op)
   | _ \<Rightarrow> next_phase FINALIZE op)"

definition transition :: "operation \<Rightarrow> step_reply \<Rightarrow> operation" where
  "transition op r =
    (if op_phase op = DECIDE then next_phase (At_Merchant RELEASE_SOURCE) (op\<lparr>op_decision := COMMIT\<rparr>)
     else if op_phase op = FINALIZE then op\<lparr>op_status := COMPLETED\<rparr>
     else if \<not> reply_ok r then on_refusal (case reply_code r of None \<Rightarrow> ''UNCONFIRMED'' | Some code \<Rightarrow> code) op
     else on_success op)"

end
