(* ===== verification/Payment_Inbox.thy ===== *)
theory Payment_Inbox
  imports Payment_Ledger Durable_Operations
begin

text \<open>
  \<open>payments/notifications.py\<close>: authenticated notifications and their idempotent inbox. The
  HMAC of a stamp and a body, \<open>json.loads\<close>, \<open>json.dumps\<close> with sorted keys, SHA-256 and
  the clock are arguments; a body is its text. An accepted notification only queues a hint;
  \<open>wake_operations\<close> shortens the backoff of the payment operations it names.
\<close>

section \<open>Events\<close>

definition MAX_BODY :: nat where
  "MAX_BODY = 16384"

definition EVENT_FIELDS :: "string list" where
  "EVENT_FIELDS = [''event_id'', ''world_id'', ''order_id'', ''authorization_id'', ''transaction_id'', ''revision'',
     ''payment_revision'', ''kind'', ''amount_krw'', ''currency'', ''mode'']"

definition event_fields :: "pay_event \<Rightarrow> json_obj" where
  "event_fields e = [(''event_id'', JStr (pe_event e)), (''world_id'', JStr (pe_world e)), (''order_id'', JStr (pe_order e)),
     (''authorization_id'', JStr (pe_auth e)), (''transaction_id'', JStr (pe_tx e)), (''revision'', JInt (int (pe_revision e))),
     (''payment_revision'', JInt (pe_payment_revision e)), (''kind'', JStr (pay_action_name (pe_kind e))),
     (''amount_krw'', JInt (pe_amount e)), (''currency'', JStr ''KRW''), (''mode'', JStr ''synthetic'')]"

text \<open>\<open>int(stamp)\<close> whose \<open>str\<close> is the stamp again.\<close>

definition canonical_int :: "string \<Rightarrow> int option" where
  "canonical_int s = (let (neg, ds) = (case s of [] \<Rightarrow> (False, []) | c # cs \<Rightarrow> if c = CHR ''-'' then (True, cs) else (False, s));
     v = (if neg then - int (nat_of_digits ds) else int (nat_of_digits ds))
   in if ds \<noteq> [] \<and> list_all is_digit ds \<and> str_of_int v = s then Some v else None)"

definition positive_int :: "json \<Rightarrow> int option" where
  "positive_int v = (case v of JInt n \<Rightarrow> if 1 \<le> n then Some n else None | _ \<Rightarrow> None)"

definition key_text :: "json \<Rightarrow> string option" where
  "key_text v = (case v of JStr s \<Rightarrow> if is_KEY s then Some s else None | _ \<Rightarrow> None)"

definition event_of :: "json \<Rightarrow> pay_event option" where
  "event_of v = (case v of
     JObj d \<Rightarrow>
       if set (map fst d) \<noteq> set EVENT_FIELDS then None
       else (case (key_text (pget d ''event_id''), key_text (pget d ''world_id''), key_text (pget d ''order_id''),
           key_text (pget d ''authorization_id''), key_text (pget d ''transaction_id''), positive_int (pget d ''revision''),
           positive_int (pget d ''payment_revision''), positive_int (pget d ''amount_krw''), action_of (pget d ''kind'')) of
         (Some ev, Some w, Some ord, Some au, Some tid, Some rv, Some prv, Some amount, Some kind) \<Rightarrow>
           if pget d ''currency'' = JStr ''KRW'' \<and> pget d ''mode'' = JStr ''synthetic''
           then Some \<lparr>pe_event = ev, pe_world = w, pe_order = ord, pe_auth = au, pe_tx = tid, pe_revision = nat rv, pe_kind = kind,
             pe_payment_revision = prv, pe_amount = amount\<rparr> else None
       | _ \<Rightarrow> None)
   | _ \<Rightarrow> None)"

definition parse_event ::
  "(string \<Rightarrow> string \<Rightarrow> string \<Rightarrow> string) \<Rightarrow> (string \<Rightarrow> json option) \<Rightarrow> rat \<Rightarrow> string \<Rightarrow> string \<Rightarrow> string \<Rightarrow> string \<Rightarrow> pay_error + pay_event" where
  "parse_event SG loads now secret body stamp signature =
    (if MAX_BODY < length body then Inl (Payment_Error ''INVALID_EVENT_SIZE'' 413)
     else ensure (case canonical_int stamp of None \<Rightarrow> False
           | Some t \<Rightarrow> abs (now - of_int t) \<le> 300 \<and> length signature = 64 \<and> SG secret stamp body = signature)
         (Payment_Error ''INVALID_EVENT_SIGNATURE'' 403)
       (case Option.bind (loads body) event_of of None \<Rightarrow> Inl (Payment_Error ''INVALID_EVENT'' 422) | Some e \<Rightarrow> Inr e))"

section \<open>The inbox\<close>

record inbox_row =
  ib_event :: string
  ib_sha :: string
  ib_world :: string
  ib_order :: string
  ib_revision :: nat
  ib_body :: string
  ib_at :: rat

record inbox =
  in_refs :: "(string \<times> string \<times> string) list"
  in_rows :: "inbox_row list"
  in_queue :: "((string \<times> string) \<times> nat) list"

definition empty_inbox :: inbox where
  "empty_inbox = \<lparr>in_refs = [], in_rows = [], in_queue = []\<rparr>"

definition register_in :: "string \<Rightarrow> string \<Rightarrow> string \<Rightarrow> inbox \<Rightarrow> pay_error + inbox" where
  "register_in w ord au ib = bind_ok (key (JStr w)) (\<lambda>w. bind_ok (key (JStr ord)) (\<lambda>ord. bind_ok (key (JStr au)) (\<lambda>au.
     (case map_of (in_refs ib) au of
        Some x \<Rightarrow> ensure (x = (w, ord)) (Payment_Error ''AUTHORIZATION_BINDING_CONFLICT'' 409) (Inr ib)
      | None \<Rightarrow> Inr (ib\<lparr>in_refs := in_refs ib @ [(au, w, ord)]\<rparr>)))))"

definition find_row :: "inbox \<Rightarrow> string \<Rightarrow> inbox_row option" where
  "find_row ib ev = List.find (\<lambda>r. ib_event r = ev) (in_rows ib)"

definition queue_hint :: "pay_event \<Rightarrow> inbox \<Rightarrow> inbox" where
  "queue_hint e ib = (let k = (pe_world e, pe_order e)
     in ib\<lparr>in_queue := dput k (max (dget 0 (in_queue ib) k) (pe_revision e)) (in_queue ib)\<rparr>)"

text \<open>The result says whether the notification is a duplicate.\<close>

definition accept ::
  "(string \<Rightarrow> string \<Rightarrow> string \<Rightarrow> string) \<Rightarrow> (string \<Rightarrow> json option) \<Rightarrow> (string \<Rightarrow> string) \<Rightarrow> string \<Rightarrow> rat \<Rightarrow> string \<Rightarrow> string \<Rightarrow> string
    \<Rightarrow> inbox \<Rightarrow> pay_error + bool \<times> inbox" where
  "accept SG loads SHA secret now body stamp signature ib =
    bind_ok (parse_event SG loads now secret body stamp signature) (\<lambda>e.
      ensure (map_of (in_refs ib) (pe_auth e) = Some (pe_world e, pe_order e)) (Payment_Error ''EVENT_BINDING_CONFLICT'' 403)
       (case find_row ib (pe_event e) of
          Some r \<Rightarrow> ensure (ib_sha r = SHA body) (Payment_Error ''EVENT_BODY_CONFLICT'' 409) (Inr (True, ib))
        | None \<Rightarrow> Inr (False, queue_hint e (ib\<lparr>in_rows := in_rows ib @
            [\<lparr>ib_event = pe_event e, ib_sha = SHA body, ib_world = pe_world e, ib_order = pe_order e, ib_revision = pe_revision e,
              ib_body = body, ib_at = now\<rparr>]\<rparr>))))"

definition woken :: "rat \<Rightarrow> operation \<Rightarrow> operation" where
  "woken now op = (case op_recovery op of None \<Rightarrow> op
     | Some r \<Rightarrow> if sc_state r = REVIEW_REQUIRED then op
         else op\<lparr>op_recovery := Some (r\<lparr>sc_next_retry_at := map_option (\<lambda>t. min t (now + 3)) (sc_next_retry_at r)\<rparr>)\<rparr>)"

definition hinted :: "(string \<times> string) list \<Rightarrow> operation \<Rightarrow> bool" where
  "hinted hints op \<longleftrightarrow> op_payment op \<noteq> None \<and> op_status op = PENDING \<and> (op_world op, op_order op) \<in> set hints"

definition wake_operations :: "rat \<Rightarrow> nat \<Rightarrow> inbox \<times> coordinator \<Rightarrow> nat \<times> inbox \<times> coordinator" where
  "wake_operations now limit st = (case st of (ib, co) \<Rightarrow>
     (let hints = take limit (map fst (in_queue ib))
      in (length hints, ib\<lparr>in_queue := filter (\<lambda>(k, _). k \<notin> set hints) (in_queue ib)\<rparr>,
          co\<lparr>co_operations := map (\<lambda>(oid, r). (oid, if hinted hints (row_op r) then r\<lparr>row_op := woken now (row_op r)\<rparr> else r)) (co_operations co)\<rparr>)))"

section \<open>Delivery\<close>

text \<open>
  \<open>send\<close> is the transport: it may change the receiver, and answers whether the body was
  accepted (an exception counts as no).
\<close>

fun send_copies :: "('st \<Rightarrow> string \<Rightarrow> string \<Rightarrow> string \<Rightarrow> bool \<times> 'st) \<Rightarrow> string \<Rightarrow> string \<Rightarrow> string \<Rightarrow> nat \<Rightarrow> bool \<Rightarrow> 'st \<Rightarrow> bool \<times> 'st" where
  "send_copies send body stamp signature 0 ok st = (ok, st)"
| "send_copies send body stamp signature (Suc n) ok st =
    (case send st body stamp signature of (ok', st') \<Rightarrow> send_copies send body stamp signature n (ok' \<and> ok) st')"

fun deliver_rows ::
  "(string \<Rightarrow> string \<Rightarrow> string \<Rightarrow> string) \<Rightarrow> (json \<Rightarrow> string) \<Rightarrow> ('st \<Rightarrow> string \<Rightarrow> string \<Rightarrow> string \<Rightarrow> bool \<times> 'st) \<Rightarrow> string \<Rightarrow> bool \<Rightarrow> rat
    \<Rightarrow> outbox_row list \<Rightarrow> nat \<Rightarrow> ledger \<times> 'st \<Rightarrow> nat \<times> ledger \<times> 'st" where
  "deliver_rows SG canon send secret dup now [] n x = (n, x)"
| "deliver_rows SG canon send secret dup now (row # rows) n (l, st) =
    (let body = canon (JObj (event_fields (ob_body row))); stamp = str_of_int \<lfloor>now\<rfloor>
     in case send_copies send body stamp (SG secret stamp body) (if dup then 2 else ob_copies row) True st of (ok, st') \<Rightarrow>
          (case finish_notification row ok now l of (done, l') \<Rightarrow>
             deliver_rows SG canon send secret dup now rows (if done \<and> ok then n + 1 else n) (l', st')))"

definition deliver_due ::
  "(string \<Rightarrow> string \<Rightarrow> string \<Rightarrow> string) \<Rightarrow> (json \<Rightarrow> string) \<Rightarrow> ('st \<Rightarrow> string \<Rightarrow> string \<Rightarrow> string \<Rightarrow> bool \<times> 'st) \<Rightarrow> string \<Rightarrow> string \<Rightarrow> bool
    \<Rightarrow> int \<Rightarrow> rat \<Rightarrow> ledger \<times> 'st \<Rightarrow> pay_error + nat \<times> ledger \<times> 'st" where
  "deliver_due SG canon send secret sender dup limit now x = (case x of (l, st) \<Rightarrow>
     ensure (1 \<le> limit \<and> limit \<le> 64) Value_Error
      (bind_ok (claim_notifications sender limit 30 now l) (\<lambda>(rows, l'). Inr (deliver_rows SG canon send secret dup now rows 0 (l', st)))))"

section \<open>Round trips\<close>

lemma digits_not_minus: "str_of_nat n = c # cs \<Longrightarrow> c \<noteq> CHR ''-''"
  using str_of_nat_digits [of n] by (auto simp: is_digit_def)

lemma canonical_int_str [simp]: "canonical_int (str_of_int i) = Some i"
proof (cases "i < 0")
  case True
  then show ?thesis using str_of_nat_digits [of "nat (- i)"]
    by (simp add: canonical_int_def str_of_int_def list_all_iff)
next
  case False
  obtain c cs where s: "str_of_nat (nat i) = c # cs" by (cases "str_of_nat (nat i)") auto
  have "c \<noteq> CHR ''-''" by (rule digits_not_minus [OF s])
  then show ?thesis using False str_of_nat_digits [of "nat i"] nat_of_digits_str [of "nat i"]
    by (simp add: canonical_int_def str_of_int_def list_all_iff s)
qed

text \<open>The events of the ledger: every field is in the range the parser accepts.\<close>

definition wf_event :: "pay_event \<Rightarrow> bool" where
  "wf_event e \<longleftrightarrow> is_KEY (pe_event e) \<and> is_KEY (pe_world e) \<and> is_KEY (pe_order e) \<and> is_KEY (pe_auth e) \<and> is_KEY (pe_tx e)
     \<and> 1 \<le> pe_revision e \<and> 1 \<le> pe_payment_revision e \<and> 1 \<le> pe_amount e"

lemma key_text_JStr [simp]: "key_text (JStr s) = (if is_KEY s then Some s else None)"
  by (simp add: key_text_def)

lemma positive_int_JInt [simp]: "positive_int (JInt n) = (if 1 \<le> n then Some n else None)"
  by (simp add: positive_int_def)

lemma event_keys: "set (map fst (event_fields e)) = set EVENT_FIELDS"
  by (simp add: event_fields_def EVENT_FIELDS_def)

lemma event_of_fields [simp]:
  assumes "wf_event e"
  shows "event_of (JObj (event_fields e)) = Some e"
proof -
  have "of_nat (pe_revision e) \<ge> (1::int)" using assms by (simp add: wf_event_def)
  then show ?thesis using assms event_keys [of e]
    by (simp add: event_of_def wf_event_def) (simp add: event_fields_def)
qed

lemma parse_event_ok:
  assumes "wf_event e" "loads body = Some (JObj (event_fields e))" "length body \<le> MAX_BODY"
    and "stamp = str_of_int t" "abs (now - of_int t) \<le> 300" "length (SG secret stamp body) = 64"
  shows "parse_event SG loads now secret body stamp (SG secret stamp body) = Inr e"
  using assms by (simp add: parse_event_def ensure_def)

lemma parse_event_loads:
  assumes "parse_event SG loads now secret body stamp sig = Inr e"
  shows "Option.bind (loads body) event_of = Some e \<and> SG secret stamp body = sig"
  using assms by (auto simp: parse_event_def ensure_def split: if_splits option.splits)

section \<open>The inbox\<close>

definition inbox_inv :: "(string \<Rightarrow> json option) \<Rightarrow> (string \<Rightarrow> string) \<Rightarrow> inbox \<Rightarrow> bool" where
  "inbox_inv loads SHA ib \<longleftrightarrow> distinct (map ib_event (in_rows ib)) \<and> distinct (map fst (in_refs ib))
     \<and> (\<forall>r \<in> set (in_rows ib). ib_sha r = SHA (ib_body r) \<and> (\<exists>e. Option.bind (loads (ib_body r)) event_of = Some e \<and>
         pe_event e = ib_event r \<and> pe_world e = ib_world r \<and> pe_order e = ib_order r \<and> pe_revision e = ib_revision r \<and>
         map_of (in_refs ib) (pe_auth e) = Some (ib_world r, ib_order r)))"

lemma find_row_None: "find_row ib ev = None \<longleftrightarrow> ev \<notin> ib_event ` set (in_rows ib)"
  by (auto simp: find_row_def find_None_iff)

lemma find_row_Some: "find_row ib ev = Some r \<Longrightarrow> r \<in> set (in_rows ib) \<and> ib_event r = ev"
  by (auto simp: find_row_def find_Some_iff)

lemma queue_hint_simps [simp]: "in_rows (queue_hint e ib) = in_rows ib" "in_refs (queue_hint e ib) = in_refs ib"
  by (simp_all add: queue_hint_def Let_def)

datatype inbox_op = Register string string string | Accept rat string string string

fun inbox_step :: "(string \<Rightarrow> string \<Rightarrow> string \<Rightarrow> string) \<Rightarrow> (string \<Rightarrow> json option) \<Rightarrow> (string \<Rightarrow> string) \<Rightarrow> string
    \<Rightarrow> inbox \<Rightarrow> inbox_op \<Rightarrow> pay_error + inbox" where
  "inbox_step SG loads SHA secret ib (Register w ord au) = register_in w ord au ib"
| "inbox_step SG loads SHA secret ib (Accept now body stamp sig) = map_sum id snd (accept SG loads SHA secret now body stamp sig ib)"

lemma register_effect:
  assumes "register_in w ord au ib = Inr ib'"
  shows "ib' = ib \<or> au \<notin> fst ` set (in_refs ib) \<and> ib' = ib\<lparr>in_refs := in_refs ib @ [(au, w, ord)]\<rparr>"
  using assms by (auto simp: register_in_def key_def ensure_Inr bind_ok_def map_of_eq_None_iff split: if_splits option.splits)

lemma accept_effect:
  assumes "accept SG loads SHA secret now body stamp sig ib = Inr (dup, ib')"
  obtains (duplicate) e r where "dup" "ib' = ib" "Option.bind (loads body) event_of = Some e" "find_row ib (pe_event e) = Some r" "ib_sha r = SHA body"
  | (fresh) e where "\<not> dup" "Option.bind (loads body) event_of = Some e" "find_row ib (pe_event e) = None"
      "map_of (in_refs ib) (pe_auth e) = Some (pe_world e, pe_order e)" "in_refs ib' = in_refs ib"
      "in_rows ib' = in_rows ib @ [\<lparr>ib_event = pe_event e, ib_sha = SHA body, ib_world = pe_world e, ib_order = pe_order e,
         ib_revision = pe_revision e, ib_body = body, ib_at = now\<rparr>]"
proof -
  obtain e where p: "parse_event SG loads now secret body stamp sig = Inr e"
    using assms by (cases "parse_event SG loads now secret body stamp sig") (auto simp: accept_def)
  note l = parse_event_loads [OF p, THEN conjunct1]
  have b: "map_of (in_refs ib) (pe_auth e) = Some (pe_world e, pe_order e)" using assms by (simp add: accept_def p ensure_Inr)
  show ?thesis
  proof (cases "find_row ib (pe_event e)")
    case None
    then show ?thesis using assms b l by (intro fresh [of e]) (auto simp: accept_def p)
  next
    case (Some r)
    then show ?thesis using assms b l by (intro duplicate [of e r]) (auto simp: accept_def p ensure_Inr)
  qed
qed

lemma map_snd_Inr:
  assumes "map_sum id snd r = Inr y"
  obtains x where "r = Inr (x, y)"
  using assms by (cases r) auto

lemma inbox_step_inv:
  assumes i: "inbox_inv loads SHA ib" and s: "inbox_step SG loads SHA secret ib x = Inr ib'"
  shows "inbox_inv loads SHA ib'"
proof (cases x)
  case (Register w ord au)
  then have r: "register_in w ord au ib = Inr ib'" using s by simp
  show ?thesis
  proof (cases "ib' = ib")
    case False
    then have n: "au \<notin> fst ` set (in_refs ib)" and e: "ib' = ib\<lparr>in_refs := in_refs ib @ [(au, w, ord)]\<rparr>"
      using register_effect [OF r] by auto
    have m: "map_of (in_refs ib) a = Some p \<Longrightarrow> map_of (in_refs ib @ [(au, w, ord)]) a = Some p" for a p
      by (simp add: map_of_append map_add_Some_iff)
    show ?thesis unfolding inbox_inv_def
    proof (intro conjI ballI)
      fix r assume "r \<in> set (in_rows ib')"
      then have "r \<in> set (in_rows ib)" by (simp add: e)
      then show "ib_sha r = SHA (ib_body r)" using i by (simp add: inbox_inv_def)
      obtain ev where "Option.bind (loads (ib_body r)) event_of = Some ev" "pe_event ev = ib_event r" "pe_world ev = ib_world r"
        "pe_order ev = ib_order r" "pe_revision ev = ib_revision r" "map_of (in_refs ib) (pe_auth ev) = Some (ib_world r, ib_order r)"
        using i \<open>r \<in> set (in_rows ib)\<close> by (auto simp: inbox_inv_def)
      then show "\<exists>e. Option.bind (loads (ib_body r)) event_of = Some e \<and> pe_event e = ib_event r \<and> pe_world e = ib_world r \<and>
          pe_order e = ib_order r \<and> pe_revision e = ib_revision r \<and> map_of (in_refs ib') (pe_auth e) = Some (ib_world r, ib_order r)"
        using m by (intro exI [of _ ev]) (simp add: e)
    qed (use i n in \<open>auto simp: inbox_inv_def e\<close>)
  qed (use i in simp)
next
  case (Accept now body stamp sig)
  have m: "map_sum id snd (accept SG loads SHA secret now body stamp sig ib) = Inr ib'" using s unfolding Accept by simp
  obtain dup where a: "accept SG loads SHA secret now body stamp sig ib = Inr (dup, ib')"
    by (rule map_snd_Inr [OF m])
  show ?thesis using a
  proof (cases rule: accept_effect)
    case (fresh e)
    then show ?thesis using i by (auto simp: inbox_inv_def find_row_None)
  qed (use i in simp)
qed

interpretation inbox_runs: guarded_steps "inbox_step SG loads SHA secret" "inbox_inv loads SHA" for SG loads SHA secret
  by unfold_locales (rule inbox_step_inv)

lemma accept_known:
  assumes "parse_event SG loads now secret body stamp sig = Inr e" "map_of (in_refs ib) (pe_auth e) = Some (pe_world e, pe_order e)"
    and "find_row ib (pe_event e) = Some r"
  shows "accept SG loads SHA secret now body stamp sig ib =
    (if ib_sha r = SHA body then Inr (True, ib) else Inl (Payment_Error ''EVENT_BODY_CONFLICT'' 409))"
  using assms by (simp add: accept_def ensure_def)

lemma find_snoc: "List.find P xs = None \<Longrightarrow> P x \<Longrightarrow> List.find P (xs @ [x]) = Some x"
  by (induction xs) (auto split: if_splits)

lemma accept_new:
  assumes "parse_event SG loads now secret body stamp sig = Inr e" "map_of (in_refs ib) (pe_auth e) = Some (pe_world e, pe_order e)"
    and "find_row ib (pe_event e) = None"
  shows "\<exists>ib' r. accept SG loads SHA secret now body stamp sig ib = Inr (False, ib') \<and> find_row ib' (pe_event e) = Some r \<and>
    ib_sha r = SHA body \<and> in_refs ib' = in_refs ib \<and> pe_revision e \<le> dget 0 (in_queue ib') (pe_world e, pe_order e)"
proof -
  have "find_row (queue_hint e (ib\<lparr>in_rows := in_rows ib @ [row]\<rparr>)) (pe_event e) = Some row" if "ib_event row = pe_event e" for row
    using assms(3) that by (simp add: find_row_def find_snoc)
  moreover have "pe_revision e \<le> dget 0 (in_queue (queue_hint e ib')) (pe_world e, pe_order e)" for ib'
    by (simp add: queue_hint_def Let_def dget_def)
  ultimately show ?thesis using assms by (simp add: accept_def ensure_def)
qed

text \<open>
  Whatever else the payment inbox does: registrations and other notifications, rounds of
  waking operations, and changes of the operations by the rest of the coordinator.
\<close>

datatype intake_op = Inbox inbox_op | Wake rat nat | Coordinate coordinator

fun intake_step :: "(string \<Rightarrow> string \<Rightarrow> string \<Rightarrow> string) \<Rightarrow> (string \<Rightarrow> json option) \<Rightarrow> (string \<Rightarrow> string) \<Rightarrow> string
    \<Rightarrow> inbox \<times> coordinator \<Rightarrow> intake_op \<Rightarrow> pay_error + inbox \<times> coordinator" where
  "intake_step SG loads SHA secret (ib, co) (Inbox x) = map_sum id (\<lambda>ib'. (ib', co)) (inbox_step SG loads SHA secret ib x)"
| "intake_step SG loads SHA secret (ib, co) (Wake now limit) = Inr (snd (wake_operations now limit (ib, co)))"
| "intake_step SG loads SHA secret (ib, co) (Coordinate co') = Inr (ib, co')"

text \<open>An accepted event is on file, under a registered authorization.\<close>

definition on_file :: "pay_event \<Rightarrow> string \<Rightarrow> inbox \<Rightarrow> bool" where
  "on_file e sha ib \<longleftrightarrow> map_of (in_refs ib) (pe_auth e) = Some (pe_world e, pe_order e)
     \<and> (\<exists>r. find_row ib (pe_event e) = Some r \<and> ib_sha r = sha)"

lemma find_append: "List.find P xs = Some x \<Longrightarrow> List.find P (xs @ ys) = Some x"
  by (induction xs) (auto split: if_splits)

lemma on_file_extend:
  assumes "on_file e sha ib" "in_refs ib' = in_refs ib @ refs" "in_rows ib' = in_rows ib @ rows"
  shows "on_file e sha ib'"
  using assms by (auto simp: on_file_def find_row_def find_append map_of_append)

lemma inbox_step_extends:
  assumes "inbox_step SG loads SHA secret ib x = Inr ib'"
  shows "\<exists>refs rows. in_refs ib' = in_refs ib @ refs \<and> in_rows ib' = in_rows ib @ rows"
proof (cases x)
  case (Register w ord au)
  then show ?thesis using assms register_effect [of w ord au ib ib'] by auto
next
  case (Accept now body stamp sig)
  have m: "map_sum id snd (accept SG loads SHA secret now body stamp sig ib) = Inr ib'" using assms unfolding Accept by simp
  obtain dup where a: "accept SG loads SHA secret now body stamp sig ib = Inr (dup, ib')" by (rule map_snd_Inr [OF m])
  then show ?thesis by (cases rule: accept_effect) auto
qed

interpretation filed: guarded_steps "intake_step SG loads SHA secret" "\<lambda>s. on_file e sha (fst s)" for SG loads SHA secret e sha
proof (unfold_locales, goal_cases)
  case (1 s c t)
  obtain ib co where s: "s = (ib, co)" by (cases s)
  show ?case
  proof (cases c)
    case (Inbox x)
    then obtain ib' where i: "inbox_step SG loads SHA secret ib x = Inr ib'" and t: "t = (ib', co)"
      using 1(2) by (cases "inbox_step SG loads SHA secret ib x") (auto simp: s)
    then show ?thesis using inbox_step_extends [OF i] on_file_extend [of e sha ib ib'] 1(1) by (auto simp: s)
  next
    case (Wake now limit)
    then have "in_refs (fst t) = in_refs ib" "in_rows (fst t) = in_rows ib" using 1(2) by (auto simp: s wake_operations_def Let_def)
    then show ?thesis using 1(1) on_file_extend [of e sha ib "fst t" "[]" "[]"] by (simp add: s)
  next
    case (Coordinate co')
    then show ?thesis using 1 by (auto simp: s)
  qed
qed

text \<open>C33.
  Exactly-once notification: a genuine event (every field in range, its body the canonical text
  of its dictionary, signed, within 300 seconds) of a registered authorization that the inbox
  has not seen is accepted and its hint is queued. After that, whatever other notifications,
  registrations and rounds of waking operations come in between, every later delivery of the
  same body within the window of its stamp is acknowledged as a duplicate and changes nothing,
  and another body with the same event id is refused.
\<close>

theorem notification_accepted_once:
  assumes "wf_event e" "loads body = Some (JObj (event_fields e))" "length body \<le> MAX_BODY" "\<And>stamp b. length (SG secret stamp b) = 64"
    and "map_of (in_refs ib) (pe_auth e) = Some (pe_world e, pe_order e)" "find_row ib (pe_event e) = None"
    and "abs (now - of_int t) \<le> 300" "abs (now' - of_int t') \<le> 300"
    and "wf_event e'" "loads body' = Some (JObj (event_fields e'))" "length body' \<le> MAX_BODY" "SHA body' \<noteq> SHA body"
    and "pe_event e' = pe_event e" "pe_auth e' = pe_auth e" "pe_world e' = pe_world e" "pe_order e' = pe_order e"
  shows "\<exists>ib'. accept SG loads SHA secret now body (str_of_int t) (SG secret (str_of_int t) body) ib = Inr (False, ib')
    \<and> pe_revision e \<le> dget 0 (in_queue ib') (pe_world e, pe_order e)
    \<and> (let later = fst (run (intake_step SG loads SHA secret) (ib', co) ops)
       in accept SG loads SHA secret now' body (str_of_int t') (SG secret (str_of_int t') body) later = Inr (True, later)
        \<and> accept SG loads SHA secret now' body' (str_of_int t') (SG secret (str_of_int t') body') later = Inl (Payment_Error ''EVENT_BODY_CONFLICT'' 409))"
proof -
  have p: "parse_event SG loads now secret body (str_of_int t) (SG secret (str_of_int t) body) = Inr e"
    and p': "parse_event SG loads now' secret body (str_of_int t') (SG secret (str_of_int t') body) = Inr e"
    and q: "parse_event SG loads now' secret body' (str_of_int t') (SG secret (str_of_int t') body') = Inr e'"
    using assms by (auto intro!: parse_event_ok)
  obtain ib' r where a: "accept SG loads SHA secret now body (str_of_int t) (SG secret (str_of_int t) body) ib = Inr (False, ib')"
    and f: "find_row ib' (pe_event e) = Some r" "ib_sha r = SHA body" and refs: "in_refs ib' = in_refs ib"
    and h: "pe_revision e \<le> dget 0 (in_queue ib') (pe_world e, pe_order e)"
    using accept_new [OF p assms(5,6)] by blast
  let ?later = "fst (run (intake_step SG loads SHA secret) (ib', co) ops)"
  have "on_file e (SHA body) (fst (ib', co))" using f by (simp add: on_file_def refs assms(5))
  then have "on_file e (SHA body) ?later" by (rule filed.run_inv)
  then obtain r' where b: "map_of (in_refs ?later) (pe_auth e) = Some (pe_world e, pe_order e)"
    and d: "find_row ?later (pe_event e) = Some r'" "ib_sha r' = SHA body" by (auto simp: on_file_def)
  have c: "map_of (in_refs ?later) (pe_auth e') = Some (pe_world e', pe_order e')" "find_row ?later (pe_event e') = Some r'"
    using b d by (simp_all add: assms(13-16))
  show ?thesis
    using a h accept_known [OF p' b d(1), of SHA] accept_known [OF q c, of SHA] d(2) assms(12) by (auto simp: Let_def)
qed

section \<open>Concrete notifications\<close>

definition sample_event :: "int \<Rightarrow> pay_event" where
  "sample_event amount = \<lparr>pe_event = ''e1'', pe_world = ''w1'', pe_order = ''o1'', pe_auth = ''a1'', pe_tx = ''t1'', pe_revision = 1,
     pe_kind = AUTHORIZE, pe_payment_revision = 1, pe_amount = amount\<rparr>"

definition sample_loads :: "string \<Rightarrow> json option" where
  "sample_loads body = (if body = ''b1'' then Some (JObj (event_fields (sample_event 4500)))
     else if body = ''b2'' then Some (JObj (event_fields (sample_event 9000))) else None)"

definition sample_sign :: "string \<Rightarrow> string \<Rightarrow> string \<Rightarrow> string" where
  "sample_sign secret stamp body = take 64 (secret @ stamp @ body @ replicate 64 (CHR ''0''))"

definition sample_inbox :: inbox where
  "sample_inbox = empty_inbox\<lparr>in_refs := [(''a1'', ''w1'', ''o1'')]\<rparr>"

lemma wf_sample: "wf_event (sample_event 4500)" "wf_event (sample_event 9000)"
  by code_simp+

text \<open>Between the two deliveries another authorization is registered and the hint is consumed.\<close>

definition between_deliveries :: "intake_op list" where
  "between_deliveries = [Inbox (Register ''w2'' ''o2'' ''a2''), Wake 1005 16]"

definition idle_coordinator :: coordinator where
  "idle_coordinator = \<lparr>co_journeys = [], co_commands = [], co_controls = [], co_operations = []\<rparr>"

theorem notification_accepted_once_witness:
  "\<exists>ib'. accept sample_sign sample_loads id ''k'' 1000 ''b1'' (str_of_int 990) (sample_sign ''k'' (str_of_int 990) ''b1'') sample_inbox = Inr (False, ib')
    \<and> pe_revision (sample_event 4500) \<le> dget 0 (in_queue ib') (pe_world (sample_event 4500), pe_order (sample_event 4500))
    \<and> (let later = fst (run (intake_step sample_sign sample_loads id ''k'') (ib', idle_coordinator) between_deliveries)
       in accept sample_sign sample_loads id ''k'' 1200 ''b1'' (str_of_int 1100) (sample_sign ''k'' (str_of_int 1100) ''b1'') later = Inr (True, later)
        \<and> accept sample_sign sample_loads id ''k'' 1200 ''b2'' (str_of_int 1100) (sample_sign ''k'' (str_of_int 1100) ''b2'') later
        = Inl (Payment_Error ''EVENT_BODY_CONFLICT'' 409))"
  by (rule notification_accepted_once [where e' = "sample_event 9000"])
    (simp_all add: wf_sample, simp_all add: sample_loads_def sample_event_def sample_sign_def sample_inbox_def empty_inbox_def MAX_BODY_def find_row_def)

end
