(* ===== verification/Payment_Operations.thy ===== *)
theory Payment_Operations
  imports Payment_Steps Payment_Inbox
begin

text \<open>
  \<open>payment_operations.py\<close>: the coordinator of protocol 2. A command is planned and stored in
  one transaction; then each iteration of \<open>resume\<close> reads the operation (\<open>pay_prepare\<close>), asks
  a merchant or the provider without a lock (\<open>pay_external\<close>), and stores what was learnt if
  nobody else advanced the operation meanwhile (\<open>pay_commit\<close>). The networks, the clock and
  the uuids are arguments. The replies kept with an operation are not modelled, nothing reads them.
\<close>

section \<open>The services\<close>

record services =
  sv_co :: coordinator
  sv_fleet :: fleet
  sv_ledger :: ledger
  sv_inbox :: inbox

text \<open>What one iteration meets: the clock, and the fate of its calls.\<close>

record tick_env =
  te_now :: rat
  te_merchant :: net
  te_lookup :: net
  te_send :: net
  te_call :: call_env

definition bump_version :: "operation \<Rightarrow> operation" where
  "bump_version op = op\<lparr>op_payment := map_option (\<lambda>p. p\<lparr>pp_phase_version := pp_phase_version p + 1\<rparr>) (op_payment op)\<rparr>"

definition phase_version :: "operation \<Rightarrow> nat" where
  "phase_version op = (case op_payment op of None \<Rightarrow> 0 | Some p \<Rightarrow> pp_phase_version p)"

section \<open>One iteration\<close>

text \<open>\<open>None\<close>: nothing to do now.\<close>

definition pay_prepare :: "bool \<Rightarrow> rat \<Rightarrow> string \<Rightarrow> string \<Rightarrow> coordinator \<Rightarrow> journey_error + operation option \<times> coordinator" where
  "pay_prepare automatic now sid oid co = bind_ok (load co sid) (\<lambda>s. bind_ok (load_op co oid) (\<lambda>op.
     ensure (op_sid op = sid) (Conflict ''UNKNOWN_OPERATION'')
      (if op_status op \<noteq> PENDING then Inr (None, co)
       else ensure (jo_active s = Some oid) (Conflict ''OPERATION_FENCE'')
        (let r = recovery_of now op
         in if sc_state r = REVIEW_REQUIRED \<or> automatic \<and> (case sc_next_retry_at r of None \<Rightarrow> False | Some t \<Rightarrow> now < t) then Inr (None, co)
            else (case expire op now of
                (True, op) \<Rightarrow> (let op = bump_version op
                  in Inr (Some op, save (s\<lparr>tr_version := tr_version s + 1, jo_handoff := Some (public_operation op)\<rparr>) (save_op op co)))
              | (False, op) \<Rightarrow> Inr (Some op, co))))))"

definition auth_fields :: "authorization \<Rightarrow> json_obj" where
  "auth_fields a = [(''authorization_id'', JStr (au_id a)), (''world_id'', JStr (au_world a)), (''order_id'', JStr (au_order a)),
     (''amount_krw'', JInt (au_amount a)), (''currency'', JStr ''KRW''), (''payment_revision'', JInt (au_revision a)),
     (''quote_fingerprint'', JStr (au_quote a))]"

definition row_field :: "json \<Rightarrow> string \<Rightarrow> json" where
  "row_field v k = (case v of JObj d \<Rightarrow> pget d k | _ \<Rightarrow> JNull)"

definition list_of :: "json \<Rightarrow> json list" where
  "list_of v = (case v of JList xs \<Rightarrow> xs | _ \<Rightarrow> [])"

text \<open>\<open>PAY_CHECK\<close>: the provider still holds exactly the authorization the order was agreed with.\<close>

definition auth_active :: "authorization \<Rightarrow> json_obj \<Rightarrow> bool" where
  "auth_active a snap = (case List.find (\<lambda>v. row_field v ''authorization_id'' = JStr (au_id a)) (list_of (pget snap ''authorizations'')) of
     None \<Rightarrow> False
   | Some v \<Rightarrow> row_field v ''status'' = JStr ''AUTHORIZED'' \<and> (\<forall>(k, x) \<in> set (auth_fields a). py_eq (row_field v k) x))"

text \<open>
  What a call of the provider gives: a reply, \<open>None\<close> for an unconfirmed one (an \<open>OSError\<close> or
  an error of the database), or an exception that ends the request.
\<close>

definition confirmed :: "call_error + step_reply \<Rightarrow> journey_error + step_reply option" where
  "confirmed r = (case r of Inr x \<Rightarrow> Inr (Some x)
     | Inl Unavailable \<Rightarrow> Inr None
     | Inl (Raised (Payment_Error code _)) \<Rightarrow> Inr (Some (Pay_Refused code))
     | Inl (Raised Integrity_Error) \<Rightarrow> Inr None
     | Inl (Raised Type_Error) \<Rightarrow> Inl (Exception ''TypeError'')
     | Inl (Raised Value_Error) \<Rightarrow> Inl (Exception ''ValueError''))"

definition pay_call :: "(json \<Rightarrow> string) \<Rightarrow> tick_env \<Rightarrow> operation \<Rightarrow> pay_command \<Rightarrow> ledger \<Rightarrow> (call_error + step_reply) \<times> ledger" where
  "pay_call H te op c l = (case client_operation (te_lookup te) (command_json c) l of
     Inl e \<Rightarrow> (Inl e, l)
   | Inr (Some r) \<Rightarrow> (Inr (Pay_Reply r), l)
   | Inr None \<Rightarrow> (case client_execute H (te_send te) (te_call te) (transport_fault op c) (command_json c) l of
       (r, l') \<Rightarrow> (map_sum id Pay_Reply r, l')))"

definition pay_external ::
  "(json \<Rightarrow> string) \<Rightarrow> bool \<Rightarrow> tick_env \<Rightarrow> operation \<Rightarrow> fleet \<times> ledger \<Rightarrow> (journey_error + step_reply option) \<times> fleet \<times> ledger" where
  "pay_external H gw te op st = (case st of (fl, l) \<Rightarrow>
     if op_phase op \<in> {DECIDE, FINALIZE} then (Inr (Some Step_Done), st)
     else if op_phase op \<in> set PAY_PHASES then
       (if \<not> gw then (Inr None, st)
        else (case auth_command op (op_phase op) of
            None \<Rightarrow> (Inl (Exception ''ValueError''), st)
          | Some c \<Rightarrow> (case pay_call H te op c l of (r, l') \<Rightarrow> (confirmed r, fl, l'))))
     else if op_phase op = PAY_CHECK then
       (if \<not> gw then (Inr None, st)
        else (case old_auth op of
            None \<Rightarrow> (Inl (Exception ''TypeError''), st)
          | Some a \<Rightarrow> (confirmed (map_sum id (\<lambda>d. Check_Reply (auth_active a d)) (client_snapshot (te_lookup te) (op_world op) (op_order op) l)), st)))
     else (case call_merchant H (te_merchant te) fl op (op_phase op) of
         Inl e \<Rightarrow> (Inl Unknown_Shop, st)
       | Inr (reply, fl') \<Rightarrow> (Inr (map_option Merchant_Reply reply), fl', l)))"

section \<open>What is learnt\<close>

fun paid_kind :: "pay_action \<Rightarrow> event_kind" where
  "paid_kind AUTHORIZE = PAYMENT_AUTHORIZED"
| "paid_kind CAPTURE = PAYMENT_CAPTURED"
| "paid_kind VOID = PAYMENT_VOIDED"

definition transaction_of :: "journey_event \<Rightarrow> string option" where
  "transaction_of e = (case je_data e of Payment_Data p \<Rightarrow> Some (pa_transaction p) | _ \<Rightarrow> None)"

definition observed :: "pay_result \<Rightarrow> string \<Rightarrow> payment_data" where
  "observed r tid = \<lparr>pa_amount = pc_amount (pr_command r), pa_transaction = tid, pa_authorization = pc_auth (pr_command r),
     pa_payment_revision = pc_revision (pr_command r), pa_provider_revision = (case pr_revision r of None \<Rightarrow> 0 | Some n \<Rightarrow> n)\<rparr>"

definition observe :: "op_phase \<Rightarrow> step_reply \<Rightarrow> journey \<Rightarrow> journey_error + journey" where
  "observe ph reply s = (case reply of
     Pay_Reply r \<Rightarrow>
       if ph \<notin> set PAY_PHASES \<or> \<not> pr_ok r then Inr s
       else (case pr_tx r of
           None \<Rightarrow> Inl (Exception ''ValueError'')
         | Some tid \<Rightarrow> if tid = [] then Inl (Exception ''ValueError'')
             else
               let s = (if \<exists>e \<in> set (jo_events s). transaction_of e = Some tid then s
                        else add_event (paid_kind (pc_action (pr_command r))) (Payment_Data (observed r tid)) s)
               in (case jo_payment s of
                     None \<Rightarrow> Inl (Key_Error ''payment'')
                   | Some v \<Rightarrow> Inr (s\<lparr>jo_payment := Some (v\<lparr>pv_last_confirmed := Some (observed r tid)\<rparr>)\<rparr>)))
   | _ \<Rightarrow> Inr s)"

definition renumber :: "journey_event list \<Rightarrow> journey_event list \<Rightarrow> journey_event list" where
  "renumber old new = old @ map (\<lambda>(i, e). e\<lparr>je_seq := i\<rparr>) (zip [length old + 1..<length old + 1 + length new] new)"

definition final_pay_state :: "order \<Rightarrow> pay_state" where
  "final_pay_state x = (if or_price x = 0 then Pay_NO_CHARGE else if or_state x = PICKED_UP then Pay_CAPTURED
     else if or_state x = CANCELLED then Pay_VOIDED else Pay_AUTHORIZED)"

definition finalize :: "journey \<Rightarrow> operation \<Rightarrow> journey_error + journey" where
  "finalize s op = (let new = op_candidate op; base = (case op_payment op of None \<Rightarrow> 0 | Some p \<Rightarrow> pp_event_base p)
     in case (jo_payment s, tr_order new) of
          (Some v, Some x) \<Rightarrow>
            Inr (new\<lparr>jo_events := renumber (jo_events s) (drop base (jo_events new)),
              jo_payment := Some (v\<lparr>pv_state := final_pay_state x,
                pv_authorization := (if op_action op \<in> {A_reserve, A_reorder, A_transfer} then new_auth op else old_auth op),
                pv_amount := Some (or_price x)\<rparr>),
              jo_payment_order := Some (op_order op),
              jo_first_order := (case jo_first_order new of None \<Rightarrow> Some (op_order op) | Some y \<Rightarrow> Some y)\<rparr>)
        | (None, _) \<Rightarrow> Inl (Key_Error ''payment'')
        | _ \<Rightarrow> Inl (Exception ''TypeError''))"

definition learnt :: "rat \<Rightarrow> step_reply option \<Rightarrow> journey \<Rightarrow> operation \<Rightarrow> journey_error + journey \<times> operation" where
  "learnt tick reply s op = (let ph = op_phase op; op = op\<lparr>op_attempts := op_attempts op + 1\<rparr>
     in case reply of
          None \<Rightarrow> Inr (s, after_step tick True (add_history ph RESPONSE_NOT_CONFIRMED op))
        | Some r \<Rightarrow> bind_ok (observe ph r s) (\<lambda>s.
            Inr (s, after_step tick False (transition (add_history ph (if reply_ok r then CONFIRMED
              else Refused_With (case reply_code r of None \<Rightarrow> ''REJECTED'' | Some code \<Rightarrow> code)) op) r))))"

definition payment_refused :: "operation \<Rightarrow> pay_state" where
  "payment_refused op = (if op_failure op \<in> {Some ''DECLINED'', Some ''LIMIT_EXCEEDED''} then Pay_DECLINED else Pay_VOIDED)"

definition closed_journey :: "journey \<Rightarrow> operation \<Rightarrow> journey_error + journey" where
  "closed_journey s op =
    (if op_status op = COMPLETED then finalize s op
     else if op_status op = REJECTED \<and> tr_order s = None then (case jo_payment s of
         None \<Rightarrow> Inl (Key_Error ''payment'')
       | Some v \<Rightarrow> Inr (s\<lparr>jo_payment := Some (v\<lparr>pv_state := payment_refused op\<rparr>)\<rparr>))
     else Inr s)"

text \<open>
  The second transaction: an operation that was advanced by somebody else is left alone. The
  result says whether the loop of \<open>resume\<close> stops here.
\<close>

definition stale :: "string \<Rightarrow> operation \<Rightarrow> operation \<Rightarrow> journey \<Rightarrow> bool" where
  "stale oid op current s \<longleftrightarrow> op_status current \<noteq> PENDING \<or> phase_version current \<noteq> phase_version op
     \<or> op_phase current \<noteq> op_phase op \<or> jo_active s \<noteq> Some oid"

definition pay_commit ::
  "rat \<Rightarrow> string \<Rightarrow> string \<Rightarrow> operation \<Rightarrow> step_reply option \<Rightarrow> coordinator \<Rightarrow> journey_error + bool \<times> coordinator" where
  "pay_commit tick sid oid op reply co = bind_ok (load_op co oid) (\<lambda>current. bind_ok (load co sid) (\<lambda>s.
     if stale oid op current s then Inr (False, co)
     else bind_ok (learnt tick reply s current) (\<lambda>(s1, current). bind_ok (closed_journey s1 current) (\<lambda>s1.
       let op = bump_version current;
           s1 = s1\<lparr>tr_version := tr_version s + 1\<rparr>;
           s1 = (if op_status op \<noteq> PENDING then s1\<lparr>jo_active := None, jo_pending_order := None\<rparr> else s1);
           s1 = s1\<lparr>jo_handoff := Some (public_operation op)\<rparr>
       in Inr (reply = None \<or> op_status op \<noteq> PENDING \<or> sc_state (recovery_of tick op) = REVIEW_REQUIRED, save s1 (save_op op co))))))"

section \<open>Resume\<close>

definition pay_tick ::
  "(json \<Rightarrow> string) \<Rightarrow> bool \<Rightarrow> bool \<Rightarrow> tick_env \<Rightarrow> string \<Rightarrow> string \<Rightarrow> services \<Rightarrow> (journey_error + bool) \<times> services" where
  "pay_tick H gw automatic te sid oid sv = (case pay_prepare automatic (te_now te) sid oid (sv_co sv) of
     Inl e \<Rightarrow> (Inl e, sv)
   | Inr (None, co) \<Rightarrow> (Inr True, sv)
   | Inr (Some op, co) \<Rightarrow> (case pay_external H gw te op (sv_fleet sv, sv_ledger sv) of (r, fl, l) \<Rightarrow>
       let sv = sv\<lparr>sv_co := co, sv_fleet := fl, sv_ledger := l\<rparr>
       in case r of Inl e \<Rightarrow> (Inl e, sv)
          | Inr reply \<Rightarrow> (case pay_commit (te_now te) sid oid op reply co of
              Inl e \<Rightarrow> (Inl e, sv)
            | Inr (stop, co') \<Rightarrow> (Inr stop, sv\<lparr>sv_co := co'\<rparr>))))"

fun pay_loop ::
  "(json \<Rightarrow> string) \<Rightarrow> bool \<Rightarrow> bool \<Rightarrow> bool \<Rightarrow> tick_env list \<Rightarrow> string \<Rightarrow> string \<Rightarrow> services \<Rightarrow> (journey_error + journey) \<times> services" where
  "pay_loop H gw automatic first [] sid oid sv = (load (sv_co sv) sid, sv)"
| "pay_loop H gw automatic first (te # tes) sid oid sv =
    (case pay_tick H gw (automatic \<and> first) te sid oid sv of
       (Inl e, sv') \<Rightarrow> (Inl e, sv')
     | (Inr True, sv') \<Rightarrow> (load (sv_co sv') sid, sv')
     | (Inr False, sv') \<Rightarrow> pay_loop H gw automatic False tes sid oid sv')"

text \<open>\<open>range(16)\<close>: one call carries out at most sixteen iterations.\<close>

type_synonym pay_environment = "nat \<Rightarrow> tick_env"

definition pay_resume ::
  "(json \<Rightarrow> string) \<Rightarrow> bool \<Rightarrow> bool \<Rightarrow> pay_environment \<Rightarrow> string \<Rightarrow> string option \<Rightarrow> services \<Rightarrow> (journey_error + journey) \<times> services" where
  "pay_resume H gw automatic env sid oid sv = (case oid of
     None \<Rightarrow> (load (sv_co sv) sid, sv)
   | Some oid \<Rightarrow> pay_loop H gw automatic True (map env [0..<16]) sid oid sv)"

section \<open>Planning a command\<close>

definition PAY_ACTIONS :: "action list" where
  "PAY_ACTIONS = [A_reserve, A_reorder, A_transfer, A_start, A_ready, A_claim, A_cancel]"

type_synonym auth_hash = "string \<Rightarrow> pricing option \<Rightarrow> terms option \<Rightarrow> string"

definition journey_auth :: "journey \<Rightarrow> authorization option" where
  "journey_auth s = Option.bind (jo_payment s) pv_authorization"

definition world_of :: "journey \<Rightarrow> string" where
  "world_of s = (case jo_world s of None \<Rightarrow> [] | Some w \<Rightarrow> w)"

definition fresh_auth :: "auth_hash \<Rightarrow> string \<Rightarrow> int \<Rightarrow> journey \<Rightarrow> order \<Rightarrow> authorization" where
  "fresh_auth AH aid rv s x = \<lparr>au_id = ''AUTH-'' @ aid, au_world = world_of s, au_order = or_id x, au_amount = or_price x,
     au_revision = rv, au_quote = AH (pl_quote (or_plan x)) (or_pricing x) (or_terms x)\<rparr>"

definition orders_money :: "action \<Rightarrow> bool" where
  "orders_money a \<longleftrightarrow> a \<in> {A_reserve, A_reorder, A_transfer}"

text \<open>A new authorization is needed for a new order, and for a transfer that changes the price.\<close>

definition reprices :: "action \<Rightarrow> journey \<Rightarrow> order \<Rightarrow> bool" where
  "reprices a s x \<longleftrightarrow> orders_money a \<and> (a \<noteq> A_transfer \<or> map_option or_price (tr_order s) \<noteq> Some (or_price x))"

definition planned_auth :: "auth_hash \<Rightarrow> string \<Rightarrow> action \<Rightarrow> journey \<Rightarrow> order \<Rightarrow> authorization option" where
  "planned_auth AH aid a s x =
    (if reprices a s x then (if or_price x \<noteq> 0 then Some (fresh_auth AH aid (jo_payment_revision s + 1) s x) else None)
     else journey_auth s)"

definition first_phase :: "action \<Rightarrow> authorization option \<Rightarrow> authorization option \<Rightarrow> op_phase" where
  "first_phase a old new = (case a of
     A_reserve \<Rightarrow> if new \<noteq> None then PAY_AUTHORIZE else At_Merchant ADMIT
   | A_reorder \<Rightarrow> if new \<noteq> None then PAY_AUTHORIZE else At_Merchant ADMIT
   | A_transfer \<Rightarrow> At_Merchant FREEZE
   | A_claim \<Rightarrow> if old \<noteq> None then PAY_CAPTURE else At_Merchant CLAIM
   | A_start \<Rightarrow> if old \<noteq> None then PAY_CHECK else At_Merchant START
   | A_ready \<Rightarrow> if old \<noteq> None then PAY_CHECK else At_Merchant merchant_action.READY
   | _ \<Rightarrow> At_Merchant CANCEL)"

text \<open>A fault prepared by the visitor is used up by the first operation it can affect.\<close>

definition consumes_fault :: "payment_fault \<Rightarrow> action \<Rightarrow> authorization option \<Rightarrow> authorization option \<Rightarrow> bool" where
  "consumes_fault fault a old new = (case fault of
     Authorize_Reply_Lost \<Rightarrow> orders_money a \<and> new \<noteq> None \<and> new \<noteq> old
   | Capture_Reply_Lost \<Rightarrow> a = A_claim \<and> old \<noteq> None
   | Void_Reply_Lost \<Rightarrow> old \<noteq> None \<and> (a = A_cancel \<or> a = A_transfer \<and> new \<noteq> old)
   | Notification_Duplicate \<Rightarrow> orders_money a \<or> a \<in> {A_claim, A_cancel}
   | Notification_Late \<Rightarrow> orders_money a \<or> a \<in> {A_claim, A_cancel}
   | No_Payment_Fault \<Rightarrow> False)"

text \<open>What planning changes in the journey and in the candidate alike.\<close>

definition mark_plan :: "action \<Rightarrow> int \<Rightarrow> bool \<Rightarrow> bool \<Rightarrow> journey \<Rightarrow> journey" where
  "mark_plan a g reprice used s =
    (let s = mark_transfer a g s;
         s = (if reprice then s\<lparr>jo_payment_revision := jo_payment_revision s + 1\<rparr> else s)
     in if used then s\<lparr>jo_payment_fault := No_Payment_Fault\<rparr> else s)"

definition pay_plan ::
  "auth_hash \<Rightarrow> string \<times> string \<Rightarrow> rat \<Rightarrow> action \<Rightarrow> journey \<Rightarrow> journey \<Rightarrow> order \<Rightarrow> journey \<times> operation" where
  "pay_plan AH ids now a s cand after = (case ids of (oid, aid) \<Rightarrow>
    (let g = planned_generation s a; x = after\<lparr>or_generation := Some g\<rparr>;
         old = journey_auth s; new = planned_auth AH aid a s x;
         used = consumes_fault (jo_payment_fault s) a old new;
         cand = mark_plan a g (reprices a s x) used (cand\<lparr>tr_order := Some x, jo_payment_revision := jo_payment_revision s\<rparr>)
     in (mark_plan a g (reprices a s x) used s,
         \<lparr>op_id = oid, op_sid = tr_id s, op_action = a, op_phase = first_phase a old new, op_status = PENDING, op_decision = UNDECIDED,
          op_failure = None, op_history = [], op_source = map_option or_store (tr_order s), op_target = or_store x, op_attempts = 0,
          op_fault = (if a = A_transfer then jo_next_fault s else No_Fault), op_fault_consumed = False, op_candidate = cand,
          op_world = world_of s, op_order = or_id x, op_source_order = map_option or_id (tr_order s),
          op_before_generation = order_generation (tr_order s), op_generation = g, op_guests = [], op_guest_index = 0,
          op_recovery = Some (initial_schedule now),
          op_payment = Some \<lparr>pp_phase_version = 0, pp_event_base = length (jo_events s),
            pp_fault = (if used then jo_payment_fault s else No_Payment_Fault), pp_old_auth = old, pp_new_auth = new,
            pp_card = jo_card s, pp_manual_reviews = 0\<rparr>\<rparr>)))"

section \<open>Commands\<close>

text \<open>\<open>recover\<close> gives an operation under review another round, at most three times.\<close>

definition review_again :: "rat \<Rightarrow> operation \<Rightarrow> journey_error + operation" where
  "review_again now op = (case op_payment op of
     None \<Rightarrow> Inr op
   | Some p \<Rightarrow>
       (let r = recovery_of now op
        in if sc_state r \<noteq> REVIEW_REQUIRED then Inr op
           else ensure (pp_manual_reviews p < 3) (Conflict ''REVIEW_LIMIT'')
             (Inr (bump_version (op\<lparr>op_payment := Some (p\<lparr>pp_manual_reviews := pp_manual_reviews p + 1\<rparr>),
               op_recovery := Some (r\<lparr>sc_state := SCHEDULED, sc_retry_count := 0, sc_next_retry_at := Some now\<rparr>)\<rparr>)))))"

definition register_auth :: "authorization option \<Rightarrow> inbox \<Rightarrow> journey_error + inbox" where
  "register_auth a ib = (case a of None \<Rightarrow> Inr ib
     | Some x \<Rightarrow> map_sum (\<lambda>_. Exception ''PaymentError'') id (register_in (au_world x) (au_order x) (au_id x) ib))"

definition store_command :: "string \<Rightarrow> journey_command \<Rightarrow> string \<Rightarrow> coordinator \<Rightarrow> coordinator" where
  "store_command sid c fp co = co\<lparr>co_commands := co_commands co @ [((sid, jc_request c), fp)]\<rparr>"

text \<open>The transaction of a planned command: the references of the notifications and the operation.\<close>

definition open_operation ::
  "string \<Rightarrow> journey_command \<Rightarrow> string \<Rightarrow> journey \<times> operation \<Rightarrow> coordinator \<times> inbox \<Rightarrow> journey_error + coordinator \<times> inbox" where
  "open_operation sid c fp plan st = (case plan of (s, op) \<Rightarrow> case st of (co, ib) \<Rightarrow>
     bind_ok (register_auth (new_auth op) ib) (\<lambda>ib. bind_ok (register_auth (old_auth op) ib) (\<lambda>ib.
       let s = s\<lparr>jo_active := Some (op_id op), jo_pending_order := Some (op_order op), jo_payment_order := Some (op_order op),
             jo_handoff := Some (public_operation op), tr_version := tr_version s + 1\<rparr>
       in Inr (save s (co\<lparr>co_operations := co_operations co @ [(op_id op, \<lparr>row_request = jc_request c, row_fingerprint = fp, row_op = op\<rparr>)]\<rparr>), ib))))"

definition pay_recover ::
  "(journey_command \<Rightarrow> string) \<Rightarrow> rat \<Rightarrow> string \<Rightarrow> journey_command \<Rightarrow> journey \<Rightarrow> coordinator \<Rightarrow> journey_error + command_result \<times> coordinator" where
  "pay_recover CH now sid c s co = (case jo_active s of
     None \<Rightarrow> Inr (Show s False, store_command sid c (CH c) co)
   | Some oid \<Rightarrow> bind_ok (load_op co oid) (\<lambda>op. bind_ok (review_again now op) (\<lambda>op'.
       Inr (Resume_Op oid False, store_command sid c (CH c) (if op' = op then co else save_op op' co)))))"

definition pay_command_tx ::
  "(journey_command \<Rightarrow> string) \<Rightarrow> quote_hash \<Rightarrow> (terms \<Rightarrow> string) \<Rightarrow> auth_hash \<Rightarrow> string \<times> string \<times> string \<times> string \<Rightarrow> rat \<Rightarrow> string
    \<Rightarrow> journey_command \<Rightarrow> coordinator \<times> inbox \<Rightarrow> journey_error + command_result \<times> coordinator \<times> inbox" where
  "pay_command_tx CH QH TH AH ids now sid c st = (case ids of (oid, aid, order_id, code) \<Rightarrow> case st of (co, ib) \<Rightarrow>
     bind_ok (load co sid) (\<lambda>s.
       case find_operation co sid (jc_request c) of
         Some (prev, row) \<Rightarrow> ensure (row_fingerprint row = CH c) (Conflict ''IDEMPOTENCY_CONFLICT'') (Inr (Resume_Op prev True, co, ib))
       | None \<Rightarrow> (case map_of (co_commands co) (sid, jc_request c) of
           Some fp \<Rightarrow> ensure (fp = CH c) (Conflict ''IDEMPOTENCY_CONFLICT'') (Inr (Show s True, co, ib))
         | None \<Rightarrow>
             ensure (tr_version s = jc_version c) (Conflict ''STALE_VERSION'')
              (if jc_action c = A_recover then map_sum id (\<lambda>(res, co'). (res, co', ib)) (pay_recover CH now sid c s co)
               else ensure (jo_active s = None) (Conflict ''TRANSFER_PENDING'')
                (if jc_action c \<notin> set PAY_ACTIONS then Inr (Fall_Through, co, ib)
                 else bind_ok (apply_action QH TH order_id code c s) (\<lambda>cand.
                   if jc_action c \<in> {A_claim, A_cancel} \<and> tr_order cand = tr_order s
                   then Inr (Show s True, store_command sid c (CH c) co, ib)
                   else (case tr_order cand of
                       None \<Rightarrow> Inl (Exception ''TypeError'')
                     | Some after \<Rightarrow> map_sum id (\<lambda>st. (Resume_Op oid False, st))
                         (open_operation sid c (CH c) (pay_plan AH (oid, aid) now (jc_action c) s cand after) (co, ib)))))))))"

definition payment_command ::
  "(json \<Rightarrow> string) \<Rightarrow> bool \<Rightarrow> (journey_command \<Rightarrow> string) \<Rightarrow> quote_hash \<Rightarrow> (terms \<Rightarrow> string) \<Rightarrow> auth_hash \<Rightarrow> string \<times> string \<times> string \<times> string
    \<Rightarrow> rat \<Rightarrow> pay_environment \<Rightarrow> string \<Rightarrow> journey_command \<Rightarrow> services \<Rightarrow> (journey_error + journey option) \<times> services" where
  "payment_command H gw CH QH TH AH ids now env sid c sv =
    (case pay_command_tx CH QH TH AH ids now sid c (sv_co sv, sv_inbox sv) of
       Inl e \<Rightarrow> (Inl e, sv)
     | Inr (res, co, ib) \<Rightarrow>
         (let sv = sv\<lparr>sv_co := co, sv_inbox := ib\<rparr>
          in case res of
               Fall_Through \<Rightarrow> (Inr None, sv)
             | Show s _ \<Rightarrow> (Inr (Some s), sv)
             | Resume_Op oid _ \<Rightarrow> (case pay_resume H gw False env sid (Some oid) sv of (r, sv') \<Rightarrow> (map_sum id Some r, sv'))))"

section \<open>Payment controls\<close>

text \<open>\<open>FAULTS\<close>, by name.\<close>

definition PAY_FAULTS :: "(string \<times> payment_fault) list" where
  "PAY_FAULTS = [(''none'', No_Payment_Fault), (''authorize_reply_lost'', Authorize_Reply_Lost), (''capture_reply_lost'', Capture_Reply_Lost),
     (''void_reply_lost'', Void_Reply_Lost), (''notification_duplicate'', Notification_Duplicate), (''notification_late'', Notification_Late)]"

text \<open>What a control asks for, from its dictionary: a fault or a card.\<close>

definition pay_setting :: "json_obj \<Rightarrow> journey_error + (payment_fault + string)" where
  "pay_setting c =
    (let fault = (pget c ''action'' = JStr ''fault''); field = (if fault then ''fault'' else ''card_token'')
     in ensure (hashable (pget c ''action'')) (Exception ''TypeError'')
         (ensure (pget c ''action'' \<in> {JStr ''fault'', JStr ''card''} \<and> set (map fst c) = {''action'', ''expected_version'', ''request_id'', field})
             (Conflict ''INVALID_PAYMENT_CONTROL'')
           (ensure (hashable (pget c field)) (Exception ''TypeError'')
             (if fault then (case pget c ''fault'' of
                 JStr f \<Rightarrow> (case map_of PAY_FAULTS f of None \<Rightarrow> Inl (Conflict ''INVALID_PAYMENT_FAULT'') | Some x \<Rightarrow> Inr (Inl x))
               | _ \<Rightarrow> Inl (Conflict ''INVALID_PAYMENT_FAULT''))
              else (case pget c ''card_token'' of
                 JStr tok \<Rightarrow> ensure (tok \<in> set test_cards) (Conflict ''INVALID_TEST_CARD'') (Inr (Inr tok))
               | _ \<Rightarrow> Inl (Conflict ''INVALID_TEST_CARD''))))))"

definition change_setting :: "payment_fault + string \<Rightarrow> journey \<Rightarrow> journey_error + journey" where
  "change_setting x s = (case x of
     Inl f \<Rightarrow> Inr (s\<lparr>jo_payment_fault := f\<rparr>)
   | Inr tok \<Rightarrow> ensure (tr_order s = None) (Conflict ''PAYMENT_CARD_LOCKED'') (Inr (s\<lparr>jo_card := tok\<rparr>)))"

definition pay_control :: "(json_obj \<Rightarrow> string) \<Rightarrow> string \<Rightarrow> json_obj \<Rightarrow> coordinator \<Rightarrow> journey_error + (journey \<times> bool) \<times> coordinator" where
  "pay_control CH sid c co = bind_ok (pay_setting c) (\<lambda>x.
     case pget c ''request_id'' of
       JStr r \<Rightarrow> bind_ok (load co sid) (\<lambda>s.
         ensure (jo_protocol s = 2) (Conflict ''LEGACY_JOURNEY'')
          (case map_of (co_controls co) (sid, ''payment:'' @ r) of
             Some fp \<Rightarrow> ensure (fp = CH c) (Conflict ''IDEMPOTENCY_CONFLICT'') (Inr ((s, True), co))
           | None \<Rightarrow> ensure (py_eq (JInt (tr_version s)) (pget c ''expected_version'')) (Conflict ''STALE_VERSION'')
               (ensure (jo_active s = None) (Conflict ''TRANSFER_PENDING'')
                 (bind_ok (change_setting x s) (\<lambda>s.
                   let s = s\<lparr>tr_version := tr_version s + 1\<rparr>
                   in Inr ((s, False), save s (co\<lparr>co_controls := co_controls co @ [((sid, ''payment:'' @ r), CH c)]\<rparr>)))))))
     | _ \<Rightarrow> Inl (Exception ''TypeError''))"

end
