(* ===== verification/Payment_Safety.thy ===== *)
theory Payment_Safety
  imports Payment_Operations
begin

text \<open>
  What completion means in protocol 2: every success shown to a customer is backed by
  transactions of the provider's ledger, and a phase is committed at most once however many
  workers race for it.
\<close>

section \<open>What the provider has attested\<close>

definition attests :: "ledger \<Rightarrow> authorization option \<Rightarrow> pay_action \<Rightarrow> bool" where
  "attests l a kind \<longleftrightarrow> (case a of None \<Rightarrow> True | Some x \<Rightarrow> has_tx l (au_id x) kind)"

lemma attests_None [simp]: "attests l None kind"
  by (simp add: attests_def)

definition receipts_ok :: "ledger \<Rightarrow> bool" where
  "receipts_ok l \<longleftrightarrow> (\<forall>(k, f, r) \<in> set (le_commands l). pr_ok r \<longrightarrow> has_tx l (pc_auth (pr_command r)) (pc_action (pr_command r)))"

definition tx_grows :: "ledger \<Rightarrow> ledger \<Rightarrow> bool" where
  "tx_grows l l' \<longleftrightarrow> (\<exists>ts. le_txs l' = le_txs l @ ts)"

lemma tx_grows_refl [simp]: "tx_grows l l"
  by (simp add: tx_grows_def)

lemma tx_grows_eq: "le_txs l' = le_txs l \<Longrightarrow> tx_grows l l'"
  by (simp add: tx_grows_def)

lemma has_tx_grows: "tx_grows l l' \<Longrightarrow> has_tx l a k \<Longrightarrow> has_tx l' a k"
  by (auto simp: tx_grows_def has_tx_def)

lemma attests_grows: "tx_grows l l' \<Longrightarrow> attests l a k \<Longrightarrow> attests l' a k"
  by (auto simp: attests_def has_tx_grows split: option.splits)

lemma record_tx_grows:
  assumes "record_tx c out env l = Inr (r, l')"
  shows "tx_grows l l' \<and> has_tx l' (pc_auth c) (pc_action c)"
  using record_tx_Inr [OF assms] by (auto simp: tx_grows_def has_tx_def)

lemma existing_receipt_tx: "existing_receipt c out k l = Inr (r, l') \<Longrightarrow> l' = l \<and> has_tx l (pc_auth c) k"
  by (auto simp: existing_receipt_def find_tx_def find_Some_iff has_tx_def split: option.splits)

lemma tx_grows_cong: "le_txs a = le_txs l \<Longrightarrow> tx_grows a l' \<Longrightarrow> tx_grows l l'"
  by (simp add: tx_grows_def)

lemma set_status_txs: "le_txs (set_status a st now l) = le_txs l"
  by (simp add: set_status_def)

lemma settle_grows:
  assumes "apply_settle env a c l = Inr (r, l')" "pc_action c \<noteq> AUTHORIZE"
  shows "tx_grows l l' \<and> has_tx l' (pc_auth c) (pc_action c)"
proof -
  define st where "st = (if pc_action c = CAPTURE then (Captured, O_Captured) else (Voided, O_Voided))"
  show ?thesis
  proof (cases "ar_status a = fst st")
    case True
    then have "existing_receipt c (snd st) (pc_action c) l = Inr (r, l')" using assms by (auto simp: apply_settle_def st_def split: if_splits)
    then show ?thesis using existing_receipt_tx by fastforce
  next
    case False
    then have "record_tx c (snd st) env (set_status (pc_auth c) (fst st) (ce_now env) l) = Inr (r, l')"
      using assms by (auto simp: apply_settle_def st_def ensure_Inr split: if_splits)
    then show ?thesis using record_tx_grows tx_grows_cong [OF set_status_txs] by blast
  qed
qed

lemma authorize_grows:
  assumes "apply_authorize env row c l = Inr (r, l')" "pc_action c = AUTHORIZE"
  shows "tx_grows l l' \<and> (pr_ok r \<longrightarrow> has_tx l' (pc_auth c) (pc_action c))"
proof (cases row)
  case None
  define tok where "tok = (case pc_card c of None \<Rightarrow> [] | Some k \<Rightarrow> k)"
  define l0 where "l0 = l\<lparr>le_auths := le_auths l @ [new_auth_row c tok (ce_now env)]\<rparr>"
  have g: "le_txs l0 = le_txs l" by (simp add: l0_def)
  have "(r, l') \<in> {(declined c ''DECLINED'', l), (declined c ''LIMIT_EXCEEDED'', l)} \<or> record_tx c O_Authorized env l0 = Inr (r, l')"
    using assms(1) None by (auto simp: apply_authorize_def Let_def l0_def tok_def split: if_splits)
  then show ?thesis using record_tx_grows tx_grows_cong [OF g] by auto
next
  case (Some a)
  then have "existing_receipt c O_Authorized AUTHORIZE l = Inr (r, l')"
    using assms(1) by (auto simp: apply_authorize_def Let_def ensure_Inr split: if_splits)
  then show ?thesis using existing_receipt_tx assms(2) by fastforce
qed

lemma ledger_apply_grows:
  assumes "ledger_apply env c l = Inr (r, l')"
  shows "tx_grows l l' \<and> (pr_ok r \<longrightarrow> has_tx l' (pc_auth c) (pc_action c))"
  using assms authorize_grows settle_grows
  by (auto simp: ledger_apply_def ensure_Inr Let_def split: if_splits option.splits)

section \<open>Receipts and replies\<close>

lemma execute_tx_attested:
  assumes v: "valid_command c" and i: "receipts_ok l" and e: "execute_tx H env c l = (out, l')"
  shows "tx_grows l l' \<and> receipts_ok l' \<and> (\<forall>r. out = Inr r \<longrightarrow> (\<exists>k f. (k, f, r) \<in> set (le_commands l')))"
proof (cases "map_of (le_commands l) (pc_key c)")
  case (Some x)
  obtain f r where x: "x = (f, r)" by (cases x)
  have "(pc_key c, f, r) \<in> set (le_commands l)" using map_of_SomeD [OF Some] x by simp
  then show ?thesis using e i Some x by (auto simp: execute_tx_def split: if_splits)
next
  case None
  show ?thesis
  proof (cases "ledger_apply env c l")
    case (Inl err)
    then show ?thesis using e i None by (auto simp: execute_tx_def)
  next
    case (Inr p)
    obtain r l1 where p: "p = (r, l1)" by (cases p)
    have g: "tx_grows l l1" "pr_ok r \<longrightarrow> has_tx l1 (pc_auth c) (pc_action c)" using ledger_apply_grows Inr p by blast+
    have cmds: "le_commands l1 = le_commands l" using Inr p ledger_apply_commands by blast
    have cr: "pr_command r = c\<lparr>pc_card := None\<rparr>" using ledger_apply_result [OF v] Inr p provider_result_command by blast
    have out: "out = Inr r" "l' = l1\<lparr>le_commands := le_commands l @ [(pc_key c, H (dumps_tree (command_json c)), r)]\<rparr>"
      using e None Inr p cmds by (auto simp: execute_tx_def)
    have h: "has_tx l' a k = has_tx l1 a k" for a k by (simp add: out has_tx_def)
    have "receipts_ok l'" unfolding receipts_ok_def
    proof
      fix x assume "x \<in> set (le_commands l')"
      then consider "x \<in> set (le_commands l)" | "x = (pc_key c, H (dumps_tree (command_json c)), r)" by (auto simp: out)
      then show "case x of (k, f, r) \<Rightarrow> pr_ok r \<longrightarrow> has_tx l' (pc_auth (pr_command r)) (pc_action (pr_command r))"
        using i g has_tx_grows [OF g(1)] cr by cases (auto simp: h receipts_ok_def)
    qed
    moreover have "tx_grows l l'" using g(1) by (simp add: tx_grows_def out)
    ultimately show ?thesis by (auto simp: out)
  qed
qed

lemma execute_attested:
  assumes i: "receipts_ok l" and e: "execute H env v l = (out, l')"
  shows "tx_grows l l' \<and> receipts_ok l' \<and> (\<forall>r. out = Inr r \<longrightarrow> (\<exists>k f. (k, f, r) \<in> set (le_commands l')))"
proof (cases "validate v")
  case (Inl x)
  then show ?thesis using e i by (auto simp: execute_def)
next
  case (Inr c)
  have "valid_command c" using validate_valid [OF Inr] .
  then show ?thesis using e i Inr execute_tx_attested [OF _ i] by (auto simp: execute_def split: if_splits)
qed

lemma receipts_ok_faults [simp]: "receipts_ok (l\<lparr>le_faults := x\<rparr>) = receipts_ok l"
  by (simp add: receipts_ok_def has_tx_def)

lemma tx_grows_faults [simp]: "tx_grows l (l'\<lparr>le_faults := x\<rparr>) = tx_grows l l'"
  by (simp add: tx_grows_def)

lemma consume_fault_effect: "consume_fault w k m l = Inr (b, l') \<Longrightarrow> l' = l \<or> l' = l\<lparr>le_faults := le_faults l @ [(w, k, m)]\<rparr>"
  by (auto simp: consume_fault_def bind_ok_Inr key_Inr split: if_splits)

text \<open>Whatever the server answers, a body that is not the code of an error is a stored receipt.\<close>

lemma server_post_attested:
  assumes i: "receipts_ok l" and s: "server_post H env path v l = (reply, l')"
  shows "tx_grows l l' \<and> receipts_ok l' \<and> ((\<exists>e. reply = error_reply e) \<or> reply = Closed \<or>
    (\<exists>k f r. (k, f, r) \<in> set (le_commands l') \<and> reply = Http 200 (JObj (result_fields r))))"
proof (cases v)
  case (JObj d)
  define fault where "fault = dget (JStr ''none'') d ''fault''"
  define c where "c = ddel ''fault'' d"
  define ex where "ex = execute H (env\<lparr>ce_copies := (if fault = JStr ''duplicate_notification'' then 2 else 1),
                   ce_delay := (if fault = JStr ''late_notification'' then 2 else 0)\<rparr>) (JObj c) l"
  obtain out l1 where ex: "ex = (out, l1)" by (cases ex)
  have a: "tx_grows l l1" "receipts_ok l1" "\<forall>r. out = Inr r \<longrightarrow> (\<exists>k f. (k, f, r) \<in> set (le_commands l1))"
    using execute_attested [OF i ex [unfolded ex_def]] by blast+
  have sp: "server_post H env path v l =
      (if \<not> hashable fault then (Closed, l)
       else if fault \<notin> JStr ` set (''none'' # fault_modes) then (error_reply (Payment_Error ''INVALID_FAULT'' 422), l)
       else if path \<noteq> command_path c then (error_reply (Payment_Error ''ACTION_PATH_MISMATCH'' 422), l)
       else (case ex of
               (Inl e, l') \<Rightarrow> (error_reply e, l')
             | (Inr r, l') \<Rightarrow>
                 if pr_ok r \<and> fault = JStr ''drop_reply'' then
                   (case consume_fault (py_str (pget c ''world_id'')) (py_str (pget c ''operation_key'')) ''drop_reply'' l' of
                      Inl e \<Rightarrow> (error_reply e, l')
                    | Inr (True, l'') \<Rightarrow> (Closed, l'')
                    | Inr (False, l'') \<Rightarrow> (Http 200 (JObj (result_fields r)), l''))
                 else (Http 200 (JObj (result_fields r)), l')))"
    unfolding server_post_def JObj fault_def c_def ex_def by (simp only: json.simps Let_def)
  show ?thesis
  proof (cases "out")
    case (Inl e)
    then show ?thesis using s a i unfolding sp ex by (auto split: if_splits)
  next
    case (Inr r)
    obtain k f where k: "(k, f, r) \<in> set (le_commands l1)" using a(3) Inr by blast
    show ?thesis
    proof (cases "consume_fault (py_str (pget c ''world_id'')) (py_str (pget c ''operation_key'')) ''drop_reply'' l1")
      case (Inl e)
      then show ?thesis using s a i k unfolding sp ex \<open>out = Inr r\<close> by (auto split: if_splits)
    next
      case (Inr p)
      obtain b l2 where p: "p = (b, l2)" by (cases p)
      have l2: "l2 = l1 \<or> (\<exists>x. l2 = l1\<lparr>le_faults := x\<rparr>)" using consume_fault_effect Inr p by blast
      have "tx_grows l l2" "receipts_ok l2" "(k, f, r) \<in> set (le_commands l2)" using l2 a k by auto
      then show ?thesis using s a i k Inr p unfolding sp ex \<open>out = Inr r\<close> by (cases b) (auto split: if_splits)
    qed
  qed
qed (use s i in \<open>auto simp: server_post_def\<close>)

lemma bound_same:
  assumes "bound_fields (result_fields r0) c"
  shows "pc_auth (pr_command r0) = pc_auth c \<and> pc_action (pr_command r0) = pc_action c"
proof -
  have f: "(''authorization_id'', JStr (pc_auth c)) \<in> set (command_fields c)" "(''action'', JStr (pay_action_name (pc_action c))) \<in> set (command_fields c)"
    by (simp_all add: command_fields_def)
  have b: "k = ''card_token'' \<or> py_eq (pget (result_fields r0) k) v" if "(k, v) \<in> set (command_fields c)" for k v
    using assms that unfolding bound_fields_def by fastforce
  have g: "pget (result_fields r0) ''authorization_id'' = JStr (pc_auth (pr_command r0))"
    "pget (result_fields r0) ''action'' = JStr (pay_action_name (pc_action (pr_command r0)))"
    by (simp_all add: result_fields_def command_fields_def)
  have "py_eq (pget (result_fields r0) ''authorization_id'') (JStr (pc_auth c))" "py_eq (pget (result_fields r0) ''action'') (JStr (pay_action_name (pc_action c)))"
    using b [OF f(1)] b [OF f(2)] by simp_all
  then have "pc_auth (pr_command r0) = pc_auth c" "pay_action_name (pc_action (pr_command r0)) = pay_action_name (pc_action c)"
    by (simp_all add: g)
  then show ?thesis by (cases "pc_action c"; cases "pc_action (pr_command r0)") simp_all
qed

lemma bound_reply_ok:
  assumes "bound_reply d c = Inr r" "pr_ok r"
  shows "bound_fields d c \<and> pget d ''ok'' = JBool True \<and> r = response c (confirmed_outcome (pc_action c)) (the (pr_tx r)) (the (pr_revision r))"
  using assms by (auto simp: bound_reply_def ensure_Inr split: json.splits if_splits)

lemma bound_attests:
  assumes i: "receipts_ok l" and m: "(k, f, r0) \<in> set (le_commands l)" and b: "bound_reply (result_fields r0) c = Inr r" "pr_ok r"
  shows "has_tx l (pc_auth c) (pc_action c) \<and> pr_command r = c\<lparr>pc_card := None\<rparr>"
proof -
  note o = bound_reply_ok [OF b]
  have "pr_ok r0" using o by (simp add: pget_result)
  then have "has_tx l (pc_auth (pr_command r0)) (pc_action (pr_command r0))" using i m by (auto simp: receipts_ok_def)
  then show ?thesis using bound_same o by (metis response_simps(1))
qed

lemma client_operation_attested:
  assumes i: "receipts_ok l" and c: "client_operation n (command_json c) l = Inr (Some r)" "pr_ok r" and v: "validate (command_json c) = Inr c"
  shows "has_tx l (pc_auth c) (pc_action c)"
proof -
  obtain d where d: "client_reply True (fst (transfer_reply n (\<lambda>l. (server_operation (pc_key c) l, l)) l)) = Inr (Some d)" "bound_reply d c = Inr r"
    using c(1) v by (auto simp: client_operation_def raised_def bind_ok_Inr map_sum_Inr split: option.splits)
  have "fst (transfer_reply n (\<lambda>l. (server_operation (pc_key c) l, l)) l) = server_operation (pc_key c) l"
    using d(1) by (cases n) (auto simp: transfer_reply_def client_reply_def)
  then have s: "client_reply True (server_operation (pc_key c) l) = Inr (Some d)" using d(1) by simp
  obtain k f r0 where "(k, f, r0) \<in> set (le_commands l)" "d = result_fields r0"
  proof (cases "operation_of (pc_key c) l")
    case (Inl e)
    then have "client_reply True (error_reply e) = Inr (Some d)" using s by (simp add: server_operation_def)
    then have "\<exists>code. d = [(''code'', JStr code)]"
      by (cases e) (auto simp: error_reply_def client_reply_def code_body_def split: if_splits)
    then show ?thesis using d(2) code_not_bound [of _ c] by auto
  next
    case (Inr x)
    show ?thesis
    proof (cases x)
      case None
      then show ?thesis using s Inr by (simp add: server_operation_def client_reply_def)
    next
      case (Some r0)
      have "map_option snd (map_of (le_commands l) (pc_key c)) = Some r0" using Inr Some
        by (auto simp: operation_of_def bind_ok_Inr key_Inr split: if_splits)
      then obtain f where "map_of (le_commands l) (pc_key c) = Some (f, r0)" by auto
      then show ?thesis using that [OF map_of_SomeD] s Inr Some by (simp add: server_operation_def client_reply_def)
    qed
  qed
  then show ?thesis using bound_attests i d(2) c(2) by blast
qed

lemma client_execute_attested:
  assumes i: "receipts_ok l" and c: "client_execute H n env fault (command_json c) l = (out, l')" and v: "validate (command_json c) = Inr c"
  shows "tx_grows l l' \<and> receipts_ok l' \<and> (\<forall>r. out = Inr r \<longrightarrow> pr_ok r \<longrightarrow> has_tx l' (pc_auth c) (pc_action c))"
proof (cases "fault \<in> set (''none'' # fault_modes)")
  case False
  then show ?thesis using i c v by (auto simp: client_execute_def)
next
  case True
  then have n: "(fault \<notin> set (''none'' # fault_modes)) = False" by simp
  let ?server = "server_post H env (command_path (command_fields c)) (JObj (command_fields c @ [(''fault'', JStr fault)]))"
  obtain reply l1 where s: "?server l = (reply, l1)" by (cases "?server l")
  have p: "tx_grows l l1 \<and> receipts_ok l1 \<and> ((\<exists>e. reply = error_reply e) \<or> reply = Closed \<or>
    (\<exists>k f r. (k, f, r) \<in> set (le_commands l1) \<and> reply = Http 200 (JObj (result_fields r))))"
    by (rule server_post_attested [OF i s])
  have closed: "bind_ok (client_reply False Closed) g = Inl Unavailable" for g :: "json_obj option \<Rightarrow> call_error + pay_result"
    by (simp add: client_reply_def)
  have e: "(case transfer_reply n ?server l of (reply, l') \<Rightarrow>
      (bind_ok (client_reply False reply) (\<lambda>d. case d of None \<Rightarrow> Inl Unavailable | Some d \<Rightarrow> bound_reply d c), l')) = (out, l')"
    using c unfolding client_execute_def v n by simp
  show ?thesis
  proof (cases n)
    case Unreached
    then show ?thesis using e i by (auto simp: transfer_reply_def closed)
  next
    case Reply_Lost
    then show ?thesis using e p s by (auto simp: transfer_reply_def closed)
  next
    case Reply
    have l1: "l' = l1" and out: "out = bind_ok (client_reply False reply) (\<lambda>d. case d of None \<Rightarrow> Inl Unavailable | Some d \<Rightarrow> bound_reply d c)"
      using e by (simp_all add: Reply transfer_reply_def s)
    have "has_tx l1 (pc_auth c) (pc_action c)" if "out = Inr r" "pr_ok r" for r
      using p
    proof (elim conjE disjE exE)
      fix x assume "reply = error_reply x"
      then show ?thesis using that out error_not_accepted [of x c] by auto
    next
      assume "reply = Closed"
      then show ?thesis using that out closed by simp
    next
      fix k f r0 assume "receipts_ok l1" "(k, f, r0) \<in> set (le_commands l1)" "reply = Http 200 (JObj (result_fields r0))"
      then show ?thesis using that out bound_attests by (auto simp: client_reply_def)
    qed
    then show ?thesis using p l1 by blast
  qed
qed

lemma says_same:
  assumes "says (command_fields c) c'"
  shows "c' = c"
proof -
  have g: "pget (command_fields c) k = pget (command_fields c') k" if "k \<in> set (map fst (command_fields c))" for k
    using assms that unfolding says_def by blast
  have keys: "set (map fst (command_fields c)) = set (map fst (command_fields c'))" using assms by (simp add: says_def)
  have k: "''card_token'' \<in> set (map fst (command_fields x)) \<longleftrightarrow> pc_card x \<noteq> None" for x
    by (cases "pc_card x"; simp add: command_fields_def)
  have t: "pc_card x = Some tok \<Longrightarrow> pget (command_fields x) ''card_token'' = JStr tok" for x tok
    by (simp add: command_fields_def)
  have n: "pc_card c = None \<longleftrightarrow> pc_card c' = None" using keys k by blast
  have "pc_card c = pc_card c'"
  proof (cases "pc_card c")
    case (Some tok)
    then obtain tok' where "pc_card c' = Some tok'" using n by auto
    then show ?thesis using Some g [of "''card_token''"] k t by auto
  qed (use n in simp)
  moreover have "pay_action_name (pc_action c) = pay_action_name (pc_action c')" using g [of "''action''"] by (simp add: command_fields_def)
  then have "pc_action c = pc_action c'" by (cases "pc_action c"; cases "pc_action c'") simp_all
  moreover have "pc_world c = pc_world c'" "pc_order c = pc_order c'" "pc_key c = pc_key c'" "pc_auth c = pc_auth c'"
    "pc_amount c = pc_amount c'" "pc_revision c = pc_revision c'" "pc_quote c = pc_quote c'"
    using g [of "''world_id''"] g [of "''order_id''"] g [of "''operation_key''"] g [of "''authorization_id''"] g [of "''amount_krw''"]
      g [of "''payment_revision''"] g [of "''quote_fingerprint''"] by (simp_all add: command_fields_def)
  ultimately show ?thesis by simp
qed

text \<open>One call of the provider: what it confirms is in its ledger.\<close>

lemma pay_call_attested:
  assumes i: "receipts_ok l" and c: "pay_call H te op c l = (out, l')"
  shows "tx_grows l l' \<and> receipts_ok l' \<and> (\<forall>r. out = Inr r \<longrightarrow> reply_ok r \<longrightarrow> has_tx l' (pc_auth c) (pc_action c))"
proof (cases "validate (command_json c)")
  case (Inl e)
  then show ?thesis using i c by (auto simp: pay_call_def client_operation_def raised_def)
next
  case (Inr c')
  then obtain d where "command_json c = JObj d" "says d c'" using validate_Inr by blast
  then have "says (command_fields c) c'" by (simp add: command_json_def)
  then have v: "validate (command_json c) = Inr c" using Inr says_same by simp
  show ?thesis
  proof (cases "client_operation (te_lookup te) (command_json c) l")
    case (Inl e)
    then show ?thesis using i c by (auto simp: pay_call_def)
  next
    case (Inr x)
    show ?thesis
    proof (cases x)
      case (Some r)
      then show ?thesis using i c Inr client_operation_attested [OF i _ _ v] by (auto simp: pay_call_def)
    next
      case None
      obtain o' l1 where e: "client_execute H (te_send te) (te_call te) (transport_fault op c) (command_json c) l = (o', l1)"
        by (cases "client_execute H (te_send te) (te_call te) (transport_fault op c) (command_json c) l")
      then have "out = map_sum id Pay_Reply o'" "l' = l1" using c Inr None by (simp_all add: pay_call_def)
      then show ?thesis using client_execute_attested [OF i e v] by (cases o') auto
    qed
  qed
qed

section \<open>What each phase owes\<close>

text \<open>The phases an action goes through, and the transactions a phase presupposes.\<close>

definition phases_of :: "action \<Rightarrow> op_phase list" where
  "phases_of a = (case a of
     A_reserve \<Rightarrow> [PAY_AUTHORIZE, At_Merchant ADMIT, VOID_NEW_AUTH, FINALIZE]
   | A_reorder \<Rightarrow> [PAY_AUTHORIZE, At_Merchant ADMIT, VOID_NEW_AUTH, FINALIZE]
   | A_claim \<Rightarrow> [PAY_CAPTURE, At_Merchant CLAIM, FINALIZE]
   | A_cancel \<Rightarrow> [At_Merchant CANCEL, PAY_VOID, FINALIZE]
   | A_start \<Rightarrow> [PAY_CHECK, At_Merchant START, FINALIZE]
   | A_ready \<Rightarrow> [PAY_CHECK, At_Merchant merchant_action.READY, FINALIZE]
   | A_transfer \<Rightarrow> [At_Merchant FREEZE, At_Merchant HOLD, PAY_AUTHORIZE_REPLACEMENT, DECIDE, At_Merchant RELEASE_SOURCE,
       At_Merchant ACTIVATE, VOID_OLD_AUTH, FINALIZE, VOID_NEW_AUTH, At_Merchant ABORT_TARGET, At_Merchant UNFREEZE]
   | _ \<Rightarrow> [])"

definition owed :: "operation \<Rightarrow> (authorization option \<times> pay_action) list" where
  "owed op = (case op_action op of
     A_reserve \<Rightarrow> if op_phase op \<in> {At_Merchant ADMIT, FINALIZE} then [(new_auth op, AUTHORIZE)] else []
   | A_reorder \<Rightarrow> if op_phase op \<in> {At_Merchant ADMIT, FINALIZE} then [(new_auth op, AUTHORIZE)] else []
   | A_claim \<Rightarrow> if op_phase op \<in> {At_Merchant CLAIM, FINALIZE} then [(old_auth op, CAPTURE)] else []
   | A_cancel \<Rightarrow> if op_phase op = FINALIZE then [(old_auth op, VOID)] else []
   | A_transfer \<Rightarrow>
       (if replaces_auth op \<and> op_phase op \<in> {DECIDE, At_Merchant RELEASE_SOURCE, At_Merchant ACTIVATE, VOID_OLD_AUTH, FINALIZE}
        then [(new_auth op, AUTHORIZE)] else [])
       @ (if new_auth op \<noteq> old_auth op \<and> op_phase op = FINALIZE then [(old_auth op, VOID)] else [])
   | _ \<Rightarrow> [])"

definition covered :: "ledger \<Rightarrow> operation \<Rightarrow> bool" where
  "covered l op \<longleftrightarrow> op_phase op \<in> set (phases_of (op_action op)) \<and> list_all (\<lambda>(x, k). attests l x k) (owed op)"

text \<open>The parts of an operation that never change.\<close>

definition plan_part :: "operation \<Rightarrow> string \<times> string \<times> action \<times> authorization option \<times> authorization option" where
  "plan_part op = (op_id op, op_sid op, op_action op, old_auth op, new_auth op)"

lemma auth_updates [simp]:
  "new_auth (op\<lparr>op_phase := ph\<rparr>) = new_auth op" "old_auth (op\<lparr>op_phase := ph\<rparr>) = old_auth op"
  "new_auth (op\<lparr>op_decision := d\<rparr>) = new_auth op" "old_auth (op\<lparr>op_decision := d\<rparr>) = old_auth op"
  "new_auth (op\<lparr>op_status := st\<rparr>) = new_auth op" "old_auth (op\<lparr>op_status := st\<rparr>) = old_auth op"
  "new_auth (op\<lparr>op_failure := f\<rparr>) = new_auth op" "old_auth (op\<lparr>op_failure := f\<rparr>) = old_auth op"
  "new_auth (op\<lparr>op_history := h\<rparr>) = new_auth op" "old_auth (op\<lparr>op_history := h\<rparr>) = old_auth op"
  "new_auth (op\<lparr>op_recovery := r\<rparr>) = new_auth op" "old_auth (op\<lparr>op_recovery := r\<rparr>) = old_auth op"
  "new_auth (op\<lparr>op_attempts := n\<rparr>) = new_auth op" "old_auth (op\<lparr>op_attempts := n\<rparr>) = old_auth op"
  by (simp_all add: new_auth_def old_auth_def)

lemma auth_bump [simp]: "new_auth (bump_version op) = new_auth op" "old_auth (bump_version op) = old_auth op"
  by (cases "op_payment op"; simp add: new_auth_def old_auth_def bump_version_def)+

lemma covered_next:
  "covered l (op\<lparr>op_phase := ph\<rparr>) \<longleftrightarrow> ph \<in> set (phases_of (op_action op)) \<and> list_all (\<lambda>(x, k). attests l x k) (owed (op\<lparr>op_phase := ph\<rparr>))"
  by (simp add: covered_def)

lemma covered_same:
  assumes "op_phase op' = op_phase op" "op_action op' = op_action op" "new_auth op' = new_auth op" "old_auth op' = old_auth op"
  shows "covered l op' = covered l op"
  unfolding covered_def owed_def replaces_auth_def by (simp only: assms)

lemma on_refusal_covered:
  assumes "covered l op"
  shows "covered l (on_refusal code op) \<and> plan_part (on_refusal code op) = plan_part op"
proof -
  have p: "plan_part (on_refusal code op) = plan_part op"
    by (simp add: on_refusal_def Let_def plan_part_def next_phase_def aborted_def rejected_def to_review_def)
  have "op_phase (on_refusal code op) = op_phase op \<or> op_action op = A_transfer \<and> op_phase (on_refusal code op) = At_Merchant ABORT_TARGET
     \<or> op_phase op = At_Merchant ADMIT \<and> op_phase (on_refusal code op) = VOID_NEW_AUTH \<or> op_phase op = At_Merchant HOLD \<and> op_phase (on_refusal code op) = At_Merchant ABORT_TARGET"
    by (auto simp: on_refusal_def Let_def next_phase_def aborted_def rejected_def to_review_def)
  moreover have "covered l op'" if "op_phase op' = op_phase op \<or> op_action op = A_transfer \<and> op_phase op' = At_Merchant ABORT_TARGET
     \<or> op_phase op = At_Merchant ADMIT \<and> op_phase op' = VOID_NEW_AUTH \<or> op_phase op = At_Merchant HOLD \<and> op_phase op' = At_Merchant ABORT_TARGET"
     "plan_part op' = plan_part op" for op'
  proof -
    have f: "op_action op' = op_action op" "new_auth op' = new_auth op" "old_auth op' = old_auth op" using that(2) by (simp_all add: plan_part_def)
    have ph: "op_phase op \<in> set (phases_of (op_action op))" using assms by (simp add: covered_def)
    show ?thesis using that(1)
    proof (elim disjE conjE)
      assume "op_phase op' = op_phase op"
      then show ?thesis using covered_same [OF _ f] assms by simp
    next
      assume "op_action op = A_transfer" "op_phase op' = At_Merchant ABORT_TARGET"
      then show ?thesis by (simp add: covered_def owed_def phases_of_def f)
    next
      assume q: "op_phase op = At_Merchant ADMIT" "op_phase op' = VOID_NEW_AUTH"
      then have "op_action op = A_reserve \<or> op_action op = A_reorder" using ph by (cases "op_action op") (simp_all add: phases_of_def)
      then show ?thesis using q by (elim disjE) (simp_all add: covered_def owed_def phases_of_def f)
    next
      assume q: "op_phase op = At_Merchant HOLD" "op_phase op' = At_Merchant ABORT_TARGET"
      then have "op_action op = A_transfer" using ph by (cases "op_action op") (simp_all add: phases_of_def)
      then show ?thesis using q by (simp add: covered_def owed_def phases_of_def f)
    qed
  qed
  ultimately show ?thesis using p by blast
qed

lemma on_success_plan: "plan_part (on_success op) = plan_part op"
  by (cases "op_phase op") (simp_all add: on_success_def plan_part_def next_phase_def rejected_def)

lemma on_success_covered:
  assumes c: "covered l op" and a: "op_phase op \<in> set PAY_PHASES \<longrightarrow> attests l (phase_auth op (op_phase op)) (phase_action (op_phase op))"
    and d: "op_phase op \<noteq> DECIDE" "op_phase op \<noteq> FINALIZE"
  shows "covered l (on_success op)"
proof -
  have ph: "op_phase op \<in> set (phases_of (op_action op))" using c by (simp add: covered_def)
  note defs = covered_def owed_def phases_of_def replaces_auth_def on_success_def next_phase_def rejected_def PAY_PHASES_def
    phase_auth_def phase_action_def approving_def
  show ?thesis
  proof (cases "op_action op")
    case A_reserve
    then have "op_phase op = PAY_AUTHORIZE \<or> op_phase op = At_Merchant ADMIT \<or> op_phase op = VOID_NEW_AUTH \<or> op_phase op = FINALIZE"
      using ph by (simp add: phases_of_def)
    then show ?thesis using A_reserve c a by (elim disjE) (simp_all add: defs)
  next
    case A_reorder
    then have "op_phase op = PAY_AUTHORIZE \<or> op_phase op = At_Merchant ADMIT \<or> op_phase op = VOID_NEW_AUTH \<or> op_phase op = FINALIZE"
      using ph by (simp add: phases_of_def)
    then show ?thesis using A_reorder c a by (elim disjE) (simp_all add: defs)
  next
    case A_transfer
    then have "op_phase op = At_Merchant FREEZE \<or> op_phase op = At_Merchant HOLD \<or> op_phase op = PAY_AUTHORIZE_REPLACEMENT \<or> op_phase op = DECIDE \<or> op_phase op = At_Merchant RELEASE_SOURCE \<or> op_phase op = At_Merchant ACTIVATE \<or> op_phase op = VOID_OLD_AUTH \<or> op_phase op = FINALIZE \<or> op_phase op = VOID_NEW_AUTH \<or> op_phase op = At_Merchant ABORT_TARGET \<or> op_phase op = At_Merchant UNFREEZE"
      using ph by (simp add: phases_of_def)
    then show ?thesis using A_transfer c a d by (elim disjE) (auto simp: defs split: if_splits)
  next
    case A_start
    then have "op_phase op = PAY_CHECK \<or> op_phase op = At_Merchant START \<or> op_phase op = FINALIZE"
      using ph by (simp add: phases_of_def)
    then show ?thesis using A_start c a by (elim disjE) (simp_all add: defs)
  next
    case A_ready
    then have "op_phase op = PAY_CHECK \<or> op_phase op = At_Merchant merchant_action.READY \<or> op_phase op = FINALIZE"
      using ph by (simp add: phases_of_def)
    then show ?thesis using A_ready c a by (elim disjE) (simp_all add: defs)
  next
    case A_claim
    then have "op_phase op = PAY_CAPTURE \<or> op_phase op = At_Merchant CLAIM \<or> op_phase op = FINALIZE"
      using ph by (simp add: phases_of_def)
    then show ?thesis using A_claim c a by (elim disjE) (simp_all add: defs)
  next
    case A_cancel
    then have "op_phase op = At_Merchant CANCEL \<or> op_phase op = PAY_VOID \<or> op_phase op = FINALIZE"
      using ph by (simp add: phases_of_def)
    then show ?thesis using A_cancel c a by (elim disjE) (simp_all add: defs)
  qed (use ph in \<open>simp_all add: phases_of_def\<close>)
qed

lemma plan_part_simps [simp]:
  "plan_part (op\<lparr>op_phase := ph\<rparr>) = plan_part op" "plan_part (op\<lparr>op_decision := d\<rparr>) = plan_part op"
  "plan_part (op\<lparr>op_status := st\<rparr>) = plan_part op" "plan_part (op\<lparr>op_failure := f\<rparr>) = plan_part op"
  "plan_part (op\<lparr>op_history := h\<rparr>) = plan_part op" "plan_part (op\<lparr>op_recovery := r\<rparr>) = plan_part op"
  "plan_part (op\<lparr>op_attempts := n\<rparr>) = plan_part op" "plan_part (bump_version op) = plan_part op"
  by (simp_all add: plan_part_def) (simp add: bump_version_def)

lemma bump_fields [simp]: "op_phase (bump_version op) = op_phase op" "op_action (bump_version op) = op_action op"
  "op_status (bump_version op) = op_status op" "op_id (bump_version op) = op_id op" "op_failure (bump_version op) = op_failure op"
  "op_sid (bump_version op) = op_sid op" "op_recovery (bump_version op) = op_recovery op"
  by (simp_all add: bump_version_def)

lemma transition_covered:
  assumes c: "covered l op" and a: "reply_ok r \<and> op_phase op \<in> set PAY_PHASES \<longrightarrow> attests l (phase_auth op (op_phase op)) (phase_action (op_phase op))"
  shows "covered l (transition op r) \<and> plan_part (transition op r) = plan_part op"
proof -
  consider (d) "op_phase op = DECIDE" | (f) "op_phase op = FINALIZE" | (o) "op_phase op \<noteq> DECIDE" "op_phase op \<noteq> FINALIZE" by blast
  then show ?thesis
  proof cases
    case d
    then have "op_action op = A_transfer" using c by (cases "op_action op") (simp_all add: covered_def phases_of_def)
    then show ?thesis using d c by (auto simp: transition_def covered_def owed_def phases_of_def next_phase_def replaces_auth_def split: if_splits)
  next
    case f
    then have t: "transition op r = op\<lparr>op_status := COMPLETED\<rparr>" by (simp add: transition_def)
    show ?thesis unfolding t using c covered_same [of "op\<lparr>op_status := COMPLETED\<rparr>" op l] by simp
  next
    case o
    then show ?thesis using on_refusal_covered [OF c] on_success_covered [OF c] on_success_plan a
      by (simp add: transition_def)
  qed
qed

lemma expire_covered:
  assumes c: "covered l op"
  shows "covered l (snd (expire op now)) \<and> plan_part (snd (expire op now)) = plan_part op \<and> op_status (snd (expire op now)) = op_status op"
proof (cases "op_action op \<noteq> A_transfer \<or> op_decision op \<noteq> UNDECIDED \<or> (case op_recovery op of None \<Rightarrow> True | Some r \<Rightarrow> now < sc_deadline_at r)")
  case True
  then have "snd (expire op now) = op" by (simp add: expire_def)
  then show ?thesis using c by simp
next
  case False
  define op1 where "op1 = op\<lparr>op_decision := ABORT, op_failure := Some ''CONFIRMATION_EXPIRED'',
              op_history := op_history op @ [(op_phase op, ABORT_RECORDED)]\<rparr>"
  have f: "op_phase op1 = op_phase op" "op_action op1 = op_action op" "new_auth op1 = new_auth op" "old_auth op1 = old_auth op"
    "plan_part op1 = plan_part op" "op_status op1 = op_status op"
    by (simp_all add: op1_def)
  have e: "snd (expire op now) = (if op_phase op1 = DECIDE then next_phase (if replaces_auth op1 then VOID_NEW_AUTH else At_Merchant ABORT_TARGET) op1
                  else if op_phase op1 = At_Merchant HOLD then next_phase (At_Merchant ABORT_TARGET) op1 else op1)"
    unfolding expire_def if_not_P [OF False] Let_def op1_def by simp
  have t: "op_action op1 = A_transfer" using False f by simp
  have n: "covered l (next_phase ph op1)" if "ph = VOID_NEW_AUTH \<or> ph = At_Merchant ABORT_TARGET" for ph
    using that t by (auto simp: covered_def next_phase_def owed_def phases_of_def)
  have s: "covered l op1" using covered_same [OF f(1-4)] c by simp
  show ?thesis unfolding e using n s f by (simp add: next_phase_def)
qed

lemma after_step_covered: "covered l (after_step t b op) = covered l op" "plan_part (after_step t b op) = plan_part op"
  "op_status (after_step t b op) = op_status op"
proof -
  obtain r where r: "after_step t b op = op\<lparr>op_recovery := r\<rparr>" unfolding after_step_def Let_def by blast
  show "covered l (after_step t b op) = covered l op" "plan_part (after_step t b op) = plan_part op" "op_status (after_step t b op) = op_status op"
    unfolding r using covered_same [of "op\<lparr>op_recovery := r\<rparr>" op l] by simp_all
qed

lemma bump_covered [simp]: "covered l (bump_version op) = covered l op"
  by (rule covered_same) simp_all

lemma covered_grows: "covered l op \<Longrightarrow> tx_grows l l' \<Longrightarrow> covered l' op"
  by (auto simp: covered_def list_all_iff attests_grows)

text \<open>What \<open>learnt\<close> stores is covered when the reply is attested.\<close>

lemma learnt_covered:
  assumes c: "covered l op" and e: "learnt tick reply s op = Inr (s', op')"
    and a: "\<And>r. reply = Some r \<Longrightarrow> reply_ok r \<Longrightarrow> op_phase op \<in> set PAY_PHASES \<Longrightarrow> attests l (phase_auth op (op_phase op)) (phase_action (op_phase op))"
  shows "covered l op' \<and> plan_part op' = plan_part op"
proof (cases reply)
  case None
  define op1 where "op1 = add_history (op_phase op) RESPONSE_NOT_CONFIRMED (op\<lparr>op_attempts := op_attempts op + 1\<rparr>)"
  have "covered l op1 = covered l op" "plan_part op1 = plan_part op"
    using covered_same [of op1 op l] by (simp_all add: op1_def add_history_def)
  moreover have "op' = after_step tick True op1" using e None by (auto simp: learnt_def Let_def op1_def)
  ultimately show ?thesis using c by (simp add: after_step_covered)
next
  case (Some r)
  define op1 where "op1 = add_history (op_phase op) (if reply_ok r then CONFIRMED
              else Refused_With (case reply_code r of None \<Rightarrow> ''REJECTED'' | Some code \<Rightarrow> code)) (op\<lparr>op_attempts := op_attempts op + 1\<rparr>)"
  have f: "op_phase op1 = op_phase op" "op_action op1 = op_action op" "new_auth op1 = new_auth op" "old_auth op1 = old_auth op" "plan_part op1 = plan_part op"
    by (simp_all add: op1_def add_history_def)
  have p: "phase_auth op1 = phase_auth op" by (simp add: phase_auth_def fun_eq_iff f)
  have c1: "covered l op1" using covered_same [OF f(1-4)] c by simp
  have t: "covered l (transition op1 r) \<and> plan_part (transition op1 r) = plan_part op"
    using transition_covered [OF c1, of r] a [OF Some] by (simp add: f p)
  have "op' = after_step tick False (transition op1 r)" using e Some by (auto simp: learnt_def Let_def op1_def bind_ok_Inr)
  then show ?thesis using t by (simp add: after_step_covered)
qed


section \<open>Runs\<close>

definition done_at_end :: "operation \<Rightarrow> bool" where
  "done_at_end op \<longleftrightarrow> (op_status op = COMPLETED \<longrightarrow> op_phase op = FINALIZE)"

lemma on_success_open: "op_status op = PENDING \<Longrightarrow> op_status (on_success op) \<noteq> COMPLETED"
  by (cases "op_phase op") (simp_all add: on_success_def next_phase_def rejected_def)

lemma on_refusal_open: "op_status op = PENDING \<Longrightarrow> op_status (on_refusal code op) \<noteq> COMPLETED"
  by (simp add: on_refusal_def Let_def next_phase_def aborted_def rejected_def to_review_def)

lemma transition_done: "op_status op = PENDING \<Longrightarrow> done_at_end (transition op r)"
  using on_success_open [of op] on_refusal_open [of op] by (simp add: done_at_end_def transition_def next_phase_def)

lemma done_after_step: "done_at_end (after_step t b op) = done_at_end op"
proof -
  obtain r where r: "after_step t b op = op\<lparr>op_recovery := r\<rparr>" unfolding after_step_def Let_def by blast
  show ?thesis unfolding r by (simp add: done_at_end_def)
qed

lemma learnt_done:
  assumes "learnt tick reply s op = Inr (s', op')" "op_status op = PENDING"
  shows "done_at_end op'"
proof (cases reply)
  case None
  then have "op' = after_step tick True (add_history (op_phase op) RESPONSE_NOT_CONFIRMED (op\<lparr>op_attempts := op_attempts op + 1\<rparr>))"
    using assms(1) by (auto simp: learnt_def Let_def)
  then show ?thesis using assms(2) by (simp add: done_after_step) (simp add: done_at_end_def add_history_def)
next
  case (Some r)
  then obtain op1 where "op' = after_step tick False (transition op1 r)" "op_status op1 = op_status op"
    using assms(1) by (auto simp: learnt_def Let_def bind_ok_Inr add_history_def)
  then show ?thesis using assms(2) transition_done by (simp add: done_after_step)
qed

definition safe_operation :: "string \<Rightarrow> string \<times> string \<times> action \<times> authorization option \<times> authorization option \<Rightarrow> services \<Rightarrow> bool" where
  "safe_operation oid p sv \<longleftrightarrow> receipts_ok (sv_ledger sv)
     \<and> (\<exists>op. load_op (sv_co sv) oid = Inr op \<and> covered (sv_ledger sv) op \<and> plan_part op = p \<and> op_id op = oid \<and> done_at_end op)"

lemma pay_prepare_safe:
  assumes p: "pay_prepare b now sid oid co = Inr (Some op, co')" and l: "load_op co oid = Inr op0" "covered l op0" "op_id op0 = oid"
  shows "load_op co' oid = Inr op \<and> covered l op \<and> plan_part op = plan_part op0 \<and> op_id op = oid \<and> op_status op = PENDING"
proof -
  have pending: "op_status op0 = PENDING" using p l(1) by (auto simp: pay_prepare_def bind_ok_Inr ensure_Inr split: if_splits)
  obtain e op1 where e: "expire op0 now = (e, op1)" by (cases "expire op0 now")
  have c: "covered l op1" "plan_part op1 = plan_part op0" using expire_covered [OF l(2), of now] e by simp_all
  have i: "op_id op1 = oid" using c(2) l(3) by (simp add: plan_part_def)
  have id: "op_id op0 = oid" "plan_part op0 = plan_part op0" using l(3) by simp_all
  show ?thesis
  proof (cases e)
    case True
    then have "op = bump_version op1" "load_op co' oid = load_op (save_op (bump_version op1) co) oid"
      using p l(1) e by (auto simp: pay_prepare_def bind_ok_Inr ensure_Inr Let_def split: if_splits)
    then show ?thesis using c i load_op_saved [OF l(1), of "bump_version op1"] pending expire_covered [OF l(2), of now] e by simp
  next
    case False
    then have "op = op1" "co' = co" "op1 = op0"
      using p l(1) e by (auto simp: pay_prepare_def bind_ok_Inr ensure_Inr Let_def expire_def split: if_splits)
    then show ?thesis using l pending by simp
  qed
qed

lemma pay_external_attested:
  assumes i: "receipts_ok l" and x: "pay_external H gw te op (fl, l) = (out, fl', l')"
  shows "tx_grows l l' \<and> receipts_ok l' \<and> (\<forall>r. out = Inr (Some r) \<longrightarrow> reply_ok r \<longrightarrow> op_phase op \<in> set PAY_PHASES
    \<longrightarrow> attests l' (phase_auth op (op_phase op)) (phase_action (op_phase op)))"
proof (cases "op_phase op \<in> set PAY_PHASES \<and> gw")
  case True
  then have n: "op_phase op \<notin> {DECIDE, FINALIZE}" by (auto simp: PAY_PHASES_def)
  show ?thesis
  proof (cases "auth_command op (op_phase op)")
    case None
    then show ?thesis using x i True n by (auto simp: pay_external_def)
  next
    case (Some c)
    obtain r l1 where r: "pay_call H te op c l = (r, l1)" by (cases "pay_call H te op c l")
    have o: "out = confirmed r" "l' = l1" using x True n Some r by (auto simp: pay_external_def)
    obtain a where a: "phase_auth op (op_phase op) = Some a" "pc_auth c = au_id a" "pc_action c = phase_action (op_phase op)"
      using Some by (auto simp: auth_command_def split: option.splits)
    have t: "tx_grows l l1 \<and> receipts_ok l1 \<and> (\<forall>x. r = Inr x \<longrightarrow> reply_ok x \<longrightarrow> has_tx l1 (pc_auth c) (pc_action c))"
      by (rule pay_call_attested [OF i r])
    have k: "r = Inr y \<or> (\<exists>code. y = Pay_Refused code)" if "out = Inr (Some y)" for y
      using that o(1) by (auto simp: confirmed_def split: sum.splits call_error.splits pay_error.splits)
    have "attests l' (phase_auth op (op_phase op)) (phase_action (op_phase op))" if "out = Inr (Some y)" "reply_ok y" for y
      using k [OF that(1)] t that(2) a o by (auto simp: attests_def)
    then show ?thesis using t o by blast
  qed
next
  case False
  have "l' = l" using x False by (auto simp: pay_external_def split: if_splits option.splits sum.splits prod.splits)
  moreover have "\<not> (\<exists>r. out = Inr (Some r))" if "op_phase op \<in> set PAY_PHASES"
    using x False that by (auto simp: pay_external_def PAY_PHASES_def split: if_splits)
  ultimately show ?thesis using i by auto
qed

lemma pay_commit_safe:
  assumes c: "pay_commit tick sid oid op reply co = Inr (stop, co')" and l: "load_op co oid = Inr op" "covered l op" "op_id op = oid"
    and a: "\<And>r. reply = Some r \<Longrightarrow> reply_ok r \<Longrightarrow> op_phase op \<in> set PAY_PHASES \<Longrightarrow> attests l (phase_auth op (op_phase op)) (phase_action (op_phase op))"
    and pending: "op_status op = PENDING"
  shows "\<exists>op'. load_op co' oid = Inr op' \<and> covered l op' \<and> plan_part op' = plan_part op \<and> op_id op' = oid \<and> done_at_end op'"
proof -
  obtain s where s: "load co sid = Inr s" using c l(1) by (auto simp: pay_commit_def bind_ok_Inr)
  show ?thesis
  proof (cases "stale oid op op s")
    case True
    then have "co' = co" using c l(1) s by (simp add: pay_commit_def)
    moreover have "done_at_end op" using pending by (simp add: done_at_end_def)
    ultimately show ?thesis using l by blast
  next
    case False
    obtain s1 op1 where e: "learnt tick reply s op = Inr (s1, op1)"
      using c l(1) s False by (auto simp: pay_commit_def bind_ok_Inr)
    have v: "covered l op1 \<and> plan_part op1 = plan_part op" by (rule learnt_covered [OF l(2) e a])
    then have id: "op_id op1 = oid" using l(3) by (simp add: plan_part_def)
    have "\<exists>j. co' = save j (save_op (bump_version op1) co)"
      using c l(1) s False e by (auto simp: pay_commit_def bind_ok_Inr Let_def split: if_splits)
    then have "load_op co' oid = Inr (bump_version op1)" using load_op_saved [OF l(1), of "bump_version op1"] id by auto
    moreover have "done_at_end (bump_version op1)" using learnt_done [OF e pending] by (simp add: done_at_end_def)
    ultimately show ?thesis using v id by simp
  qed
qed

lemma pay_tick_safe:
  assumes i: "safe_operation oid p sv"
  shows "safe_operation oid p (snd (pay_tick H gw b te sid oid sv))"
proof -
  obtain op0 where r: "receipts_ok (sv_ledger sv)" and l: "load_op (sv_co sv) oid = Inr op0" "covered (sv_ledger sv) op0" "op_id op0 = oid"
    and p: "plan_part op0 = p" using i by (auto simp: safe_operation_def)
  show ?thesis
  proof (cases "pay_prepare b (te_now te) sid oid (sv_co sv)")
    case (Inl e)
    then show ?thesis using i by (simp add: pay_tick_def)
  next
    case (Inr x)
    obtain o' co where x: "x = (o', co)" by (cases x)
    show ?thesis
    proof (cases o')
      case None
      then show ?thesis using i Inr x by (simp add: pay_tick_def)
    next
      case (Some op)
      have q: "load_op co oid = Inr op \<and> covered (sv_ledger sv) op \<and> plan_part op = plan_part op0 \<and> op_id op = oid \<and> op_status op = PENDING"
        using pay_prepare_safe [OF _ l] Inr x Some by blast
      obtain out fl l1 where e: "pay_external H gw te op (sv_fleet sv, sv_ledger sv) = (out, fl, l1)"
        by (cases "pay_external H gw te op (sv_fleet sv, sv_ledger sv)")
      have t: "tx_grows (sv_ledger sv) l1 \<and> receipts_ok l1 \<and> (\<forall>r. out = Inr (Some r) \<longrightarrow> reply_ok r \<longrightarrow> op_phase op \<in> set PAY_PHASES
          \<longrightarrow> attests l1 (phase_auth op (op_phase op)) (phase_action (op_phase op)))"
        by (rule pay_external_attested [OF r e])
      have c1: "covered l1 op" using q t covered_grows by blast
      define sv1 where "sv1 = sv\<lparr>sv_co := co, sv_fleet := fl, sv_ledger := l1\<rparr>"
      have "done_at_end op" using q by (simp add: done_at_end_def)
      then have s1: "safe_operation oid p sv1" using q t c1 p by (auto simp: safe_operation_def sv1_def)
      show ?thesis
      proof (cases out)
        case (Inl err)
        then have "snd (pay_tick H gw b te sid oid sv) = sv1" using Inr x Some e by (simp add: pay_tick_def sv1_def Let_def)
        then show ?thesis using s1 by simp
      next
        case (Inr reply)
        show ?thesis
        proof (cases "pay_commit (te_now te) sid oid op reply co")
          case (Inl err)
          then have "snd (pay_tick H gw b te sid oid sv) = sv1"
            using \<open>pay_prepare b (te_now te) sid oid (sv_co sv) = Inr x\<close> x Some e Inr by (simp add: pay_tick_def sv1_def Let_def)
          then show ?thesis using s1 by simp
        next
          case (Inr y)
          obtain stop co' where y: "y = (stop, co')" by (cases y)
          have "\<exists>op'. load_op co' oid = Inr op' \<and> covered l1 op' \<and> plan_part op' = plan_part op \<and> op_id op' = oid \<and> done_at_end op'"
            using pay_commit_safe [OF _ _ c1] Inr y q t \<open>out = Inr reply\<close> by blast
          moreover have "snd (pay_tick H gw b te sid oid sv) = sv1\<lparr>sv_co := co'\<rparr>"
            using \<open>pay_prepare b (te_now te) sid oid (sv_co sv) = Inr x\<close> \<open>out = Inr reply\<close> x Some e Inr y by (simp add: pay_tick_def sv1_def Let_def)
          ultimately show ?thesis using t q p by (auto simp: safe_operation_def sv1_def)
        qed
      qed
    qed
  qed
qed

text \<open>
  What can happen while an operation is open: an iteration of any worker or request, or
  anything at the provider.
\<close>

datatype pay_event_kind = Iteration bool tick_env | Provider ledger_op

fun pay_step :: "(json \<Rightarrow> string) \<Rightarrow> bool \<Rightarrow> string \<Rightarrow> string \<Rightarrow> services \<Rightarrow> pay_event_kind \<Rightarrow> unit + services" where
  "pay_step H gw sid oid sv (Iteration automatic te) = Inr (snd (pay_tick H gw automatic te sid oid sv))"
| "pay_step H gw sid oid sv (Provider x) = (case ledger_step H (sv_ledger sv) x of Inl e \<Rightarrow> Inr sv | Inr l \<Rightarrow> Inr (sv\<lparr>sv_ledger := l\<rparr>))"

lemma ledger_step_attested:
  assumes "receipts_ok l" "ledger_step H l x = Inr l'"
  shows "tx_grows l l' \<and> receipts_ok l'"
proof (cases x)
  case (Pay env v)
  obtain out where "execute H env v l = (out, l')" using assms(2) Pay by (cases "execute H env v l") (auto split: sum.splits)
  then show ?thesis using execute_attested [OF assms(1)] by blast
next
  case (Fault_Used w k m)
  then obtain b where "consume_fault w k m l = Inr (b, l')" using assms(2) by (auto simp: map_sum_Inr)
  then show ?thesis using assms(1) consume_fault_effect [of w k m l b l'] by auto
next
  case (Claim worker limit lease now)
  then have "\<exists>obs. l' = l\<lparr>le_outbox := obs\<rparr>" using assms(2) by (auto simp: map_sum_Inr claim_notifications_def ok_Inr Let_def split: if_splits)
  then show ?thesis using assms(1) by (auto simp: tx_grows_def receipts_ok_def has_tx_def)
next
  case (Finish claim ok now)
  then have "le_txs l' = le_txs l" "le_commands l' = le_commands l" using assms(2) by (auto simp: finish_notification_def)
  then show ?thesis using assms(1) by (auto simp: tx_grows_def receipts_ok_def has_tx_def)
qed

interpretation safe_runs: guarded_steps "pay_step H gw sid oid" "safe_operation oid p" for H gw sid oid p
proof (unfold_locales, goal_cases)
  case (1 sv x sv')
  show ?case
  proof (cases x)
    case (Iteration b te)
    then show ?thesis using 1 pay_tick_safe by fastforce
  next
    case (Provider y)
    show ?thesis
    proof (cases "ledger_step H (sv_ledger sv) y")
      case (Inl e)
      then show ?thesis using 1 Provider by simp
    next
      case (Inr l)
      then have "sv' = sv\<lparr>sv_ledger := l\<rparr>" using 1(2) Provider by simp
      moreover have "tx_grows (sv_ledger sv) l \<and> receipts_ok l" using ledger_step_attested 1(1) Inr by (auto simp: safe_operation_def)
      ultimately show ?thesis using 1(1) covered_grows by (auto simp: safe_operation_def)
    qed
  qed
qed

interpretation receipt_runs: guarded_steps "ledger_step H" receipts_ok for H
  by unfold_locales (use ledger_step_attested in blast)

lemma planned_covered:
  assumes "a \<in> set PAY_ACTIONS" and p: "pay_plan AH ids now a s cand after = (s', op)"
  shows "covered l op"
proof -
  obtain oid aid where ids: "ids = (oid, aid)" by (cases ids)
  have f: "op_action op = a" "op_phase op = first_phase a (old_auth op) (new_auth op)"
    using p by (auto simp: ids pay_plan_def Let_def old_auth_def new_auth_def)
  have "a = A_reserve \<or> a = A_reorder \<or> a = A_transfer \<or> a = A_start \<or> a = A_ready \<or> a = A_claim \<or> a = A_cancel"
    using assms(1) by (simp add: PAY_ACTIONS_def)
  then show ?thesis using f
    by (elim disjE) (cases "old_auth op"; cases "new_auth op"; simp add: covered_def owed_def phases_of_def first_phase_def)+
qed


lemma load_op_appended:
  assumes "map_of (co_operations co) oid = None"
  shows "load_op (save s (co\<lparr>co_operations := co_operations co @ [(oid, r)]\<rparr>)) oid = Inr (row_op r)"
  using assms by (simp add: load_op_def save_def map_add_def)

lemma open_operation_loads:
  assumes o: "open_operation sid c fp (s, op) (co, ib) = Inr (co', ib')" and f: "map_of (co_operations co) (op_id op) = None"
  shows "load_op co' (op_id op) = Inr op"
  using o f load_op_appended [of co "op_id op" _ "\<lparr>row_request = jc_request c, row_fingerprint = fp, row_op = op\<rparr>"]
  by (auto simp: open_operation_def bind_ok_Inr Let_def)

text \<open>C30.
  Every completion is attested by the provider. Follow an operation from the transaction that
  planned it, through any iterations (of requests or workers, over any networks) interleaved
  with any other activity at the provider: once it is completed, the provider's ledger holds
  the capture of the order's authorization for a pick-up, its release for a cancellation, and
  for a new order or a transfer the approval of the new authorization; a transfer that changed
  the authorization also released the old one. The authorizations are those of the plan.
\<close>

theorem completion_is_attested:
  assumes "a \<in> set PAY_ACTIONS" and plan: "pay_plan AH ids now a s cand after = (s', op)" and fresh: "map_of (co_operations (sv_co sv)) (op_id op) = None"
    and opened: "open_operation sid c fp (s', op) (sv_co sv, sv_inbox sv) = Inr (co, ib)"
    and ledger: "sv_ledger sv = run (ledger_step H) (new_ledger limit) ops"
    and final: "load_op (sv_co (run (pay_step H gw sid (op_id op)) (sv\<lparr>sv_co := co, sv_inbox := ib\<rparr>) evs)) (op_id op) = Inr op'"
    and completed: "op_status op' = COMPLETED"
  shows "old_auth op' = old_auth op \<and> new_auth op' = new_auth op \<and>
    (let l = sv_ledger (run (pay_step H gw sid (op_id op)) (sv\<lparr>sv_co := co, sv_inbox := ib\<rparr>) evs)
     in (a = A_claim \<longrightarrow> attests l (old_auth op) CAPTURE) \<and> (a = A_cancel \<longrightarrow> attests l (old_auth op) VOID)
      \<and> (a \<in> {A_reserve, A_reorder} \<longrightarrow> attests l (new_auth op) AUTHORIZE)
      \<and> (a = A_transfer \<and> new_auth op \<noteq> old_auth op \<longrightarrow> attests l (new_auth op) AUTHORIZE \<and> attests l (old_auth op) VOID))"
proof -
  let ?sv = "sv\<lparr>sv_co := co, sv_inbox := ib\<rparr>"
  have act: "op_action op = a" "done_at_end op" using plan by (cases ids; auto simp: pay_plan_def Let_def done_at_end_def)+
  have "receipts_ok (run (ledger_step H) (new_ledger limit) ops)"
    by (rule receipt_runs.run_inv) (simp add: receipts_ok_def new_ledger_def)
  then have r: "receipts_ok (sv_ledger ?sv)" by (simp add: ledger)
  have l: "load_op (sv_co ?sv) (op_id op) = Inr op" using open_operation_loads [OF opened fresh] by simp
  have "safe_operation (op_id op) (plan_part op) ?sv"
    using planned_covered [OF assms(1) plan] r l act(2) by (auto simp: safe_operation_def)
  then have "safe_operation (op_id op) (plan_part op) (run (pay_step H gw sid (op_id op)) ?sv evs)"
    by (rule safe_runs.run_inv)
  then have c: "covered (sv_ledger (run (pay_step H gw sid (op_id op)) ?sv evs)) op'" and p: "plan_part op' = plan_part op"
    and e: "done_at_end op'" using final by (auto simp: safe_operation_def)
  have f: "op_action op' = a" "old_auth op' = old_auth op" "new_auth op' = new_auth op" using p act by (simp_all add: plan_part_def)
  have o: "list_all (\<lambda>(x, k). attests (sv_ledger (run (pay_step H gw sid (op_id op)) ?sv evs)) x k) (owed op')"
    using c by (simp add: covered_def)
  show ?thesis using o completed f e by (auto simp: done_at_end_def owed_def replaces_auth_def Let_def split: if_splits)
qed

section \<open>Racing workers\<close>

text \<open>An operation of protocol 2 that has reached at least a phase version, and its journey.\<close>

definition reached :: "string \<Rightarrow> string \<Rightarrow> nat \<Rightarrow> coordinator \<Rightarrow> bool" where
  "reached sid oid n co \<longleftrightarrow> map_of (co_journeys co) sid \<noteq> None
     \<and> (\<exists>op. load_op co oid = Inr op \<and> op_id op = oid \<and> op_payment op \<noteq> None \<and> n \<le> phase_version op)"

lemma on_success_payment: "op_payment (on_success op) = op_payment op" "op_id (on_success op) = op_id op"
  by (cases "op_phase op"; simp add: on_success_def next_phase_def rejected_def)+

lemma on_refusal_payment: "op_payment (on_refusal code op) = op_payment op" "op_id (on_refusal code op) = op_id op"
  by (simp_all add: on_refusal_def next_phase_def aborted_def rejected_def to_review_def Let_def)

lemma transition_payment: "op_payment (transition op r) = op_payment op" "op_id (transition op r) = op_id op"
  by (simp_all add: transition_def on_success_payment on_refusal_payment next_phase_def)

lemma after_step_payment: "op_payment (after_step t b op) = op_payment op" "op_id (after_step t b op) = op_id op"
  by (simp_all add: after_step_def Let_def)

lemma learnt_payment: "learnt tick reply s op = Inr (s', op') \<Longrightarrow> op_payment op' = op_payment op \<and> op_id op' = op_id op"
  by (cases reply) (auto simp: learnt_def Let_def bind_ok_Inr after_step_payment transition_payment add_history_def)

lemma expire_payment: "op_payment (snd (expire op now)) = op_payment op" "op_id (snd (expire op now)) = op_id op"
  by (simp_all add: expire_def Let_def next_phase_def)

lemma bump_payment: "op_payment op \<noteq> None \<Longrightarrow> op_payment (bump_version op) \<noteq> None \<and> phase_version (bump_version op) = phase_version op + 1"
  by (auto simp: bump_version_def phase_version_def)

lemma keys_save: "map_of (co_journeys co) sid \<noteq> None \<Longrightarrow> map_of (co_journeys (save s (save_op op co))) sid \<noteq> None"
  by (auto simp: save_def save_op_def split: option.splits)

lemma reached_advance:
  assumes r: "reached sid oid n co" and l: "load_op co oid = Inr op"
    and o: "op_id op' = oid" "op_payment op' \<noteq> None" "m \<le> phase_version op'"
  shows "reached sid oid m (save s (save_op op' co))"
  using r keys_save [of co sid s op'] load_op_saved [OF l o(1)] o by (auto simp: reached_def)

lemma pay_commit_cases:
  assumes c: "pay_commit tick sid oid op reply co = Inr (stop, co')" and cur: "load_op co oid = Inr cur" and s: "load co sid = Inr s"
  obtains (stale) "stale oid op cur s" "co' = co" "\<not> stop"
  | (fresh) op1 j where "\<not> stale oid op cur s" "op_payment op1 = op_payment cur" "op_id op1 = op_id cur" "co' = save j (save_op (bump_version op1) co)"
proof (cases "stale oid op cur s")
  case True
  then show ?thesis using c cur s by (intro stale) (simp_all add: pay_commit_def)
next
  case False
  obtain s1 op1 where e: "learnt tick reply s cur = Inr (s1, op1)" using c cur s False by (auto simp: pay_commit_def bind_ok_Inr)
  have "\<exists>j. co' = save j (save_op (bump_version op1) co)"
    using c cur s False e by (auto simp: pay_commit_def bind_ok_Inr Let_def split: if_splits)
  then show ?thesis using fresh [of op1] False learnt_payment [OF e] by blast
qed

lemma load_Inr: "load co sid = Inr s \<longleftrightarrow> map_of (co_journeys co) sid = Some s"
  by (simp add: load_def split: option.splits)

lemma pay_commit_reached:
  assumes c: "pay_commit tick sid' oid op reply co = Inr (stop, co')" and r: "reached sid oid n co"
  shows "reached sid oid n co'"
proof -
  obtain cur where cur: "load_op co oid = Inr cur" "op_id cur = oid" "op_payment cur \<noteq> None" "n \<le> phase_version cur"
    using r by (auto simp: reached_def)
  obtain s where s: "load co sid' = Inr s" using c cur(1) by (auto simp: pay_commit_def bind_ok_Inr)
  show ?thesis using c cur(1) s
  proof (cases rule: pay_commit_cases)
    case (fresh op1 j)
    have "op_payment op1 \<noteq> None" "phase_version op1 = phase_version cur" using fresh cur by (simp_all add: phase_version_def)
    then show ?thesis unfolding fresh(4) using bump_payment [of op1] fresh(3) cur by (intro reached_advance [OF r cur(1)]) auto
  qed (use r in simp)
qed

lemma pay_prepare_reached:
  assumes p: "pay_prepare b now sid' oid co = Inr (x, co')" and r: "reached sid oid n co"
  shows "reached sid oid n co'"
proof -
  obtain cur where cur: "load_op co oid = Inr cur" "op_id cur = oid" "op_payment cur \<noteq> None" "n \<le> phase_version cur"
    using r by (auto simp: reached_def)
  obtain e op1 where e: "expire cur now = (e, op1)" by (cases "expire cur now")
  have f: "op_payment op1 = op_payment cur" "op_id op1 = oid" using expire_payment [of cur now] e cur(2) by simp_all
  have "co' = co \<or> (\<exists>j. co' = save j (save_op (bump_version op1) co))"
    using p cur(1) e by (auto simp: pay_prepare_def bind_ok_Inr ensure_Inr Let_def split: if_splits bool.splits)
  moreover have "reached sid oid n (save j (save_op (bump_version op1) co))" for j
    using bump_payment [of op1] f cur by (intro reached_advance [OF r cur(1)]) (auto simp: phase_version_def)
  ultimately show ?thesis using r by auto
qed

lemma pay_tick_reached:
  assumes r: "reached sid oid n (sv_co sv)"
  shows "reached sid oid n (sv_co (snd (pay_tick H gw b te sid' oid sv)))"
proof (cases "pay_prepare b (te_now te) sid' oid (sv_co sv)")
  case (Inl e)
  then show ?thesis using r by (simp add: pay_tick_def)
next
  case (Inr x)
  obtain o' co where x: "x = (o', co)" by (cases x)
  have q: "reached sid oid n co" using pay_prepare_reached r Inr x by blast
  show ?thesis
  proof (cases o')
    case None
    then show ?thesis using r Inr x by (simp add: pay_tick_def)
  next
    case (Some op)
    obtain out fl l1 where e: "pay_external H gw te op (sv_fleet sv, sv_ledger sv) = (out, fl, l1)"
      by (cases "pay_external H gw te op (sv_fleet sv, sv_ledger sv)")
    have "sv_co (snd (pay_tick H gw b te sid' oid sv)) = co \<or>
      (\<exists>reply stop co'. pay_commit (te_now te) sid' oid op reply co = Inr (stop, co') \<and> sv_co (snd (pay_tick H gw b te sid' oid sv)) = co')"
      using Inr x Some e by (auto simp: pay_tick_def Let_def split: sum.splits prod.splits)
    then show ?thesis using q pay_commit_reached by blast
  qed
qed

interpretation version_runs: guarded_steps "pay_step H gw sid' oid" "\<lambda>sv. reached sid oid n (sv_co sv)" for H gw sid' oid sid n
proof (unfold_locales, goal_cases)
  case (1 sv x sv')
  then show ?case
  proof (cases x)
    case (Iteration b te)
    then show ?thesis using 1 pay_tick_reached by fastforce
  next
    case (Provider y)
    then show ?thesis using 1 by (cases "ledger_step H (sv_ledger sv) y") auto
  qed
qed

text \<open>C31.
  At most one worker commits a phase: once a reply was stored for a version of an operation,
  a reply that another worker got for the same version (late, lost in a pause, or different)
  is ignored for ever after, whatever happened in between.
\<close>

theorem late_reply_ignored:
  assumes "load_op (sv_co sv) oid = Inr cur" "op_id cur = oid" "op_payment cur \<noteq> None"
    and first: "pay_commit t1 sid oid op reply1 (sv_co sv) = Inr (stop1, co1)" "co1 \<noteq> sv_co sv"
    and sv': "sv' = run (pay_step H gw sid oid) (sv\<lparr>sv_co := co1\<rparr>) evs"
  shows "pay_commit t2 sid oid op reply2 (sv_co sv') = Inr (False, sv_co sv')"
proof -
  obtain s where s: "load (sv_co sv) sid = Inr s" using first(1) assms(1) by (auto simp: pay_commit_def bind_ok_Inr)
  have r0: "reached sid oid (phase_version cur) (sv_co sv)" using assms(1-3) s by (auto simp: reached_def load_Inr)
  have v: "phase_version op = phase_version cur \<and> reached sid oid (phase_version cur + 1) co1"
    using first(1) assms(1) s
  proof (cases rule: pay_commit_cases)
    case (fresh op1 j)
    have "reached sid oid (phase_version cur + 1) co1" unfolding fresh(4)
      using bump_payment [of op1] fresh(2,3) assms(2,3) by (intro reached_advance [OF r0 assms(1)]) (auto simp: phase_version_def)
    then show ?thesis using fresh(1) by (simp add: stale_def)
  qed (use first(2) in simp)
  have "reached sid oid (phase_version cur + 1) (sv_co sv')" unfolding sv'
    by (rule version_runs.run_inv) (use v in simp)
  then obtain cur' s' where c: "load_op (sv_co sv') oid = Inr cur'" "load (sv_co sv') sid = Inr s'" "phase_version cur + 1 \<le> phase_version cur'"
    by (auto simp: reached_def load_Inr)
  then have "stale oid op cur' s'" using v by (simp add: stale_def)
  then show ?thesis using c by (simp add: pay_commit_def)
qed

section \<open>A concrete run\<close>

text \<open>A reservation whose first approval reply gets lost: four iterations.\<close>

definition paid_start :: journey where
  "paid_start = (the_ok (new_state True ''j'' sample_intent None ''demo-approved'' No_Payment_Fault))\<lparr>tr_stores := [], jo_events := []\<rparr>"

definition paid_order :: order where
  "paid_order =
    (let p = \<lparr>pl_store = ''oat'', pl_walk_to = 4, pl_walk_after = 4, pl_walk_total = 8, pl_detour = 0, pl_wait = 0, pl_price = 4500,
           pl_pricing = sample_quote, pl_start_at = 0, pl_ready_at = 4, pl_pickup_at = 4, pl_arrival_at = 8, pl_margin = 8, pl_prep = 4,
           pl_queue = 0, pl_milk = ''regular'', pl_decaf = False, pl_first_leg = [], pl_second_leg = [], pl_route = [], pl_feasible = True,
           pl_reasons = [], pl_terms = None, pl_quote = ''q''\<rparr>
     in (reserved_order paid_start ''PCT-1'' ''123456'' p))"

definition paid_candidate :: journey where
  "paid_candidate = paid_start\<lparr>tr_order := Some paid_order\<rparr>"

definition paid_plan :: "journey \<times> operation" where
  "paid_plan = pay_plan (\<lambda>_ _ _. pay_digest) (''op1'', ''a'') 0 A_reserve paid_start paid_candidate paid_order"

definition paid_services :: services where
  "paid_services = \<lparr>sv_co = \<lparr>co_journeys = [(''j'', paid_start)], co_commands = [], co_controls = [], co_operations = []\<rparr>,
     sv_fleet = empty_fleet, sv_ledger = new_ledger 100000, sv_inbox = empty_inbox\<rparr>"

definition paid_open :: "coordinator \<times> inbox" where
  "paid_open = the_ok (open_operation ''j'' (journey_cmd A_reserve (Some ''wave'') 0 None) ''f'' paid_plan (sv_co paid_services, sv_inbox paid_services))"

definition paid_tick :: "net \<Rightarrow> tick_env" where
  "paid_tick n = \<lparr>te_now = 10, te_merchant = Reply, te_lookup = Reply, te_send = n, te_call = pay_env ''1'' 10\<rparr>"

definition paid_run :: "pay_event_kind list" where
  "paid_run = [Iteration False (paid_tick Reply_Lost), Iteration False (paid_tick Reply), Iteration False (paid_tick Reply), Iteration False (paid_tick Reply)]"

abbreviation paid_end :: services where
  "paid_end \<equiv> run (pay_step sample_print True ''j'' ''op1'') (paid_services\<lparr>sv_co := fst paid_open, sv_inbox := snd paid_open\<rparr>) paid_run"

lemma paid_opens: "is_ok (open_operation ''j'' (journey_cmd A_reserve (Some ''wave'') 0 None) ''f'' paid_plan (sv_co paid_services, sv_inbox paid_services))"
  by code_simp

lemma paid_plan_id: "op_id (snd paid_plan) = ''op1''"
  by code_simp


lemma paid_run_completes: "map_sum id (\<lambda>op. (op_status op, map_option au_id (new_auth op))) (load_op (sv_co paid_end) ''op1'') = Inr (COMPLETED, Some ''AUTH-a'')"
  by code_simp

theorem completion_is_attested_witness:
  "has_tx (sv_ledger paid_end) ''AUTH-a'' AUTHORIZE"
proof -
  obtain op' where f: "load_op (sv_co paid_end) ''op1'' = Inr op'" "op_status op' = COMPLETED" "map_option au_id (new_auth op') = Some ''AUTH-a''"
    using paid_run_completes by (cases "load_op (sv_co paid_end) ''op1''") auto
  obtain s' op where p: "paid_plan = (s', op)" by (cases paid_plan)
  obtain co ib where o: "open_operation ''j'' (journey_cmd A_reserve (Some ''wave'') 0 None) ''f'' (s', op) (sv_co paid_services, sv_inbox paid_services) = Inr (co, ib)"
    using paid_opens by (auto simp: p is_ok_iff)
  have e: "paid_open = (co, ib)" by (simp add: paid_open_def p o)
  have i: "op_id op = ''op1''" using paid_plan_id by (simp add: p)
  have m: "map_of (co_operations (sv_co paid_services)) (op_id op) = None" by (simp add: paid_services_def)
  have l: "sv_ledger paid_services = run (ledger_step sample_print) (new_ledger 100000) []" by (simp add: paid_services_def)
  have x: "load_op (sv_co (run (pay_step sample_print True ''j'' (op_id op)) (paid_services\<lparr>sv_co := co, sv_inbox := ib\<rparr>) paid_run)) (op_id op) = Inr op'"
    using f(1) by (simp add: e i)
  have a: "A_reserve \<in> set PAY_ACTIONS" by (simp add: PAY_ACTIONS_def)
  have "attests (sv_ledger paid_end) (new_auth op') AUTHORIZE"
    using completion_is_attested [OF a p [unfolded paid_plan_def] m o l x f(2)] by (simp add: e i Let_def)
  then show ?thesis using f(3) by (auto simp: attests_def)
qed

text \<open>Two workers read the operation; the first one stores that its call was not confirmed.\<close>

abbreviation opened_op :: operation where
  "opened_op \<equiv> the_ok (load_op (fst paid_open) ''op1'')"

lemma opened_facts: "is_ok (load_op (fst paid_open) ''op1'')" "op_id opened_op = ''op1''" "op_payment opened_op \<noteq> None"
  "map_sum id fst (pay_commit 10 ''j'' ''op1'' opened_op None (fst paid_open)) = Inr True"
  "map_sum id (\<lambda>op. op_history op) (load_op (snd (the_ok (pay_commit 10 ''j'' ''op1'' opened_op None (fst paid_open)))) ''op1'') = Inr [(PAY_AUTHORIZE, RESPONSE_NOT_CONFIRMED)]"
  "op_history opened_op = []"
  by code_simp+

theorem late_reply_ignored_witness:
  "\<exists>co1. pay_commit 10 ''j'' ''op1'' opened_op None (fst paid_open) = Inr (True, co1) \<and> co1 \<noteq> fst paid_open
    \<and> pay_commit 11 ''j'' ''op1'' opened_op (Some (Pay_Refused ''DECLINED'')) co1 = Inr (False, co1)"
proof -
  obtain cur where c: "load_op (fst paid_open) ''op1'' = Inr cur" using opened_facts(1) by (auto simp: is_ok_iff)
  obtain co1 where f: "pay_commit 10 ''j'' ''op1'' opened_op None (fst paid_open) = Inr (True, co1)"
    using opened_facts(4) by (auto simp: map_sum_Inr)
  have n: "co1 \<noteq> fst paid_open" using opened_facts(5,6) f c by auto
  let ?sv = "paid_services\<lparr>sv_co := fst paid_open\<rparr>"
  have c': "load_op (sv_co ?sv) ''op1'' = Inr cur" "op_id cur = ''op1''" "op_payment cur \<noteq> None" using c opened_facts(2,3) by simp_all
  have f': "pay_commit 10 ''j'' ''op1'' opened_op None (sv_co ?sv) = Inr (True, co1)" "co1 \<noteq> sv_co ?sv" using f n by simp_all
  have "pay_commit 11 ''j'' ''op1'' opened_op (Some (Pay_Refused ''DECLINED'')) (sv_co (?sv\<lparr>sv_co := co1\<rparr>)) = Inr (False, sv_co (?sv\<lparr>sv_co := co1\<rparr>))"
    using late_reply_ignored [OF c' f', of "?sv\<lparr>sv_co := co1\<rparr>" sample_print True "[]"] by simp
  then show ?thesis using f n by simp
qed

end
