(* ===== verification/Outcomes.thy ===== *)
theory Outcomes
  imports Journey_Invariant
begin

text \<open>
  \<open>outcomes.py\<close>: the comparison of the current order with its alternatives, the policy that
  decides a transfer from what is observed, and the paired experiment that scores it with
  delays unknown at the decision. The numbers the random generator draws for a case and the
  digests are arguments. The mean of the cash differences is kept as their sum and count.
\<close>

section \<open>Comparing an order\<close>

definition current_row :: "quote_hash \<Rightarrow> (terms \<Rightarrow> string) \<Rightarrow> journey \<Rightarrow> journey_error + plan option" where
  "current_row QH TH s = (case tr_order s of None \<Rightarrow> Inr None | Some x \<Rightarrow> map_sum id Some (current_plan QH TH s x))"

record alternative =
  al_store :: string
  al_quote :: string
  al_arrival :: int
  al_cash :: int
  al_minutes_saved :: int
  al_cash_delta :: int
  al_coupon_loss :: int
  al_pricing :: pricing

record stay_row =
  sr_store :: string
  sr_arrival :: int
  sr_cash :: int
  sr_margin :: int

record comparison =
  cm_version :: int
  cm_order :: "string option"
  cm_hash :: string
  cm_transferable :: bool
  cm_stay :: "stay_row option"
  cm_alternatives :: "alternative list"

definition mutable_order :: "journey \<Rightarrow> bool" where
  "mutable_order s \<longleftrightarrow> (case tr_order s of None \<Rightarrow> False | Some x \<Rightarrow> or_state x = RESERVED)"

definition alternative_of :: "order \<Rightarrow> plan \<Rightarrow> plan \<Rightarrow> alternative" where
  "alternative_of x source p = \<lparr>al_store = pl_store p, al_quote = pl_quote p, al_arrival = pl_arrival_at p, al_cash = pl_price p,
     al_minutes_saved = pl_arrival_at source - pl_arrival_at p, al_cash_delta = pl_price p - or_price x,
     al_coupon_loss = max 0 (pr_discount (pl_pricing source) - pr_discount (pl_pricing p)), al_pricing = pl_pricing p\<rparr>"

definition compare_order :: "quote_hash \<Rightarrow> (terms \<Rightarrow> string) \<Rightarrow> (journey \<Rightarrow> string) \<Rightarrow> journey \<Rightarrow> journey_error + comparison" where
  "compare_order QH TH DH s = bind_ok (current_row QH TH s) (\<lambda>source.
     bind_ok (if mutable_order s then domain (plans QH TH s) else Inr []) (\<lambda>rows.
       Inr (case (tr_order s, source) of
         (Some x, Some src) \<Rightarrow> \<lparr>cm_version = tr_version s, cm_order = Some (or_id x), cm_hash = DH s, cm_transferable = mutable_order s,
            cm_stay = Some \<lparr>sr_store = pl_store src, sr_arrival = pl_arrival_at src, sr_cash = or_price x, sr_margin = pl_margin src\<rparr>,
            cm_alternatives = map (alternative_of x src) (filter (\<lambda>p. pl_store p \<noteq> or_store x \<and> pl_feasible p) rows)\<rparr>
       | _ \<Rightarrow> \<lparr>cm_version = tr_version s, cm_order = None, cm_hash = DH s, cm_transferable = False, cm_stay = None, cm_alternatives = []\<rparr>)))"

section \<open>The transfer policy\<close>

datatype decision_reason = NO_INITIAL_ROUTE | ALREADY_PREPARING | STAY_IS_FEASIBLE | NO_ELIGIBLE_ALTERNATIVE | NO_TIME_GAIN | TRANSFER

definition option_key :: "plan \<Rightarrow> int \<times> int \<times> string" where
  "option_key p = (pl_arrival_at p, pl_price p, pl_store p)"

definition choose_transfer :: "quote_hash \<Rightarrow> (terms \<Rightarrow> string) \<Rightarrow> journey \<Rightarrow> journey_error + string option \<times> decision_reason" where
  "choose_transfer QH TH s = (case tr_order s of
     None \<Rightarrow> Inr (None, NO_INITIAL_ROUTE)
   | Some x \<Rightarrow>
       if or_state x \<noteq> RESERVED then Inr (None, ALREADY_PREPARING)
       else bind_ok (current_plan QH TH s x) (\<lambda>source.
         if pl_feasible source then Inr (None, STAY_IS_FEASIBLE)
         else bind_ok (domain (plans QH TH s)) (\<lambda>rows.
           case filter (\<lambda>p. pl_feasible p \<and> pl_store p \<noteq> or_store x) rows of
             [] \<Rightarrow> Inr (None, NO_ELIGIBLE_ALTERNATIVE)
           | p # ps \<Rightarrow> (let target = first_min option_key p ps
               in if pl_arrival_at source \<le> pl_arrival_at target then Inr (None, NO_TIME_GAIN)
                  else Inr (Some (pl_store target), TRANSFER)))))"

section \<open>Cases\<close>

definition SCENARIOS :: "string list" where
  "SCENARIOS = [''normal'', ''source_busy'', ''all_busy'', ''after_start'', ''coupon_budget'', ''uncertain_delay'']"

text \<open>What the generator of a case draws, in the order of its calls.\<close>

record case_draws =
  cd_deadline :: int
  cd_milk :: string
  cd_decaf :: bool
  cd_budget :: int
  cd_detour :: int
  cd_coupon :: "string option"
  cd_points :: int
  cd_queues :: "int list"
  cd_extra :: int
  cd_busy :: "int list"
  cd_late :: int
  cd_errors :: "int list"

record paired_case =
  ca_seed :: int
  ca_index :: int
  ca_scenario :: string
  ca_observed :: journey
  ca_delays :: "(string \<times> int) list"

definition case_intent :: "string \<Rightarrow> case_draws \<Rightarrow> intent" where
  "case_intent scenario d =
    (let i = \<lparr>in_destination = ''office'', in_drink = ''latte'', in_milk = cd_milk d, in_decaf = cd_decaf d, in_budget = cd_budget d,
           in_max_detour = cd_detour d, in_deadline = cd_deadline d, in_priority = ByArrival, in_coupon = cd_coupon d, in_points = cd_points d\<rparr>;
         i = (if scenario = ''coupon_budget'' then i\<lparr>in_coupon := Some ''wave1000'', in_budget := 3000, in_points := 500, in_milk := ''regular'',
                in_decaf := False\<rparr> else i)
     in if scenario = ''uncertain_delay'' then i\<lparr>in_budget := 6500, in_deadline := 16, in_milk := ''regular'', in_decaf := False\<rparr> else i)"

definition case_stores :: "case_draws \<Rightarrow> store list" where
  "case_stores d = map (\<lambda>(st, q). st\<lparr>st_policy := None, st_queue_until := q\<rparr>) (zip STORES (cd_queues d))"

definition case_id :: "string \<Rightarrow> int \<Rightarrow> int \<Rightarrow> string" where
  "case_id prefix seed index = prefix @ ''-'' @ str_of_int seed @ ''-'' @ str_of_int index"

definition case_journey :: "int \<Rightarrow> int \<Rightarrow> string \<Rightarrow> case_draws \<Rightarrow> journey" where
  "case_journey seed index scenario d =
    \<lparr>tr_id = case_id ''case'' seed index, tr_version = 1, tr_clock = 0, tr_delay = 0, tr_intent = case_intent scenario d,
     tr_stores = case_stores d, tr_order = None, tr_wallet = Some initial_wallet, tr_agreement = False, jo_events = [], jo_world = None,
     jo_protocol = 1, jo_active = None, jo_handoff = None, jo_generation_counter = 0, jo_next_fault = No_Fault, jo_guests = [], jo_previous = [],
     jo_card = ''demo-approved'', jo_payment_fault = No_Payment_Fault, jo_payment_revision = 0, jo_payment = None, jo_first_order = None,
     jo_payment_order = None, jo_pending_order = None\<rparr>"

definition place_order :: "int \<Rightarrow> int \<Rightarrow> plan \<Rightarrow> journey \<Rightarrow> journey_error + journey" where
  "place_order seed index p s = domain (hold (s\<lparr>tr_order := Some \<lparr>or_id = case_id ''order'' seed index, or_store = pl_store p,
     or_state = RESERVED, or_price = pl_price p, or_pricing = Some (pl_pricing p), or_plan = p, or_ready_at = pl_ready_at p,
     or_departure_at = 0, or_pickup_code = [], or_terms = None, or_generation = None, or_picked_up_at = None\<rparr>\<rparr>) (pl_pricing p))"

definition disturb :: "string \<Rightarrow> case_draws \<Rightarrow> plan \<Rightarrow> journey \<Rightarrow> journey" where
  "disturb scenario d p s =
    (if scenario \<in> {''source_busy'', ''coupon_budget'', ''uncertain_delay''} then
       s\<lparr>tr_stores := upd_first (\<lambda>v. st_id v = pl_store p)
          (\<lambda>v. v\<lparr>st_queue_until := st_queue_until v + (if scenario \<noteq> ''uncertain_delay'' then cd_extra d else 9)\<rparr>) (tr_stores s)\<rparr>
     else if scenario = ''all_busy'' then
       s\<lparr>tr_stores := map (\<lambda>(v, n). v\<lparr>st_queue_until := 40 + n\<rparr>) (zip (tr_stores s) (cd_busy d))\<rparr>
     else if scenario = ''after_start'' then
       s\<lparr>tr_clock := pl_start_at p, tr_order := map_option (\<lambda>x. x\<lparr>or_state := PREPARING, or_ready_at := pl_ready_at p + cd_late d\<rparr>) (tr_order s)\<rparr>
     else s)"

definition make_case :: "quote_hash \<Rightarrow> (terms \<Rightarrow> string) \<Rightarrow> int \<Rightarrow> nat \<Rightarrow> case_draws \<Rightarrow> journey_error + paired_case" where
  "make_case QH TH seed index d =
    (let scenario = SCENARIOS ! (index mod 6); s = case_journey seed (int index) scenario d
     in bind_ok (domain (plans QH TH s)) (\<lambda>rows.
          bind_ok (case List.find pl_feasible rows of
              None \<Rightarrow> Inr s
            | Some p \<Rightarrow> map_sum id (disturb scenario d p) (place_order seed (int index) p s)) (\<lambda>s.
            Inr \<lparr>ca_seed = seed, ca_index = int index, ca_scenario = scenario, ca_observed = s\<lparr>tr_version := 2\<rparr>,
              ca_delays = zip (map st_id (tr_stores s)) (cd_errors d)\<rparr>)))"

section \<open>Scores\<close>

record outcome =
  ou_hash :: string
  ou_initial :: "string option"
  ou_serviceable :: bool
  ou_selected :: "string option"
  ou_estimated :: "int option"
  ou_arrival :: "int option"
  ou_on_time :: bool
  ou_cash :: int
  ou_discount :: int
  ou_points :: int

record case_row =
  cr_case :: paired_case
  cr_state :: "order_state option"
  cr_queues :: "(string \<times> int) list"
  cr_transferred :: bool
  cr_reason :: decision_reason
  cr_stay :: outcome
  cr_transfer :: outcome

definition outcome_of :: "string \<Rightarrow> paired_case \<Rightarrow> plan option \<Rightarrow> plan option \<Rightarrow> outcome" where
  "outcome_of hash c source p =
    (let arrival = map_option (\<lambda>p. pl_arrival_at p + dget 0 (ca_delays c) (pl_store p)) p
     in \<lparr>ou_hash = hash, ou_initial = map_option pl_store source, ou_serviceable = (source \<noteq> None), ou_selected = map_option pl_store p,
         ou_estimated = map_option pl_arrival_at p, ou_arrival = arrival,
         ou_on_time = (case arrival of None \<Rightarrow> False | Some t \<Rightarrow> t \<le> in_deadline (tr_intent (ca_observed c))),
         ou_cash = (case p of None \<Rightarrow> 0 | Some p \<Rightarrow> pl_price p), ou_discount = (case p of None \<Rightarrow> 0 | Some p \<Rightarrow> pr_discount (pl_pricing p)),
         ou_points = (case p of None \<Rightarrow> 0 | Some p \<Rightarrow> pr_points (pl_pricing p))\<rparr>)"

definition evaluate_case :: "quote_hash \<Rightarrow> (terms \<Rightarrow> string) \<Rightarrow> (journey \<times> (string \<times> int) list \<Rightarrow> string) \<Rightarrow> paired_case \<Rightarrow> journey_error + case_row" where
  "evaluate_case QH TH DH c = (let s = ca_observed c in
     bind_ok (current_row QH TH s) (\<lambda>source. bind_ok (choose_transfer QH TH s) (\<lambda>(selected, reason).
       bind_ok (domain (plans QH TH s)) (\<lambda>rows.
         let target = (case List.find (\<lambda>p. Some (pl_store p) = selected) rows of None \<Rightarrow> source | Some p \<Rightarrow> Some p);
             hash = DH (s, ca_delays c)
         in Inr \<lparr>cr_case = c, cr_state = map_option or_state (tr_order s), cr_queues = map (\<lambda>v. (st_id v, st_queue_until v)) (tr_stores s),
              cr_transferred = (selected \<noteq> None), cr_reason = reason, cr_stay = outcome_of hash c source source,
              cr_transfer = outcome_of hash c source target\<rparr>))))"

record case_summary =
  su_total :: nat
  su_serviceable :: nat
  su_no_route :: nat
  su_stay_on_time :: nat
  su_transfer_on_time :: nat
  su_wins :: nat
  su_losses :: nat
  su_ties :: nat
  su_transfers :: nat
  su_cash_delta :: int
  su_max_increase :: int
  su_both_late :: nat

definition count_rows :: "(case_row \<Rightarrow> bool) \<Rightarrow> case_row list \<Rightarrow> nat" where
  "count_rows P rows = length (filter P rows)"

definition summarize :: "case_row list \<Rightarrow> case_summary" where
  "summarize rows =
    (let placed = filter (\<lambda>r. ou_serviceable (cr_stay r)) rows; deltas = map (\<lambda>r. ou_cash (cr_transfer r) - ou_cash (cr_stay r)) placed
     in \<lparr>su_total = length rows, su_serviceable = length placed, su_no_route = length rows - length placed,
         su_stay_on_time = count_rows (\<lambda>r. ou_on_time (cr_stay r)) rows, su_transfer_on_time = count_rows (\<lambda>r. ou_on_time (cr_transfer r)) rows,
         su_wins = count_rows (\<lambda>r. ou_on_time (cr_transfer r) \<and> \<not> ou_on_time (cr_stay r)) rows,
         su_losses = count_rows (\<lambda>r. ou_on_time (cr_stay r) \<and> \<not> ou_on_time (cr_transfer r)) rows,
         su_ties = count_rows (\<lambda>r. ou_on_time (cr_stay r) = ou_on_time (cr_transfer r)) rows,
         su_transfers = count_rows cr_transferred rows, su_cash_delta = sum_list deltas, su_max_increase = fold max deltas 0,
         su_both_late = count_rows (\<lambda>r. \<not> ou_on_time (cr_stay r) \<and> \<not> ou_on_time (cr_transfer r)) rows\<rparr>)"

record experiment_report =
  ex_seed :: int
  ex_summary :: case_summary
  ex_by_scenario :: "(string \<times> case_summary) list"
  ex_rows :: "case_row list"
  ex_hash :: string

fun case_rows ::
  "quote_hash \<Rightarrow> (terms \<Rightarrow> string) \<Rightarrow> (journey \<times> (string \<times> int) list \<Rightarrow> string) \<Rightarrow> int \<Rightarrow> (nat \<Rightarrow> case_draws) \<Rightarrow> nat list \<Rightarrow> journey_error + case_row list" where
  "case_rows QH TH DH seed draws [] = Inr []"
| "case_rows QH TH DH seed draws (i # is) = bind_ok (make_case QH TH seed i (draws i)) (\<lambda>c. bind_ok (evaluate_case QH TH DH c) (\<lambda>r.
     bind_ok (case_rows QH TH DH seed draws is) (\<lambda>rs. Inr (r # rs))))"

definition run_experiment ::
  "quote_hash \<Rightarrow> (terms \<Rightarrow> string) \<Rightarrow> (journey \<times> (string \<times> int) list \<Rightarrow> string) \<Rightarrow> (case_row list \<Rightarrow> string) \<Rightarrow> (nat \<Rightarrow> case_draws) \<Rightarrow> int \<Rightarrow> int
    \<Rightarrow> journey_error + experiment_report" where
  "run_experiment QH TH DH RH draws seed cases =
    ensure (0 \<le> seed \<and> seed \<le> 1000000 \<and> 6 \<le> cases \<and> cases \<le> 200) (Exception ''ValueError'')
     (bind_ok (case_rows QH TH DH seed draws [0..<nat cases]) (\<lambda>rows.
       Inr \<lparr>ex_seed = seed, ex_summary = summarize rows,
         ex_by_scenario = map (\<lambda>name. (name, summarize (filter (\<lambda>r. ca_scenario (cr_case r) = name) rows))) SCENARIOS,
         ex_rows = rows, ex_hash = RH rows\<rparr>))"

section \<open>The policy\<close>

text \<open>What each answer of the policy stands for.\<close>

definition infeasible_rows :: "order \<Rightarrow> plan list \<Rightarrow> bool" where
  "infeasible_rows x rows \<longleftrightarrow> (\<forall>q \<in> set rows. \<not> (pl_feasible q \<and> pl_store q \<noteq> or_store x))"

definition best_other :: "order \<Rightarrow> plan list \<Rightarrow> plan \<Rightarrow> bool" where
  "best_other x rows p \<longleftrightarrow> p \<in> set rows \<and> pl_feasible p \<and> pl_store p \<noteq> or_store x
     \<and> (\<forall>q \<in> set rows. pl_feasible q \<and> pl_store q \<noteq> or_store x \<longrightarrow> option_key p \<le> option_key q)"

lemma best_other_first_min:
  assumes "filter (\<lambda>p. pl_feasible p \<and> pl_store p \<noteq> or_store x) rows = p # ps"
  shows "best_other x rows (first_min option_key p ps)"
  unfolding best_other_def
proof (intro conjI ballI impI)
  let ?ok = "\<lambda>p. pl_feasible p \<and> pl_store p \<noteq> or_store x"
  have "first_min option_key p ps \<in> set (filter ?ok rows)" using first_min_in [of option_key p ps] by (simp add: assms)
  then show "first_min option_key p ps \<in> set rows" "pl_feasible (first_min option_key p ps)"
    "pl_store (first_min option_key p ps) \<noteq> or_store x" by simp_all
  fix q
  assume "q \<in> set rows" "?ok q"
  then have "q \<in> set (filter ?ok rows)" by simp
  then show "option_key (first_min option_key p ps) \<le> option_key q"
    using first_min_le [of q p ps option_key] by (simp add: assms)
qed

text \<open>C35.
  The transfer policy, on every journey for which it answers. It recommends a transfer only for an
  order that is reserved and not yet being made, whose present plan is infeasible (a limit of the
  customer is broken or the store cannot take the drink), and then to the other store whose
  feasible plan is best by arrival, price and store; that plan keeps the customer's budget, detour
  and deadline and arrives strictly before the present one. Every recommendation to stay gives its
  true reason: there is no order, its drink is already being made, its present plan is feasible, no
  other store has a feasible plan, or the best one of them does not arrive earlier.
\<close>

theorem transfer_decision_sound:
  assumes "choose_transfer QH TH s = Inr (target, reason)"
  shows "(case target of
      Some shop \<Rightarrow> reason = TRANSFER \<and> (\<exists>x source rows p. tr_order s = Some x \<and> or_state x = RESERVED
        \<and> current_plan QH TH s x = Inr source \<and> \<not> pl_feasible source \<and> plans QH TH s = Inr rows
        \<and> best_other x rows p \<and> pl_store p = shop \<and> shop \<noteq> or_store x \<and> keeps_limits (tr_intent s) p
        \<and> pl_arrival_at p < pl_arrival_at source)
    | None \<Rightarrow> (case tr_order s of
        None \<Rightarrow> reason = NO_INITIAL_ROUTE
      | Some x \<Rightarrow> if or_state x \<noteq> RESERVED then reason = ALREADY_PREPARING
          else (\<exists>source. current_plan QH TH s x = Inr source \<and>
            (if pl_feasible source then reason = STAY_IS_FEASIBLE
             else (\<exists>rows. plans QH TH s = Inr rows \<and>
               (if infeasible_rows x rows then reason = NO_ELIGIBLE_ALTERNATIVE
                else reason = NO_TIME_GAIN \<and> (\<exists>p. best_other x rows p \<and> pl_arrival_at source \<le> pl_arrival_at p)))))))"
proof (cases "tr_order s")
  case None
  then show ?thesis using assms by (auto simp: choose_transfer_def)
next
  case (Some x)
  show ?thesis
  proof (cases "or_state x = RESERVED")
    case False
    then show ?thesis using assms Some by (auto simp: choose_transfer_def)
  next
    case r: True
    obtain source where src: "current_plan QH TH s x = Inr source"
      using assms Some r by (auto simp: choose_transfer_def bind_ok_Inr)
    show ?thesis
    proof (cases "pl_feasible source")
      case True
      then show ?thesis using assms Some r src by (auto simp: choose_transfer_def)
    next
      case nf: False
      let ?ok = "\<lambda>p. pl_feasible p \<and> pl_store p \<noteq> or_store x"
      obtain rows where rows: "plans QH TH s = Inr rows"
        using assms Some r src nf by (auto simp: choose_transfer_def bind_ok_Inr domain_Inr)
      show ?thesis
      proof (cases "filter ?ok rows")
        case Nil
        then have "infeasible_rows x rows" by (auto simp: infeasible_rows_def filter_empty_conv)
        then show ?thesis using assms Some r src nf rows Nil by (auto simp: choose_transfer_def)
      next
        case (Cons p ps)
        define best where "best = first_min option_key p ps"
        have b: "best_other x rows best" unfolding best_def by (rule best_other_first_min [OF Cons])
        then have k: "keeps_limits (tr_intent s) best" using plans_rows_sound(2) [OF rows] by (simp add: best_other_def)
        have ne: "\<not> infeasible_rows x rows" using b by (auto simp: infeasible_rows_def best_other_def)
        show ?thesis
        proof (cases "pl_arrival_at source \<le> pl_arrival_at best")
          case True
          then have "target = None \<and> reason = NO_TIME_GAIN" using assms Some r src nf rows Cons by (simp add: choose_transfer_def best_def)
          then show ?thesis using Some r src nf rows ne b True by auto
        next
          case late: False
          then have t: "target = Some (pl_store best) \<and> reason = TRANSFER" using assms Some r src nf rows Cons by (simp add: choose_transfer_def best_def)
          moreover have "pl_store best \<noteq> or_store x" using b by (simp add: best_other_def)
          moreover have "\<exists>p. best_other x rows p \<and> pl_store p = pl_store best \<and> keeps_limits (tr_intent s) p \<and> pl_arrival_at p < pl_arrival_at source"
            using late b k by (intro exI [of _ best]) simp
          ultimately show ?thesis using Some r src nf rows by simp
        qed
      qed
    qed
  qed
qed

section \<open>The scores\<close>

lemma count_split: "count_rows P rows = count_rows (\<lambda>r. P r \<and> Q r) rows + count_rows (\<lambda>r. P r \<and> \<not> Q r) rows"
  by (induction rows) (auto simp: count_rows_def)

lemma count_total: "length rows = count_rows P rows + count_rows (\<lambda>r. \<not> P r) rows"
  by (induction rows) (auto simp: count_rows_def)

text \<open>The experiment's summary is balanced: every case is counted once as a win, a loss or a tie,
  wins and losses are exactly the difference between the two policies' punctual arrivals, and
  no case is excluded, also those that had no order to begin with.
\<close>

theorem summary_balanced:
  "let u = summarize rows in
     su_wins u + su_losses u + su_ties u = length rows \<and> su_total u = length rows \<and> su_serviceable u + su_no_route u = length rows
   \<and> su_transfer_on_time u + su_losses u = su_stay_on_time u + su_wins u
   \<and> su_both_late u + su_wins u + su_stay_on_time u = length rows"
proof -
  let ?s = "\<lambda>r. ou_on_time (cr_stay r)" and ?t = "\<lambda>r. ou_on_time (cr_transfer r)"
  have a: "count_rows ?s rows = count_rows (\<lambda>r. ?s r \<and> ?t r) rows + count_rows (\<lambda>r. ?s r \<and> \<not> ?t r) rows" by (rule count_split)
  have b: "count_rows ?t rows = count_rows (\<lambda>r. ?t r \<and> ?s r) rows + count_rows (\<lambda>r. ?t r \<and> \<not> ?s r) rows" by (rule count_split)
  have c: "count_rows (\<lambda>r. ?s r = ?t r) rows = count_rows (\<lambda>r. (?s r = ?t r) \<and> ?s r) rows + count_rows (\<lambda>r. (?s r = ?t r) \<and> \<not> ?s r) rows" by (rule count_split)
  have d: "count_rows (\<lambda>r. \<not> ?s r) rows = count_rows (\<lambda>r. \<not> ?s r \<and> ?t r) rows + count_rows (\<lambda>r. \<not> ?s r \<and> \<not> ?t r) rows" by (rule count_split)
  have e: "length rows = count_rows ?s rows + count_rows (\<lambda>r. \<not> ?s r) rows" by (rule count_total)
  have both: "count_rows (\<lambda>r. ?t r \<and> ?s r) rows = count_rows (\<lambda>r. ?s r \<and> ?t r) rows" "count_rows (\<lambda>r. \<not> ?s r \<and> ?t r) rows = count_rows (\<lambda>r. ?t r \<and> \<not> ?s r) rows"
    "count_rows (\<lambda>r. (?s r = ?t r) \<and> ?s r) rows = count_rows (\<lambda>r. ?s r \<and> ?t r) rows"
    "count_rows (\<lambda>r. (?s r = ?t r) \<and> \<not> ?s r) rows = count_rows (\<lambda>r. \<not> ?s r \<and> \<not> ?t r) rows"
    unfolding count_rows_def by (rule arg_cong [where f = length], rule filter_cong, auto)+
  show ?thesis using a b c d e both length_filter_le [of "\<lambda>r. ou_serviceable (cr_stay r)" rows] by (simp add: summarize_def Let_def)
qed

section \<open>A concrete decision\<close>

definition busy_order :: order where
  "busy_order = \<lparr>or_id = ''o'', or_store = ''corner'', or_state = RESERVED, or_price = 4500, or_pricing = None,
     or_plan = \<lparr>pl_store = ''corner'', pl_walk_to = 5, pl_walk_after = 5, pl_walk_total = 10, pl_detour = 2, pl_wait = 3, pl_price = 4500,
       pl_pricing = sample_quote, pl_start_at = 0, pl_ready_at = 10, pl_pickup_at = 10, pl_arrival_at = 15, pl_margin = 1, pl_prep = 3,
       pl_queue = 7, pl_milk = ''regular'', pl_decaf = False, pl_first_leg = [], pl_second_leg = [], pl_route = [], pl_feasible = True,
       pl_reasons = [], pl_terms = None, pl_quote = ''q''\<rparr>,
     or_ready_at = 10, or_departure_at = 0, or_pickup_code = ''123456'', or_terms = None, or_generation = None, or_picked_up_at = None\<rparr>"

text \<open>The store of the order became busy for 40 minutes.\<close>

definition busy_journey :: journey where
  "busy_journey = sample_journey_start\<lparr>tr_agreement := False, tr_order := Some busy_order,
     tr_stores := map (\<lambda>v. if st_id v = ''corner'' then v\<lparr>st_queue_until := 40\<rparr> else v) STORES\<rparr>"

text \<open>The same order once its drink is being made: it stays.\<close>

definition started_journey :: journey where
  "started_journey = busy_journey\<lparr>tr_order := Some (busy_order\<lparr>or_state := PREPARING\<rparr>)\<rparr>"

theorem transfer_decision_sound_witness:
  "(\<exists>rows p. plans sample_quotes sample_terms_id busy_journey = Inr rows \<and> best_other busy_order rows p \<and> pl_store p = ''wave''
    \<and> choose_transfer sample_quotes sample_terms_id busy_journey = Inr (Some ''wave'', TRANSFER)) \<and>
   choose_transfer sample_quotes sample_terms_id started_journey = Inr (None, ALREADY_PREPARING)"
proof
  have c: "choose_transfer sample_quotes sample_terms_id busy_journey = Inr (Some ''wave'', TRANSFER)" by code_simp
  show "\<exists>rows p. plans sample_quotes sample_terms_id busy_journey = Inr rows \<and> best_other busy_order rows p \<and> pl_store p = ''wave''
    \<and> choose_transfer sample_quotes sample_terms_id busy_journey = Inr (Some ''wave'', TRANSFER)"
    using transfer_decision_sound [OF c] c by (auto simp: busy_journey_def)
  have o: "tr_order started_journey = Some (busy_order\<lparr>or_state := PREPARING\<rparr>)" by (simp add: started_journey_def)
  obtain target reason where d: "choose_transfer sample_quotes sample_terms_id started_journey = Inr (target, reason)"
    by (simp add: choose_transfer_def o)
  show "choose_transfer sample_quotes sample_terms_id started_journey = Inr (None, ALREADY_PREPARING)"
    using transfer_decision_sound [OF d] d by (auto simp: o split: option.splits)
qed

end
