(* ===== verification/Journey_Store.thy ===== *)
theory Journey_Store
  imports Outcomes Payment_Operations
begin

text \<open>
  \<open>store.py\<close>: the views of a journey and its entry points \<open>create\<close>, \<open>command\<close>,
  \<open>_command_local\<close>, \<open>transfer_control\<close> and \<open>payment_control\<close>. A view is computed from the stored
  journey; the seats of the merchants are read from the fleet, or are not when it does not answer.
\<close>

section \<open>Views\<close>

record journey_receipt =
  rt_order :: "string option"
  rt_captures :: nat
  rt_net_paid :: int
  rt_payable :: int
  rt_authorizations :: nat
  rt_transfers :: "journey_event list"
  rt_settlement :: "funding option"
  rt_pricing :: "pricing option"
  rt_discount :: int
  rt_points_spent :: int
  rt_points_earned :: int

record journey_view =
  jv_journey :: journey
  jv_code :: "string option"
  jv_wallet :: wallet_view
  jv_comparison :: comparison
  jv_plans :: "plan list"
  jv_recommendations :: "plan list"
  jv_current :: "plan option"
  jv_risk :: bool
  jv_can_transfer :: bool
  jv_risk_reasons :: "plan_reason list"
  jv_receipt :: journey_receipt
  jv_duplicate :: bool
  jv_capacity :: "(string \<times> shop_snapshot) list option"
  jv_pending :: bool
  jv_pay_state :: "string option"

definition made :: "order \<Rightarrow> bool" where
  "made x \<longleftrightarrow> or_state x \<in> {PREPARING, order_state.READY, PICKED_UP}"

text \<open>The row of an order that is being made: its agreed times, and only the deadline can fail.\<close>

definition viewed_plan :: "journey \<Rightarrow> order \<Rightarrow> plan \<Rightarrow> plan" where
  "viewed_plan s x p =
    (if \<not> made x then p
     else
       (let pickup = (if or_state x = PICKED_UP then (case or_picked_up_at x of None \<Rightarrow> or_ready_at x | Some t \<Rightarrow> t)
              else max (max (tr_clock s) (or_departure_at x + tr_delay s + pl_walk_to p)) (or_ready_at x));
            arrival = pickup + pl_walk_after p; margin = in_deadline (tr_intent s) - arrival;
            reasons = filter (\<lambda>r. r \<notin> {OFFLINE, MENU, DEADLINE}) (pl_reasons p) @ (if margin < 1 then [DEADLINE] else [])
        in p\<lparr>pl_ready_at := or_ready_at x, pl_pickup_at := pickup, pl_arrival_at := arrival, pl_margin := margin,
             pl_reasons := reasons, pl_feasible := (reasons = [])\<rparr>))"

definition order_open :: "journey \<Rightarrow> bool" where
  "order_open s \<longleftrightarrow> (case tr_order s of None \<Rightarrow> False | Some x \<Rightarrow> or_state x \<notin> {CANCELLED, PICKED_UP})"

definition recommended :: "journey \<Rightarrow> plan list \<Rightarrow> plan list" where
  "recommended s rows = (case tr_order s of
     None \<Rightarrow> filter pl_feasible rows
   | Some x \<Rightarrow> if or_state x = RESERVED then filter (\<lambda>p. pl_feasible p \<and> pl_store p \<noteq> or_store x) rows else [])"

definition events_of_kind :: "event_kind \<Rightarrow> journey \<Rightarrow> journey_event list" where
  "events_of_kind k s = filter (\<lambda>e. je_kind e = k) (jo_events s)"

definition event_amount :: "journey_event \<Rightarrow> int" where
  "event_amount e = (case je_data e of Amount_Data n \<Rightarrow> n | Payment_Data p \<Rightarrow> pa_amount p | _ \<Rightarrow> 0)"

definition settlement_of :: "string option \<Rightarrow> journey_event \<Rightarrow> funding option" where
  "settlement_of oid e = (case je_data e of
     Settlement_Data order_id f \<Rightarrow> if oid = None \<or> oid = Some order_id then Some f else None | _ \<Rightarrow> None)"

definition last_settlement :: "journey \<Rightarrow> funding option" where
  "last_settlement s = (case rev (List.map_filter (settlement_of (map_option or_id (tr_order s))) (events_of_kind MERCHANT_SETTLEMENT_SIMULATED s)) of
     [] \<Rightarrow> None | f # _ \<Rightarrow> Some f)"

definition receipt_of :: "journey \<Rightarrow> journey_receipt" where
  "receipt_of s =
    (let captures = events_of_kind PAYMENT_CAPTURED s; pricing = map_option pricing_of (tr_order s)
     in \<lparr>rt_order = map_option or_id (tr_order s), rt_captures = length captures, rt_net_paid = sum_list (map event_amount captures),
         rt_payable = (if order_open s then (case tr_order s of None \<Rightarrow> 0 | Some x \<Rightarrow> or_price x) else 0),
         rt_authorizations = length (events_of_kind PAYMENT_AUTHORIZED s), rt_transfers = events_of_kind ORDER_TRANSFERRED s,
         rt_settlement = last_settlement s, rt_pricing = pricing, rt_discount = (case pricing of None \<Rightarrow> 0 | Some p \<Rightarrow> pr_discount p),
         rt_points_spent = wa_spent (wallet_for s), rt_points_earned = wa_earned (wallet_for s)\<rparr>)"

text \<open>The payment state while an operation is pending.\<close>

definition pending_state :: "public_op option \<Rightarrow> string" where
  "pending_state h =
    (if (case h of None \<Rightarrow> False | Some o' \<Rightarrow> (case po_recovery o' of None \<Rightarrow> False | Some r \<Rightarrow> sc_state r = REVIEW_REQUIRED)) then ''REVIEW_REQUIRED''
     else (case map_option po_phase h of
         Some PAY_AUTHORIZE \<Rightarrow> ''CONFIRMING_APPROVAL''
       | Some PAY_AUTHORIZE_REPLACEMENT \<Rightarrow> ''CONFIRMING_APPROVAL''
       | Some PAY_CAPTURE \<Rightarrow> ''CONFIRMING_CAPTURE''
       | Some PAY_VOID \<Rightarrow> ''CONFIRMING_RELEASE''
       | Some VOID_NEW_AUTH \<Rightarrow> ''CONFIRMING_RELEASE''
       | Some VOID_OLD_AUTH \<Rightarrow> ''CONFIRMING_RELEASE''
       | _ \<Rightarrow> ''MERCHANT_CONFIRMING''))"

text \<open>\<open>online\<close>: the fleet answers its snapshot.\<close>

definition view_journey ::
  "quote_hash \<Rightarrow> (terms \<Rightarrow> string) \<Rightarrow> (journey \<Rightarrow> string) \<Rightarrow> bool \<Rightarrow> fleet \<Rightarrow> bool \<Rightarrow> journey \<Rightarrow> journey_error + journey_view" where
  "view_journey QH TH DH online fl dup s = bind_ok (domain (plans QH TH s)) (\<lambda>rows.
     bind_ok (case tr_order s of None \<Rightarrow> Inr None
         | Some x \<Rightarrow> (case List.find (\<lambda>p. pl_store p = or_store x) rows of None \<Rightarrow> Inl Stop_Iteration | Some p \<Rightarrow> Inr (Some (viewed_plan s x p)))) (\<lambda>current.
     bind_ok (compare_order QH TH DH s) (\<lambda>comparison.
       let rows = (case (tr_order s, current) of
             (Some x, Some cur) \<Rightarrow> if made x then map (\<lambda>p. if pl_store p = or_store x then cur else p) rows else rows
           | _ \<Rightarrow> rows);
           risk = (order_open s \<and> (case current of None \<Rightarrow> False | Some p \<Rightarrow> \<not> pl_feasible p));
           pending = (jo_world s \<noteq> None \<and> jo_active s \<noteq> None)
       in Inr \<lparr>jv_journey = s,
            jv_code = (case tr_order s of None \<Rightarrow> None | Some x \<Rightarrow> if or_state x \<in> {order_state.READY, PICKED_UP} then Some (or_pickup_code x) else None),
            jv_wallet = wallet_view_of s, jv_comparison = comparison, jv_plans = rows,
            jv_recommendations = (if pending then [] else recommended s rows), jv_current = current, jv_risk = risk,
            jv_can_transfer = (\<not> pending \<and> mutable_order s),
            jv_risk_reasons = (case current of None \<Rightarrow> [] | Some p \<Rightarrow> if risk then pl_reasons p else []),
            jv_receipt = receipt_of s, jv_duplicate = dup,
            jv_capacity = (case jo_world s of None \<Rightarrow> None | Some w \<Rightarrow> if online then Some (fleet_snapshot fl w) else Some []),
            jv_pending = pending,
            jv_pay_state = (if jo_protocol s = 2 \<and> pending then Some (pending_state (jo_handoff s)) else None)\<rparr>)))"

section \<open>Entry points\<close>

definition create_journey ::
  "bool \<Rightarrow> string \<Rightarrow> intent \<Rightarrow> string option \<Rightarrow> string \<Rightarrow> payment_fault \<Rightarrow> coordinator \<Rightarrow> journey_error + journey \<times> coordinator" where
  "create_journey payment_enabled uuid i world tok fault co =
    bind_ok (new_state payment_enabled uuid i world tok fault) (\<lambda>s. Inr (s, save s co))"

text \<open>\<open>_command_local\<close>: commands that need neither a merchant nor the provider.\<close>

definition command_local ::
  "(journey_command \<Rightarrow> string) \<Rightarrow> quote_hash \<Rightarrow> (terms \<Rightarrow> string) \<Rightarrow> string \<times> string \<Rightarrow> string \<Rightarrow> journey_command \<Rightarrow> coordinator
    \<Rightarrow> journey_error + (journey \<times> bool) \<times> coordinator" where
  "command_local CH QH TH ids sid c co = (case ids of (order_id, code) \<Rightarrow> bind_ok (load co sid) (\<lambda>s.
     case map_of (co_commands co) (sid, jc_request c) of
       Some fp \<Rightarrow> ensure (fp = CH c) (Conflict ''IDEMPOTENCY_CONFLICT'') (Inr ((s, True), co))
     | None \<Rightarrow> ensure (tr_version s = jc_version c) (Conflict ''STALE_VERSION'')
         (ensure (jo_active s = None) (Conflict ''TRANSFER_PENDING'')
           (bind_ok (apply_action QH TH order_id code c s) (\<lambda>s.
             let s = s\<lparr>tr_version := tr_version s + 1\<rparr>
             in Inr ((s, False), save s (store_command sid c (CH c) co)))))))"

text \<open>What an entry point needs from outside: digests, fresh identifiers, the clock, the networks.\<close>

record outside =
  os_seat_hash :: "json \<Rightarrow> string"
  os_pay_hash :: "json \<Rightarrow> string"
  os_command_hash :: "journey_command \<Rightarrow> string"
  os_control_hash :: "control_command \<Rightarrow> string"
  os_guest_hash :: "string \<Rightarrow> string \<Rightarrow> string"
  os_quote_hash :: quote_hash
  os_terms_hash :: "terms \<Rightarrow> string"
  os_auth_hash :: auth_hash
  os_http :: bool
  os_gateway :: bool
  os_oid :: string
  os_aid :: string
  os_order_id :: string
  os_code :: string
  os_now :: rat
  os_env :: environment
  os_pay_env :: pay_environment

definition local_part :: "outside \<Rightarrow> string \<Rightarrow> journey_command \<Rightarrow> services \<Rightarrow> (journey_error + journey) \<times> services" where
  "local_part x sid c sv = (case command_local (os_command_hash x) (os_quote_hash x) (os_terms_hash x) (os_order_id x, os_code x) sid c (sv_co sv) of
     Inl e \<Rightarrow> (Inl e, sv)
   | Inr ((s, _), co) \<Rightarrow> (Inr s, sv\<lparr>sv_co := co\<rparr>))"

definition command :: "outside \<Rightarrow> string \<Rightarrow> journey_command \<Rightarrow> services \<Rightarrow> (journey_error + journey) \<times> services" where
  "command x sid c sv = (case load (sv_co sv) sid of
     Inl e \<Rightarrow> (Inl e, sv)
   | Inr s \<Rightarrow>
       (case (if jo_protocol s = 2
              then payment_command (os_pay_hash x) (os_gateway x) (os_command_hash x) (os_quote_hash x) (os_terms_hash x) (os_auth_hash x)
                     (os_oid x, os_aid x, os_order_id x, os_code x) (os_now x) (os_pay_env x) sid c sv
              else (case durable_command (os_seat_hash x) (os_http x) (os_command_hash x) (os_quote_hash x) (os_terms_hash x)
                     (os_oid x, os_order_id x, os_code x) (os_now x) (os_env x) sid c (sv_co sv, sv_fleet sv) of
                   (r, co, fl) \<Rightarrow> (r, sv\<lparr>sv_co := co, sv_fleet := fl\<rparr>))) of
          (Inl e, sv') \<Rightarrow> (Inl e, sv')
        | (Inr (Some s'), sv') \<Rightarrow> (Inr s', sv')
        | (Inr None, sv') \<Rightarrow> local_part x sid c sv'))"

definition fault_control :: "(control_command \<Rightarrow> string) \<Rightarrow> string \<Rightarrow> control_command \<Rightarrow> coordinator \<Rightarrow> journey_error + (journey \<times> bool) \<times> coordinator" where
  "fault_control CH sid c co = bind_ok (load co sid) (\<lambda>s.
     ensure (jo_world s \<noteq> None) (Conflict ''LEGACY_JOURNEY'')
      (case map_of (co_controls co) (sid, cc_request c) of
         Some fp \<Rightarrow> ensure (fp = CH c) (Conflict ''IDEMPOTENCY_CONFLICT'') (Inr ((s, True), co))
       | None \<Rightarrow> ensure (tr_version s = cc_version c) (Conflict ''STALE_VERSION'')
          (ensure (jo_active s = None) (Conflict ''TRANSFER_PENDING'')
            (case (cc_action c, cc_fault c) of
               (C_fault, Some f) \<Rightarrow>
                 (let s = s\<lparr>jo_next_fault := f, tr_version := tr_version s + 1\<rparr>
                  in Inr ((s, False), save s (co\<lparr>co_controls := co_controls co @ [((sid, cc_request c), CH c)]\<rparr>)))
             | _ \<Rightarrow> Inl (Conflict ''INVALID_COMMAND'')))))"

definition transfer_control :: "outside \<Rightarrow> string \<Rightarrow> control_command \<Rightarrow> services \<Rightarrow> (journey_error + journey) \<times> services" where
  "transfer_control x sid c sv =
    (if cc_action c \<in> {C_occupy, C_clear} then
       (case durable_control (os_seat_hash x) (os_http x) (os_control_hash x) (os_guest_hash x) (os_oid x) (os_now x) (os_env x) sid c (sv_co sv, sv_fleet sv) of
          (r, co, fl) \<Rightarrow> (r, sv\<lparr>sv_co := co, sv_fleet := fl\<rparr>))
     else (case fault_control (os_control_hash x) sid c (sv_co sv) of
         Inl e \<Rightarrow> (Inl e, sv)
       | Inr ((s, _), co) \<Rightarrow> (Inr s, sv\<lparr>sv_co := co\<rparr>)))"

end
