(* ===== verification/Route_Reconciliation.thy ===== *)
theory Route_Reconciliation
  imports Journey_Store
begin

text \<open>
  \<open>reconciliation.py\<close>: comparing an order with what the merchants and the payment provider
  say, without changing any of them. The two observations, and the journey read before and
  after them, are arguments; \<open>None\<close> is a source that could not be read.
\<close>

datatype check_status = Check_Pending | Check_Unavailable | Check_Match | Check_Mismatch

record observation =
  ob_merchants :: "(string \<times> shop_evidence) list option"
  ob_payment :: "json_obj option"

record recon_report =
  rp_order :: "string option"
  rp_version :: int
  rp_status :: check_status
  rp_terminal :: bool
  rp_stable :: bool
  rp_checks :: "(string \<times> check_status) list"

definition LABELS :: "string list" where
  "LABELS = [''order'', ''merchant'', ''payment'', ''benefits'']"

definition recon_order_id :: "journey \<Rightarrow> string option" where
  "recon_order_id s = (case tr_order s of Some x \<Rightarrow> Some (or_id x)
     | None \<Rightarrow> (case jo_pending_order s of Some oid \<Rightarrow> Some oid | None \<Rightarrow> jo_payment_order s))"

definition all_checks :: "check_status \<Rightarrow> (string \<times> check_status) list" where
  "all_checks c = map (\<lambda>k. (k, c)) LABELS"

definition verdict :: "bool \<Rightarrow> check_status" where
  "verdict ok = (if ok then Check_Match else Check_Mismatch)"

definition report :: "journey \<Rightarrow> check_status \<Rightarrow> bool \<Rightarrow> bool \<Rightarrow> (string \<times> check_status) list \<Rightarrow> recon_report" where
  "report s st fin steady checks = \<lparr>rp_order = recon_order_id s, rp_version = tr_version s, rp_status = st, rp_terminal = fin,
     rp_stable = steady, rp_checks = checks\<rparr>"

definition judged :: "journey \<Rightarrow> bool \<Rightarrow> (string \<times> bool) list \<Rightarrow> recon_report" where
  "judged s fin oks = report s (verdict (\<forall>(k, ok) \<in> set oks. ok)) fin True (map (\<lambda>(k, ok). (k, verdict ok)) oks)"

definition amount_field :: "json_obj \<Rightarrow> string \<Rightarrow> int" where
  "amount_field d k = (case pget d k of JInt n \<Rightarrow> n | _ \<Rightarrow> 0)"

definition reservations :: "(string \<times> shop_evidence) list \<Rightarrow> (string \<times> seat) list" where
  "reservations m = List.map_filter (\<lambda>(shop, e). map_option (\<lambda>x. (shop, x)) (ev_reservation e)) m"

definition shops_in :: "seat_phase list \<Rightarrow> (string \<times> shop_evidence) list \<Rightarrow> string list" where
  "shops_in phases m = map fst (filter (\<lambda>(shop, x). seat_phase x \<in> set phases) (reservations m))"

text \<open>Without an order nothing may be left anywhere.\<close>

definition nothing_left :: "journey \<Rightarrow> (string \<times> shop_evidence) list \<Rightarrow> json_obj \<Rightarrow> (string \<times> bool) list" where
  "nothing_left s m p = (let w = wallet_for s
     in [(''order'', True),
         (''merchant'', \<forall>(shop, x) \<in> set (reservations m). seat_phase x \<in> {Cancelled, Released, Aborted}),
         (''payment'', amount_field p ''captured_krw'' = 0 \<and> amount_field p ''capture_count'' = 0 \<and> amount_field p ''held_krw'' = 0),
         (''benefits'', wa_held_points w = 0 \<and> wa_spent w = 0 \<and> wa_earned w = 0 \<and> wa_held_coupon w = None \<and> wa_used_coupons w = []
            \<and> wa_balance w = INITIAL_POINTS)])"

fun expected_seat :: "order_state \<Rightarrow> seat_phase" where
  "expected_seat RESERVED = Reserved"
| "expected_seat PREPARING = Preparing"
| "expected_seat order_state.READY = Ready"
| "expected_seat PICKED_UP = Claimed"
| "expected_seat CANCELLED = Cancelled"

definition merchant_check :: "order \<Rightarrow> (string \<times> shop_evidence) list \<Rightarrow> bool" where
  "merchant_check x m =
    (let claimed = shops_in [Claimed] m; active = shops_in [Reserved, Held, Frozen, Preparing, Ready] m
     in (case Option.bind (map_of m (or_store x)) ev_reservation of
           None \<Rightarrow> False
         | Some t \<Rightarrow> seat_phase t = expected_seat (or_state x) \<and> Some (seat_generation t) = or_generation x)
       \<and> (if or_state x = PICKED_UP then claimed = [or_store x] \<and> active = []
          else if or_state x = CANCELLED then claimed = [] \<and> active = []
          else active = [or_store x] \<and> claimed = []))"

definition matching_auths :: "authorization option \<Rightarrow> json_obj \<Rightarrow> json list" where
  "matching_auths a p = (case a of None \<Rightarrow> []
     | Some y \<Rightarrow> filter (\<lambda>v. row_field v ''authorization_id'' = JStr (au_id y)) (list_of (pget p ''authorizations'')))"

definition payment_check :: "order \<Rightarrow> authorization option \<Rightarrow> json_obj \<Rightarrow> bool" where
  "payment_check x a p =
    (let done_order = (or_state x \<in> {PICKED_UP, CANCELLED})
     in amount_field p ''captured_krw'' = (if or_state x = PICKED_UP then or_price x else 0)
       \<and> amount_field p ''capture_count'' = (if or_state x = PICKED_UP \<and> 0 < or_price x then 1 else 0)
       \<and> amount_field p ''held_krw'' = (if done_order then 0 else or_price x)
       \<and> (or_price x \<noteq> 0 \<and> or_state x \<noteq> CANCELLED \<longrightarrow> (case (a, matching_auths a p) of
             (Some y, [v]) \<Rightarrow> row_field v ''amount_krw'' = JInt (or_price x) \<and> row_field v ''payment_revision'' = JInt (au_revision y)
               \<and> row_field v ''status'' = JStr (if or_state x = PICKED_UP then ''CAPTURED'' else ''AUTHORIZED'')
           | _ \<Rightarrow> False)))"

definition benefits_check :: "order \<Rightarrow> pricing \<Rightarrow> journey \<Rightarrow> json_obj \<Rightarrow> bool" where
  "benefits_check x q s p =
    (let w = wallet_for s; picked = (or_state x = PICKED_UP); closed = (or_state x \<in> {PICKED_UP, CANCELLED})
     in wa_spent w = (if picked then pr_points q else 0) \<and> wa_earned w = (if picked then pr_earn q else 0)
       \<and> wa_held_points w = (if closed then 0 else pr_points q)
       \<and> length (events_of_kind BENEFITS_CONSUMED s) = (if picked then 1 else 0)
       \<and> wa_balance w = INITIAL_POINTS - wa_spent w + wa_earned w
       \<and> wa_held_coupon w = (if closed then None else pr_coupon q)
       \<and> wa_used_coupons w = (case pr_coupon q of None \<Rightarrow> [] | Some c \<Rightarrow> if picked then [c] else [])
       \<and> (picked \<longrightarrow> amount_field p ''captured_krw'' = or_price x))"

definition journey_authorization :: "journey \<Rightarrow> authorization option" where
  "journey_authorization s = Option.bind (jo_payment s) pv_authorization"

definition compare_sources :: "journey \<Rightarrow> order option \<Rightarrow> journey \<Rightarrow> (string \<times> shop_evidence) list \<Rightarrow> json_obj \<Rightarrow> journey_error + recon_report" where
  "compare_sources s0 ord s1 m p = (case ord of
     None \<Rightarrow> Inr (judged s0 True (nothing_left s1 m p))
   | Some x \<Rightarrow> (case or_pricing x of
       None \<Rightarrow> Inl (Key_Error ''pricing'')
     | Some q \<Rightarrow> Inr (judged s0 (or_state x \<in> {PICKED_UP, CANCELLED})
         [(''order'', jo_first_order s1 = Some (or_id x)), (''merchant'', merchant_check x m),
          (''payment'', payment_check x (journey_authorization s1) p), (''benefits'', benefits_check x q s1 p)])))"

definition same_payment :: "json_obj \<Rightarrow> json_obj \<Rightarrow> bool" where
  "same_payment p q = py_eq (JObj p) (JObj q)"

definition unavailable_checks :: "observation \<Rightarrow> observation \<Rightarrow> (string \<times> check_status) list" where
  "unavailable_checks o0 o1 = map (\<lambda>k. (k,
     if k = ''merchant'' \<and> (ob_merchants o0 = None \<or> ob_merchants o1 = None) \<or> k = ''payment'' \<and> (ob_payment o0 = None \<or> ob_payment o1 = None)
     then Check_Unavailable else Check_Pending)) LABELS"

definition reconcile_order :: "journey \<Rightarrow> observation \<Rightarrow> observation \<Rightarrow> journey \<Rightarrow> journey_error + recon_report" where
  "reconcile_order s0 o0 o1 s1 =
    (if jo_protocol s0 \<noteq> 2 then Inr (report s0 Check_Unavailable False False (all_checks Check_Unavailable))
     else if recon_order_id s0 = None then Inr (report s0 Check_Pending False False (all_checks Check_Pending))
     else (case (ob_merchants o0, ob_payment o0, ob_merchants o1, ob_payment o1) of
         (Some m0, Some p0, Some m1, Some p1) \<Rightarrow>
           (if \<not> (s0 = s1 \<and> m0 = m1 \<and> same_payment p0 p1) then Inr (report s0 Check_Pending False False (all_checks Check_Pending))
            else if jo_active s1 \<noteq> None then Inr (report s0 Check_Pending False True (all_checks Check_Pending))
            else compare_sources s0 (tr_order s0) s1 m1 p1)
       | _ \<Rightarrow> Inr (report s0 Check_Unavailable False False (unavailable_checks o0 o1))))"

text \<open>Reading the sources as the code does, over the network and with no retry.\<close>

definition observe_sources :: "net \<times> bool \<Rightarrow> string \<Rightarrow> string \<Rightarrow> fleet \<times> ledger \<Rightarrow> observation" where
  "observe_sources n w oid st = (case st of (fl, l) \<Rightarrow>
     \<lparr>ob_merchants = (if snd n then Some (fleet_evidence fl w oid) else None),
      ob_payment = (case client_snapshot (fst n) w oid l of Inl e \<Rightarrow> None | Inr d \<Rightarrow> Some d)\<rparr>)"

end
