(* ===== verification/Merchant_Http.thy ===== *)
theory Merchant_Http
  imports Durable_Operations Payment_Domain
begin

text \<open>
  \<open>merchant_http.py\<close>: the authenticated boundary between the coordinator and the merchants.
  The server checks a command completely before it reaches a shop, and drops a reply at most
  once per command when asked to; the client accepts only what is bound to its command. A
  request is a path and a JSON value. Tokens, TLS, headers and the readiness of the storage
  are not modelled.
\<close>

section \<open>Results as JSON\<close>

fun seat_phase_name :: "seat_phase \<Rightarrow> string" where
  "seat_phase_name Reserved = ''RESERVED''"
| "seat_phase_name Frozen = ''FROZEN''"
| "seat_phase_name Held = ''HELD''"
| "seat_phase_name Preparing = ''PREPARING''"
| "seat_phase_name Ready = ''READY''"
| "seat_phase_name Claimed = ''CLAIMED''"
| "seat_phase_name Released = ''RELEASED''"
| "seat_phase_name Aborted = ''ABORTED''"
| "seat_phase_name Cancelled = ''CANCELLED''"

definition seat_fields :: "seat \<Rightarrow> json_obj" where
  "seat_fields s = [(''world'', JStr (seat_world s)), (''order_id'', JStr (seat_order s)), (''generation'', JInt (seat_generation s)),
     (''phase'', JStr (seat_phase_name (seat_phase s))), (''transfer_id'', JStr (seat_transfer s))]"

fun result_obj :: "merchant_result \<Rightarrow> json_obj" where
  "result_obj (Accepted s) = [(''ok'', JBool True), (''code'', JStr ''ACCEPTED''), (''seat'', JObj (seat_fields s))]"
| "result_obj (Failed c ph) = [(''ok'', JBool False), (''code'', JStr (code_name c))]
     @ (if c = COMMAND_CONFLICT then [] else [(''phase'', (case ph of None \<Rightarrow> JNull | Some p \<Rightarrow> JStr (seat_phase_name p)))])"

section \<open>The server\<close>

definition http_actions :: "merchant_action list" where
  "http_actions = [ADMIT, HOLD, FREEZE, UNFREEZE, RELEASE_SOURCE, ACTIVATE, ABORT_TARGET, START, merchant_action.READY, CLAIM, CANCEL]"

definition http_action :: "json \<Rightarrow> merchant_action option" where
  "http_action v = (case v of JStr s \<Rightarrow> List.find (\<lambda>a. action_name a = s) http_actions | _ \<Rightarrow> None)"

definition http_key :: "json \<Rightarrow> string option" where
  "http_key v = (case v of JStr s \<Rightarrow> if is_KEY s then Some s else None | _ \<Rightarrow> None)"

definition http_flag :: "json_obj \<Rightarrow> string \<Rightarrow> bool option" where
  "http_flag d k = (case dget (JBool False) d k of JBool b \<Rightarrow> Some b | _ \<Rightarrow> None)"

definition http_token :: "json \<Rightarrow> string option" where
  "http_token v = (case v of JStr s \<Rightarrow> if s = [] \<or> is_KEY s then Some s else None | _ \<Rightarrow> None)"

definition http_generation :: "json \<Rightarrow> int option" where
  "http_generation v = int_in 0 1000000000 v"

definition required_keys :: "string list" where
  "required_keys = [''shop'', ''world'', ''order_id'', ''generation'', ''operation_id'', ''action'']"

definition optional_keys :: "string list" where
  "optional_keys = [''transfer_id'', ''reject'', ''lose_reply'']"

text \<open>A checked command: the operation id, the payload and whether its reply shall be lost.\<close>

definition http_command :: "string \<Rightarrow> json_obj \<Rightarrow> (string \<times> merchant_payload \<times> bool) option" where
  "http_command world d =
    (if \<not> (set required_keys \<subseteq> set (map fst d) \<and> set (map fst d) \<subseteq> set (required_keys @ optional_keys)) then None
     else (case (http_action (pget d ''action''), http_generation (pget d ''generation''), http_key (pget d ''order_id''),
         http_key (pget d ''operation_id''), http_token (dget (JStr []) d ''transfer_id''), http_flag d ''reject'', http_flag d ''lose_reply'') of
       (Some a, Some g, Some ord, Some op, Some tok, Some rej, Some lose) \<Rightarrow>
         Some (op, \<lparr>mp_world = world, mp_order = ord, mp_generation = g, mp_action = a, mp_transfer = tok, mp_reject = rej\<rparr>, lose)
     | _ \<Rightarrow> None))"

datatype merchant_reply = M_Reply int json | M_Closed

definition m_error :: "int \<Rightarrow> string \<Rightarrow> merchant_reply" where
  "m_error st code = M_Reply st (JObj [(''error'', JStr code)])"

text \<open>The server's state: the fleet, and the commands whose reply was dropped.\<close>

type_synonym merchant_server = "fleet \<times> (string \<times> string) list"

definition reply_command :: "(json \<Rightarrow> string) \<Rightarrow> string \<Rightarrow> string \<times> merchant_payload \<times> bool \<Rightarrow> merchant_server \<Rightarrow> merchant_reply \<times> merchant_server" where
  "reply_command H shop cmd srv = (case cmd of (op, p, lose) \<Rightarrow> case srv of (fl, lost) \<Rightarrow>
     (case fleet_execute H fl shop op p of
        Inl e \<Rightarrow> (m_error 422 ''invalid_merchant_or_world'', srv)
      | Inr (r, fl') \<Rightarrow>
          if lose \<and> result_ok r \<and> (mp_world p, op) \<notin> set lost then (M_Closed, fl', lost @ [(mp_world p, op)])
          else (M_Reply 200 (JObj [(''command_id'', JStr op), (''result'', JObj (result_obj r))]), fl', lost)))"

definition merchant_post :: "(json \<Rightarrow> string) \<Rightarrow> string \<Rightarrow> json \<Rightarrow> merchant_server \<Rightarrow> merchant_reply \<times> merchant_server" where
  "merchant_post H path v srv = (case v of
     JObj d \<Rightarrow>
       if path \<notin> {''/v1/command'', ''/v1/policy''} then (m_error 404 ''not_found'', srv)
       else (case (pget d ''shop'', http_key (pget d ''world'')) of
           (JStr shop, Some world) \<Rightarrow>
             if map_of CAPACITY shop = None then (m_error 422 ''invalid_merchant_or_world'', srv)
             else if path = ''/v1/policy'' then
               (case pget d ''accepting'' of
                  JBool b \<Rightarrow> if set (map fst d) \<noteq> {''shop'', ''world'', ''accepting''} then (m_error 422 ''invalid_policy'', srv)
                    else (case set_accepting (fst srv) shop world b of
                        Inl e \<Rightarrow> (m_error 422 ''invalid_merchant_or_world'', srv)
                      | Inr fl \<Rightarrow> (M_Reply 200 (JObj [(''ok'', JBool True)]), fl, snd srv))
                | _ \<Rightarrow> (m_error 422 ''invalid_policy'', srv))
             else (case http_command world d of None \<Rightarrow> (m_error 422 ''invalid_command'', srv) | Some cmd \<Rightarrow> reply_command H shop cmd srv)
         | _ \<Rightarrow> (m_error 422 ''invalid_merchant_or_world'', srv))
   | _ \<Rightarrow> (m_error 400 ''invalid_json'', srv))"

section \<open>The client\<close>

text \<open>\<open>None\<close> is an \<open>OSError\<close>: the response is not confirmed.\<close>

definition m_request :: "merchant_reply \<Rightarrow> json_obj option" where
  "m_request r = (case r of M_Closed \<Rightarrow> None | M_Reply st v \<Rightarrow> (case v of JObj d \<Rightarrow> if 200 \<le> st \<and> st < 300 then Some d else None | _ \<Rightarrow> None))"

definition command_obj :: "string \<Rightarrow> string \<Rightarrow> merchant_payload \<Rightarrow> bool \<Rightarrow> json_obj" where
  "command_obj shop op p lose = [(''shop'', JStr shop), (''world'', JStr (mp_world p)), (''order_id'', JStr (mp_order p)),
     (''generation'', JInt (mp_generation p)), (''operation_id'', JStr op), (''action'', JStr (action_name (mp_action p))),
     (''transfer_id'', JStr (mp_transfer p)), (''reject'', JBool (mp_reject p)), (''lose_reply'', JBool lose)]"

definition sub_obj :: "json_obj \<Rightarrow> string \<Rightarrow> json_obj option" where
  "sub_obj d k = (if has_key d k then (case pget d k of JObj x \<Rightarrow> Some x | _ \<Rightarrow> None) else Some [])"

definition bound_result :: "string \<Rightarrow> merchant_payload \<Rightarrow> json_obj \<Rightarrow> json_obj option" where
  "bound_result op p d = (case pget d ''result'' of
     JObj r \<Rightarrow>
       if pget d ''command_id'' \<noteq> JStr op then None
       else (case pget r ''ok'' of
           JBool True \<Rightarrow> (case sub_obj r ''seat'' of
               None \<Rightarrow> None
             | Some s \<Rightarrow> if pget s ''world'' = JStr (mp_world p) \<and> pget s ''order_id'' = JStr (mp_order p)
                  \<and> py_eq (pget s ''generation'') (JInt (mp_generation p)) then Some r else None)
         | JBool False \<Rightarrow> Some r
         | _ \<Rightarrow> None)
   | _ \<Rightarrow> None)"

definition http_merchant ::
  "(json \<Rightarrow> string) \<Rightarrow> net \<Rightarrow> string \<Rightarrow> string \<Rightarrow> merchant_payload \<Rightarrow> bool \<Rightarrow> merchant_server \<Rightarrow> json_obj option \<times> merchant_server" where
  "http_merchant H n shop op p lose srv = (case n of
     Unreached \<Rightarrow> (None, srv)
   | Reply_Lost \<Rightarrow> (None, snd (merchant_post H ''/v1/command'' (JObj (command_obj shop op p lose)) srv))
   | Reply \<Rightarrow> (case merchant_post H ''/v1/command'' (JObj (command_obj shop op p lose)) srv of
       (reply, srv') \<Rightarrow> (Option.bind (m_request reply) (bound_result op p), srv')))"

section \<open>The boundary is transparent\<close>

text \<open>The commands the coordinator sends.\<close>

definition sendable :: "string \<Rightarrow> string \<Rightarrow> merchant_payload \<Rightarrow> bool" where
  "sendable shop op p \<longleftrightarrow> map_of CAPACITY shop \<noteq> None \<and> is_KEY (mp_world p) \<and> is_KEY (mp_order p) \<and> is_KEY op
     \<and> 0 \<le> mp_generation p \<and> mp_generation p \<le> 1000000000 \<and> mp_action p \<in> set http_actions
     \<and> (mp_transfer p = [] \<or> is_KEY (mp_transfer p))"

lemma http_action_name [simp]: "a \<in> set http_actions \<Longrightarrow> http_action (JStr (action_name a)) = Some a"
  by (cases a) (simp_all add: http_actions_def http_action_def)

lemma http_key_JStr [simp]: "http_key (JStr s) = (if is_KEY s then Some s else None)"
  by (simp add: http_key_def)

lemma dget_command: "has_key d k \<Longrightarrow> dget v d k = pget d k"
  by (auto simp: has_key_def dget_def pget_def)

lemma http_command_obj:
  assumes "sendable shop op p"
  shows "http_command (mp_world p) (command_obj shop op p lose) = Some (op, p, lose)"
proof -
  let ?d = "command_obj shop op p lose"
  have k: "set required_keys \<subseteq> set (map fst ?d) \<and> set (map fst ?d) \<subseteq> set (required_keys @ optional_keys)"
    by (simp add: required_keys_def optional_keys_def command_obj_def)
  have h: "has_key ?d ''transfer_id''" "has_key ?d ''reject''" "has_key ?d ''lose_reply''" by (simp_all add: has_key_def command_obj_def)
  have g: "pget ?d ''action'' = JStr (action_name (mp_action p))" "pget ?d ''generation'' = JInt (mp_generation p)" "pget ?d ''order_id'' = JStr (mp_order p)"
    "pget ?d ''operation_id'' = JStr op" "pget ?d ''transfer_id'' = JStr (mp_transfer p)" "pget ?d ''reject'' = JBool (mp_reject p)" "pget ?d ''lose_reply'' = JBool lose"
    by (simp_all add: command_obj_def)
  show ?thesis using assms k
    by (simp add: http_command_def g dget_command [OF h(1)] dget_command [OF h(2)] dget_command [OF h(3)] sendable_def http_generation_def
        int_in_def http_token_def http_flag_def)
qed

lemma merchant_post_command:
  assumes s: "sendable shop op p" and e: "fleet_execute H fl shop op p = Inr (r, fl')"
  shows "merchant_post H ''/v1/command'' (JObj (command_obj shop op p lose)) (fl, lost) =
    (if lose \<and> result_ok r \<and> (mp_world p, op) \<notin> set lost then (M_Closed, fl', lost @ [(mp_world p, op)])
     else (M_Reply 200 (JObj [(''command_id'', JStr op), (''result'', JObj (result_obj r))]), fl', lost))"
proof -
  have g: "pget (command_obj shop op p lose) ''shop'' = JStr shop" "pget (command_obj shop op p lose) ''world'' = JStr (mp_world p)"
    by (simp_all add: command_obj_def)
  show ?thesis using s e http_command_obj [OF s]
    by (auto simp: merchant_post_def g sendable_def reply_command_def)
qed

text \<open>A seat of a reply is the seat of the command.\<close>

lemma accepted_bound:
  assumes i: "shop_inv capacity db" and d: "decide_command capacity db p = Accepted s"
  shows "seat_world s = mp_world p \<and> seat_order s = mp_order p \<and> seat_generation s = mp_generation p"
  using d [unfolded decide_command_def]
proof (cases rule: transition_AcceptedE)
  case (move r phases)
  have "((mp_world p, mp_order p), r) \<in> set (seats db)" using move(1) by (simp add: row_of_def map_of_SomeD)
  then have "(mp_world p, mp_order p) = (seat_world r, seat_order r)" using i unfolding shop_inv_def by blast
  then show ?thesis using move by simp
qed simp_all

lemma bound_result_obj:
  assumes "case r of Accepted s \<Rightarrow> seat_world s = mp_world p \<and> seat_order s = mp_order p \<and> seat_generation s = mp_generation p | _ \<Rightarrow> True"
  shows "bound_result op p [(''command_id'', JStr op), (''result'', JObj (result_obj r))] = Some (result_obj r)"
  using assms by (cases r) (simp_all add: bound_result_def sub_obj_def has_key_def seat_fields_def)

text \<open>
  Every receipt of a reachable fleet was written for a command under its key, and an accepted
  one carries the seat of that command.
\<close>

definition fingerprint :: "(json \<Rightarrow> string) \<Rightarrow> merchant_payload \<Rightarrow> string" where
  "fingerprint H p = H (dumps_tree (payload_json p))"

definition seat_bound :: "merchant_payload \<Rightarrow> merchant_result \<Rightarrow> bool" where
  "seat_bound p r \<longleftrightarrow> (case r of Accepted s \<Rightarrow> seat_world s = mp_world p \<and> seat_order s = mp_order p \<and> seat_generation s = mp_generation p
     | Failed _ _ \<Rightarrow> True)"

definition receipts_bound :: "(json \<Rightarrow> string) \<Rightarrow> fleet_command set \<Rightarrow> fleet \<Rightarrow> bool" where
  "receipts_bound H C fl \<longleftrightarrow> (\<forall>shop w k f r. find_receipt (fl shop) (w, k) = Some (f, r) \<longrightarrow>
     (\<exists>p. Execute shop k p \<in> C \<and> mp_world p = w \<and> f = fingerprint H p \<and> seat_bound p r))"

lemma receipts_boundD:
  assumes "receipts_bound H C fl" and "find_receipt (fl shop) (w, k) = Some (f, r)"
  obtains p where "Execute shop k p \<in> C" "mp_world p = w" "f = fingerprint H p" "seat_bound p r"
  using assms unfolding receipts_bound_def by blast

lemma execute_bound:
  assumes i: "shop_inv capacity db" and x: "execute_shop H capacity db op p = (r, db')"
    and n: "find_receipt db (mp_world p, op) = None"
  shows "seat_bound p r"
  using x
proof (cases rule: execute_shop_cases)
  case (accepted s)
  then show ?thesis using accepted_bound [OF i accepted(3)] by (simp add: seat_bound_def)
qed (use n in \<open>simp_all add: seat_bound_def\<close>)

interpretation bound_receipts: checked_steps "fleet_step H" "\<lambda>fl. fleet_inv fl \<and> receipts_bound H C fl" "\<lambda>c. c \<in> C" for H C
proof (unfold_locales, goal_cases)
  case (1 fl c fl')
  then have inv: "fleet_inv fl" and rb: "receipts_bound H C fl" by simp_all
  have "receipts_bound H C fl'"
  proof (cases c)
    case (SetAccepting shop w b)
    then have "find_receipt (fl' sh) k = find_receipt (fl sh) k" for sh k
      using 1(3) by (auto simp: set_accepting_def find_receipt_def split: if_splits)
    then show ?thesis using rb by (simp add: receipts_bound_def)
  next
    case (Execute shop op p)
    then obtain r capacity db where c: "map_of CAPACITY shop = Some capacity" and x: "execute_shop H capacity (fl shop) op p = (r, db)"
      and fl': "fl' = fl(shop := db)"
      using 1(3) by (cases "fleet_execute H fl shop op p") (auto simp: execute_Inr)
    show ?thesis unfolding receipts_bound_def
    proof (intro allI impI)
      fix sh w k f res
      assume a: "find_receipt (fl' sh) (w, k) = Some (f, res)"
      show "\<exists>p. Execute sh k p \<in> C \<and> mp_world p = w \<and> f = fingerprint H p \<and> seat_bound p res"
      proof (cases "find_receipt (fl sh) (w, k)")
        case None
        then have sh: "sh = shop" using a by (auto simp: fl' split: if_splits)
        then have "(w, k) = (mp_world p, op) \<and> (f, res) = (fingerprint H p, r)"
          using a None execute_shop_receipt [OF x, of "(w, k)"] by (auto simp: fl' fingerprint_def split: if_splits)
        moreover have "seat_bound p r" if "find_receipt (fl shop) (mp_world p, op) = None"
          using execute_bound [OF _ x that] fleet_invD [OF inv c] by blast
        ultimately show ?thesis using None sh 1(2) Execute by auto
      next
        case (Some y)
        then have "find_receipt (fl sh) (w, k) = Some (f, res)"
          using a execute_shop_receipt [OF x, of "(w, k)"] by (cases "sh = shop") (auto simp: fl')
        then show ?thesis by (rule receipts_boundD [OF rb]) blast
      qed
    qed
  qed
  then show ?case using fleet_step_inv [OF inv 1(3)] by simp
qed

lemma reachable_receipts: "receipts_bound H (set cmds) (run (fleet_step H) empty_fleet cmds)"
proof -
  have "fleet_inv empty_fleet \<and> receipts_bound H (set cmds) empty_fleet"
    using empty_fleet_inv by (simp add: receipts_bound_def) (simp add: empty_fleet_def empty_shop_def find_receipt_def)
  then show ?thesis using bound_receipts.checked_run_inv [of empty_fleet H "set cmds" cmds] by blast
qed

text \<open>What a call answers is about the command of the call.\<close>

lemma execute_seat_bound:
  assumes x: "execute_shop H capacity (fl shop) op p = (r, db)" and c: "map_of CAPACITY shop = Some capacity"
    and inv: "fleet_inv fl" and rb: "receipts_bound H C fl"
    and nc: "\<And>q. Execute shop op q \<in> C \<Longrightarrow> fingerprint H q = fingerprint H p \<Longrightarrow> q = p"
  shows "seat_bound p r"
proof (cases "find_receipt (fl shop) (mp_world p, op)")
  case None
  then show ?thesis using execute_bound [OF _ x] fleet_invD [OF inv c] by blast
next
  case (Some y)
  obtain f r0 where y: "y = (f, r0)" by (cases y)
  obtain q where q: "Execute shop op q \<in> C" "f = fingerprint H q" "seat_bound q r0"
    using receipts_boundD [OF rb Some [unfolded y]] by blast
  have r: "r = (if f \<noteq> fingerprint H p then Failed COMMAND_CONFLICT None else r0)"
    using x Some y by (auto simp: execute_shop_def Let_def fingerprint_def)
  show ?thesis
  proof (cases "f = fingerprint H p")
    case True
    then have "q = p" using nc q(1,2) by simp
    then show ?thesis using q(3) True by (simp add: r)
  qed (simp add: r seat_bound_def)
qed

text \<open>A repeated call gives the same answer and changes nothing.\<close>

lemma execute_again:
  assumes x: "execute_shop H capacity db op p = (r, db')"
  shows "execute_shop H capacity db' op p = (r, db')"
proof -
  have f: "find_receipt db' (mp_world p, op) = (case find_receipt db (mp_world p, op) of
      None \<Rightarrow> Some (H (dumps_tree (payload_json p)), r) | Some y \<Rightarrow> Some y)"
    using execute_shop_receipt [OF x, of "(mp_world p, op)"] by simp
  show ?thesis
  proof (cases "find_receipt db (mp_world p, op)")
    case None
    then show ?thesis using f by (simp add: execute_shop_def Let_def)
  next
    case (Some y)
    obtain g r0 where y: "y = (g, r0)" by (cases y)
    have "db' = db \<and> r = (if g \<noteq> H (dumps_tree (payload_json p)) then Failed COMMAND_CONFLICT None else r0)"
      using x Some y by (auto simp: execute_shop_def Let_def)
    then show ?thesis using Some y by (simp add: execute_shop_def Let_def)
  qed
qed

text \<open>C34.
  The HTTP boundary is transparent, for first sends and for retries. Take a well-formed command,
  sent to any fleet that was reached by commands, where no other command was executed under its
  operation id with the same digest, and let the shop's result and the fleet after executing it
  directly be given. Then the boundary does exactly that: a request that does not reach the server
  changes nothing; one that does executes the command whether its reply arrives or is lost, and
  a reply that arrives is the shop's result. A reply the server was asked to drop is dropped once,
  for a command that succeeded. And sending the command again after all that gives the shop's
  result and changes nothing.
\<close>

theorem http_boundary_transparent:
  assumes s: "sendable shop op p" and fl: "fl = run (fleet_step H) empty_fleet cmds"
    and nc: "\<And>q. Execute shop op q \<in> set cmds \<Longrightarrow> fingerprint H q = fingerprint H p \<Longrightarrow> q = p"
  shows "\<exists>r fl'. fleet_execute H fl shop op p = Inr (r, fl') \<and>
    (let dropped = lose \<and> result_ok r \<and> (mp_world p, op) \<notin> set lost;
         lost' = (if dropped then lost @ [(mp_world p, op)] else lost)
     in http_merchant H n shop op p lose (fl, lost) =
          (case n of Unreached \<Rightarrow> (None, fl, lost)
           | Reply_Lost \<Rightarrow> (None, fl', lost')
           | Reply \<Rightarrow> (if dropped then None else Some (result_obj r), fl', lost')) \<and>
        http_merchant H Reply shop op p False (fl', lost') = (Some (result_obj r), fl', lost'))"
proof -
  obtain capacity where c: "map_of CAPACITY shop = Some capacity" using s by (auto simp: sendable_def)
  have inv: "fleet_inv fl" unfolding fl by (rule fleet_runs.run_inv [OF empty_fleet_inv])
  obtain r db where e: "execute_shop H capacity (fl shop) op p = (r, db)" by (cases "execute_shop H capacity (fl shop) op p")
  let ?fl = "fl(shop := db)"
  have x: "fleet_execute H fl shop op p = Inr (r, ?fl)" using c e by (simp add: fleet_execute_def)
  have x': "fleet_execute H ?fl shop op p = Inr (r, ?fl)" using c execute_again [OF e] by (simp add: fleet_execute_def)
  have "seat_bound p r" using execute_seat_bound [OF e c inv _ nc] reachable_receipts fl by blast
  then have b: "bound_result op p [(''command_id'', JStr op), (''result'', JObj (result_obj r))] = Some (result_obj r)"
    unfolding seat_bound_def by (intro bound_result_obj) (simp split: merchant_result.splits)
  have post: "merchant_post H ''/v1/command'' (JObj (command_obj shop op p lose)) (fl, lost) =
      (if lose \<and> result_ok r \<and> (mp_world p, op) \<notin> set lost then (M_Closed, ?fl, lost @ [(mp_world p, op)])
       else (M_Reply 200 (JObj [(''command_id'', JStr op), (''result'', JObj (result_obj r))]), ?fl, lost))" for lose lost
    by (rule merchant_post_command [OF s x])
  have again: "http_merchant H Reply shop op p False (?fl, l) = (Some (result_obj r), ?fl, l)" for l
    using merchant_post_command [OF s x', of False l] b by (simp add: http_merchant_def m_request_def)
  have "http_merchant H n shop op p lose (fl, lost) =
      (let dropped = lose \<and> result_ok r \<and> (mp_world p, op) \<notin> set lost;
         lost' = (if dropped then lost @ [(mp_world p, op)] else lost)
       in case n of Unreached \<Rightarrow> (None, fl, lost) | Reply_Lost \<Rightarrow> (None, ?fl, lost')
           | Reply \<Rightarrow> (if dropped then None else Some (result_obj r), ?fl, lost'))"
    using b by (cases n) (simp_all add: http_merchant_def post m_request_def Let_def)
  then show ?thesis using x again by (intro exI [of _ r] exI [of _ ?fl]) (simp add: Let_def)
qed

text \<open>A reply is lost after the seat was taken; the retry, to the fleet that already has the receipt,
  learns that the seat is reserved.\<close>

definition admit_again :: "fleet_command list" where
  "admit_again = [Execute ''oat'' ''k'' (sample_command ''o1'' 0 ADMIT [])]"

theorem http_boundary_transparent_witness:
  "\<exists>s fl'. http_merchant sample_digest Reply_Lost ''oat'' ''k'' (sample_command ''o1'' 0 ADMIT []) False (run (fleet_step sample_digest) empty_fleet [], [])
      = (None, fl', []) \<and> fl' = run (fleet_step sample_digest) empty_fleet admit_again
    \<and> http_merchant sample_digest Reply ''oat'' ''k'' (sample_command ''o1'' 0 ADMIT []) False (run (fleet_step sample_digest) empty_fleet admit_again, [])
      = (Some (result_obj (Accepted s)), run (fleet_step sample_digest) empty_fleet admit_again, [])"
proof -
  let ?p = "sample_command ''o1'' 0 ADMIT []" and ?fl = "run (fleet_step sample_digest) empty_fleet admit_again"
  have s: "sendable ''oat'' ''k'' ?p" by code_simp
  have "case fleet_execute sample_digest empty_fleet ''oat'' ''k'' ?p of Inr (Accepted s, _) \<Rightarrow> True | _ \<Rightarrow> False" by code_simp
  then obtain s fl1 where a: "fleet_execute sample_digest empty_fleet ''oat'' ''k'' ?p = Inr (Accepted s, fl1)"
    by (auto split: sum.splits prod.splits merchant_result.splits)
  have f: "?fl = fl1" by (simp add: admit_again_def a)
  have lost: "http_merchant sample_digest Reply_Lost ''oat'' ''k'' ?p False (run (fleet_step sample_digest) empty_fleet [], []) = (None, ?fl, [])"
    using http_boundary_transparent [OF s refl, of "[]" sample_digest False "[]" Reply_Lost] a by (simp add: Let_def f)
  have nc: "Execute ''oat'' ''k'' q \<in> set admit_again \<Longrightarrow> q = ?p" for q by (simp add: admit_again_def)
  have "http_merchant sample_digest Reply ''oat'' ''k'' ?p False (?fl, []) = (Some (result_obj (Accepted s)), ?fl, [])"
  proof -
    obtain cap where c: "map_of CAPACITY ''oat'' = Some cap" using s by (auto simp: sendable_def)
    then have "execute_shop sample_digest cap (empty_fleet ''oat'') ''k'' ?p = (Accepted s, fl1 ''oat'')"
      using a by (auto simp: fleet_execute_def split: prod.splits)
    then have "fleet_execute sample_digest ?fl ''oat'' ''k'' ?p = Inr (Accepted s, ?fl)"
      using c execute_again [of sample_digest cap "empty_fleet ''oat''" "''k''" ?p "Accepted s" "fl1 ''oat''"]
      by (simp add: f fleet_execute_def)
    then show ?thesis
      using http_boundary_transparent [OF s refl, of admit_again sample_digest False "[]" Reply] nc by (auto simp: Let_def)
  qed
  then show ?thesis using lost by blast
qed

end
