(* ===== verification/Sandbox_Models.thy ===== *)
theory Sandbox_Models
  imports Engine
begin

text \<open>
  The data of the demo sandbox (\<^verbatim>\<open>demo/sandbox.py\<close>): one session with its order, capacity,
  events, ledger batches, pickup pact, merchant delivery and customer history, and the small
  functions on clock texts and amounts. Display texts (titles, details, labels), audit ids and
  the \<open>updated_at\<close> stamps are left out; an audit entry is its action name. Text is the list
  of its UTF-8 bytes.
\<close>

section \<open>Numbers and clock texts\<close>

text \<open>\<open>int(text)\<close>: white space around, a sign, digits with single underscores between them.\<close>

fun digit_groups :: "string \<Rightarrow> bool" where
  "digit_groups [] = False"
| "digit_groups [c] = is_digit c"
| "digit_groups (c # d # s) = (is_digit c \<and> (if d = CHR ''_'' then digit_groups s else digit_groups (d # s)))"

definition py_int :: "string \<Rightarrow> int option" where
  "py_int text = (case split_sign (str_strip text) of (sg, u) \<Rightarrow>
     if digit_groups u then Some (sg * int (nat_of_digits (filter (\<lambda>c. c \<noteq> CHR ''_'') u))) else None)"

text \<open>The won sign is three bytes of UTF-8.\<close>

definition WON :: string where
  "WON = [CHR 0xEC, CHR 0x9B, CHR 0x90]"

fun remove_won :: "string \<Rightarrow> string" where
  "remove_won (a # b # c # s) = (if [a, b, c] = WON then remove_won s else a # remove_won (b # c # s))"
| "remove_won s = s"

text \<open>\<open>None\<close> is \<open>ValueError\<close>.\<close>

definition money :: "json \<Rightarrow> int option" where
  "money v = (if v = JNull then Some 0
     else py_int (remove_won (filter (\<lambda>c. c \<noteq> CHR '','') (py_str v))))"

definition two_digits :: "int \<Rightarrow> string" where
  "two_digits n = (if n < 10 then CHR ''0'' # str_of_int n else str_of_int n)"

definition hhmm :: "int \<Rightarrow> string" where
  "hhmm t = two_digits (t div 60) @ CHR '':'' # two_digits (t mod 60)"

definition shift_hhmm :: "string \<Rightarrow> int \<Rightarrow> string option" where
  "shift_hhmm value minutes =
    (case (py_int (takeWhile (\<lambda>c. c \<noteq> CHR '':'') value), dropWhile (\<lambda>c. c \<noteq> CHR '':'') value) of
       (Some hour, _ # tail) \<Rightarrow>
         (case py_int tail of None \<Rightarrow> None | Some minute \<Rightarrow> Some (hhmm ((hour * 60 + minute + minutes) mod (24 * 60))))
     | _ \<Rightarrow> None)"

text \<open>\<open>_new_pickup_code\<close>: the last four decimal digits of a random 32-bit number.\<close>

definition hex_value :: "char \<Rightarrow> nat" where
  "hex_value c = (let n = of_char c in if n < 58 then n - 48 else n - 87)"

definition int_of_hex :: "string \<Rightarrow> int" where
  "int_of_hex s = foldl (\<lambda>n c. 16 * n + int (hex_value c)) 0 s"

definition pickup_code_of :: "string \<Rightarrow> string" where
  "pickup_code_of uuid =
    (let t = str_of_int (int_of_hex (take 8 uuid) mod 10000) in replicate (4 - length t) (CHR ''0'') @ t)"

section \<open>Times as the events store them\<close>

text \<open>
  Events store ISO texts. A text is its instant (microseconds), its offset (seconds) and
  whether it shows microseconds; \<open>iso_key\<close> is the order of the texts themselves, for years of
  four digits: the local second, then \<open>.\<close> after \<open>+\<close>, the microseconds, and the offset.
\<close>

record demo_time =
  dt_time :: aware_datetime
  dt_micros :: bool

definition utc_now :: "int \<Rightarrow> demo_time" where
  "utc_now t = \<lparr>dt_time = \<lparr>instant = t, utc_offset = 0\<rparr>, dt_micros = True\<rparr>"

definition iso_key :: "demo_time \<Rightarrow> int \<times> int \<times> int \<times> int \<times> int" where
  "iso_key t =
    (let local = instant (dt_time t) + utc_offset (dt_time t) * 1000000; off = utc_offset (dt_time t)
     in (local div 1000000, if dt_micros t then 1 else 0, if dt_micros t then local mod 1000000 else 0,
         if off < 0 then 1 else 0, \<bar>off\<bar>))"

record demo_event =
  dv_id :: string
  dv_aggregate :: string
  dv_type :: event_type
  dv_occurred :: demo_time
  dv_received :: demo_time
  dv_payload :: json_obj

section \<open>The session\<close>

datatype demo_status = O_HELD | O_CONFIRMED | O_AT_RISK | O_CANCELLED | O_PICKED_UP

record demo_order =
  dm_id :: string
  dm_aggregate :: string
  dm_store :: string
  dm_items :: string
  dm_total :: int
  dm_pickup_at :: string
  dm_units :: int
  dm_status :: demo_status
  dm_authorized :: bool
  dm_settled :: bool
  dm_rewarded :: bool
  dm_code :: "string option"
  dm_claimed :: bool

datatype posting_kind = P_SETTLEMENT | P_REVERSE_SETTLEMENT | P_REWARD | P_REVERSE_REWARD

record batch =
  ba_source :: string
  ba_kind :: posting_kind
  ba_amount :: int

fun accounts :: "posting_kind \<Rightarrow> string \<times> string" where
  "accounts P_SETTLEMENT = (''platform-clearing'', ''merchant-payable'')"
| "accounts P_REVERSE_SETTLEMENT = (''merchant-payable'', ''platform-clearing'')"
| "accounts P_REWARD = (''reward-expense'', ''customer-reward-liability'')"
| "accounts P_REVERSE_REWARD = (''customer-reward-liability'', ''reward-expense'')"

definition currency :: "posting_kind \<Rightarrow> string" where
  "currency k = (if k \<in> {P_REWARD, P_REVERSE_REWARD} then ''PTS'' else ''KRW'')"

datatype protection_status = Q_NONE | Q_ON_TIME | Q_SUGGESTED | Q_RESCHEDULED | Q_CANCELLED

record protection =
  pq_status :: protection_status
  pq_original :: "string option"
  pq_suggested :: "string option"

datatype pact_status = PACT_NONE | PACT_ACTIVE | PACT_COMPENSATED | PACT_CANCELLED | PACT_FULFILLED

record pact =
  pt_status :: pact_status
  pt_promised :: "string option"
  pt_latest :: "string option"
  pt_points :: int
  pt_granted :: bool
  pt_version :: int

definition empty_pact :: pact where
  "empty_pact = \<lparr>pt_status = PACT_NONE, pt_promised = None, pt_latest = None, pt_points = 0, pt_granted = False, pt_version = 0\<rparr>"

datatype fulfilment_status = M_NONE | M_RECEIVED | M_ACCEPTED | M_PREPARING | M_READY | M_PICKED_UP | M_CANCELLED

record window =
  wi_minutes :: int
  wi_earliest :: string
  wi_target :: string
  wi_latest :: string

record fulfilment =
  fu_status :: fulfilment_status
  fu_sequence :: nat
  fu_acknowledged :: bool
  fu_redeliveries :: nat
  fu_effects :: "string list"
  fu_anomalies :: "string list"
  fu_window :: "window option"
  fu_quality :: "string option"

definition empty_fulfilment :: fulfilment where
  "empty_fulfilment = \<lparr>fu_status = M_NONE, fu_sequence = 0, fu_acknowledged = False, fu_redeliveries = 0,
     fu_effects = [], fu_anomalies = [], fu_window = None, fu_quality = None\<rparr>"

definition merchant_window :: "string \<Rightarrow> int \<Rightarrow> window option" where
  "merchant_window pickup_at units =
    (let prep = max 1 (min 10 ((units * 45 + 59) div 60)) in
     case shift_hhmm pickup_at (- 1) of None \<Rightarrow> None
     | Some target \<Rightarrow> (case (shift_hhmm target (- (prep + 2)), shift_hhmm pickup_at 3) of
         (Some earliest, Some latest) \<Rightarrow>
           Some \<lparr>wi_minutes = prep, wi_earliest = earliest, wi_target = target, wi_latest = latest\<rparr>
       | _ \<Rightarrow> None))"

record receipt =
  rc_order :: demo_order
  rc_charge :: int
  rc_settlement :: int
  rc_reward :: int
  rc_pact :: pact
  rc_terminal :: bool
  rc_timeline :: "event_type list"

record session =
  se_id :: string
  se_created :: int
  se_order :: "demo_order option"
  se_slot :: string
  se_available :: int
  se_reserved :: int
  se_revision :: int
  se_events :: "demo_event list"
  se_ledger :: "batch list"
  se_audit :: "string list"
  se_applied :: "repair_type list"
  se_manual :: bool
  se_rebuilds :: nat
  se_protection :: protection
  se_pact :: pact
  se_merchant :: fulfilment
  se_history :: "receipt list"

definition new_session :: "string \<Rightarrow> int \<Rightarrow> receipt list \<Rightarrow> session" where
  "new_session sid created history =
    \<lparr>se_id = sid, se_created = created, se_order = None, se_slot = ''12:30'', se_available = 12, se_reserved = 0,
     se_revision = 1, se_events = [], se_ledger = [], se_audit = [], se_applied = [], se_manual = False, se_rebuilds = 0,
     se_protection = \<lparr>pq_status = Q_NONE, pq_original = None, pq_suggested = None\<rparr>, se_pact = empty_pact,
     se_merchant = empty_fulfilment, se_history = history\<rparr>"

datatype sandbox_error = Key_Error | Index_Error | Value_Error string | Py_Raise py_error

end
