(* ===== verification/Sandbox.thy ===== *)
theory Sandbox
  imports Sandbox_Models
begin

text \<open>
  The operations of \<open>DemoStore\<close> (\<^verbatim>\<open>demo/sandbox.py\<close>). An operation returns its reply or the
  exception it raises, and the session as it is then: nothing is rolled back, so what was
  written before an exception stays. \<open>draws\<close> holds the clock readings and the uuids of one call.
\<close>

record draws =
  dr_now :: "nat \<Rightarrow> int"
  dr_uuid :: "nat \<Rightarrow> string"

section \<open>Building blocks\<close>

definition audit :: "string \<Rightarrow> session \<Rightarrow> session" where
  "audit action s = s\<lparr>se_audit := se_audit s @ [action]\<rparr>"

definition event_at :: "string \<Rightarrow> event_type \<Rightarrow> json_obj \<Rightarrow> demo_time \<Rightarrow> demo_time \<Rightarrow> demo_order \<Rightarrow> demo_event" where
  "event_at i ty p occurred received x =
    \<lparr>dv_id = i, dv_aggregate = dm_aggregate x, dv_type = ty, dv_occurred = occurred, dv_received = received, dv_payload = p\<rparr>"

definition append_event :: "demo_event \<Rightarrow> session \<Rightarrow> session" where
  "append_event e s = s\<lparr>se_events := se_events s @ [e]\<rparr>"

definition evt_id :: "draws \<Rightarrow> nat \<Rightarrow> string" where
  "evt_id F k = ''evt-'' @ take 12 (dr_uuid F k)"

text \<open>An event with a fresh id that occurs and is received now.\<close>

definition new_event :: "draws \<Rightarrow> nat \<Rightarrow> event_type \<Rightarrow> json_obj \<Rightarrow> demo_order \<Rightarrow> demo_event" where
  "new_event F k ty p x = event_at (evt_id F k) ty p (utc_now (dr_now F k)) (utc_now (dr_now F k)) x"

definition post :: "posting_kind \<Rightarrow> int \<Rightarrow> string \<Rightarrow> session \<Rightarrow> session" where
  "post kind n source s = s\<lparr>se_ledger := se_ledger s @ [\<lparr>ba_source = source, ba_kind = kind, ba_amount = n\<rparr>]\<rparr>"

definition upd_order :: "(demo_order \<Rightarrow> demo_order) \<Rightarrow> session \<Rightarrow> session" where
  "upd_order f s = s\<lparr>se_order := map_option f (se_order s)\<rparr>"

definition amount_payload :: "int \<Rightarrow> json_obj" where
  "amount_payload n = [(''amount'', JStr (str_of_int n))]"

definition signed_amount :: "posting_kind \<Rightarrow> posting_kind \<Rightarrow> batch \<Rightarrow> int" where
  "signed_amount up down b = (if ba_kind b = up then ba_amount b else if ba_kind b = down then - ba_amount b else 0)"

definition settlement_balance :: "session \<Rightarrow> int" where
  "settlement_balance s = sum_list (map (signed_amount P_SETTLEMENT P_REVERSE_SETTLEMENT) (se_ledger s))"

definition reward_balance :: "session \<Rightarrow> int" where
  "reward_balance s = sum_list (map (signed_amount P_REWARD P_REVERSE_REWARD) (se_ledger s))"

section \<open>Views\<close>

definition envelope_of :: "demo_event \<Rightarrow> event_envelope" where
  "envelope_of e =
    \<lparr>event_id = dv_id e, aggregate_id = dv_aggregate e, event_type = dv_type e, occurred_at = dt_time (dv_occurred e),
     received_at = dt_time (dv_received e), correlation_id = None, causation_id = None, schema_version = 1, payload = dv_payload e\<rparr>"

definition reconcile_session :: "(json \<Rightarrow> string) \<Rightarrow> session \<Rightarrow> sandbox_error + reconcile_result option" where
  "reconcile_session H s =
    (let es = map envelope_of (se_events s) in
     if es = [] then Inr None
     else if \<not> valid_request es then Inl (Value_Error ''ValidationError'')
     else (case reconcile H es of Inl e \<Rightarrow> Inl (Py_Raise e) | Inr r \<Rightarrow> Inr (Some r)))"

record demo_view =
  vw_session :: session
  vw_received_order :: "demo_event list"
  vw_business_order :: "demo_event list"
  vw_reconciliation :: "reconcile_result option"
  vw_repairs :: "(repair_type \<times> bool) list"
  vw_net_settlement :: int
  vw_reward_balance :: int

definition repair_flags :: "session \<Rightarrow> reconcile_result option \<Rightarrow> (repair_type \<times> bool) list" where
  "repair_flags s r = (case r of None \<Rightarrow> [] | Some r \<Rightarrow> map (\<lambda>c. (c, c \<in> set (se_applied s))) (repairs r))"

definition snapshot_of :: "(json \<Rightarrow> string) \<Rightarrow> session \<Rightarrow> sandbox_error + demo_view" where
  "snapshot_of H s = bind_ok (reconcile_session H s) (\<lambda>r. Inr
     \<lparr>vw_session = s, vw_received_order = sort_key (\<lambda>e. (iso_key (dv_received e), dv_id e)) (se_events s),
      vw_business_order = sort_key (\<lambda>e. (iso_key (dv_occurred e), dv_id e)) (se_events s), vw_reconciliation = r,
      vw_repairs = repair_flags s r, vw_net_settlement = settlement_balance s, vw_reward_balance = reward_balance s\<rparr>)"

definition TIMELINE_TYPES :: "event_type list" where
  "TIMELINE_TYPES = [PickupSlotHeld, PaymentAuthorized, CommitmentConfirmed, PickupRescheduled, PickupPactIssued,
     PickupPactRenegotiated, PickupPactBreached, PickupClaimed, CommitmentCancelled, RewardGranted, SettlementReversed, RewardReversed]"

definition customer_timeline :: "session \<Rightarrow> event_type list" where
  "customer_timeline s = filter (\<lambda>ty. ty \<in> set TIMELINE_TYPES) (map dv_type (sort_key (\<lambda>e. (iso_key (dv_occurred e), dv_id e)) (se_events s)))"

definition customer_receipt_of :: "session \<Rightarrow> demo_order \<Rightarrow> receipt" where
  "customer_receipt_of s x =
    \<lparr>rc_order = x, rc_charge = (if dm_status x = O_CANCELLED then 0 else dm_total x), rc_settlement = settlement_balance s,
     rc_reward = reward_balance s, rc_pact = se_pact s, rc_terminal = (dm_status x \<in> {O_CANCELLED, O_PICKED_UP}),
     rc_timeline = customer_timeline s\<rparr>"

fun put_receipt :: "receipt \<Rightarrow> receipt list \<Rightarrow> receipt list option" where
  "put_receipt r [] = None"
| "put_receipt r (h # hs) = (if dm_id (rc_order h) = dm_id (rc_order r) then Some (r # hs) else map_option ((#) h) (put_receipt r hs))"

text \<open>The receipt of a terminal order replaces its older one in the history, or comes first.\<close>

definition archive_order :: "session \<Rightarrow> demo_order \<Rightarrow> (sandbox_error + receipt) \<times> session" where
  "archive_order s x =
    (let r = customer_receipt_of s x in
     if \<not> rc_terminal r then (Inl (Value_Error ''only terminal customer orders can be archived''), s)
     else (Inr r, s\<lparr>se_history := (case put_receipt r (se_history s) of None \<Rightarrow> r # se_history s | Some hs \<Rightarrow> hs)\<rparr>))"

definition customer_receipt :: "string \<Rightarrow> session \<Rightarrow> sandbox_error + receipt" where
  "customer_receipt order_id s =
    (case se_order s of
       Some x \<Rightarrow> if dm_id x = order_id then Inr (customer_receipt_of s x)
                else (case List.find (\<lambda>r. dm_id (rc_order r) = order_id) (se_history s) of None \<Rightarrow> Inl Key_Error | Some r \<Rightarrow> Inr r)
     | None \<Rightarrow> (case List.find (\<lambda>r. dm_id (rc_order r) = order_id) (se_history s) of None \<Rightarrow> Inl Key_Error | Some r \<Rightarrow> Inr r))"

section \<open>Operations\<close>

datatype reply =
    R_State
  | R_Event demo_event
  | R_Decision bool demo_event "demo_event option"
  | R_Posting demo_event batch
  | R_Breach demo_event demo_event
  | R_Repairs "repair_type list" "reconcile_result option"
  | R_Reconciled "reconcile_result option"
  | R_Claim demo_event receipt

type_synonym result = "(sandbox_error + reply \<times> demo_view) \<times> session"

definition refuse :: "string \<Rightarrow> session \<Rightarrow> result" where
  "refuse msg s = (Inl (Value_Error msg), s)"

text \<open>The reply, with the snapshot of the session as it is left.\<close>

definition answer :: "(json \<Rightarrow> string) \<Rightarrow> reply \<Rightarrow> session \<Rightarrow> result" where
  "answer H r s = (case snapshot_of H s of Inl e \<Rightarrow> (Inl e, s) | Inr v \<Rightarrow> (Inr (r, v), s))"

definition with_order :: "(demo_order \<Rightarrow> session \<Rightarrow> result) \<Rightarrow> session \<Rightarrow> result" where
  "with_order f s = (case se_order s of None \<Rightarrow> refuse ''order not found'' s | Some x \<Rightarrow> f x s)"

definition create_order :: "(json \<Rightarrow> string) \<Rightarrow> draws \<Rightarrow> string \<Rightarrow> string \<Rightarrow> int \<Rightarrow> string \<Rightarrow> int \<Rightarrow> session \<Rightarrow> result" where
  "create_order H F shop items amount_due pickup_at units s =
    (if se_order s \<noteq> None then refuse ''reset the demo before creating another order in this session'' s
     else if units < 1 then refuse ''units must be positive'' s
     else if amount_due < 1 then refuse ''total must be positive'' s
     else if units > se_available s then refuse ''requested units exceed current slot capacity'' s
     else
       (let x = \<lparr>dm_id = ''PP-'' @ str_upper (take 6 (dr_uuid F 1)), dm_aggregate = ''order-'' @ take 10 (dr_uuid F 0), dm_store = shop,
              dm_items = items, dm_total = amount_due, dm_pickup_at = pickup_at, dm_units = units, dm_status = O_HELD, dm_authorized = False,
              dm_settled = False, dm_rewarded = False, dm_code = None, dm_claimed = False\<rparr>;
            e = new_event F 2 PickupSlotHeld [(''capacity_units'', JInt units), (''pickup_at'', JStr pickup_at)] x;
            s = append_event e (s\<lparr>se_order := Some x, se_slot := pickup_at, se_reserved := se_reserved s + units,
              se_protection := \<lparr>pq_status = Q_ON_TIME, pq_original = Some pickup_at, pq_suggested = None\<rparr>\<rparr>)
        in answer H (R_Event e) (audit ''ORDER_HELD'' s)))"

definition authorize_payment :: "(json \<Rightarrow> string) \<Rightarrow> draws \<Rightarrow> string option \<Rightarrow> session \<Rightarrow> result" where
  "authorize_payment H F authorization_id = with_order (\<lambda>x s.
     if dm_authorized x then refuse ''payment is already authorized'' s
     else if dm_status x \<noteq> O_HELD then refuse ''payment authorization is allowed only for HELD orders'' s
     else
       (let auth = (case authorization_id of Some a \<Rightarrow> if a = [] then ''auth-'' @ take 10 (dr_uuid F 1) else a
              | None \<Rightarrow> ''auth-'' @ take 10 (dr_uuid F 1));
            e = new_event F 0 PaymentAuthorized [(''authorization_id'', JStr auth), (''amount'', JStr (str_of_int (dm_total x)))] x
        in answer H (R_Event e) (audit ''PAYMENT_AUTHORIZED'' (append_event e (upd_order (\<lambda>x. x\<lparr>dm_authorized := True\<rparr>) s)))))"

definition pact_payload :: "pact \<Rightarrow> json_obj" where
  "pact_payload p = [(''promised_at'', opt_str (pt_promised p)), (''latest_at'', opt_str (pt_latest p)),
     (''compensation_points'', JInt (pt_points p)), (''version'', JInt (pt_version p))]"

definition received_order :: "window \<Rightarrow> fulfilment" where
  "received_order w = \<lparr>fu_status = M_RECEIVED, fu_sequence = 1, fu_acknowledged = False, fu_redeliveries = 0,
     fu_effects = [''NEW_ORDER_NOTIFICATION'', ''POS_PRINT''], fu_anomalies = [], fu_window = Some w, fu_quality = None\<rparr>"

definition issued_pact :: "string \<Rightarrow> string \<Rightarrow> pact" where
  "issued_pact promised latest = \<lparr>pt_status = PACT_ACTIVE, pt_promised = Some promised, pt_latest = Some latest,
     pt_points = 500, pt_granted = False, pt_version = 1\<rparr>"

text \<open>An unreadable pickup time raises after the confirmation was written.\<close>

definition confirm :: "(json \<Rightarrow> string) \<Rightarrow> draws \<Rightarrow> session \<Rightarrow> result" where
  "confirm H F = with_order (\<lambda>x s.
     if dm_status x \<noteq> O_HELD then refuse ''only HELD orders can be confirmed'' s
     else if \<not> dm_authorized x then refuse ''payment authorization is required'' s
     else
       (let code = (case dm_code x of Some c \<Rightarrow> if c = [] then pickup_code_of (dr_uuid F 2) else c | None \<Rightarrow> pickup_code_of (dr_uuid F 2));
            e = new_event F 0 CommitmentConfirmed [(''capacity_units'', JInt (dm_units x)), (''pickup_at'', JStr (dm_pickup_at x))] x;
            s = append_event e (upd_order (\<lambda>x. x\<lparr>dm_status := O_CONFIRMED, dm_code := Some code\<rparr>) s)
        in case shift_hhmm (dm_pickup_at x) 3 of
             None \<Rightarrow> refuse ''invalid literal'' s
           | Some latest \<Rightarrow>
             (let p = issued_pact (dm_pickup_at x) latest;
                  s = audit ''PICKUP_PACT_ISSUED'' (append_event (new_event F 1 PickupPactIssued (pact_payload p) x) (s\<lparr>se_pact := p\<rparr>))
              in case merchant_window (dm_pickup_at x) (dm_units x) of
                   None \<Rightarrow> refuse ''invalid literal'' s
                 | Some w \<Rightarrow> answer H (R_Event e)
                     (audit ''ORDER_CONFIRMED'' (audit ''MERCHANT_ORDER_RECEIVED'' (s\<lparr>se_merchant := received_order w\<rparr>))))))"

fun fulfilment_name :: "fulfilment_status \<Rightarrow> string" where
  "fulfilment_name M_NONE = ''NONE''"
| "fulfilment_name M_RECEIVED = ''RECEIVED''"
| "fulfilment_name M_ACCEPTED = ''ACCEPTED''"
| "fulfilment_name M_PREPARING = ''PREPARING''"
| "fulfilment_name M_READY = ''READY''"
| "fulfilment_name M_PICKED_UP = ''PICKED_UP''"
| "fulfilment_name M_CANCELLED = ''CANCELLED''"

definition free_units :: "demo_order \<Rightarrow> session \<Rightarrow> session" where
  "free_units x s = s\<lparr>se_reserved := max 0 (se_reserved s - dm_units x)\<rparr>"

definition add_anomaly :: "string \<Rightarrow> session \<Rightarrow> session" where
  "add_anomaly a s = (let m = se_merchant s in
     s\<lparr>se_merchant := m\<lparr>fu_anomalies := (if a \<in> set (fu_anomalies m) then fu_anomalies m else fu_anomalies m @ [a])\<rparr>\<rparr>)"

text \<open>Before the confirmation nobody has to agree.\<close>

definition cancel_held :: "(json \<Rightarrow> string) \<Rightarrow> draws \<Rightarrow> demo_time \<Rightarrow> demo_order \<Rightarrow> session \<Rightarrow> result" where
  "cancel_held H F received x s =
    (let e = event_at (evt_id F 0) CommitmentCancelled
           [(''reason'', JStr ''customer_request''), (''authority'', JStr ''commitment_pre_confirmation'')] (utc_now (dr_now F 0)) received x;
         s = append_event e (free_units x (upd_order (\<lambda>x. x\<lparr>dm_status := O_CANCELLED\<rparr>) s))
     in answer H (R_Decision True e None) (audit ''ORDER_CANCELLED'' s))"

definition cancel_approved :: "(json \<Rightarrow> string) \<Rightarrow> draws \<Rightarrow> demo_time \<Rightarrow> demo_event \<Rightarrow> demo_order \<Rightarrow> session \<Rightarrow> result" where
  "cancel_approved H F received request x s =
    (let q = se_protection s; p = se_pact s;
         e = event_at (evt_id F 2) CommitmentCancelled
           [(''reason'', JStr ''customer_request''), (''authority'', JStr ''merchant_fulfillment''), (''request_id'', JStr (dr_uuid F 0))]
           (utc_now (dr_now F 0)) received x;
         s = free_units x (upd_order (\<lambda>x. x\<lparr>dm_status := O_CANCELLED\<rparr>) (s\<lparr>se_merchant := (se_merchant s)\<lparr>fu_status := M_CANCELLED\<rparr>\<rparr>));
         s = s\<lparr>se_protection := \<lparr>pq_status = Q_CANCELLED,
                 pq_original = (case pq_original q of Some t \<Rightarrow> Some (if t = [] then dm_pickup_at x else t) | None \<Rightarrow> Some (dm_pickup_at x)),
                 pq_suggested = pq_suggested q\<rparr>,
               se_pact := (if pt_status p \<in> {PACT_ACTIVE, PACT_COMPENSATED} then p\<lparr>pt_status := PACT_CANCELLED\<rparr> else p)\<rparr>
     in answer H (R_Decision True e (Some request)) (audit ''MERCHANT_CANCELLATION_APPROVED'' (append_event e s)))"

definition cancel_rejected :: "(json \<Rightarrow> string) \<Rightarrow> draws \<Rightarrow> demo_time \<Rightarrow> demo_event \<Rightarrow> demo_order \<Rightarrow> session \<Rightarrow> result" where
  "cancel_rejected H F received request x s =
    (let e = event_at (evt_id F 2) CancellationRejected
           [(''request_id'', JStr (dr_uuid F 0)), (''reason'', JStr ''PREPARATION_ALREADY_STARTED''),
            (''merchant_state'', JStr (fulfilment_name (fu_status (se_merchant s))))] (utc_now (dr_now F 0)) received x
     in answer H (R_Decision False e (Some request))
          (audit ''MERCHANT_CANCELLATION_REJECTED'' (append_event e (add_anomaly ''CANCEL_AFTER_PREPARATION'' s))))"

definition cancel :: "(json \<Rightarrow> string) \<Rightarrow> draws \<Rightarrow> int \<Rightarrow> session \<Rightarrow> result" where
  "cancel H F delay = with_order (\<lambda>x s.
     if dm_status x = O_CANCELLED then refuse ''order is already cancelled'' s
     else if dm_status x \<notin> {O_HELD, O_CONFIRMED, O_AT_RISK} then refuse ''order cannot be cancelled from its current state'' s
     else
       (let received = utc_now (dr_now F 0 + max 0 delay * 1000000) in
        if dm_status x = O_HELD then cancel_held H F received x s
        else
          (let m = fu_status (se_merchant s);
               request = event_at (evt_id F 1) CancellationRequested
                 [(''request_id'', JStr (dr_uuid F 0)), (''reason'', JStr ''customer_request''), (''merchant_state'', JStr (fulfilment_name m))]
                 (utc_now (dr_now F 0)) (utc_now (dr_now F 0)) x;
               s = append_event request s
           in if m \<in> {M_RECEIVED, M_ACCEPTED} then cancel_approved H F received request x s
              else if m \<in> {M_PREPARING, M_READY, M_PICKED_UP} then cancel_rejected H F received request x s
              else refuse ''merchant fulfillment state cannot decide cancellation'' s)))"

text \<open>\<open>amount or order["total"]\<close>: no amount and the amount zero mean the total.\<close>

definition settle :: "(json \<Rightarrow> string) \<Rightarrow> draws \<Rightarrow> int option \<Rightarrow> session \<Rightarrow> result" where
  "settle H F amt = with_order (\<lambda>x s.
     (let n = (case amt of None \<Rightarrow> dm_total x | Some n \<Rightarrow> if n = 0 then dm_total x else n);
          e = new_event F 0 SettlementPosted (amount_payload n) x;
          s = post P_SETTLEMENT n (dv_id e) (upd_order (\<lambda>x. x\<lparr>dm_settled := True\<rparr>) (append_event e s))
      in answer H (R_Posting e (last (se_ledger s))) (audit ''SETTLEMENT_POSTED'' s)))"

definition reward :: "(json \<Rightarrow> string) \<Rightarrow> draws \<Rightarrow> int option \<Rightarrow> session \<Rightarrow> result" where
  "reward H F amt = with_order (\<lambda>x s.
     (let n = (case amt of None \<Rightarrow> max 1 (dm_total x div 100) | Some n \<Rightarrow> n);
          e = new_event F 0 RewardGranted (amount_payload n) x;
          s = post P_REWARD n (dv_id e) (upd_order (\<lambda>x. x\<lparr>dm_rewarded := True\<rparr>) (append_event e s))
      in answer H (R_Posting e (last (se_ledger s))) (audit ''REWARD_GRANTED'' s)))"

definition revise_capacity :: "(json \<Rightarrow> string) \<Rightarrow> draws \<Rightarrow> int \<Rightarrow> session \<Rightarrow> result" where
  "revise_capacity H F available = with_order (\<lambda>x s.
     if available < 0 then refuse ''available_units must be non-negative'' s
     else
       (let s = s\<lparr>se_revision := se_revision s + 1, se_available := available\<rparr>;
            e = new_event F 0 CapacityRevised [(''revision'', JInt (se_revision s)), (''available_units'', JInt available)] x
        in answer H (R_Event e) (audit ''CAPACITY_REVISED'' (append_event e s))))"

text \<open>The last financial event again, under its own id, with its amount or another one.\<close>

definition redeliver_last_financial :: "(json \<Rightarrow> string) \<Rightarrow> draws \<Rightarrow> int option \<Rightarrow> session \<Rightarrow> result" where
  "redeliver_last_financial H F conflicting s =
    (case filter (\<lambda>e. dv_type e \<in> {SettlementPosted, RewardGranted}) (se_events s) of
       [] \<Rightarrow> refuse ''no financial event exists to redeliver'' s
     | es \<Rightarrow>
       (let src = last es;
            p = (case conflicting of None \<Rightarrow> dv_payload src | Some n \<Rightarrow> dput ''amount'' (JStr (str_of_int n)) (dv_payload src))
        in case se_order s of
             None \<Rightarrow> refuse ''order is required before emitting domain events'' s
           | Some x \<Rightarrow>
             (let e = event_at (dv_id src) (dv_type src) p ((dv_occurred src)\<lparr>dt_micros := True\<rparr>) (utc_now (dr_now F 0 + 1000000)) x
              in answer H (R_Event e) (audit ''EVENT_REDELIVERED'' (append_event e s)))))"

definition reconcile_demo :: "(json \<Rightarrow> string) \<Rightarrow> session \<Rightarrow> result" where
  "reconcile_demo H s = (case reconcile_session H s of Inl e \<Rightarrow> (Inl e, s) | Inr r \<Rightarrow> answer H (R_Reconciled r) (audit ''RECONCILED'' s))"

text \<open>
  One repair of the plan. \<open>reverse_last\<close> takes the last posting of its kind: not the targets
  and amounts of the engine's \<open>financial_actions\<close>.
\<close>

definition reverse_last ::
  "draws \<Rightarrow> nat \<Rightarrow> event_type \<Rightarrow> event_type \<Rightarrow> posting_kind \<Rightarrow> (demo_order \<Rightarrow> demo_order) \<Rightarrow> session \<Rightarrow> (sandbox_error + bool) \<times> session" where
  "reverse_last F k posting reversal kind clear s =
    (case (filter (\<lambda>e. dv_type e = posting) (se_events s), se_order s) of
       ([], _) \<Rightarrow> (Inr False, s)
     | (_, None) \<Rightarrow> (Inr False, s)
     | (es, Some x) \<Rightarrow>
       (let src = last es in
        case money (pget (dv_payload src) ''amount'') of
          None \<Rightarrow> (Inl (Value_Error ''invalid literal''), s)
        | Some n \<Rightarrow>
          (let e = new_event F k reversal (amount_payload n @ [(''source_event_id'', JStr (dv_id src))]) x
           in (Inr True, upd_order clear (post kind n (dv_id e) (append_event e s))))))"

definition apply_repair :: "draws \<Rightarrow> repair_type \<Rightarrow> session \<Rightarrow> (sandbox_error + bool) \<times> session" where
  "apply_repair F code s =
    (case code of
       REVERSE_SETTLEMENT \<Rightarrow> reverse_last F 0 SettlementPosted SettlementReversed P_REVERSE_SETTLEMENT (\<lambda>x. x\<lparr>dm_settled := False\<rparr>) s
     | REVERSE_REWARD \<Rightarrow> reverse_last F 1 RewardGranted RewardReversed P_REVERSE_REWARD (\<lambda>x. x\<lparr>dm_rewarded := False\<rparr>) s
     | REBUILD_PROJECTION \<Rightarrow> (Inr True, s\<lparr>se_rebuilds := se_rebuilds s + 1\<rparr>)
     | RESLOT_REVIEW \<Rightarrow>
         (let pickup = (case se_order s of None \<Rightarrow> [] | Some x \<Rightarrow> dm_pickup_at x);
              s = upd_order (\<lambda>x. x\<lparr>dm_status := O_AT_RISK\<rparr>) s
          in case shift_hhmm pickup 5 of
               None \<Rightarrow> (Inl (Value_Error ''invalid literal''), s)
             | Some t \<Rightarrow> (Inr True, audit ''PICKUP_RESLOT_SUGGESTED''
                 (s\<lparr>se_protection := \<lparr>pq_status = Q_SUGGESTED, pq_original = Some pickup, pq_suggested = Some t\<rparr>\<rparr>)))
     | NO_OP_DUPLICATE \<Rightarrow> (Inr True, s)
     | MANUAL_REVIEW \<Rightarrow> (Inr True, s\<lparr>se_manual := True\<rparr>))"

text \<open>The repairs not applied before, in the order of the plan; an exception leaves what was done.\<close>

fun repair_loop :: "draws \<Rightarrow> repair_type list \<Rightarrow> repair_type list \<Rightarrow> session \<Rightarrow> (sandbox_error + repair_type list) \<times> session" where
  "repair_loop F [] applied s = (Inr applied, s)"
| "repair_loop F (code # codes) applied s =
    (if code \<in> set (se_applied s) then repair_loop F codes applied s
     else (case apply_repair F code s of
         (Inl e, s) \<Rightarrow> (Inl e, s)
       | (Inr b, s) \<Rightarrow> repair_loop F codes (if b then applied @ [code] else applied) s))"

definition apply_repairs :: "(json \<Rightarrow> string) \<Rightarrow> draws \<Rightarrow> session \<Rightarrow> result" where
  "apply_repairs H F = with_order (\<lambda>_ s.
     case reconcile_session H s of
       Inl e \<Rightarrow> (Inl e, s)
     | Inr r \<Rightarrow>
       (case repair_loop F (case r of None \<Rightarrow> [] | Some r \<Rightarrow> repairs r) [] s of
          (Inl e, s) \<Rightarrow> (Inl e, s)
        | (Inr applied, s) \<Rightarrow>
          (let s = s\<lparr>se_applied := fold (\<lambda>c cs. if c \<in> set cs then cs else cs @ [c]) applied (se_applied s)\<rparr>;
               s = (if applied = [] then s else audit ''REPAIR_PLAN_APPLIED_IN_SANDBOX'' s);
               s = (case se_order s of None \<Rightarrow> s | Some x \<Rightarrow> if dm_status x = O_CANCELLED then snd (archive_order s x) else s)
           in case reconcile_session H s of
                Inl e \<Rightarrow> (Inl e, s)
              | Inr after \<Rightarrow> answer H (R_Repairs applied after) s)))"

definition breach_pickup_pact :: "(json \<Rightarrow> string) \<Rightarrow> draws \<Rightarrow> session \<Rightarrow> result" where
  "breach_pickup_pact H F = with_order (\<lambda>x s.
     let p = se_pact s in
     if dm_status x \<noteq> O_CONFIRMED then refuse ''pickup pact can be breached only for a confirmed order'' s
     else if pt_status p \<noteq> PACT_ACTIVE then refuse ''no active pickup pact'' s
     else if pt_granted p then refuse ''pickup pact compensation already granted'' s
     else
       (let points = (if pt_points p = 0 then 500 else pt_points p);
            breach = new_event F 0 PickupPactBreached (pact_payload (p\<lparr>pt_points := points\<rparr>)) x;
            granted = new_event F 1 RewardGranted (amount_payload points @ [(''source'', JStr ''pickup_pact_breach'')]) x;
            s = post P_REWARD points (dv_id granted) (append_event granted (append_event breach s));
            s = (upd_order (\<lambda>x. x\<lparr>dm_rewarded := True\<rparr>) s)\<lparr>se_pact := p\<lparr>pt_status := PACT_COMPENSATED, pt_granted := True\<rparr>\<rparr>
        in answer H (R_Breach breach granted) (audit ''PICKUP_PACT_COMPENSATED'' s)))"

definition claim_event :: "draws \<Rightarrow> string \<Rightarrow> demo_order \<Rightarrow> demo_event" where
  "claim_event F code x = new_event F 0 PickupClaimed [(''pickup_code'', JStr code)] x"

definition claimed_session :: "draws \<Rightarrow> string \<Rightarrow> demo_order \<Rightarrow> session \<Rightarrow> session" where
  "claimed_session F code x s =
    (let s = upd_order (\<lambda>x. x\<lparr>dm_claimed := True, dm_status := O_PICKED_UP\<rparr>) (append_event (claim_event F code x) s);
         s = free_units x (s\<lparr>se_merchant := (se_merchant s)\<lparr>fu_status := M_PICKED_UP\<rparr>,
           se_pact := (if pt_status (se_pact s) = PACT_ACTIVE then (se_pact s)\<lparr>pt_status := PACT_FULFILLED\<rparr> else se_pact s)\<rparr>);
         paid = new_event F 1 SettlementPosted (amount_payload (dm_total x) @ [(''source'', JStr ''pickup_claim'')]) x;
         s = post P_SETTLEMENT (dm_total x) (dv_id paid) (upd_order (\<lambda>x. x\<lparr>dm_settled := True\<rparr>) (append_event paid s));
         points = max 1 (dm_total x div 100);
         earned = new_event F 2 RewardGranted (amount_payload points @ [(''source'', JStr ''pickup_claim'')]) x
     in audit ''PICKUP_CLAIMED'' (post P_REWARD points (dv_id earned) (upd_order (\<lambda>x. x\<lparr>dm_rewarded := True\<rparr>) (append_event earned s))))"

definition claim_pickup :: "(json \<Rightarrow> string) \<Rightarrow> draws \<Rightarrow> string \<Rightarrow> session \<Rightarrow> result" where
  "claim_pickup H F code = with_order (\<lambda>x s.
     if dm_claimed x then refuse ''pickup code has already been used'' s
     else if dm_status x \<noteq> O_CONFIRMED then refuse ''pickup is allowed only for a confirmed order'' s
     else if dm_code x = None \<or> dm_code x = Some [] \<or> dm_code x \<noteq> Some code then refuse ''pickup code does not match'' s
     else
       (let s = claimed_session F code x s in
        case se_order s of
          None \<Rightarrow> refuse ''order not found'' s
        | Some x' \<Rightarrow>
          (case archive_order s x' of
             (Inl e, s) \<Rightarrow> (Inl e, s)
           | (Inr r, s) \<Rightarrow> answer H (R_Claim (claim_event F code x) r) s)))"

definition next_customer_order :: "(json \<Rightarrow> string) \<Rightarrow> session \<Rightarrow> result" where
  "next_customer_order H s =
    (if (case se_order s of None \<Rightarrow> False | Some x \<Rightarrow> dm_status x \<notin> {O_CANCELLED, O_PICKED_UP})
     then refuse ''current order is not complete'' s
     else answer H R_State (audit ''CUSTOMER_NEXT_ORDER'' (new_session (se_id s) (se_created s) (se_history s))))"

definition reset_session :: "(json \<Rightarrow> string) \<Rightarrow> session \<Rightarrow> result" where
  "reset_session H s = answer H R_State (audit ''SESSION_RESET'' (new_session (se_id s) (se_created s) []))"

text \<open>The customer accepts the suggested time, or names another one.\<close>

definition reschedule_pact :: "string \<Rightarrow> string \<Rightarrow> pact \<Rightarrow> pact" where
  "reschedule_pact promised latest p = \<lparr>pt_status = PACT_ACTIVE, pt_promised = Some promised, pt_latest = Some latest,
     pt_points = (if pt_points p = 0 then 500 else pt_points p), pt_granted = False, pt_version = max 1 (pt_version p) + 1\<rparr>"

definition reschedule_merchant :: "string \<Rightarrow> int \<Rightarrow> session \<Rightarrow> sandbox_error + session" where
  "reschedule_merchant suggested units s =
    (let m = se_merchant s in
     if fu_status m \<in> {M_RECEIVED, M_ACCEPTED} then
       (case merchant_window suggested units of
          None \<Rightarrow> Inl (Value_Error ''invalid literal'')
        | Some w \<Rightarrow> Inr (s\<lparr>se_merchant := m\<lparr>fu_window := Some w\<rparr>\<rparr>))
     else if fu_status m \<in> {M_PREPARING, M_READY} then Inr (add_anomaly ''RESCHEDULE_AFTER_PREPARATION'' s)
     else Inr s)"

definition asked_slot :: "string option \<Rightarrow> session \<Rightarrow> string option" where
  "asked_slot pickup_at s = (case pickup_at of Some t \<Rightarrow> if t = [] then pq_suggested (se_protection s) else Some t
     | None \<Rightarrow> pq_suggested (se_protection s))"

definition moved_order :: "demo_event \<Rightarrow> string \<Rightarrow> demo_order \<Rightarrow> session \<Rightarrow> session" where
  "moved_order e t x s =
    (upd_order (\<lambda>x. x\<lparr>dm_pickup_at := t, dm_status := O_CONFIRMED\<rparr>) (append_event e s))
      \<lparr>se_slot := t, se_available := max (se_available s) (dm_units x),
       se_protection := \<lparr>pq_status = Q_RESCHEDULED,
         pq_original = (case pq_original (se_protection s) of Some o' \<Rightarrow> Some (if o' = [] then dm_pickup_at x else o') | None \<Rightarrow> Some (dm_pickup_at x)),
         pq_suggested = Some t\<rparr>\<rparr>"

definition renegotiated :: "draws \<Rightarrow> string \<Rightarrow> string \<Rightarrow> demo_order \<Rightarrow> session \<Rightarrow> session" where
  "renegotiated F t latest x s =
    (let p = reschedule_pact t latest (se_pact s)
     in append_event (new_event F 1 PickupPactRenegotiated (pact_payload p) x) (s\<lparr>se_pact := p\<rparr>))"

definition accept_pickup_reschedule :: "(json \<Rightarrow> string) \<Rightarrow> draws \<Rightarrow> string option \<Rightarrow> session \<Rightarrow> result" where
  "accept_pickup_reschedule H F pickup_at = with_order (\<lambda>x s.
     case asked_slot pickup_at s of
       None \<Rightarrow> refuse ''no pickup reschedule is waiting for acceptance'' s
     | Some t \<Rightarrow>
       if pq_status (se_protection s) \<noteq> Q_SUGGESTED \<or> t = [] then refuse ''no pickup reschedule is waiting for acceptance'' s
       else
         (let e = new_event F 0 PickupRescheduled
                [(''from_pickup_at'', JStr (dm_pickup_at x)), (''pickup_at'', JStr t), (''capacity_units'', JInt (dm_units x))] x;
              s = moved_order e t x s
          in case reschedule_merchant t (dm_units x) s of
               Inl err \<Rightarrow> (Inl err, s)
             | Inr s \<Rightarrow>
               (case shift_hhmm t 3 of
                  None \<Rightarrow> refuse ''invalid literal'' s
                | Some latest \<Rightarrow>
                    answer H (R_Event e) (audit ''PICKUP_RESCHEDULE_ACCEPTED'' (audit ''PICKUP_PACT_RENEGOTIATED'' (renegotiated F t latest x s))))))"

section \<open>The merchant's side\<close>

definition merchant_ack :: "(json \<Rightarrow> string) \<Rightarrow> session \<Rightarrow> result" where
  "merchant_ack H s =
    (if fu_status (se_merchant s) = M_NONE then refuse ''merchant order not found'' s
     else answer H R_State (audit ''MERCHANT_DELIVERY_ACK'' (s\<lparr>se_merchant := (se_merchant s)\<lparr>fu_acknowledged := True\<rparr>\<rparr>)))"

definition merchant_redeliver :: "(json \<Rightarrow> string) \<Rightarrow> session \<Rightarrow> result" where
  "merchant_redeliver H s =
    (if fu_status (se_merchant s) = M_NONE then refuse ''merchant order not found'' s
     else answer H R_State (audit ''MERCHANT_DELIVERY_REDELIVERED''
       (s\<lparr>se_merchant := (se_merchant s)\<lparr>fu_redeliveries := fu_redeliveries (se_merchant s) + 1\<rparr>\<rparr>)))"

definition merchant_accept :: "(json \<Rightarrow> string) \<Rightarrow> session \<Rightarrow> result" where
  "merchant_accept H s =
    (if fu_status (se_merchant s) = M_ACCEPTED then answer H R_State s
     else if fu_status (se_merchant s) \<noteq> M_RECEIVED then refuse ''merchant order can be accepted only from RECEIVED'' s
     else answer H R_State (audit ''MERCHANT_ORDER_ACCEPTED'' (s\<lparr>se_merchant := (se_merchant s)\<lparr>fu_status := M_ACCEPTED\<rparr>\<rparr>)))"

definition merchant_start :: "(json \<Rightarrow> string) \<Rightarrow> string \<Rightarrow> session \<Rightarrow> result" where
  "merchant_start H timing s =
    (let t = str_upper timing in
     if fu_status (se_merchant s) \<noteq> M_ACCEPTED then refuse ''preparation can start only from ACCEPTED'' s
     else if t = ''TOO_EARLY'' then refuse ''preparation window has not opened'' s
     else if t \<notin> {''ON_TIME'', ''LATE''} then refuse ''unknown preparation timing'' s
     else
       (let s = s\<lparr>se_merchant := (se_merchant s)\<lparr>fu_status := M_PREPARING\<rparr>\<rparr>;
            s = (if t = ''LATE'' then add_anomaly ''STARTED_LATE'' s else s)
        in answer H R_State (audit ''MERCHANT_PREPARATION_STARTED'' s)))"

text \<open>A late order breaches an active pact; when the breach is refused its exception is the reply.\<close>

definition merchant_ready :: "(json \<Rightarrow> string) \<Rightarrow> draws \<Rightarrow> string \<Rightarrow> session \<Rightarrow> result" where
  "merchant_ready H F timing s =
    (let t = str_upper timing in
     if fu_status (se_merchant s) \<noteq> M_PREPARING then refuse ''order can become READY only from PREPARING'' s
     else if t \<notin> {''EARLY'', ''ON_TIME'', ''LATE''} then refuse ''unknown ready timing'' s
     else
       (let s = s\<lparr>se_merchant := (se_merchant s)\<lparr>fu_status := M_READY, fu_quality := Some t\<rparr>\<rparr>;
            s = (if t = ''EARLY'' then add_anomaly ''READY_TOO_EARLY'' s else if t = ''LATE'' then add_anomaly ''READY_LATE'' s else s);
            s = audit ''MERCHANT_ORDER_READY'' s
        in if t = ''LATE'' \<and> pt_status (se_pact s) = PACT_ACTIVE then
             (case breach_pickup_pact H F s of
                (Inl e, s) \<Rightarrow> (Inl e, s)
              | (Inr _, s) \<Rightarrow> answer H R_State s)
           else answer H R_State s))"

section \<open>Presets\<close>

record scenario =
  sn_order_id :: string
  sn_store :: string
  sn_items :: string
  sn_total :: json
  sn_pickup_at :: string
  sn_events :: "demo_event list"

text \<open>\<open>int(value)\<close> of a payload field.\<close>

definition payload_int :: "json \<Rightarrow> sandbox_error + int" where
  "payload_int v = (case v of
     JInt n \<Rightarrow> Inr n
   | JBool b \<Rightarrow> Inr (if b then 1 else 0)
   | JFloat r _ \<Rightarrow> Inr (if r < 0 then - \<lfloor>- r\<rfloor> else \<lfloor>r\<rfloor>)
   | JStr t \<Rightarrow> (case py_int t of None \<Rightarrow> Inl (Value_Error ''invalid literal'') | Some n \<Rightarrow> Inr n)
   | _ \<Rightarrow> Inl (Py_Raise TypeError))"

definition money_ok :: "json \<Rightarrow> sandbox_error + int" where
  "money_ok v = (case money v of None \<Rightarrow> Inl (Value_Error ''invalid literal'') | Some n \<Rightarrow> Inr n)"

definition scenario_total :: "scenario \<Rightarrow> sandbox_error + int" where
  "scenario_total sc =
    bind_ok (case List.find (\<lambda>e. dv_type e = PaymentAuthorized) (sn_events sc) of
        None \<Rightarrow> Inr 0 | Some e \<Rightarrow> money_ok (pget (dv_payload e) ''amount''))
      (\<lambda>n. if n = 0 then money_ok (sn_total sc) else Inr n)"

definition scenario_units :: "scenario \<Rightarrow> sandbox_error + int" where
  "scenario_units sc =
    (case List.find (\<lambda>e. has_key (dv_payload e) ''capacity_units'') (sn_events sc) of
       None \<Rightarrow> Inr 1 | Some e \<Rightarrow> payload_int (pget (dv_payload e) ''capacity_units''))"

text \<open>Money is booked once per event id. An exception leaves what was seeded before it.\<close>

type_synonym seeding = "(sandbox_error + string list) \<times> session"

definition seed_posting :: "posting_kind \<Rightarrow> (demo_order \<Rightarrow> demo_order) \<Rightarrow> demo_event \<Rightarrow> string list \<Rightarrow> session \<Rightarrow> seeding" where
  "seed_posting kind mark e seen s =
    (let s = upd_order mark s in
     if dv_id e \<in> set seen then (Inr seen, s)
     else (case money_ok (pget (dv_payload e) ''amount'') of
         Inl err \<Rightarrow> (Inl err, s)
       | Inr n \<Rightarrow> (Inr (dv_id e # seen), post kind n (dv_id e) s)))"

definition seed_capacity :: "demo_event \<Rightarrow> string list \<Rightarrow> session \<Rightarrow> seeding" where
  "seed_capacity e seen s =
    (case payload_int (dget (JInt 2) (dv_payload e) ''revision'') of
       Inl err \<Rightarrow> (Inl err, s)
     | Inr new_rev \<Rightarrow>
       (let s = s\<lparr>se_revision := new_rev\<rparr> in
        case payload_int (dget (JInt (se_available s)) (dv_payload e) ''available_units'') of
          Inl err \<Rightarrow> (Inl err, s)
        | Inr av \<Rightarrow> (Inr seen, s\<lparr>se_available := av\<rparr>)))"

definition seed_event :: "demo_event \<Rightarrow> string list \<Rightarrow> session \<Rightarrow> seeding" where
  "seed_event e seen s = (case dv_type e of
     CommitmentCancelled \<Rightarrow> (Inr seen, (upd_order (\<lambda>x. x\<lparr>dm_status := O_CANCELLED\<rparr>) s)\<lparr>se_reserved := 0\<rparr>)
   | SettlementPosted \<Rightarrow> seed_posting P_SETTLEMENT (\<lambda>x. x\<lparr>dm_settled := True\<rparr>) e seen s
   | RewardGranted \<Rightarrow> seed_posting P_REWARD (\<lambda>x. x\<lparr>dm_rewarded := True\<rparr>) e seen s
   | CapacityRevised \<Rightarrow> seed_capacity e seen s
   | _ \<Rightarrow> (Inr seen, s))"

fun seed_events :: "demo_event list \<Rightarrow> string list \<Rightarrow> session \<Rightarrow> seeding" where
  "seed_events [] seen s = (Inr seen, s)"
| "seed_events (e # es) seen s = (case seed_event e seen s of
     (Inl err, s) \<Rightarrow> (Inl err, s)
   | (Inr seen, s) \<Rightarrow> seed_events es seen s)"

definition seeded_order :: "draws \<Rightarrow> scenario \<Rightarrow> int \<Rightarrow> int \<Rightarrow> demo_order" where
  "seeded_order F sc amount_due units =
    \<lparr>dm_id = sn_order_id sc, dm_aggregate = dv_aggregate (hd (sn_events sc)), dm_store = sn_store sc, dm_items = sn_items sc,
     dm_total = amount_due, dm_pickup_at = sn_pickup_at sc, dm_units = units, dm_status = O_CONFIRMED, dm_authorized = True,
     dm_settled = False, dm_rewarded = False, dm_code = Some (pickup_code_of (dr_uuid F 0)), dm_claimed = False\<rparr>"

definition seeded_start :: "draws \<Rightarrow> scenario \<Rightarrow> int \<Rightarrow> int \<Rightarrow> session \<Rightarrow> session" where
  "seeded_start F sc amount_due units s =
    s\<lparr>se_order := Some (seeded_order F sc amount_due units), se_slot := sn_pickup_at sc, se_reserved := units, se_events := sn_events sc,
      se_protection := \<lparr>pq_status = Q_ON_TIME, pq_original = Some (sn_pickup_at sc), pq_suggested = None\<rparr>\<rparr>"

definition seed_from_scenario :: "(json \<Rightarrow> string) \<Rightarrow> draws \<Rightarrow> scenario \<Rightarrow> session \<Rightarrow> result" where
  "seed_from_scenario H F sc s =
    (let s = audit ''SESSION_RESET'' (new_session (se_id s) (se_created s) []) in
     case bind_ok (scenario_total sc) (\<lambda>amount_due. bind_ok (scenario_units sc) (\<lambda>units.
            if sn_events sc = [] then Inl Index_Error else Inr (amount_due, units))) of
       Inl e \<Rightarrow> (Inl e, s)
     | Inr (amount_due, units) \<Rightarrow>
       (case seed_events (sn_events sc) [] (seeded_start F sc amount_due units s) of
          (Inl e, s) \<Rightarrow> (Inl e, s)
        | (Inr _, s) \<Rightarrow> answer H R_State (audit ''PRESET_LOADED'' s)))"

section \<open>The store of sessions\<close>

record demo_store =
  ds_max :: nat
  ds_sessions :: "(string \<times> session) list"

text \<open>A full store drops its oldest sessions, a tenth of its capacity and at least one.\<close>

definition prune :: "demo_store \<Rightarrow> demo_store" where
  "prune st =
    (if length (ds_sessions st) < ds_max st then st
     else (let oldest = take (max 1 (ds_max st div 10)) (sort_key (\<lambda>(_, s). se_created s) (ds_sessions st))
           in st\<lparr>ds_sessions := fold (\<lambda>(k, _). ddel k) oldest (ds_sessions st)\<rparr>))"

definition create_session :: "(json \<Rightarrow> string) \<Rightarrow> draws \<Rightarrow> demo_store \<Rightarrow> (sandbox_error + reply \<times> demo_view) \<times> demo_store" where
  "create_session H F st =
    (case answer H R_State (audit ''SESSION_CREATED'' (new_session (dr_uuid F 0) (dr_now F 0) [])) of
       (r, s) \<Rightarrow> (r, (prune st)\<lparr>ds_sessions := dput (dr_uuid F 0) s (ds_sessions (prune st))\<rparr>))"

definition on_session :: "string \<Rightarrow> (session \<Rightarrow> result) \<Rightarrow> demo_store \<Rightarrow> (sandbox_error + reply \<times> demo_view) \<times> demo_store" where
  "on_session sid f st =
    (case map_of (ds_sessions st) sid of
       None \<Rightarrow> (Inl Key_Error, st)
     | Some s \<Rightarrow> (case f s of (r, s') \<Rightarrow> (r, st\<lparr>ds_sessions := dput sid s' (ds_sessions st)\<rparr>)))"

end
