(* ===== verification/Sandbox_Safety.thy ===== *)
theory Sandbox_Safety
  imports Sandbox
begin

text \<open>
  What every sequence of calls keeps of a sandbox session: one pickup, one set of merchant
  effects, one compensation per pact version, capacity that follows the order, no cancelled
  order in preparation, one receipt per order in the history. Exceptions count as calls, since
  what they wrote stays.
\<close>

section \<open>Calls\<close>

datatype demo_command =
    Create_Order string string int string int
  | Authorize "string option"
  | Confirm
  | Cancel int
  | Settle "int option"
  | Give_Reward "int option"
  | Revise_Capacity int
  | Redeliver "int option"
  | Reconcile
  | Apply_Repairs
  | Breach
  | Claim string
  | Next_Order
  | Reschedule "string option"
  | Ack
  | Redeliver_Order
  | Accept
  | Start string
  | Ready string
  | Reset
  | Seed scenario

fun demo_call :: "(json \<Rightarrow> string) \<Rightarrow> draws \<Rightarrow> demo_command \<Rightarrow> session \<Rightarrow> result" where
  "demo_call H F (Create_Order shop items due pickup units) s = create_order H F shop items due pickup units s"
| "demo_call H F (Authorize a) s = authorize_payment H F a s"
| "demo_call H F Confirm s = confirm H F s"
| "demo_call H F (Cancel d) s = cancel H F d s"
| "demo_call H F (Settle n) s = settle H F n s"
| "demo_call H F (Give_Reward n) s = reward H F n s"
| "demo_call H F (Revise_Capacity n) s = revise_capacity H F n s"
| "demo_call H F (Redeliver n) s = redeliver_last_financial H F n s"
| "demo_call H F Reconcile s = reconcile_demo H s"
| "demo_call H F Apply_Repairs s = apply_repairs H F s"
| "demo_call H F Breach s = breach_pickup_pact H F s"
| "demo_call H F (Claim c) s = claim_pickup H F c s"
| "demo_call H F Next_Order s = next_customer_order H s"
| "demo_call H F (Reschedule t) s = accept_pickup_reschedule H F t s"
| "demo_call H F Ack s = merchant_ack H s"
| "demo_call H F Redeliver_Order s = merchant_redeliver H s"
| "demo_call H F Accept s = merchant_accept H s"
| "demo_call H F (Start t) s = merchant_start H t s"
| "demo_call H F (Ready t) s = merchant_ready H F t s"
| "demo_call H F Reset s = reset_session H s"
| "demo_call H F (Seed sc) s = seed_from_scenario H F sc s"

fun demo_step :: "(json \<Rightarrow> string) \<Rightarrow> session \<Rightarrow> draws \<times> demo_command \<Rightarrow> unit + session" where
  "demo_step H s (F, c) = Inr (snd (demo_call H F c s))"

section \<open>The invariant\<close>

definition count_type :: "event_type \<Rightarrow> session \<Rightarrow> nat" where
  "count_type ty s = length (filter (\<lambda>e. dv_type e = ty) (se_events s))"

definition breach_versions :: "session \<Rightarrow> json list" where
  "breach_versions s = map (\<lambda>e. pget (dv_payload e) ''version'') (filter (\<lambda>e. dv_type e = PickupPactBreached) (se_events s))"

definition POS_EFFECTS :: "string list" where
  "POS_EFFECTS = [''NEW_ORDER_NOTIFICATION'', ''POS_PRINT'']"

abbreviation merchant_status :: "session \<Rightarrow> fulfilment_status" where
  "merchant_status s \<equiv> fu_status (se_merchant s)"

abbreviation closed_facts :: "session \<Rightarrow> nat" where
  "closed_facts s \<equiv> count_type CommitmentCancelled s + count_type PickupClaimed s"

definition versions_ok :: "session \<Rightarrow> bool" where
  "versions_ok s \<longleftrightarrow> distinct (breach_versions s)
     \<and> (\<forall>v \<in> set (breach_versions s). \<exists>n. v = JInt n \<and> n \<le> pt_version (se_pact s) \<and> (n = pt_version (se_pact s) \<longrightarrow> pt_granted (se_pact s)))"

definition effects_ok :: "session \<Rightarrow> bool" where
  "effects_ok s \<longleftrightarrow> fu_effects (se_merchant s) \<in> {[], POS_EFFECTS}"

definition order_ok :: "demo_order \<Rightarrow> session \<Rightarrow> bool" where
  "order_ok x s \<longleftrightarrow>
     0 \<le> dm_units x
   \<and> count_type PickupClaimed s = (if dm_claimed x then 1 else 0)
   \<and> se_reserved s = (if closed_facts s = 0 then dm_units x else 0)
   \<and> (dm_status x = O_CANCELLED \<longrightarrow> merchant_status s \<in> {M_NONE, M_CANCELLED} \<and> 0 < count_type CommitmentCancelled s)
   \<and> (merchant_status s \<in> {M_RECEIVED, M_ACCEPTED, M_PREPARING, M_READY} \<longrightarrow> closed_facts s = 0)
   \<and> (dm_status x = O_HELD \<longrightarrow> merchant_status s = M_NONE \<and> closed_facts s = 0 \<and> breach_versions s = [])"

definition sandbox_inv :: "session \<Rightarrow> bool" where
  "sandbox_inv s \<longleftrightarrow> effects_ok s \<and> versions_ok s \<and> distinct (map (\<lambda>r. dm_id (rc_order r)) (se_history s))
     \<and> (case se_order s of
          None \<Rightarrow> se_events s = [] \<and> se_reserved s = 0 \<and> merchant_status s = M_NONE
        | Some x \<Rightarrow> order_ok x s)"

definition seed_ok :: "scenario \<Rightarrow> bool" where
  "seed_ok sc \<longleftrightarrow> (\<forall>e \<in> set (sn_events sc). dv_type e \<noteq> PickupClaimed \<and> dv_type e \<noteq> PickupPactBreached)
     \<and> (case scenario_units sc of Inl _ \<Rightarrow> True | Inr n \<Rightarrow> 0 \<le> n)
     \<and> is_ok (fst (seed_events (sn_events sc) [] (new_session [] 0 [])))"

definition command_ok :: "draws \<times> demo_command \<Rightarrow> bool" where
  "command_ok c \<longleftrightarrow> (case snd c of Seed sc \<Rightarrow> seed_ok sc | _ \<Rightarrow> True)"

lemmas block_defs = audit_def append_event_def post_def upd_order_def free_units_def add_anomaly_def new_event_def event_at_def

lemma snd_answer [simp]: "snd (answer H r s) = s"
  by (simp add: answer_def split: sum.split)

lemma snd_refuse [simp]: "snd (refuse m s) = s"
  by (simp add: refuse_def)

lemma count_type_Nil: "se_events s = [] \<Longrightarrow> count_type ty s = 0" "se_events s = [] \<Longrightarrow> breach_versions s = []"
  by (simp_all add: count_type_def breach_versions_def)

lemma facts_cong:
  "se_events t = se_events s \<Longrightarrow> count_type ty t = count_type ty s"
  "se_events t = se_events s \<Longrightarrow> breach_versions t = breach_versions s"
  by (simp_all add: count_type_def breach_versions_def)

lemma facts_append:
  "se_events t = se_events s @ [e] \<Longrightarrow> count_type ty t = count_type ty s + (if dv_type e = ty then 1 else 0)"
  "se_events t = se_events s @ [e] \<Longrightarrow> breach_versions t = breach_versions s @ (if dv_type e = PickupPactBreached then [pget (dv_payload e) ''version''] else [])"
  by (simp_all add: count_type_def breach_versions_def)

lemma new_session_inv: "distinct (map (\<lambda>r. dm_id (rc_order r)) hs) \<Longrightarrow> sandbox_inv (audit a (new_session i c hs))"
  by (simp add: sandbox_inv_def audit_def new_session_def effects_ok_def versions_ok_def breach_versions_def empty_fulfilment_def)

text \<open>Calls that touch none of what the invariant reads.\<close>

lemma inv_frame:
  assumes "sandbox_inv s" "se_order t = se_order s" "se_events t = se_events s" "se_reserved t = se_reserved s"
    "se_history t = se_history s" "se_pact t = se_pact s" "fu_effects (se_merchant t) = fu_effects (se_merchant s)"
    "merchant_status t = merchant_status s"
  shows "sandbox_inv t"
proof -
  have "order_ok x t = order_ok x s" for x by (simp only: order_ok_def facts_cong [OF assms(3)] assms(4,8))
  moreover have "versions_ok t = versions_ok s" by (simp only: versions_ok_def facts_cong [OF assms(3)] assms(6))
  ultimately show ?thesis using assms(1) by (cases "se_order s") (simp_all add: sandbox_inv_def effects_ok_def assms(2-8))
qed

lemma audit_inv [simp]: "sandbox_inv (audit a s) = sandbox_inv s"
  by (auto intro: inv_frame [of s] inv_frame [of "audit a s"] simp: audit_def)

text \<open>Appending an event that neither closes the order nor breaches the pact.\<close>

lemma inv_append:
  assumes "sandbox_inv s" "se_order s = Some x" "se_order t = Some y"
    "dm_units y = dm_units x" "dm_claimed y = dm_claimed x" "dm_status y = dm_status x \<or> dm_status y \<in> {O_CONFIRMED, O_AT_RISK}"
    "se_events t = se_events s @ es" "\<forall>e \<in> set es. dv_type e \<notin> {CommitmentCancelled, PickupClaimed, PickupPactBreached}"
    "se_reserved t = se_reserved s" "se_history t = se_history s"
    "pt_version (se_pact t) = pt_version (se_pact s) \<and> pt_granted (se_pact t) = pt_granted (se_pact s) \<or> pt_version (se_pact s) < pt_version (se_pact t) \<or> breach_versions s = []"
    "fu_effects (se_merchant t) = fu_effects (se_merchant s)" "merchant_status t = merchant_status s"
  shows "sandbox_inv t"
proof -
  have c: "count_type CommitmentCancelled t = count_type CommitmentCancelled s" "count_type PickupClaimed t = count_type PickupClaimed s"
    using assms(8) by (auto simp: assms(7) count_type_def filter_empty_conv)
  have b: "breach_versions t = breach_versions s" using assms(8) by (auto simp: assms(7) breach_versions_def filter_empty_conv)
  have v: "versions_ok t" using assms(1,11) by (fastforce simp: sandbox_inv_def versions_ok_def b)
  have x: "order_ok x s" using assms(1,2) by (simp add: sandbox_inv_def)
  have o: "order_ok y t"
  proof (cases "dm_status y = dm_status x")
    case True
    show ?thesis using x unfolding order_ok_def c b assms(4,5,9,13) True .
  next
    case False
    then have "dm_status y \<noteq> O_CANCELLED" "dm_status y \<noteq> O_HELD" using assms(6) by auto
    then show ?thesis using x unfolding order_ok_def c b assms(4,5,9,13) by blast
  qed
  show ?thesis using assms(1,3,10,12) v o by (simp add: sandbox_inv_def effects_ok_def)
qed

section \<open>Every operation keeps it\<close>

lemma with_order_inv:
  assumes "sandbox_inv s" "\<And>x. se_order s = Some x \<Longrightarrow> sandbox_inv (snd (f x s))"
  shows "sandbox_inv (snd (with_order f s))"
  using assms by (simp add: with_order_def split: option.split)

lemma inv_first:
  assumes "sandbox_inv s" "se_order s = None" "se_order t = Some y" "dm_status y = O_HELD" "\<not> dm_claimed y" "0 \<le> dm_units y"
    "se_events t = se_events s @ [e]" "dv_type e = PickupSlotHeld" "se_reserved t = se_reserved s + dm_units y"
    "se_history t = se_history s" "se_pact t = se_pact s" "se_merchant t = se_merchant s"
  shows "sandbox_inv t"
proof -
  have f: "se_events s = []" "se_reserved s = 0" "merchant_status s = M_NONE" using assms(1,2) by (simp_all add: sandbox_inv_def)
  then have "breach_versions t = []" "count_type CommitmentCancelled t = 0" "count_type PickupClaimed t = 0"
    by (simp_all add: breach_versions_def count_type_def assms(7,8))
  then show ?thesis using assms(1) f by (simp add: sandbox_inv_def effects_ok_def versions_ok_def order_ok_def assms(3-6,9-12))
qed

lemma create_order_inv: "sandbox_inv s \<Longrightarrow> sandbox_inv (snd (create_order H F shop items due pickup units s))"
proof -
  assume i: "sandbox_inv s"
  show ?thesis
  proof (cases "se_order s = None \<and> \<not> units < 1 \<and> \<not> due < 1 \<and> \<not> se_available s < units")
    case False
    then show ?thesis using i by (auto simp: create_order_def)
  next
    case True
    show ?thesis by (simp add: create_order_def True Let_def, rule inv_first [OF i]) (use True in \<open>(simp_all add: block_defs)+\<close>)
  qed
qed

lemma demo_authorize_inv: "sandbox_inv s \<Longrightarrow> sandbox_inv (snd (authorize_payment H F a s))"
  unfolding authorize_payment_def
proof (rule with_order_inv, assumption, goal_cases)
  case (1 x)
  then show ?case by (auto simp: Let_def block_defs intro: inv_append [OF 1(1,2)])
qed

lemma demo_settle_inv: "sandbox_inv s \<Longrightarrow> sandbox_inv (snd (settle H F n s))"
  unfolding settle_def
proof (rule with_order_inv, assumption, goal_cases)
  case (1 x)
  then show ?case by (auto simp: Let_def block_defs intro: inv_append [OF 1(1,2)])
qed

lemma reward_inv: "sandbox_inv s \<Longrightarrow> sandbox_inv (snd (reward H F n s))"
  unfolding reward_def
proof (rule with_order_inv, assumption, goal_cases)
  case (1 x)
  then show ?case by (auto simp: Let_def block_defs intro: inv_append [OF 1(1,2)])
qed


lemma inv_merchant:
  assumes "sandbox_inv s" "se_order s = Some x" "se_order t = Some x" "se_events t = se_events s" "se_reserved t = se_reserved s"
    "se_history t = se_history s" "se_pact t = se_pact s" "effects_ok t"
    "merchant_status t \<in> {M_RECEIVED, M_ACCEPTED, M_PREPARING, M_READY} \<longrightarrow> closed_facts s = 0"
    "dm_status x = O_CANCELLED \<longrightarrow> merchant_status t \<in> {M_NONE, M_CANCELLED}" "dm_status x \<noteq> O_HELD"
  shows "sandbox_inv t"
proof -
  have "order_ok x s" using assms(1,2) by (simp add: sandbox_inv_def)
  then have "order_ok x t" using assms(9-11) unfolding order_ok_def facts_cong [OF assms(4)] assms(5) by blast
  moreover have "versions_ok t = versions_ok s" by (simp only: versions_ok_def facts_cong [OF assms(4)] assms(7))
  ultimately show ?thesis using assms(1,8) by (simp add: sandbox_inv_def assms(3,6))
qed

lemma revise_inv: "sandbox_inv s \<Longrightarrow> sandbox_inv (snd (revise_capacity H F n s))"
  unfolding revise_capacity_def
proof (rule with_order_inv, assumption, goal_cases)
  case (1 x)
  then show ?case by (auto simp: Let_def block_defs intro: inv_append [OF 1(1,2)])
qed

lemma redeliver_inv:
  assumes "sandbox_inv s"
  shows "sandbox_inv (snd (redeliver_last_financial H F n s))"
proof (cases "filter (\<lambda>e. dv_type e \<in> {SettlementPosted, RewardGranted}) (se_events s)")
  case Nil
  then show ?thesis using assms by (simp add: redeliver_last_financial_def)
next
  case (Cons e es)
  have "last (e # es) \<in> set (e # es)" by (rule last_in_set) simp
  then have "last (e # es) \<in> set (filter (\<lambda>e. dv_type e \<in> {SettlementPosted, RewardGranted}) (se_events s))" by (simp only: Cons)
  then have ty: "dv_type (last (e # es)) \<in> {SettlementPosted, RewardGranted}" by simp
  show ?thesis
  proof (cases "se_order s")
    case None
    then show ?thesis using assms unfolding redeliver_last_financial_def Cons by (simp add: Let_def)
  next
    case (Some x)
    then show ?thesis using ty unfolding redeliver_last_financial_def Cons by (auto simp: Let_def block_defs intro: inv_append [OF assms Some])
  qed
qed

lemma audit_merchant: "(audit a s)\<lparr>se_merchant := m\<rparr> = audit a (s\<lparr>se_merchant := m\<rparr>)"
  by (cases s) (simp add: audit_def)

lemma confirm_inv: "sandbox_inv s \<Longrightarrow> sandbox_inv (snd (confirm H F s))"
  unfolding confirm_def
proof (rule with_order_inv, assumption, goal_cases)
  case (1 x)
  show ?case
  proof (cases "dm_status x = O_HELD \<and> dm_authorized x")
    case False
    then show ?thesis using 1(1) by auto
  next
    case True
    have held: "closed_facts s = 0" "breach_versions s = []" using 1 True by (auto simp: sandbox_inv_def order_ok_def)
    define code where "code = (case dm_code x of Some c \<Rightarrow> if c = [] then pickup_code_of (dr_uuid F 2) else c | None \<Rightarrow> pickup_code_of (dr_uuid F 2))"
    define e where "e = new_event F 0 CommitmentConfirmed [(''capacity_units'', JInt (dm_units x)), (''pickup_at'', JStr (dm_pickup_at x))] x"
    define t where "t = append_event e (upd_order (\<lambda>x. x\<lparr>dm_status := O_CONFIRMED, dm_code := Some code\<rparr>) s)"
    have t: "sandbox_inv t" unfolding t_def e_def using 1 by (auto simp: block_defs intro!: inv_append [OF 1(1,2)])
    define y where "y = x\<lparr>dm_status := O_CONFIRMED, dm_code := Some code\<rparr>"
    have y: "se_order t = Some y" using 1(2) by (simp add: t_def y_def block_defs)
    have facts: "closed_facts t = 0" "breach_versions t = []" using held by (simp_all add: t_def e_def block_defs count_type_def breach_versions_def)
    have u: "sandbox_inv (append_event (new_event F 1 PickupPactIssued (pact_payload p) x) (t\<lparr>se_pact := p\<rparr>))" for p
      using facts y by (auto simp: block_defs intro!: inv_append [OF t y])
    have facts': "closed_facts (append_event (new_event F 1 PickupPactIssued (pact_payload p) x) (t\<lparr>se_pact := p\<rparr>)) = 0" for p
      using facts by (simp add: block_defs count_type_def)
    have v: "sandbox_inv ((append_event (new_event F 1 PickupPactIssued (pact_payload p) x) (t\<lparr>se_pact := p\<rparr>))\<lparr>se_merchant := received_order w\<rparr>)" for p w
      using y facts' [of p] by (intro inv_merchant [OF u, of p y]) (simp_all add: append_event_def effects_ok_def received_order_def POS_EFFECTS_def facts_cong y_def count_type_def)
    show ?thesis using True t u v unfolding t_def
      by (simp add: Let_def flip: code_def e_def) (auto simp: Let_def audit_merchant split: option.split)
  qed
qed


lemma inv_pact_status: "sandbox_inv (s\<lparr>se_pact := (se_pact s)\<lparr>pt_status := p\<rparr>\<rparr>) = sandbox_inv s"
  by (simp add: sandbox_inv_def effects_ok_def versions_ok_def order_ok_def count_type_def breach_versions_def cong: option.case_cong)

text \<open>An order that no fact closed yet becomes cancelled: its capacity is free.\<close>

lemma inv_cancelled:
  assumes "sandbox_inv s" "se_order s = Some x" "closed_facts s = 0" "dm_units x = dm_units y" "dm_claimed y = dm_claimed x" "dm_status y = O_CANCELLED"
    "se_order t = Some y" "se_events t = se_events s @ es @ [e]" "dv_type e = CommitmentCancelled" "\<forall>e \<in> set es. dv_type e = CancellationRequested"
    "se_reserved t = max 0 (se_reserved s - dm_units x)" "se_history t = se_history s"
    "pt_version (se_pact t) = pt_version (se_pact s)" "pt_granted (se_pact t) = pt_granted (se_pact s)"
    "fu_effects (se_merchant t) = fu_effects (se_merchant s)" "merchant_status t \<in> {M_NONE, M_CANCELLED}"
  shows "sandbox_inv t"
proof -
  have x: "order_ok x s" using assms(1,2) by (simp add: sandbox_inv_def)
  have c: "count_type CommitmentCancelled t = Suc (count_type CommitmentCancelled s)" "count_type PickupClaimed t = count_type PickupClaimed s"
    using assms(9,10) by (auto simp: assms(8) count_type_def filter_empty_conv)
  have b: "breach_versions t = breach_versions s" using assms(9,10) by (auto simp: assms(8) breach_versions_def filter_empty_conv)
  have "\<not> dm_claimed x" "se_reserved s = dm_units x" "0 \<le> dm_units x" "count_type PickupClaimed s = 0"
    using x assms(3) by (auto simp: order_ok_def split: if_split_asm)
  then have "order_ok y t" using assms(4-6,16) by (elim insertE) (simp_all add: order_ok_def c b assms(11))
  moreover have "versions_ok t" using assms(1) by (simp add: sandbox_inv_def versions_ok_def b assms(13,14))
  ultimately show ?thesis using assms(1) by (simp add: sandbox_inv_def effects_ok_def assms(7,12,15))
qed

lemma demo_cancel_inv: "sandbox_inv s \<Longrightarrow> sandbox_inv (snd (cancel H F d s))"
  unfolding cancel_def
proof (rule with_order_inv, assumption, goal_cases)
  case (1 x)
  have o: "order_ok x s" using 1 by (simp add: sandbox_inv_def)
  have request: "sandbox_inv (append_event r s)" if "dv_type r = CancellationRequested" for r
    using that 1(2) by (auto simp: append_event_def intro!: inv_append [OF 1(1,2)])
  have open': "closed_facts s = 0" if "dm_status x = O_HELD \<or> merchant_status s \<in> {M_RECEIVED, M_ACCEPTED}"
    using o that unfolding order_ok_def by blast
  have none: "merchant_status s = M_NONE" if "dm_status x = O_HELD" using o that unfolding order_ok_def by blast
  have held: "sandbox_inv (snd (cancel_held H F rc x s))" if "dm_status x = O_HELD" for rc
    using 1(2) none [OF that] unfolding cancel_held_def Let_def snd_answer audit_inv
    by (intro inv_cancelled [OF 1(1,2) open' [OF disjI1 [OF that]], of "x\<lparr>dm_status := O_CANCELLED\<rparr>" _ "[]"]) (simp add: that block_defs)+
  have approved: "sandbox_inv (snd (cancel_approved H F rc r x (append_event r s)))"
    if "merchant_status s \<in> {M_RECEIVED, M_ACCEPTED}" "dv_type r = CancellationRequested" for rc r
    using 1(2) unfolding cancel_approved_def Let_def snd_answer audit_inv
    by (intro inv_cancelled [OF 1(1,2) open' [OF disjI2 [OF that(1)]], of "x\<lparr>dm_status := O_CANCELLED\<rparr>" _ "[r]"]) (simp add: that(2) block_defs)+
  have rejected: "sandbox_inv (snd (cancel_rejected H F rc r x (append_event r s)))" if "dv_type r = CancellationRequested" for rc r
    using 1(2) unfolding cancel_rejected_def Let_def snd_answer audit_inv
    by (intro inv_append [OF 1(1,2), where es = "[r, e]" for e]) (simp add: that block_defs Let_def)+
  show ?case using 1(1) held approved rejected request by (auto simp: Let_def event_at_def)
qed

text \<open>One more breach, of a version that was not breached before.\<close>

lemma inv_breach:
  assumes "sandbox_inv s" "se_order s = Some x" "JInt (pt_version (se_pact s)) \<notin> set (breach_versions s)" "dm_status x = O_CONFIRMED" "se_order t = Some y"
    "dm_units y = dm_units x" "dm_claimed y = dm_claimed x" "dm_status y = dm_status x"
    "se_events t = se_events s @ [b, r]" "dv_type b = PickupPactBreached" "pget (dv_payload b) ''version'' = JInt (pt_version (se_pact s))" "dv_type r = RewardGranted"
    "se_reserved t = se_reserved s" "se_history t = se_history s" "pt_version (se_pact t) = pt_version (se_pact s)" "pt_granted (se_pact t)"
    "se_merchant t = se_merchant s"
  shows "sandbox_inv t"
proof -
  have c: "count_type CommitmentCancelled t = count_type CommitmentCancelled s" "count_type PickupClaimed t = count_type PickupClaimed s"
    by (simp_all add: count_type_def assms(9,10,12))
  have v: "breach_versions t = breach_versions s @ [JInt (pt_version (se_pact s))]" by (simp add: breach_versions_def assms(9-12))
  have not_held: "dm_status x \<noteq> O_HELD" by (simp add: assms(4))
  have "versions_ok s" "order_ok x s" using assms(1,2) by (simp_all add: sandbox_inv_def)
  moreover have "versions_ok t" using \<open>versions_ok s\<close> assms(3) by (force simp: versions_ok_def v assms(15,16))
  moreover have "order_ok y t" using \<open>order_ok x s\<close> not_held unfolding order_ok_def c assms(6-8,13,17) by blast
  ultimately show ?thesis using assms(1) by (simp add: sandbox_inv_def effects_ok_def assms(5,14,17))
qed

lemma breach_inv: "sandbox_inv s \<Longrightarrow> sandbox_inv (snd (breach_pickup_pact H F s))"
  unfolding breach_pickup_pact_def
proof (rule with_order_inv, assumption, goal_cases)
  case (1 x)
  show ?case
  proof (cases "dm_status x = O_CONFIRMED \<and> pt_status (se_pact s) = PACT_ACTIVE \<and> \<not> pt_granted (se_pact s)")
    case False
    then show ?thesis using 1(1) by (auto simp: Let_def)
  next
    case True
    have v: "JInt (pt_version (se_pact s)) \<notin> set (breach_versions s)" using 1(1) True by (auto simp: sandbox_inv_def versions_ok_def)
    define n where "n = (if pt_points (se_pact s) = 0 then 500 else pt_points (se_pact s))"
    let ?b = "new_event F 0 PickupPactBreached (pact_payload ((se_pact s)\<lparr>pt_points := n\<rparr>)) x"
    let ?r = "new_event F 1 RewardGranted (amount_payload n @ [(''source'', JStr ''pickup_pact_breach'')]) x"
    show ?thesis unfolding Let_def n_def [symmetric]
      by (simp add: True del: One_nat_def, rule inv_breach [OF 1(1,2) v, where y = "x\<lparr>dm_rewarded := True\<rparr>" and b = ?b and r = ?r])
        (use 1(2) True in \<open>simp_all add: block_defs pact_payload_def pget_def dget_def\<close>)
  qed
qed

lemma put_receipt_ids:
  "(case put_receipt r hs of None \<Rightarrow> dm_id (rc_order r) \<notin> (\<lambda>r. dm_id (rc_order r)) ` set hs
    | Some hs' \<Rightarrow> map (\<lambda>r. dm_id (rc_order r)) hs' = map (\<lambda>r. dm_id (rc_order r)) hs)"
  by (induction hs) (auto split: option.splits)

lemma archive_inv: "sandbox_inv s \<Longrightarrow> sandbox_inv (snd (archive_order s x))"
proof -
  assume s: "sandbox_inv s"
  have h: "sandbox_inv (s\<lparr>se_history := hs\<rparr>)" if "distinct (map (\<lambda>r. dm_id (rc_order r)) hs)" for hs
    using s that by (simp add: sandbox_inv_def effects_ok_def versions_ok_def order_ok_def count_type_def breach_versions_def cong: option.case_cong)
  have d: "distinct (map (\<lambda>r. dm_id (rc_order r)) (se_history s))" using s by (simp add: sandbox_inv_def)
  show ?thesis using s d put_receipt_ids [of "customer_receipt_of s x" "se_history s"]
    by (auto simp: archive_order_def Let_def intro!: h split: option.splits)
qed


lemma inv_claimed:
  assumes "sandbox_inv s" "se_order s = Some x" "\<not> dm_claimed x" "dm_units y = dm_units x" "dm_claimed y" "dm_status y = O_PICKED_UP"
    "se_order t = Some y" "se_events t = se_events s @ e # es" "dv_type e = PickupClaimed"
    "\<forall>e \<in> set es. dv_type e \<notin> {CommitmentCancelled, PickupClaimed, PickupPactBreached}"
    "se_reserved t = max 0 (se_reserved s - dm_units x)" "se_history t = se_history s"
    "pt_version (se_pact t) = pt_version (se_pact s)" "pt_granted (se_pact t) = pt_granted (se_pact s)"
    "fu_effects (se_merchant t) = fu_effects (se_merchant s)" "merchant_status t = M_PICKED_UP"
  shows "sandbox_inv t"
proof -
  have x: "order_ok x s" using assms(1,2) by (simp add: sandbox_inv_def)
  have c: "count_type CommitmentCancelled t = count_type CommitmentCancelled s" "count_type PickupClaimed t = Suc (count_type PickupClaimed s)"
    using assms(9,10) by (auto simp: assms(8) count_type_def filter_empty_conv)
  have b: "breach_versions t = breach_versions s" using assms(9,10) by (auto simp: assms(8) breach_versions_def filter_empty_conv)
  have "se_reserved s \<le> dm_units x" "0 \<le> dm_units x" "count_type PickupClaimed s = 0"
    using x assms(3) by (auto simp: order_ok_def split: if_split_asm)
  then have "order_ok y t" by (simp add: order_ok_def c b assms(4-6,11,16))
  moreover have "versions_ok t" using assms(1) by (simp add: sandbox_inv_def versions_ok_def b assms(13,14))
  ultimately show ?thesis using assms(1) by (simp add: sandbox_inv_def effects_ok_def assms(7,12,15))
qed

lemma claimed_session_inv:
  assumes "sandbox_inv s" "se_order s = Some x" "\<not> dm_claimed x"
  shows "sandbox_inv (claimed_session F code x s)"
proof -
  define y where "y = x\<lparr>dm_claimed := True, dm_status := O_PICKED_UP, dm_settled := True, dm_rewarded := True\<rparr>"
  define paid where "paid = new_event F 1 SettlementPosted (amount_payload (dm_total x) @ [(''source'', JStr ''pickup_claim'')]) x"
  define earned where "earned = new_event F 2 RewardGranted (amount_payload (max 1 (dm_total x div 100)) @ [(''source'', JStr ''pickup_claim'')]) x"
  have ty: "dv_type (claim_event F code x) = PickupClaimed" "dv_type paid = SettlementPosted" "dv_type earned = RewardGranted"
    by (simp_all add: claim_event_def paid_def earned_def block_defs)
  have y: "se_order (claimed_session F code x s) = Some y" "dm_units y = dm_units x" "dm_claimed y" "dm_status y = O_PICKED_UP"
    using assms(2) by (simp_all add: claimed_session_def y_def Let_def block_defs)
  have e: "se_events (claimed_session F code x s) = se_events s @ claim_event F code x # [paid, earned]"
    by (simp add: claimed_session_def paid_def earned_def Let_def block_defs)
  show ?thesis
    by (rule inv_claimed [OF assms y(2-4,1) e]) (simp_all add: ty, simp_all add: claimed_session_def Let_def block_defs)
qed

lemma snd_answer_rest [simp]: "snd (case r of (Inl e, s) \<Rightarrow> (Inl e, s) | (Inr x, s) \<Rightarrow> answer H (f x) s) = snd r"
  by (simp split: prod.split sum.split)

lemma demo_claim_inv: "sandbox_inv s \<Longrightarrow> sandbox_inv (snd (claim_pickup H F code s))"
  unfolding claim_pickup_def Let_def
proof (rule with_order_inv, assumption, goal_cases)
  case (1 x)
  have "sandbox_inv (snd (archive_order (claimed_session F code x s) y))" if "\<not> dm_claimed x" for y
    using archive_inv claimed_session_inv [OF 1 that] by blast
  then show ?case using claimed_session_inv [OF 1] 1(1) by (auto split: option.split)
qed

lemma reverse_last_inv:
  assumes "sandbox_inv s" "posting \<noteq> reversal" "reversal \<in> {SettlementReversed, RewardReversed}"
    "\<And>x. dm_units (clear x) = dm_units x \<and> dm_claimed (clear x) = dm_claimed x \<and> dm_status (clear x) = dm_status x"
  shows "sandbox_inv (snd (reverse_last F k posting reversal kind clear s))"
proof (cases "se_order s")
  case None
  then show ?thesis using assms(1) by (simp add: reverse_last_def split: list.split)
next
  case (Some x)
  have "sandbox_inv (upd_order clear (post kind n i (append_event e s)))" if "dv_type e = reversal" for e n i
    using Some that assms(3,4) by (intro inv_append [OF assms(1) Some, of _ "clear x" "[e]"]) (auto simp: block_defs)
  then show ?thesis using Some assms(1)
    by (auto simp: reverse_last_def Let_def new_event_def event_at_def split: list.split option.split)
qed

lemma apply_repair_inv: "sandbox_inv s \<Longrightarrow> sandbox_inv (snd (apply_repair F code s))"
proof (cases code)
  case RESLOT_REVIEW
  assume s: "sandbox_inv s"
  show ?thesis
  proof (cases "se_order s")
    case None
    then show ?thesis using s RESLOT_REVIEW by (auto simp: apply_repair_def Let_def upd_order_def audit_def split: option.split intro!: inv_frame [OF s])
  next
    case (Some x)
    then show ?thesis using s RESLOT_REVIEW
      by (auto simp: apply_repair_def Let_def upd_order_def audit_def split: option.split
          intro!: inv_append [OF s Some, of _ "x\<lparr>dm_status := O_AT_RISK\<rparr>" "[]"])
  qed
qed (auto simp: apply_repair_def intro: reverse_last_inv inv_frame)

lemma repair_loop_inv: "sandbox_inv s \<Longrightarrow> sandbox_inv (snd (repair_loop F codes applied s))"
proof (induction F codes applied s rule: repair_loop.induct)
  case (2 F code codes applied s)
  show ?case
  proof (cases "code \<in> set (se_applied s)")
    case True
    then show ?thesis using 2 by simp
  next
    case False
    obtain r t where r: "apply_repair F code s = (r, t)" by (cases "apply_repair F code s")
    then have "sandbox_inv t" using apply_repair_inv [OF 2(3), of F code] by simp
    then show ?thesis using False 2(2) r by (cases r) simp_all
  qed
qed simp

lemma repairs_inv: "sandbox_inv s \<Longrightarrow> sandbox_inv (snd (apply_repairs H F s))"
  unfolding apply_repairs_def
proof (rule with_order_inv, assumption, goal_cases)
  case (1 x)
  have a: "sandbox_inv (u\<lparr>se_applied := cs\<rparr>) = sandbox_inv u" for u cs
    by (auto intro: inv_frame [of u] inv_frame [of "u\<lparr>se_applied := cs\<rparr>"])
  show ?case
  proof (cases "reconcile_session H s")
    case (Inl e)
    then show ?thesis using 1 by simp
  next
    case (Inr r)
    obtain q t where q: "repair_loop F (case r of None \<Rightarrow> [] | Some r \<Rightarrow> repairs r) [] s = (q, t)"
      by (cases "repair_loop F (case r of None \<Rightarrow> [] | Some r \<Rightarrow> repairs r) [] s")
    have t: "sandbox_inv t" using repair_loop_inv [OF 1(1), of F "case r of None \<Rightarrow> [] | Some r \<Rightarrow> repairs r" "[]"] q by simp
    show ?thesis using t archive_inv
      by (cases q) (auto simp: Inr q Let_def a split: option.split sum.split)
  qed
qed

lemma reschedule_merchant_cases:
  assumes "reschedule_merchant t n s = Inr u"
  shows "se_order u = se_order s \<and> se_events u = se_events s \<and> se_reserved u = se_reserved s \<and> se_history u = se_history s
    \<and> se_pact u = se_pact s \<and> fu_effects (se_merchant u) = fu_effects (se_merchant s) \<and> merchant_status u = merchant_status s"
  using assms by (auto simp: reschedule_merchant_def add_anomaly_def Let_def split: if_splits option.splits)

lemma reschedule_inv: "sandbox_inv s \<Longrightarrow> sandbox_inv (snd (accept_pickup_reschedule H F p s))"
  unfolding accept_pickup_reschedule_def Let_def
proof (rule with_order_inv, assumption, goal_cases)
  case (1 x)
  have m: "sandbox_inv (moved_order ev t x s)" if "dv_type ev = PickupRescheduled" for ev t
    using that 1(2) by (intro inv_append [OF 1(1,2), of _ "x\<lparr>dm_pickup_at := t, dm_status := O_CONFIRMED\<rparr>" "[ev]"]) (simp_all add: moved_order_def block_defs)
  have o: "se_order (moved_order ev t x s) = Some (x\<lparr>dm_pickup_at := t, dm_status := O_CONFIRMED\<rparr>)" for ev t
    using 1(2) by (simp add: moved_order_def block_defs)
  have r: "sandbox_inv u" "sandbox_inv (renegotiated F t l x u)"
    if "reschedule_merchant t' n (moved_order ev t x s) = Inr u" "dv_type ev = PickupRescheduled" for u t t' n l ev
  proof -
    note f = reschedule_merchant_cases [OF that(1)]
    show u: "sandbox_inv u" using f by (intro inv_frame [OF m [OF that(2)]]) simp_all
    show "sandbox_inv (renegotiated F t l x u)"
      using f o by (intro inv_append [OF u]) (simp add: renegotiated_def block_defs reschedule_pact_def Let_def)+
  qed
  show ?case using 1(1) m r by (auto simp: new_event_def event_at_def split: option.split sum.split)
qed

section \<open>The merchant's side\<close>

lemma merchant_calls_inv:
  assumes "sandbox_inv s"
  shows "sandbox_inv (snd (merchant_ack H s))" "sandbox_inv (snd (merchant_redeliver H s))"
  using assms by (auto simp: merchant_ack_def merchant_redeliver_def intro: inv_frame [OF assms])

text \<open>An order the merchant has is neither held nor cancelled, and no fact closed it.\<close>

lemma in_the_shop:
  assumes "sandbox_inv s" "merchant_status s \<in> {M_RECEIVED, M_ACCEPTED, M_PREPARING, M_READY}"
  obtains x where "se_order s = Some x" "closed_facts s = 0" "dm_status x \<noteq> O_HELD" "dm_status x \<noteq> O_CANCELLED"
proof -
  obtain x where x: "se_order s = Some x" using assms by (cases "se_order s") (auto simp: sandbox_inv_def)
  then have o: "order_ok x s" using assms(1) by (simp add: sandbox_inv_def)
  then have c: "closed_facts s = 0" using assms(2) unfolding order_ok_def by blast
  have "dm_status x = O_HELD \<Longrightarrow> merchant_status s = M_NONE" "dm_status x = O_CANCELLED \<Longrightarrow> merchant_status s \<in> {M_NONE, M_CANCELLED}"
    using o unfolding order_ok_def by blast+
  then have "dm_status x \<noteq> O_HELD" "dm_status x \<noteq> O_CANCELLED" using assms(2) by auto
  then show ?thesis by (rule that [OF x c])
qed

lemma shop_step_inv:
  assumes "sandbox_inv s" "merchant_status s \<in> {M_RECEIVED, M_ACCEPTED, M_PREPARING, M_READY}"
    "se_order t = se_order s" "se_events t = se_events s" "se_reserved t = se_reserved s" "se_history t = se_history s" "se_pact t = se_pact s"
    "fu_effects (se_merchant t) = fu_effects (se_merchant s)"
  shows "sandbox_inv t"
proof -
  obtain x where x: "se_order s = Some x" "closed_facts s = 0" "dm_status x \<noteq> O_HELD" "dm_status x \<noteq> O_CANCELLED"
    using in_the_shop [OF assms(1,2)] .
  have "effects_ok t" using assms(1) by (simp add: sandbox_inv_def effects_ok_def assms(8))
  then show ?thesis using x assms(3) by (intro inv_merchant [OF assms(1) x(1) _ assms(4-7)]) simp_all
qed

lemma accept_inv: "sandbox_inv s \<Longrightarrow> sandbox_inv (snd (merchant_accept H s))"
  by (auto simp: merchant_accept_def intro: shop_step_inv)

lemma demo_start_inv: "sandbox_inv s \<Longrightarrow> sandbox_inv (snd (merchant_start H t s))"
  by (auto simp: merchant_start_def Let_def add_anomaly_def intro: shop_step_inv)

lemma demo_ready_inv:
  assumes "sandbox_inv s"
  shows "sandbox_inv (snd (merchant_ready H F t s))"
proof (cases "merchant_status s = M_PREPARING \<and> str_upper t \<in> {''EARLY'', ''ON_TIME'', ''LATE''}")
  case False
  then show ?thesis using assms by (auto simp: merchant_ready_def Let_def)
next
  case True
  define u where "u = (let s = s\<lparr>se_merchant := (se_merchant s)\<lparr>fu_status := M_READY, fu_quality := Some (str_upper t)\<rparr>\<rparr>
    in audit ''MERCHANT_ORDER_READY'' (if str_upper t = ''EARLY'' then add_anomaly ''READY_TOO_EARLY'' s
         else if str_upper t = ''LATE'' then add_anomaly ''READY_LATE'' s else s))"
  have u: "sandbox_inv u" using True
    by (intro shop_step_inv [OF assms]) (simp_all add: u_def Let_def audit_def add_anomaly_def)
  have "snd (merchant_ready H F t s) = (if str_upper t = ''LATE'' \<and> pt_status (se_pact u) = PACT_ACTIVE then snd (breach_pickup_pact H F u) else u)"
    using True by (auto simp: merchant_ready_def Let_def u_def split: prod.split sum.split)
  then show ?thesis using u breach_inv [OF u] by simp
qed


section \<open>Presets and new orders\<close>

lemma seed_posting_fst: "fst (seed_posting kind mark e seen s) = fst (seed_posting kind mark e seen s')"
  by (simp add: seed_posting_def Let_def split: sum.split)

lemma seed_event_fst: "fst (seed_event e seen s) = fst (seed_event e seen s')"
proof (cases "dv_type e")
  case CapacityRevised
  have d: "dget (JInt (se_available u)) (dv_payload e) ''available_units'' =
    (case map_of (dv_payload e) ''available_units'' of None \<Rightarrow> JInt (se_available u) | Some v \<Rightarrow> v)" for u by (simp add: dget_def)
  show ?thesis using CapacityRevised
    by (auto simp: seed_event_def seed_capacity_def Let_def d payload_int_def split: sum.split option.split)
qed (auto simp: seed_event_def intro: seed_posting_fst)

lemma seed_events_fst: "fst (seed_events es seen s) = fst (seed_events es seen s')"
proof (induction es arbitrary: seen s s')
  case (Cons e es)
  obtain r t r' t' where e: "seed_event e seen s = (r, t)" "seed_event e seen s' = (r', t')" by (metis surj_pair)
  then have "r' = r" using seed_event_fst [of e seen s s'] by simp
  then show ?case using Cons [of _ t t'] e by (cases r) simp_all
qed simp

text \<open>While a preset is loaded the order is confirmed with its units, or cancelled without them.\<close>

definition seeding_ok :: "demo_order \<Rightarrow> session \<Rightarrow> bool \<Rightarrow> session \<Rightarrow> bool" where
  "seeding_ok x s cancelled t \<longleftrightarrow>
     (\<exists>y. se_order t = Some y \<and> dm_units y = dm_units x \<and> \<not> dm_claimed y \<and> dm_status y = (if cancelled then O_CANCELLED else O_CONFIRMED))
   \<and> se_reserved t = (if cancelled then 0 else dm_units x) \<and> se_events t = se_events s \<and> se_history t = se_history s
   \<and> se_pact t = se_pact s \<and> se_merchant t = se_merchant s"

lemma seed_event_ok:
  assumes "seeding_ok x s c t" "seed_event e seen t = (Inr seen', u)"
  shows "seeding_ok x s (c \<or> dv_type e = CommitmentCancelled) u"
  using assms by (cases "dv_type e")
    (auto simp: seed_event_def seed_posting_def seed_capacity_def seeding_ok_def upd_order_def post_def Let_def split: if_splits sum.splits)

lemma seed_events_ok:
  "seeding_ok x s c t \<Longrightarrow> seed_events es seen t = (Inr seen', u) \<Longrightarrow> seeding_ok x s (c \<or> CommitmentCancelled \<in> dv_type ` set es) u"
proof (induction es arbitrary: c t seen)
  case (Cons e es)
  obtain r v where e: "seed_event e seen t = (r, v)" by (metis surj_pair)
  then obtain seen2 where r: "r = Inr seen2" using Cons.prems(2) by (cases r) auto
  have "seeding_ok x s (c \<or> dv_type e = CommitmentCancelled) v" using seed_event_ok [OF Cons.prems(1)] e r by simp
  moreover have "seed_events es seen2 v = (Inr seen', u)" using Cons.prems(2) e r by simp
  ultimately have "seeding_ok x s ((c \<or> dv_type e = CommitmentCancelled) \<or> CommitmentCancelled \<in> dv_type ` set es) u" by (rule Cons.IH)
  moreover have "((c \<or> dv_type e = CommitmentCancelled) \<or> CommitmentCancelled \<in> dv_type ` set es) = (c \<or> CommitmentCancelled \<in> dv_type ` set (e # es))"
    by auto
  ultimately show ?case by simp
qed simp

lemma seeded_inv:
  assumes "seeding_ok x s (CommitmentCancelled \<in> dv_type ` set (se_events s)) t" "0 \<le> dm_units x"
    "\<forall>e \<in> set (se_events s). dv_type e \<noteq> PickupClaimed \<and> dv_type e \<noteq> PickupPactBreached"
    "se_history s = []" "se_merchant s = empty_fulfilment"
  shows "sandbox_inv t"
proof -
  let ?c = "CommitmentCancelled \<in> dv_type ` set (se_events s)"
  obtain y where y: "se_order t = Some y" "dm_units y = dm_units x" "\<not> dm_claimed y" "dm_status y = (if ?c then O_CANCELLED else O_CONFIRMED)"
    and t: "se_reserved t = (if ?c then 0 else dm_units x)" "se_events t = se_events s" "se_history t = []" "se_merchant t = empty_fulfilment"
    using assms(1,4,5) by (auto simp: seeding_ok_def)
  have f: "count_type PickupClaimed t = 0" "breach_versions t = []" "count_type CommitmentCancelled t = 0 \<longleftrightarrow> \<not> ?c"
    using assms(3) by (auto simp: count_type_def breach_versions_def t(2) filter_empty_conv image_iff)
  have "order_ok y t" unfolding order_ok_def using assms(2) y f t(1,4) by (cases ?c) (simp_all add: empty_fulfilment_def)
  then show ?thesis using y(1) t f by (simp add: sandbox_inv_def effects_ok_def versions_ok_def empty_fulfilment_def)
qed

lemma seed_inv:
  assumes "seed_ok sc"
  shows "sandbox_inv (snd (seed_from_scenario H F sc s))"
proof -
  let ?s = "audit ''SESSION_RESET'' (new_session (se_id s) (se_created s) [])"
  have s: "sandbox_inv ?s" by (rule new_session_inv) simp
  show ?thesis
  proof (cases "bind_ok (scenario_total sc) (\<lambda>n. bind_ok (scenario_units sc) (\<lambda>units. if sn_events sc = [] then Inl Index_Error else Inr (n, units)))")
    case (Inl e)
    then show ?thesis using s by (simp add: seed_from_scenario_def Let_def)
  next
    case (Inr p)
    obtain n units where p: "p = (n, units)" by (cases p)
    have u: "0 \<le> units" using assms Inr p by (auto simp: seed_ok_def bind_ok_Inr split: if_splits)
    let ?t = "seeded_start F sc n units ?s" and ?x = "seeded_order F sc n units"
    obtain seen v where v: "seed_events (sn_events sc) [] ?t = (Inr seen, v)"
      using assms seed_events_fst [of "sn_events sc" "[]" ?t "new_session [] 0 []"]
      by (cases "seed_events (sn_events sc) [] ?t") (auto simp: seed_ok_def is_ok_iff)
    have e: "se_events ?t = sn_events sc" by (simp add: seeded_start_def)
    have "seeding_ok ?x ?t False ?t" by (simp add: seeding_ok_def seeded_start_def seeded_order_def)
    then have "seeding_ok ?x ?t (CommitmentCancelled \<in> dv_type ` set (se_events ?t)) v" using seed_events_ok [OF _ v] e by fastforce
    then have "sandbox_inv v"
      by (rule seeded_inv) (use u assms in \<open>simp_all add: seeded_start_def seeded_order_def seed_ok_def new_session_def audit_def\<close>)
    then show ?thesis using Inr p v by (simp add: seed_from_scenario_def Let_def)
  qed
qed

section \<open>Runs of calls\<close>

lemma demo_call_inv:
  assumes "sandbox_inv s" "command_ok (F, c)"
  shows "sandbox_inv (snd (demo_call H F c s))"
proof (cases c)
  case Next_Order
  have "distinct (map (\<lambda>r. dm_id (rc_order r)) (se_history s))" using assms(1) by (simp add: sandbox_inv_def)
  then show ?thesis using Next_Order assms(1) new_session_inv [of "se_history s"] by (simp add: next_customer_order_def)
next
  case Reset
  then show ?thesis using new_session_inv [of "[]"] by (simp add: reset_session_def)
next
  case Reconcile
  then show ?thesis using assms(1) by (simp add: reconcile_demo_def split: sum.split)
qed (use assms in \<open>auto simp: command_ok_def intro: create_order_inv demo_authorize_inv confirm_inv demo_cancel_inv demo_settle_inv reward_inv
    revise_inv redeliver_inv repairs_inv breach_inv demo_claim_inv reschedule_inv merchant_calls_inv accept_inv demo_start_inv demo_ready_inv seed_inv\<close>)

interpretation demo_runs: checked_steps "demo_step H" sandbox_inv command_ok for H
  by unfold_locales (auto dest: demo_call_inv)

text \<open>C36.
  Whatever calls a sandbox session gets, failing ones included: the order is picked up at most
  once, the kitchen is told once, an order that the shop is preparing is never cancelled, the
  reserved capacity is that of the open order, a pact version is compensated at most once, and
  the history holds one receipt per order.
\<close>

theorem sandbox_session_sound:
  assumes "\<forall>c \<in> set cs. command_ok c" and s: "s = run (demo_step H) (new_session sid created []) cs"
  shows "count_type PickupClaimed s \<le> 1
    \<and> fu_effects (se_merchant s) \<in> {[], [''NEW_ORDER_NOTIFICATION'', ''POS_PRINT'']}
    \<and> distinct (breach_versions s) \<and> distinct (map (\<lambda>r. dm_id (rc_order r)) (se_history s))
    \<and> (case se_order s of None \<Rightarrow> se_reserved s = 0
        | Some x \<Rightarrow> se_reserved s = (if count_type CommitmentCancelled s + count_type PickupClaimed s = 0 then dm_units x else 0)
            \<and> (dm_status x = O_CANCELLED \<longrightarrow> fu_status (se_merchant s) \<in> {M_NONE, M_CANCELLED}))"
proof -
  have "sandbox_inv (new_session sid created [])" using new_session_inv [of "[]"] by simp
  then have "sandbox_inv s" unfolding s using assms(1) by (rule demo_runs.checked_run_inv)
  show ?thesis
  proof (cases "se_order s")
    case None
    then show ?thesis using \<open>sandbox_inv s\<close> by (simp add: sandbox_inv_def effects_ok_def POS_EFFECTS_def versions_ok_def count_type_Nil)
  next
    case (Some x)
    then have "order_ok x s" using \<open>sandbox_inv s\<close> by (simp add: sandbox_inv_def)
    then have "count_type PickupClaimed s \<le> 1" "se_reserved s = (if closed_facts s = 0 then dm_units x else 0)"
      "dm_status x = O_CANCELLED \<longrightarrow> merchant_status s \<in> {M_NONE, M_CANCELLED}"
      unfolding order_ok_def by (auto split: if_split_asm)
    then show ?thesis using \<open>sandbox_inv s\<close> Some by (simp add: sandbox_inv_def effects_ok_def POS_EFFECTS_def versions_ok_def)
  qed
qed

section \<open>Repairs\<close>

lemma blocked_repairs:
  assumes "reconcile H es = Inr res" "decision res \<noteq> AUTO"
  shows "set (repairs res) \<subseteq> {NO_OP_DUPLICATE, MANUAL_REVIEW}"
  using assms(1)
proof (rule reconcile_parts)
  fix u ds cf rs ra can canom acts fb
  assume "repairs res = filter (\<lambda>r. r \<in> set (if decision res = AUTO then repair_set ds (rs \<noteq> can) u acts canom
       else filter (\<lambda>r. r = NO_OP_DUPLICATE) (repair_set ds (rs \<noteq> can) u acts canom) @ [MANUAL_REVIEW])) REPAIR_ORDER"
  then show ?thesis using assms(2) by auto
qed

lemma quiet_loop:
  "set codes \<subseteq> {NO_OP_DUPLICATE, MANUAL_REVIEW} \<Longrightarrow> \<exists>q m. repair_loop F codes applied s = (Inr q, s\<lparr>se_manual := m\<rparr>)"
proof (induction codes arbitrary: applied s)
  case Nil
  have "s = s\<lparr>se_manual := se_manual s\<rparr>" by simp
  then have "\<exists>m. s = s\<lparr>se_manual := m\<rparr>" by (rule exI)
  then show ?case by simp
next
  case (Cons code codes)
  then have IH: "\<exists>q m. repair_loop F codes a t = (Inr q, t\<lparr>se_manual := m\<rparr>)" for a t by simp
  have "apply_repair F code s = (Inr True, s\<lparr>se_manual := se_manual s \<or> code = MANUAL_REVIEW\<rparr>)"
    using Cons.prems by (auto simp: apply_repair_def)
  then show ?case
    using IH [of applied s] IH [of "applied @ [code]" "s\<lparr>se_manual := se_manual s \<or> code = MANUAL_REVIEW\<rparr>"] by auto
qed

text \<open>The sandbox fails closed with the engine: when the evidence of a session does not allow an
  automatic decision, applying the repairs moves no money, adds no event and changes neither
  the order nor the merchant's side.
\<close>

theorem blocked_evidence_moves_nothing:
  assumes "reconcile_session H s = Inr (Some res)" "decision res \<noteq> AUTO"
  shows "let t = snd (apply_repairs H F s) in se_ledger t = se_ledger s \<and> se_events t = se_events s \<and> se_order t = se_order s
    \<and> se_merchant t = se_merchant s \<and> se_reserved t = se_reserved s \<and> se_pact t = se_pact s"
proof (cases "se_order s")
  case None
  then show ?thesis by (simp add: apply_repairs_def with_order_def)
next
  case (Some x)
  obtain es where "reconcile H es = Inr res" using assms(1) by (auto simp: reconcile_session_def Let_def split: if_splits sum.splits)
  then have "set (repairs res) \<subseteq> {NO_OP_DUPLICATE, MANUAL_REVIEW}" using assms(2) by (rule blocked_repairs)
  then obtain q m where q: "repair_loop F (repairs res) [] s = (Inr q, s\<lparr>se_manual := m\<rparr>)" using quiet_loop by blast
  define t1 where "t1 = s\<lparr>se_manual := m, se_applied := fold (\<lambda>c cs. if c \<in> set cs then cs else cs @ [c]) q (se_applied (s\<lparr>se_manual := m\<rparr>))\<rparr>"
  define t2 where "t2 = (if q = [] then t1 else audit ''REPAIR_PLAN_APPLIED_IN_SANDBOX'' t1)"
  define t3 where "t3 = (case se_order t2 of None \<Rightarrow> t2 | Some x \<Rightarrow> if dm_status x = O_CANCELLED then snd (archive_order t2 x) else t2)"
  have "snd (apply_repairs H F s) = t3"
    unfolding apply_repairs_def with_order_def Some option.case assms(1) sum.case q prod.case Let_def t3_def t2_def t1_def
    by (simp only: snd_answer snd_conv split: sum.split) blast
  moreover have "se_ledger t3 = se_ledger t2 \<and> se_events t3 = se_events t2 \<and> se_order t3 = se_order t2 \<and> se_merchant t3 = se_merchant t2
      \<and> se_reserved t3 = se_reserved t2 \<and> se_pact t3 = se_pact t2"
    by (simp add: t3_def archive_order_def Let_def split: option.split)
  ultimately show ?thesis by (simp add: Let_def t2_def t1_def audit_def)
qed


section \<open>Concrete runs\<close>

text \<open>
  An order is confirmed and gets a point reward, the compensation of its pact and a
  cancellation.
\<close>

definition draw :: "int \<Rightarrow> draws" where
  "draw n = \<lparr>dr_now = \<lambda>k. 1000000 * n + int k, dr_uuid = \<lambda>k. str_of_int (10 * n + int k)\<rparr>"

definition sample_hash :: "json \<Rightarrow> string" where
  "sample_hash _ = ''h''"

definition ordered_calls :: "(draws \<times> demo_command) list" where
  "ordered_calls = [(draw 1, Create_Order ''shop'' ''coffee'' 4500 ''12:30'' 1), (draw 2, Authorize None), (draw 3, Confirm)]"

definition rewarded_calls :: "(draws \<times> demo_command) list" where
  "rewarded_calls = ordered_calls @ [(draw 4, Give_Reward None), (draw 5, Breach), (draw 6, Cancel 0)]"

theorem sandbox_session_sound_witness:
  "count_type PickupClaimed (run (demo_step sample_hash) (new_session ''s'' 0 []) rewarded_calls) \<le> 1"
  using sandbox_session_sound [of rewarded_calls _ sample_hash] by (simp add: rewarded_calls_def ordered_calls_def command_ok_def)


end
