(* ===== verification/Lease_Queue.thy ===== *)
theory Lease_Queue
  imports Payment_Domain
begin

text \<open>
  The shared queue of operations (\<^verbatim>\<open>demo/route/ha/operation_store.py\<close> and the row updates of
  \<^verbatim>\<open>journey_repository.py\<close>): workers take a row with a lease and store its result only while
  they still hold it. A statement reads the clock of the database once; \<open>now\<close> is that reading.
  SHA-256 of a payload is an argument.
\<close>

section \<open>Rows\<close>

record 'p queued =
  qr_id :: string
  qr_order :: string
  qr_request :: string
  qr_fingerprint :: string
  qr_payload :: 'p
  qr_pending :: bool
  qr_phase :: nat
  qr_owner :: "string option"
  qr_lease :: nat
  qr_until :: "rat option"
  qr_next :: rat

datatype queue_error = Invalid_Identifier | Bad_Argument string | Operation_Conflict string

definition find_queued :: "string \<Rightarrow> 'p queued list \<Rightarrow> 'p queued option" where
  "find_queued i q = List.find (\<lambda>r. qr_id r = i) q"

definition update_queued :: "('p queued \<Rightarrow> bool) \<Rightarrow> ('p queued \<Rightarrow> 'p queued) \<Rightarrow> 'p queued list \<Rightarrow> 'p queued list" where
  "update_queued P f q = map (\<lambda>r. if P r then f r else r) q"

text \<open>\<open>lease_until IS NULL OR lease_until<=clock_timestamp()\<close>\<close>

definition unleased :: "rat \<Rightarrow> 'p queued \<Rightarrow> bool" where
  "unleased now r \<longleftrightarrow> (case qr_until r of None \<Rightarrow> True | Some t \<Rightarrow> t \<le> now)"

section \<open>Statements\<close>

definition enqueue_in ::
  "(string \<Rightarrow> string \<Rightarrow> 'p \<Rightarrow> string) \<Rightarrow> rat \<Rightarrow> string \<Rightarrow> string \<Rightarrow> 'p \<Rightarrow> string \<Rightarrow> 'p queued list \<Rightarrow> queue_error + 'p queued \<times> 'p queued list" where
  "enqueue_in FP now i ord p req q =
    ensure (is_KEY i \<and> is_KEY ord \<and> is_KEY req) Invalid_Identifier
     (case List.find (\<lambda>r. qr_order r = ord \<and> qr_request r = req) q of
        Some prior \<Rightarrow> ensure (qr_fingerprint prior = FP i ord p) (Operation_Conflict ''same request has different content'') (Inr (prior, q))
      | None \<Rightarrow>
          ensure (\<not> list_ex (\<lambda>r. qr_order r = ord \<and> qr_pending r) q) (Operation_Conflict ''an operation for this order is still pending'')
           (ensure (find_queued i q = None) (Operation_Conflict ''operation id belongs to another request'')
             (let r = \<lparr>qr_id = i, qr_order = ord, qr_request = req, qr_fingerprint = FP i ord p, qr_payload = p, qr_pending = True,
                    qr_phase = 0, qr_owner = None, qr_lease = 0, qr_until = None, qr_next = now\<rparr>
              in Inr (r, q @ [r]))))"

definition take_lease :: "string \<Rightarrow> rat \<Rightarrow> int \<Rightarrow> 'p queued \<Rightarrow> 'p queued" where
  "take_lease worker now seconds r = r\<lparr>qr_owner := Some worker, qr_lease := qr_lease r + 1, qr_until := Some (now + of_int seconds)\<rparr>"

definition claim_one_in ::
  "rat \<Rightarrow> string \<Rightarrow> string \<Rightarrow> int \<Rightarrow> bool \<Rightarrow> 'p queued list \<Rightarrow> queue_error + 'p queued option \<times> 'p queued list" where
  "claim_one_in now i worker seconds force q =
    ensure (is_KEY i \<and> is_KEY worker) Invalid_Identifier
     (ensure (1 \<le> seconds \<and> seconds \<le> 120) (Bad_Argument ''bounded operation lease required'')
       (let P = (\<lambda>r. qr_id r = i \<and> qr_pending r \<and> (force \<or> qr_next r \<le> now) \<and> unleased now r)
        in Inr (map_option (take_lease worker now seconds) (List.find P q), update_queued P (take_lease worker now seconds) q)))"

text \<open>The rows due, but not those another transaction holds a lock on (\<open>SKIP LOCKED\<close>).\<close>

definition claim_due ::
  "rat \<Rightarrow> (string \<Rightarrow> bool) \<Rightarrow> string \<Rightarrow> int \<Rightarrow> int \<Rightarrow> 'p queued list \<Rightarrow> queue_error + 'p queued list \<times> 'p queued list" where
  "claim_due now locked worker limit seconds q =
    ensure (is_KEY worker) Invalid_Identifier
     (ensure (1 \<le> limit \<and> limit \<le> 64 \<and> 1 \<le> seconds \<and> seconds \<le> 120) (Bad_Argument ''bounded operation lease required'')
       (let due = take (nat limit) (sort_key (\<lambda>r. (qr_next r, qr_id r))
              (filter (\<lambda>r. qr_pending r \<and> qr_next r \<le> now \<and> unleased now r \<and> \<not> locked (qr_id r)) q));
            ids = map qr_id due
        in Inr (map (take_lease worker now seconds) due,
                update_queued (\<lambda>r. qr_id r \<in> set ids) (take_lease worker now seconds) q)))"

text \<open>\<open>claim\<close> is the row as the claim returned it; the result says whether it was stored.\<close>

definition holds_lease :: "rat \<Rightarrow> 'p queued \<Rightarrow> 'p queued \<Rightarrow> bool" where
  "holds_lease now claim r \<longleftrightarrow> qr_id r = qr_id claim \<and> qr_order r = qr_order claim \<and> qr_phase r = qr_phase claim \<and> qr_lease r = qr_lease claim
     \<and> qr_owner r \<noteq> None \<and> qr_owner r = qr_owner claim \<and> \<not> unleased now r \<and> qr_pending r"

definition apply_in :: "rat \<Rightarrow> 'p queued \<Rightarrow> 'p \<Rightarrow> bool \<Rightarrow> int \<Rightarrow> 'p queued list \<Rightarrow> queue_error + bool \<times> 'p queued list" where
  "apply_in now claim p finished retry q =
    ensure (0 \<le> retry \<and> retry \<le> 30) (Bad_Argument ''explicit result and bounded retry required'')
     (Inr (list_ex (holds_lease now claim) q,
       update_queued (holds_lease now claim) (\<lambda>r. r\<lparr>qr_payload := p, qr_pending := \<not> finished, qr_phase := qr_phase r + 1,
         qr_owner := None, qr_until := None, qr_next := now + of_int retry\<rparr>) q))"

text \<open>Updates of the journey unit: a new payload for a row without lease, and a new time.\<close>

definition replace_in :: "rat \<Rightarrow> string \<Rightarrow> 'p \<Rightarrow> nat \<Rightarrow> 'p queued list \<Rightarrow> bool \<times> 'p queued list" where
  "replace_in now i p n q = (let P = (\<lambda>r. qr_id r = i \<and> unleased now r)
     in (list_ex P q, update_queued P (\<lambda>r. r\<lparr>qr_payload := p, qr_phase := n\<rparr>) q))"

definition set_next :: "('p queued \<Rightarrow> bool) \<Rightarrow> (rat \<Rightarrow> rat) \<Rightarrow> 'p queued list \<Rightarrow> 'p queued list" where
  "set_next P f q = update_queued P (\<lambda>r. r\<lparr>qr_next := f (qr_next r)\<rparr>) q"

section \<open>Steps of the table\<close>

text \<open>
  What transactions do to the table. A replacement writes the phase number after that of the row
  it has read; a change of time keeps everything else.
\<close>

datatype 'p queue_call =
    Enqueue rat string string 'p string
  | Claim_One rat string string int bool
  | Claim_Due rat "string \<Rightarrow> bool" string int int
  | Apply_Result rat "'p queued" 'p bool int
  | Replace_Row rat string 'p
  | Set_Time "'p queued \<Rightarrow> bool" "rat \<Rightarrow> rat"

fun queue_step :: "(string \<Rightarrow> string \<Rightarrow> 'p \<Rightarrow> string) \<Rightarrow> 'p queued list \<Rightarrow> 'p queue_call \<Rightarrow> queue_error + 'p queued list" where
  "queue_step FP q (Enqueue now i ord p req) = map_sum id snd (enqueue_in FP now i ord p req q)"
| "queue_step FP q (Claim_One now i worker seconds force) = map_sum id snd (claim_one_in now i worker seconds force q)"
| "queue_step FP q (Claim_Due now locked worker limit seconds) = map_sum id snd (claim_due now locked worker limit seconds q)"
| "queue_step FP q (Apply_Result now claim p finished retry) = map_sum id snd (apply_in now claim p finished retry q)"
| "queue_step FP q (Replace_Row now i p) = Inr (case find_queued i q of None \<Rightarrow> q | Some r \<Rightarrow> snd (replace_in now i p (qr_phase r + 1) q))"
| "queue_step FP q (Set_Time P f) = Inr (set_next P f q)"

definition queue_inv :: "'p queued list \<Rightarrow> bool" where
  "queue_inv q \<longleftrightarrow> distinct (map qr_id q) \<and> distinct (map (\<lambda>r. (qr_order r, qr_request r)) q) \<and> distinct (map qr_order (filter qr_pending q))
     \<and> (\<forall>r \<in> set q. qr_owner r = None \<or> qr_until r \<noteq> None)"

lemma ids_update: "(\<And>r. qr_id (f r) = qr_id r) \<Longrightarrow> map qr_id (update_queued P f q) = map qr_id q"
  by (simp add: update_queued_def comp_def)

lemma update_inv:
  assumes "queue_inv q"
    and f: "\<And>r. r \<in> set q \<Longrightarrow> qr_id (f r) = qr_id r \<and> qr_order (f r) = qr_order r \<and> qr_request (f r) = qr_request r \<and> (qr_pending (f r) \<longrightarrow> qr_pending r)
      \<and> (qr_owner (f r) = None \<or> qr_until (f r) \<noteq> None)"
  shows "queue_inv (update_queued P f q)"
proof -
  let ?g = "\<lambda>r. if P r then f r else r"
  have ids: "map qr_id (map ?g q) = map qr_id q" and reqs: "map (\<lambda>r. (qr_order r, qr_request r)) (map ?g q) = map (\<lambda>r. (qr_order r, qr_request r)) q"
    using f by (auto simp: comp_def)
  have "map qr_order (filter qr_pending (map ?g q)) = map qr_order (filter (\<lambda>r. qr_pending (?g r)) (filter qr_pending q))"
    using f by (induction q) auto
  moreover have "distinct (map qr_order (filter qr_pending q))" using assms(1) by (simp add: queue_inv_def)
  ultimately have "distinct (map qr_order (filter qr_pending (map ?g q)))" by (simp only: distinct_map_filter)
  then show ?thesis using assms unfolding update_queued_def queue_inv_def ids reqs by auto
qed

lemma take_lease_simps [simp]:
  "qr_id (take_lease w now n r) = qr_id r" "qr_order (take_lease w now n r) = qr_order r" "qr_request (take_lease w now n r) = qr_request r"
  "qr_pending (take_lease w now n r) = qr_pending r" "qr_lease (take_lease w now n r) = qr_lease r + 1" "qr_phase (take_lease w now n r) = qr_phase r"
  "qr_owner (take_lease w now n r) = Some w" "qr_until (take_lease w now n r) = Some (now + of_int n)" "qr_payload (take_lease w now n r) = qr_payload r"
  by (simp_all add: take_lease_def)

lemma find_queued_None: "find_queued i q = None \<longleftrightarrow> i \<notin> set (map qr_id q)"
  by (auto simp: find_queued_def find_None_iff)

lemma enqueue_in_cases:
  assumes "enqueue_in FP now i ord p req q = Inr (r, q')"
  shows "q' = q \<or> q' = q @ [r] \<and> qr_id r = i \<and> qr_order r = ord \<and> qr_request r = req \<and> qr_payload r = p \<and> qr_phase r = 0 \<and> qr_owner r = None \<and> qr_pending r
     \<and> i \<notin> set (map qr_id q) \<and> (ord, req) \<notin> set (map (\<lambda>r. (qr_order r, qr_request r)) q) \<and> ord \<notin> set (map qr_order (filter qr_pending q))"
  using assms by (auto simp: enqueue_in_def ensure_def Let_def find_queued_None find_None_iff list_ex_iff split: if_splits option.splits)

lemma queue_step_inv:
  assumes "queue_inv q" "queue_step FP q x = Inr q'"
  shows "queue_inv q'"
proof -
  have u: "\<forall>r \<in> set q. qr_owner r = None \<or> qr_until r \<noteq> None" using assms(1) by (simp add: queue_inv_def)
  show ?thesis
  proof (cases x)
    case (Enqueue now i ord p req)
    then obtain r where "enqueue_in FP now i ord p req q = Inr (r, q')" using assms(2) by (auto simp: map_sum_Inr)
    from enqueue_in_cases [OF this] show ?thesis using assms(1) by (auto simp: queue_inv_def)
  next
    case (Claim_One now i worker seconds force)
    then have "\<exists>P. q' = update_queued P (take_lease worker now seconds) q"
      using assms(2) by (auto simp: map_sum_Inr claim_one_in_def ensure_def Let_def split: if_splits)
    then show ?thesis using update_inv [OF assms(1)] by auto
  next
    case (Claim_Due now locked worker limit seconds)
    then have "\<exists>P. q' = update_queued P (take_lease worker now seconds) q"
      using assms(2) by (auto simp: map_sum_Inr claim_due_def ensure_def Let_def split: if_splits)
    then show ?thesis using update_inv [OF assms(1)] by auto
  next
    case (Apply_Result now claim p finished retry)
    then have q': "q' = update_queued (holds_lease now claim) (\<lambda>r. r\<lparr>qr_payload := p, qr_pending := qr_pending r \<and> \<not> finished, qr_phase := qr_phase r + 1,
         qr_owner := None, qr_until := None, qr_next := now + of_int retry\<rparr>) q"
      using assms(2) by (auto simp: map_sum_Inr apply_in_def ensure_def update_queued_def holds_lease_def split: if_splits)
    show ?thesis unfolding q' by (rule update_inv [OF assms(1)]) simp
  next
    case (Replace_Row now i p)
    show ?thesis
    proof (cases "find_queued i q")
      case None
      then show ?thesis using assms Replace_Row by simp
    next
      case (Some m)
      then have q': "q' = update_queued (\<lambda>r. qr_id r = i \<and> unleased now r) (\<lambda>r. r\<lparr>qr_payload := p, qr_phase := qr_phase m + 1\<rparr>) q"
        using assms(2) Replace_Row by (simp add: replace_in_def Let_def)
      show ?thesis unfolding q' by (rule update_inv [OF assms(1)]) (use u in auto)
    qed
  next
    case (Set_Time P f)
    then have q': "q' = update_queued P (\<lambda>r. r\<lparr>qr_next := f (qr_next r)\<rparr>) q" using assms(2) by (simp add: set_next_def)
    show ?thesis unfolding q' by (rule update_inv [OF assms(1)]) (use u in auto)
  qed
qed

interpretation lease_runs: guarded_steps "queue_step FP" queue_inv for FP
  by unfold_locales (rule queue_step_inv)

section \<open>What a lease is worth\<close>

text \<open>A row only changes by moving its lease or its phase number up, its time aside.\<close>

definition advances :: "'p queued \<Rightarrow> 'p queued \<Rightarrow> bool" where
  "advances r r' \<longleftrightarrow> qr_id r' = qr_id r \<and> ((\<exists>n. r' = r\<lparr>qr_next := n\<rparr>)
     \<or> qr_lease r \<le> qr_lease r' \<and> qr_phase r \<le> qr_phase r' \<and> (qr_lease r < qr_lease r' \<or> qr_phase r < qr_phase r'))"

lemma advances_refl [simp]: "advances r r"
  by (auto simp: advances_def intro!: exI [of _ "qr_next r"])

lemma advances_time: "advances r (r\<lparr>qr_next := t\<rparr>)"
  by (auto simp: advances_def)

lemma advances_le: "advances r s \<Longrightarrow> qr_lease r \<le> qr_lease s \<and> qr_phase r \<le> qr_phase s"
  unfolding advances_def by (elim conjE disjE exE) simp_all

lemma advances_trans:
  assumes "advances r s" "advances s t"
  shows "advances r t"
proof -
  consider n m where "s = r\<lparr>qr_next := n\<rparr>" "t = s\<lparr>qr_next := m\<rparr>"
    | "qr_lease r \<le> qr_lease t" "qr_phase r \<le> qr_phase t" "qr_lease r < qr_lease t \<or> qr_phase r < qr_phase t"
  proof (cases "(\<exists>n. s = r\<lparr>qr_next := n\<rparr>) \<and> (\<exists>m. t = s\<lparr>qr_next := m\<rparr>)")
    case True
    then show ?thesis using that(1) by blast
  next
    case False
    have "qr_lease r \<le> qr_lease s \<and> qr_phase r \<le> qr_phase s" "qr_lease s \<le> qr_lease t \<and> qr_phase s \<le> qr_phase t"
      using advances_le [OF assms(1)] advances_le [OF assms(2)] by simp_all
    moreover have "qr_lease r < qr_lease s \<or> qr_phase r < qr_phase s \<or> qr_lease s < qr_lease t \<or> qr_phase s < qr_phase t"
      using assms False unfolding advances_def by blast
    ultimately show ?thesis using that(2) by linarith
  qed
  then show ?thesis
  proof cases
    case 1
    then have "t = r\<lparr>qr_next := m\<rparr>" by simp
    then show ?thesis using advances_time by simp
  next
    case 2
    moreover have "qr_id t = qr_id r" using assms by (simp add: advances_def)
    ultimately show ?thesis unfolding advances_def by blast
  qed
qed

lemma advances_lease: "advances r (take_lease w now n r)"
  unfolding advances_def by (rule conjI, simp, rule disjI2, simp)

lemma advances_phase: "qr_id r' = qr_id r \<Longrightarrow> qr_lease r' = qr_lease r \<Longrightarrow> qr_phase r < qr_phase r' \<Longrightarrow> advances r r'"
  unfolding advances_def by (rule conjI, simp, rule disjI2, simp)

lemma update_advances:
  assumes "q' = update_queued P f q" "r \<in> set q" "P r \<Longrightarrow> advances r (f r)"
  shows "\<exists>r' \<in> set q'. advances r r'"
proof (rule bexI)
  show "advances r (if P r then f r else r)" using assms(3) by simp
  show "(if P r then f r else r) \<in> set q'" using assms(2) unfolding assms(1) update_queued_def set_map by (rule imageI)
qed

lemma queue_step_advances:
  assumes "queue_inv q" "queue_step FP q x = Inr q'" "r \<in> set q"
  shows "\<exists>r' \<in> set q'. advances r r'"
proof (cases x)
  case (Enqueue now i ord p req)
  then obtain n where "enqueue_in FP now i ord p req q = Inr (n, q')" using assms(2) by (auto simp: map_sum_Inr)
  from enqueue_in_cases [OF this] have "r \<in> set q'" using assms(3) by auto
  then show ?thesis by (intro bexI [of _ r]) simp_all
next
  case (Claim_One now i worker seconds force)
  then obtain P where "q' = update_queued P (take_lease worker now seconds) q"
    using assms(2) by (auto simp: map_sum_Inr claim_one_in_def ensure_def Let_def split: if_splits)
  then show ?thesis by (rule update_advances) (use assms(3) advances_lease in simp_all)
next
  case (Claim_Due now locked worker limit seconds)
  then obtain P where "q' = update_queued P (take_lease worker now seconds) q"
    using assms(2) by (auto simp: map_sum_Inr claim_due_def ensure_def Let_def split: if_splits)
  then show ?thesis by (rule update_advances) (use assms(3) advances_lease in simp_all)
next
  case (Apply_Result now claim p finished retry)
  then have "q' = update_queued (holds_lease now claim) (\<lambda>r. r\<lparr>qr_payload := p, qr_pending := \<not> finished, qr_phase := qr_phase r + 1,
       qr_owner := None, qr_until := None, qr_next := now + of_int retry\<rparr>) q"
    using assms(2) by (auto simp: map_sum_Inr apply_in_def ensure_def split: if_splits)
  then show ?thesis by (rule update_advances) (use assms(3) in \<open>auto intro!: advances_phase\<close>)
next
  case (Replace_Row now i p)
  show ?thesis
  proof (cases "find_queued i q")
    case None
    then show ?thesis using assms(2,3) Replace_Row by (intro bexI [of _ r]) simp_all
  next
    case (Some m)
    then have m: "m \<in> set q" "qr_id m = i" by (auto simp: find_queued_def find_Some_iff)
    have "q' = update_queued (\<lambda>r. qr_id r = i \<and> unleased now r) (\<lambda>r. r\<lparr>qr_payload := p, qr_phase := qr_phase m + 1\<rparr>) q"
      using assms(2) Replace_Row Some by (simp add: replace_in_def Let_def)
    then show ?thesis
    proof (rule update_advances [OF _ assms(3)])
      assume "qr_id r = i \<and> unleased now r"
      then have "m = r" using m assms(1,3) by (auto simp: queue_inv_def distinct_map inj_on_def)
      then show "advances r (r\<lparr>qr_payload := p, qr_phase := qr_phase m + 1\<rparr>)" by (intro advances_phase) simp_all
    qed
  qed
next
  case (Set_Time P f)
  then have "q' = update_queued P (\<lambda>r. r\<lparr>qr_next := f (qr_next r)\<rparr>) q" using assms(2) by (simp add: set_next_def)
  then show ?thesis by (rule update_advances) (use assms(3) advances_time in simp_all)
qed

lemma run_advances:
  assumes "queue_inv q" "r \<in> set q"
  shows "\<exists>r' \<in> set (run (queue_step FP) q xs). advances r r'"
  using assms
proof (induction xs arbitrary: q r)
  case Nil
  then show ?case by (auto intro!: bexI [of _ r])
next
  case (Cons x xs)
  show ?case
  proof (cases "queue_step FP q x")
    case (Inl e)
    then show ?thesis using Cons by simp
  next
    case (Inr t)
    obtain r1 where r1: "r1 \<in> set t" "advances r r1" using queue_step_advances [OF Cons.prems(1) Inr Cons.prems(2)] by blast
    obtain r2 where "r2 \<in> set (run (queue_step FP) t xs)" "advances r1 r2"
      using Cons.IH [OF queue_step_inv [OF Cons.prems(1) Inr] r1(1)] by blast
    then show ?thesis using Inr r1(2) by (auto intro: advances_trans)
  qed
qed

lemma claim_one_row:
  assumes "claim_one_in now i worker seconds force q = Inr (Some c, q1)"
  shows "c \<in> set q1 \<and> qr_id c = i \<and> qr_owner c = Some worker \<and> qr_pending c \<and> (\<exists>r \<in> set q. c = take_lease worker now seconds r \<and> unleased now r)"
proof -
  let ?P = "\<lambda>r. qr_id r = i \<and> qr_pending r \<and> (force \<or> qr_next r \<le> now) \<and> unleased now r"
  obtain r where "List.find ?P q = Some r" "c = take_lease worker now seconds r" "q1 = update_queued ?P (take_lease worker now seconds) q"
    using assms by (auto simp: claim_one_in_def ensure_def Let_def split: if_splits)
  then have r: "r \<in> set q" "?P r" "c = take_lease worker now seconds r" "q1 = update_queued ?P (take_lease worker now seconds) q"
    by (auto simp: find_Some_iff)
  then have "c \<in> set q1" by (force simp: update_queued_def image_iff)
  then show ?thesis using r by auto
qed

lemma spent_lease:
  assumes "queue_inv q" "c' \<in> set q" "qr_id c' = qr_id c" "qr_lease c < qr_lease c' \<or> qr_phase c < qr_phase c'"
    and "apply_in now c p finished retry q = Inr (b, q')"
  shows "\<not> b \<and> q' = q"
proof -
  have "\<not> holds_lease now c r" if "r \<in> set q" for r
  proof
    assume h: "holds_lease now c r"
    then have "r = c'" using assms(1-3) that by (auto simp: holds_lease_def queue_inv_def distinct_map inj_on_def)
    then show False using h assms(4) by (auto simp: holds_lease_def)
  qed
  then have "list_ex (holds_lease now c) q = False" "update_queued (holds_lease now c) f q = q" for f :: "'a queued \<Rightarrow> 'a queued"
    by (auto simp: list_ex_iff update_queued_def intro!: map_idI)
  then show ?thesis using assms(5) by (auto simp: apply_in_def ensure_def split: if_splits)
qed

text \<open>C38.
  A lease is worth one result: when a worker claimed an operation and, after anything other
  workers do, its result is stored, then the operation is still exactly the one it claimed, and
  no result under the same claim is stored again, whatever happens next. A result that is not
  stored changes nothing.
\<close>

theorem lease_worth_one_result:
  assumes "q = run (queue_step FP) [] xs" "claim_one_in t0 i worker seconds force q = Inr (Some c, q1)"
    and "q2 = run (queue_step FP) q1 ys" "apply_in t1 c p finished retry q2 = Inr (stored, q3)"
    and "q4 = run (queue_step FP) q3 zs" "apply_in t2 c p' finished' retry' q4 = Inr (again, q5)"
  shows "(stored \<longrightarrow> (\<exists>n. c\<lparr>qr_next := n\<rparr> \<in> set q2) \<and> \<not> again \<and> q5 = q4) \<and> (\<not> stored \<longrightarrow> q3 = q2)"
proof -
  have "queue_inv []" by (simp add: queue_inv_def)
  then have "queue_inv q" unfolding assms(1) by (rule lease_runs.run_inv)
  moreover have "queue_step FP q (Claim_One t0 i worker seconds force) = Inr q1" using assms(2) by simp
  ultimately have inv1: "queue_inv q1" by (rule queue_step_inv)
  then have inv2: "queue_inv q2" unfolding assms(3) by (rule lease_runs.run_inv)
  have step3: "queue_step FP q2 (Apply_Result t1 c p finished retry) = Inr q3" using assms(4) by simp
  have inv3: "queue_inv q3" by (rule queue_step_inv [OF inv2 step3])
  have inv4: "queue_inv q4" unfolding assms(5) using inv3 by (rule lease_runs.run_inv)
  obtain r where r: "r \<in> set q2" "advances c r"
    using run_advances [OF inv1] claim_one_row [OF assms(2)] unfolding assms(3) by blast
  show ?thesis
  proof (cases "qr_lease c < qr_lease r \<or> qr_phase c < qr_phase r")
    case True
    have "\<not> stored \<and> q3 = q2" by (rule spent_lease [OF inv2 r(1) _ True assms(4)]) (use r(2) in \<open>simp add: advances_def\<close>)
    then show ?thesis by simp
  next
    case False
    then obtain n where same: "r = c\<lparr>qr_next := n\<rparr>" using r(2) by (auto simp: advances_def)
    then have rc: "qr_id r = qr_id c" "qr_lease r = qr_lease c" "qr_phase r = qr_phase c" by simp_all
    show ?thesis
    proof (cases "holds_lease t1 c r")
      case False
      have "\<not> holds_lease t1 c x" if "x \<in> set q2" for x
        using that False r(1) rc(1) inv2 by (auto simp: holds_lease_def queue_inv_def distinct_map inj_on_def)
      then have "list_ex (holds_lease t1 c) q2 = False" "update_queued (holds_lease t1 c) f q2 = q2" for f :: "'a queued \<Rightarrow> 'a queued"
        by (auto simp: list_ex_iff update_queued_def intro!: map_idI)
      then show ?thesis using assms(4) by (auto simp: apply_in_def ensure_def split: if_splits)
    next
      case True
      define r3 where "r3 = r\<lparr>qr_payload := p, qr_pending := \<not> finished, qr_phase := qr_phase r + 1, qr_owner := None, qr_until := None, qr_next := t1 + of_int retry\<rparr>"
      have "r3 \<in> set q3" using assms(4) r(1) True
        by (auto simp: apply_in_def ensure_def update_queued_def r3_def image_iff split: if_splits intro!: bexI [of _ r])
      then obtain r4 where r4: "r4 \<in> set q4" "advances r3 r4" using run_advances [OF inv3] unfolding assms(5) by blast
      have "qr_phase c < qr_phase r3" "qr_id r3 = qr_id c" using rc by (simp_all add: r3_def)
      then have "qr_phase c < qr_phase r4" "qr_id r4 = qr_id c" using r4(2) unfolding advances_def by auto
      then have "\<not> again \<and> q5 = q4" by (intro spent_lease [OF inv4 r4(1) _ _ assms(6)]) simp_all
      moreover have "stored" using assms(4) r(1) True by (auto simp: apply_in_def ensure_def list_ex_iff split: if_splits)
      ultimately show ?thesis using same r(1) by blast
    qed
  qed
qed

text \<open>The node that claimed first stores its result, and cannot store a second one.\<close>

definition leased_row :: "nat queued option \<times> nat queued list" where
  "leased_row = the_ok (claim_one_in 10 ''op1'' ''node-a'' 30 True (run (queue_step (\<lambda>_ _ _. ''f'')) [] [Enqueue 0 ''op1'' ''j'' (7::nat) ''r1'']))"

definition stored_row :: "bool \<times> nat queued list" where
  "stored_row = the_ok (apply_in 12 (the (fst leased_row)) 8 False 0 (snd leased_row))"

definition stored_twice :: "bool \<times> nat queued list" where
  "stored_twice = the_ok (apply_in 13 (the (fst leased_row)) 9 True 0 (run (queue_step (\<lambda>_ _ _. ''f'')) (snd stored_row) [Claim_One 12 ''op1'' ''node-b'' 30 True]))"

lemma leased_facts: "fst leased_row \<noteq> None" "fst stored_row"
  "claim_one_in 10 ''op1'' ''node-a'' 30 True (run (queue_step (\<lambda>_ _ _. ''f'')) [] [Enqueue 0 ''op1'' ''j'' (7::nat) ''r1'']) = Inr leased_row"
  "apply_in 12 (the (fst leased_row)) 8 False 0 (snd leased_row) = Inr stored_row"
  "apply_in 13 (the (fst leased_row)) 9 True 0 (run (queue_step (\<lambda>_ _ _. ''f'')) (snd stored_row) [Claim_One 12 ''op1'' ''node-b'' 30 True]) = Inr stored_twice"
  by code_simp+

theorem lease_worth_one_result_witness:
  "fst stored_row \<and> \<not> fst stored_twice
   \<and> snd stored_twice = run (queue_step (\<lambda>_ _ _. ''f'')) (snd stored_row) [Claim_One 12 ''op1'' ''node-b'' 30 True]"
proof -
  obtain c where c: "fst leased_row = Some c" using leased_facts(1) by auto
  have a: "claim_one_in 10 ''op1'' ''node-a'' 30 True (run (queue_step (\<lambda>_ _ _. ''f'')) [] [Enqueue 0 ''op1'' ''j'' (7::nat) ''r1'']) = Inr (Some c, snd leased_row)"
    using leased_facts(3) c by (metis prod.collapse)
  have b: "apply_in 12 c 8 False 0 (run (queue_step (\<lambda>_ _ _. ''f'')) (snd leased_row) []) = Inr (fst stored_row, snd stored_row)"
    using leased_facts(4) c by simp
  have d: "apply_in 13 c 9 True 0 (run (queue_step (\<lambda>_ _ _. ''f'')) (snd stored_row) [Claim_One 12 ''op1'' ''node-b'' 30 True]) = Inr (fst stored_twice, snd stored_twice)"
    using leased_facts(5) c by (simp del: run.simps)
  show ?thesis using lease_worth_one_result [OF refl a refl b refl d] leased_facts(2) by simp
qed

end
