(* ===== verification/Cluster.thy ===== *)
theory Cluster
  imports Payment_Operations Lease_Queue
begin

text \<open>
  The coordinator over a shared PostgreSQL database (\<^verbatim>\<open>demo/route/ha/coordinator.py\<close>,
  \<^verbatim>\<open>journey_repository.py\<close>, \<^verbatim>\<open>inbox.py\<close>, \<^verbatim>\<open>worker.py\<close>): any number of nodes run commands and
  carry out operations; a node holds a lease on the operation while it talks to a merchant or the
  provider, outside of any transaction. A transaction is a function of the store; an exception
  rolls it back. \<open>clk\<close> gives the readings of the database clock in one transaction.
\<close>

section \<open>The database\<close>

record cluster =
  cl_journeys :: "(string \<times> journey) list"
  cl_requests :: "((string \<times> string \<times> string) \<times> string \<times> string option) list"
  cl_queue :: "operation queued list"
  cl_inbox :: inbox

definition read_journey :: "cluster \<Rightarrow> string \<Rightarrow> journey_error + journey" where
  "read_journey cl sid = (case map_of (cl_journeys cl) sid of None \<Rightarrow> Inl (Key_Error sid) | Some s \<Rightarrow> Inr s)"

definition write_journey :: "journey \<Rightarrow> cluster \<Rightarrow> cluster" where
  "write_journey s cl = cl\<lparr>cl_journeys := dput (tr_id s) s (cl_journeys cl)\<rparr>"

definition create_in :: "journey \<Rightarrow> cluster \<Rightarrow> journey_error + cluster" where
  "create_in s cl = ensure (map_of (cl_journeys cl) (tr_id s) = None) (Exception ''UniqueViolation'') (Inr (write_journey s cl))"

definition past_request :: "string \<Rightarrow> string \<Rightarrow> string \<Rightarrow> cluster \<Rightarrow> (string \<times> string option) option" where
  "past_request sid channel rid cl = map_of (cl_requests cl) (sid, channel, rid)"

definition record_request :: "string \<Rightarrow> string \<Rightarrow> string \<Rightarrow> string \<Rightarrow> string option \<Rightarrow> cluster \<Rightarrow> cluster" where
  "record_request sid channel rid fp oid cl = cl\<lparr>cl_requests := cl_requests cl @ [((sid, channel, rid), fp, oid)]\<rparr>"

text \<open>The row of an operation of this journey.\<close>

definition journey_operation :: "string \<Rightarrow> string \<Rightarrow> cluster \<Rightarrow> journey_error + operation queued" where
  "journey_operation sid oid cl = (case find_queued oid (cl_queue cl) of
     None \<Rightarrow> Inl (Key_Error oid)
   | Some r \<Rightarrow> ensure (qr_order r = sid \<and> op_sid (qr_payload r) = sid) (Key_Error oid) (Inr r))"

text \<open>The next time of an operation; \<open>to_timestamp(NULL)\<close> violates \<open>NOT NULL\<close>.\<close>

definition schedule_row :: "rat \<Rightarrow> operation \<Rightarrow> operation queued list \<Rightarrow> journey_error + operation queued list" where
  "schedule_row now op q =
    (let r = recovery_of now op
     in if op_status op \<noteq> PENDING \<or> sc_state r = REVIEW_REQUIRED then Inr (set_next (\<lambda>x. qr_id x = op_id op) (\<lambda>_. now) q)
        else (case sc_next_retry_at r of
            None \<Rightarrow> Inl (Exception ''NotNullViolation'')
          | Some t \<Rightarrow> Inr (set_next (\<lambda>x. qr_id x = op_id op) (\<lambda>_. t) q)))"

definition queue_exception :: "queue_error + 'a \<Rightarrow> journey_error + 'a" where
  "queue_exception r = map_sum (\<lambda>e. case e of Invalid_Identifier \<Rightarrow> Exception ''PaymentError'' | _ \<Rightarrow> Exception ''ValueError'') id r"

definition enqueue_operation ::
  "(string \<Rightarrow> string \<Rightarrow> operation \<Rightarrow> string) \<Rightarrow> (nat \<Rightarrow> rat) \<Rightarrow> operation \<Rightarrow> string \<Rightarrow> cluster \<Rightarrow> journey_error + cluster" where
  "enqueue_operation FP clk op req cl =
    bind_ok (queue_exception (enqueue_in FP (clk 0) (op_id op) (op_sid op) op req (cl_queue cl))) (\<lambda>(_, q).
      bind_ok (schedule_row (clk 1) op q) (\<lambda>q. Inr (cl\<lparr>cl_queue := q\<rparr>)))"

text \<open>The payload and its phase number, when nobody holds a lease; otherwise nothing.\<close>

definition replace_unleased :: "(nat \<Rightarrow> rat) \<Rightarrow> operation \<Rightarrow> cluster \<Rightarrow> journey_error + cluster" where
  "replace_unleased clk op cl =
    (case replace_in (clk 0) (op_id op) op (phase_version op) (cl_queue cl) of (done, q) \<Rightarrow>
       if \<not> done then Inr cl else bind_ok (schedule_row (clk 1) op q) (\<lambda>q. Inr (cl\<lparr>cl_queue := q\<rparr>)))"

definition register_ref :: "authorization option \<Rightarrow> cluster \<Rightarrow> journey_error + cluster" where
  "register_ref a cl = map_sum id (\<lambda>ib. cl\<lparr>cl_inbox := ib\<rparr>) (register_auth a (cl_inbox cl))"

section \<open>Commands\<close>

text \<open>The journey to show, the operation to resume, and whether the request was a repetition.\<close>

type_synonym command_reply = "journey \<times> string option \<times> bool"

definition cluster_recover ::
  "(nat \<Rightarrow> rat) \<Rightarrow> string \<Rightarrow> journey_command \<Rightarrow> string \<Rightarrow> journey \<Rightarrow> cluster \<Rightarrow> journey_error + command_reply \<times> cluster" where
  "cluster_recover clk sid c fp s cl =
    (case jo_active s of
       None \<Rightarrow> Inr ((s, None, False), record_request sid ''command'' (jc_request c) fp None cl)
     | Some oid \<Rightarrow> bind_ok (journey_operation sid oid cl) (\<lambda>r.
         bind_ok (if sc_state (recovery_of (clk 1) (qr_payload r)) \<noteq> REVIEW_REQUIRED then Inr cl
           else ensure (unleased (clk 0) r) (Conflict ''TRANSFER_PENDING'')
             (bind_ok (review_again (clk 1) (qr_payload r)) (\<lambda>op. replace_unleased (\<lambda>k. clk (k + 2)) op cl)))
          (\<lambda>cl. Inr ((s, Some oid, False), record_request sid ''command'' (jc_request c) fp (Some oid) cl))))"

definition cluster_open ::
  "(string \<Rightarrow> string \<Rightarrow> operation \<Rightarrow> string) \<Rightarrow> (nat \<Rightarrow> rat) \<Rightarrow> string \<Rightarrow> journey_command \<Rightarrow> string \<Rightarrow> journey \<times> operation \<Rightarrow> cluster
    \<Rightarrow> journey_error + command_reply \<times> cluster" where
  "cluster_open FP clk sid c fp plan cl = (case plan of (s, op) \<Rightarrow>
     bind_ok (register_ref (new_auth op) cl) (\<lambda>cl. bind_ok (register_ref (old_auth op) cl) (\<lambda>cl.
     bind_ok (enqueue_operation FP (\<lambda>k. clk (k + 1)) op (jc_request c) cl) (\<lambda>cl.
       let s = s\<lparr>jo_active := Some (op_id op), jo_pending_order := Some (op_order op), jo_payment_order := Some (op_order op),
             jo_handoff := Some (public_operation op), tr_version := tr_version s + 1\<rparr>
       in Inr ((s, Some (op_id op), False), write_journey s (record_request sid ''command'' (jc_request c) fp (Some (op_id op)) cl))))))"

definition cluster_command_tx ::
  "(string \<Rightarrow> string \<Rightarrow> operation \<Rightarrow> string) \<Rightarrow> (journey_command \<Rightarrow> string) \<Rightarrow> quote_hash \<Rightarrow> (terms \<Rightarrow> string) \<Rightarrow> auth_hash
    \<Rightarrow> string \<times> string \<times> string \<times> string \<Rightarrow> (nat \<Rightarrow> rat) \<Rightarrow> string \<Rightarrow> journey_command \<Rightarrow> cluster \<Rightarrow> journey_error + command_reply \<times> cluster" where
  "cluster_command_tx FP CH QH TH AH ids clk sid c cl = (case ids of (oid, aid, order_id, code) \<Rightarrow>
     bind_ok (read_journey cl sid) (\<lambda>s.
       case past_request sid ''command'' (jc_request c) cl of
         Some (fp, past) \<Rightarrow> ensure (fp = CH c) (Conflict ''IDEMPOTENCY_CONFLICT'') (Inr ((s, past, True), cl))
       | None \<Rightarrow>
           ensure (tr_version s = jc_version c) (Conflict ''STALE_VERSION'')
            (if jc_action c = A_recover then cluster_recover clk sid c (CH c) s cl
             else ensure (jo_active s = None) (Conflict ''TRANSFER_PENDING'')
              (bind_ok (apply_action QH TH order_id code c s) (\<lambda>cand.
                if jc_action c \<notin> set PAY_ACTIONS then
                  (let s = cand\<lparr>tr_version := tr_version cand + 1\<rparr>
                   in Inr ((s, None, False), record_request sid ''command'' (jc_request c) (CH c) None (write_journey s cl)))
                else if jc_action c \<in> {A_claim, A_cancel} \<and> tr_order cand = tr_order s then
                  Inr ((s, None, True), record_request sid ''command'' (jc_request c) (CH c) None cl)
                else (case tr_order cand of
                    None \<Rightarrow> Inl (Exception ''TypeError'')
                  | Some after \<Rightarrow> cluster_open FP clk sid c (CH c) (pay_plan AH (oid, aid) (clk 0) (jc_action c) s cand after) cl))))))"

section \<open>Controls\<close>

definition cluster_control_tx :: "(json_obj \<Rightarrow> string) \<Rightarrow> string \<Rightarrow> json_obj \<Rightarrow> cluster \<Rightarrow> journey_error + (journey \<times> bool) \<times> cluster" where
  "cluster_control_tx CH sid c cl = bind_ok (pay_setting c) (\<lambda>x.
     case pget c ''request_id'' of
       JStr r \<Rightarrow> bind_ok (read_journey cl sid) (\<lambda>s.
         case past_request sid ''payment'' r cl of
           Some (fp, _) \<Rightarrow> ensure (fp = CH c) (Conflict ''IDEMPOTENCY_CONFLICT'') (Inr ((s, True), cl))
         | None \<Rightarrow> ensure (py_eq (JInt (tr_version s)) (pget c ''expected_version'')) (Conflict ''STALE_VERSION'')
             (ensure (jo_active s = None) (Conflict ''TRANSFER_PENDING'')
               (bind_ok (change_setting x s) (\<lambda>s.
                 let s = s\<lparr>tr_version := tr_version s + 1\<rparr>
                 in Inr ((s, False), record_request sid ''payment'' r (CH c) None (write_journey s cl))))))
     | _ \<Rightarrow> Inl (Exception ''TypeError''))"

text \<open>The operation of a guest control has no payment, but a phase number.\<close>

definition no_payment :: pay_part where
  "no_payment = \<lparr>pp_phase_version = 0, pp_event_base = 0, pp_fault = No_Payment_Fault, pp_old_auth = None, pp_new_auth = None,
     pp_card = [], pp_manual_reviews = 0\<rparr>"

definition guest_transaction ::
  "(string \<Rightarrow> string \<Rightarrow> operation \<Rightarrow> string) \<Rightarrow> (string \<Rightarrow> string \<Rightarrow> string) \<Rightarrow> string \<Rightarrow> (nat \<Rightarrow> rat) \<Rightarrow> string \<Rightarrow> control_command
    \<Rightarrow> journey \<Rightarrow> cluster \<Rightarrow> journey_error + (journey \<times> string) \<times> cluster" where
  "guest_transaction FP GH oid clk sid c s cl =
    (case cc_store c of
       None \<Rightarrow> Inl (Conflict ''UNKNOWN_STORE'')
     | Some shop \<Rightarrow>
         ensure (map_of CAPACITY shop \<noteq> None) (Conflict ''UNKNOWN_STORE'')
          (ensure (case tr_order s of None \<Rightarrow> True | Some x \<Rightarrow> shop \<noteq> or_store x) (Conflict ''SAME_STORE'')
            (ensure (cc_action c = C_occupy \<longrightarrow> guest_count (jo_guests s) < 4) (Conflict ''GUEST_LIMIT'')
              (let old = dget [] (jo_guests s) shop;
                   targets = (if cc_action c = C_occupy then [''GUEST-'' @ GH sid (cc_request c)] else old);
                   guests = dput shop (if cc_action c = C_occupy then old @ targets else []) (jo_guests s);
                   op = (control_operation oid (clk 0) sid s c shop targets (s\<lparr>jo_guests := guests\<rparr>))\<lparr>op_payment := Some no_payment\<rparr>
               in bind_ok (enqueue_operation FP (\<lambda>k. clk (k + 1)) op (''control:'' @ cc_request c) cl) (\<lambda>cl.
                    Inr ((s\<lparr>jo_active := Some oid, jo_handoff := Some (public_operation op)\<rparr>, oid), cl))))))"

definition cluster_transfer_tx ::
  "(string \<Rightarrow> string \<Rightarrow> operation \<Rightarrow> string) \<Rightarrow> (control_command \<Rightarrow> string) \<Rightarrow> (string \<Rightarrow> string \<Rightarrow> string) \<Rightarrow> string \<Rightarrow> (nat \<Rightarrow> rat) \<Rightarrow> string
    \<Rightarrow> control_command \<Rightarrow> cluster \<Rightarrow> journey_error + command_reply \<times> cluster" where
  "cluster_transfer_tx FP CH GH oid clk sid c cl = bind_ok (read_journey cl sid) (\<lambda>s.
     case past_request sid ''transfer'' (cc_request c) cl of
       Some (fp, past) \<Rightarrow> ensure (fp = CH c) (Conflict ''IDEMPOTENCY_CONFLICT'') (Inr ((s, past, True), cl))
     | None \<Rightarrow> ensure (tr_version s = cc_version c) (Conflict ''STALE_VERSION'')
         (ensure (jo_active s = None) (Conflict ''TRANSFER_PENDING'')
           (bind_ok (case cc_action c of
               C_fault \<Rightarrow> (case cc_fault c of
                   None \<Rightarrow> Inl (Conflict ''INVALID_COMMAND'')
                 | Some f \<Rightarrow> Inr ((s\<lparr>jo_next_fault := f\<rparr>, None), cl))
             | C_other _ \<Rightarrow> Inl (Conflict ''INVALID_COMMAND'')
             | _ \<Rightarrow> map_sum id (\<lambda>((s, oid), cl). ((s, Some oid), cl)) (guest_transaction FP GH oid clk sid c s cl))
            (\<lambda>((s, past), cl). let s = s\<lparr>tr_version := tr_version s + 1\<rparr>
              in Inr ((s, past, False), record_request sid ''transfer'' (cc_request c) (CH c) past (write_journey s cl))))))"

section \<open>One iteration under a lease\<close>

text \<open>\<open>None\<close>: nothing to do now, or somebody else holds the lease.\<close>

definition prepare_claim ::
  "bool \<Rightarrow> (nat \<Rightarrow> rat) \<Rightarrow> string \<Rightarrow> int \<Rightarrow> string \<Rightarrow> string \<Rightarrow> cluster \<Rightarrow> journey_error + operation queued option \<times> cluster" where
  "prepare_claim automatic clk owner seconds sid oid cl =
    bind_ok (read_journey cl sid) (\<lambda>s. bind_ok (journey_operation sid oid cl) (\<lambda>r.
      if \<not> qr_pending r \<or> \<not> unleased (clk 0) r then Inr (None, cl)
      else ensure (jo_active s = Some oid) (Conflict ''OPERATION_FENCE'')
       (if sc_state (recovery_of (clk 1) (qr_payload r)) = REVIEW_REQUIRED \<or> automatic \<and> clk 0 < qr_next r then Inr (None, cl)
        else bind_ok (case expire (qr_payload r) (clk 1) of
            (True, op) \<Rightarrow> (let op = bump_version op
              in bind_ok (replace_unleased (\<lambda>k. clk (k + 2)) op cl) (\<lambda>cl.
                   Inr (write_journey (s\<lparr>tr_version := tr_version s + 1, jo_handoff := Some (public_operation op)\<rparr>) cl)))
          | (False, _) \<Rightarrow> Inr cl)
         (\<lambda>cl. bind_ok (queue_exception (claim_one_in (clk 4) oid owner seconds (\<not> automatic) (cl_queue cl))) (\<lambda>(claim, q).
            Inr (claim, cl\<lparr>cl_queue := q\<rparr>))))))"

text \<open>What is learnt of a guest: the next one, or the end.\<close>

definition guest_reply :: "step_reply \<Rightarrow> operation \<Rightarrow> operation" where
  "guest_reply r op =
    (if \<not> reply_ok r then op\<lparr>op_status := REJECTED, op_failure := reply_code r\<rparr>
     else (let op = op\<lparr>op_guest_index := op_guest_index op + 1\<rparr>
       in if length (op_guests op) \<le> op_guest_index op then op\<lparr>op_phase := FINALIZE\<rparr> else op))"

definition cluster_learnt :: "rat \<Rightarrow> step_reply option \<Rightarrow> journey \<Rightarrow> operation \<Rightarrow> journey_error + journey \<times> operation" where
  "cluster_learnt tick reply s op =
    (case reply of
       Some r \<Rightarrow> if is_control (op_action op) \<and> op_phase op \<in> {GUEST_ADMIT, GUEST_CANCEL}
         then Inr (s, after_step tick False (guest_reply r (add_history (op_phase op) (if reply_ok r then CONFIRMED
             else Refused_With (case reply_code r of None \<Rightarrow> ''REJECTED'' | Some code \<Rightarrow> code)) (op\<lparr>op_attempts := op_attempts op + 1\<rparr>))))
         else learnt tick reply s op
     | None \<Rightarrow> learnt tick reply s op)"

definition cluster_closed :: "journey \<Rightarrow> operation \<Rightarrow> journey_error + journey" where
  "cluster_closed s op = (if is_control (op_action op) then Inr (if op_status op = COMPLETED then op_candidate op else s) else closed_journey s op)"

text \<open>The result: whether the loop of \<open>resume\<close> stops, and whether anything was stored.\<close>

definition lease_current :: "rat \<Rightarrow> string \<Rightarrow> operation queued \<Rightarrow> string \<Rightarrow> operation queued \<Rightarrow> journey \<Rightarrow> bool" where
  "lease_current now owner claim oid current s \<longleftrightarrow> qr_lease current = qr_lease claim \<and> qr_phase current = qr_phase claim
     \<and> qr_owner current = Some owner \<and> \<not> unleased now current \<and> qr_pending current \<and> jo_active s = Some oid"

definition cluster_commit ::
  "(nat \<Rightarrow> rat) \<Rightarrow> string \<Rightarrow> operation queued \<Rightarrow> string \<Rightarrow> string \<Rightarrow> step_reply option \<Rightarrow> cluster \<Rightarrow> journey_error + (bool \<times> bool) \<times> cluster" where
  "cluster_commit clk owner claim sid oid reply cl =
    bind_ok (read_journey cl sid) (\<lambda>s. bind_ok (journey_operation sid oid cl) (\<lambda>current.
      if \<not> lease_current (clk 0) owner claim oid current s then Inr ((False, False), cl)
      else bind_ok (cluster_learnt (clk 1) reply s (qr_payload claim)) (\<lambda>(s1, op). bind_ok (cluster_closed s1 op) (\<lambda>s1.
        let op = bump_version op;
            s1 = s1\<lparr>tr_version := tr_version s + 1\<rparr>;
            s1 = (if op_status op \<noteq> PENDING then s1\<lparr>jo_active := None, jo_pending_order := None\<rparr> else s1);
            s1 = s1\<lparr>jo_handoff := Some (public_operation op)\<rparr>
        in bind_ok (queue_exception (apply_in (clk 2) claim op (op_status op \<noteq> PENDING) 0 (cl_queue cl))) (\<lambda>(stored, q).
             if \<not> stored then Inr ((False, False), cl\<lparr>cl_queue := q\<rparr>)
             else bind_ok (schedule_row (clk 3) op q) (\<lambda>q.
               Inr ((reply = None \<or> op_status op \<noteq> PENDING \<or> sc_state (recovery_of (clk 1) op) = REVIEW_REQUIRED, True),
                 write_journey s1 (cl\<lparr>cl_queue := q\<rparr>))))))))"

section \<open>Resume and the worker\<close>

record cluster_services =
  cs_store :: cluster
  cs_fleet :: fleet
  cs_ledger :: ledger

text \<open>What one iteration meets: the calls it makes and the clock of its two transactions.\<close>

record cluster_tick =
  ct_env :: tick_env
  ct_first :: "nat \<Rightarrow> rat"
  ct_second :: "nat \<Rightarrow> rat"

definition cluster_tick_step ::
  "(json \<Rightarrow> string) \<Rightarrow> bool \<Rightarrow> cluster_tick \<Rightarrow> string \<Rightarrow> int \<Rightarrow> string \<Rightarrow> string \<Rightarrow> cluster_services \<Rightarrow> (journey_error + bool) \<times> cluster_services" where
  "cluster_tick_step H automatic ct owner seconds sid oid cs =
    (case prepare_claim automatic (ct_first ct) owner seconds sid oid (cs_store cs) of
       Inl e \<Rightarrow> (Inl e, cs)
     | Inr (None, cl) \<Rightarrow> (Inr True, cs\<lparr>cs_store := cl\<rparr>)
     | Inr (Some claim, cl) \<Rightarrow>
         (case pay_external H True (ct_env ct) (qr_payload claim) (cs_fleet cs, cs_ledger cs) of (r, fl, l) \<Rightarrow>
            let cs = \<lparr>cs_store = cl, cs_fleet = fl, cs_ledger = l\<rparr>
            in case r of Inl e \<Rightarrow> (Inl e, cs)
               | Inr reply \<Rightarrow> (case cluster_commit (ct_second ct) owner claim sid oid reply cl of
                   Inl e \<Rightarrow> (Inl e, cs)
                 | Inr ((stop, _), cl) \<Rightarrow> (Inr stop, cs\<lparr>cs_store := cl\<rparr>))))"

fun cluster_loop ::
  "(json \<Rightarrow> string) \<Rightarrow> bool \<Rightarrow> cluster_tick list \<Rightarrow> string \<Rightarrow> int \<Rightarrow> string \<Rightarrow> string \<Rightarrow> cluster_services \<Rightarrow> (journey_error + journey) \<times> cluster_services" where
  "cluster_loop H automatic [] owner seconds sid oid cs = (read_journey (cs_store cs) sid, cs)"
| "cluster_loop H automatic (ct # cts) owner seconds sid oid cs =
    (case cluster_tick_step H automatic ct owner seconds sid oid cs of
       (Inl e, cs) \<Rightarrow> (Inl e, cs)
     | (Inr True, cs) \<Rightarrow> (read_journey (cs_store cs) sid, cs)
     | (Inr False, cs) \<Rightarrow> cluster_loop H False cts owner seconds sid oid cs)"

definition cluster_resume ::
  "(json \<Rightarrow> string) \<Rightarrow> bool \<Rightarrow> (nat \<Rightarrow> cluster_tick) \<Rightarrow> string \<Rightarrow> int \<Rightarrow> string \<Rightarrow> string option \<Rightarrow> cluster_services
    \<Rightarrow> (journey_error + journey) \<times> cluster_services" where
  "cluster_resume H automatic env owner seconds sid oid cs = (case oid of
     None \<Rightarrow> (read_journey (cs_store cs) sid, cs)
   | Some oid \<Rightarrow> cluster_loop H automatic (map env [0..<16]) owner seconds sid oid cs)"

text \<open>A command resumes the operation it opened or had opened before.\<close>

definition cluster_command ::
  "(json \<Rightarrow> string) \<Rightarrow> (nat \<Rightarrow> cluster_tick) \<Rightarrow> string \<Rightarrow> int \<Rightarrow> string \<Rightarrow> (cluster \<Rightarrow> journey_error + command_reply \<times> cluster)
    \<Rightarrow> cluster_services \<Rightarrow> (journey_error + journey) \<times> cluster_services" where
  "cluster_command H env owner seconds sid tx cs =
    (case tx (cs_store cs) of
       Inl e \<Rightarrow> (Inl e, cs)
     | Inr ((s, None, _), cl) \<Rightarrow> (Inr s, cs\<lparr>cs_store := cl\<rparr>)
     | Inr ((_, Some oid, _), cl) \<Rightarrow> cluster_resume H False env owner seconds sid (Some oid) (cs\<lparr>cs_store := cl\<rparr>))"

text \<open>A rejected guest control is a conflict.\<close>

definition rejected_control :: "(journey_error + journey) \<times> cluster_services \<Rightarrow> (journey_error + journey) \<times> cluster_services" where
  "rejected_control r = (case r of
     (Inr s, cs) \<Rightarrow> (case jo_handoff s of
         Some h \<Rightarrow> if po_status h = REJECTED then (Inl (Conflict (case po_failure h of None \<Rightarrow> [] | Some f \<Rightarrow> f)), cs) else (Inr s, cs)
       | None \<Rightarrow> (Inr s, cs))
   | x \<Rightarrow> x)"

definition cluster_transfer_control ::
  "(json \<Rightarrow> string) \<Rightarrow> (nat \<Rightarrow> cluster_tick) \<Rightarrow> string \<Rightarrow> int \<Rightarrow> string \<Rightarrow> (cluster \<Rightarrow> journey_error + command_reply \<times> cluster)
    \<Rightarrow> cluster_services \<Rightarrow> (journey_error + journey) \<times> cluster_services" where
  "cluster_transfer_control H env owner seconds sid tx cs =
    (case tx (cs_store cs) of
       Inr ((_, Some oid, _), cl) \<Rightarrow> rejected_control (cluster_command H env owner seconds sid tx cs)
     | _ \<Rightarrow> cluster_command H env owner seconds sid tx cs)"

definition due_rows :: "rat \<Rightarrow> nat \<Rightarrow> cluster \<Rightarrow> (string \<times> string) list" where
  "due_rows now limit cl = map (\<lambda>r. (qr_id r, qr_order r)) (take limit (sort_key (\<lambda>r. (qr_next r, qr_id r))
     (filter (\<lambda>r. qr_pending r \<and> qr_next r \<le> now \<and> (case op_recovery (qr_payload r) of None \<Rightarrow> False | Some x \<Rightarrow> sc_state x \<noteq> REVIEW_REQUIRED)
        \<and> unleased now r) (cl_queue cl))))"

text \<open>Notifications: \<open>accept\<close> on the shared inbox, and hints that bring operations forward.\<close>

definition cluster_accept ::
  "(string \<Rightarrow> string \<Rightarrow> string \<Rightarrow> string) \<Rightarrow> (string \<Rightarrow> json option) \<Rightarrow> (string \<Rightarrow> string) \<Rightarrow> string \<Rightarrow> rat \<Rightarrow> string \<Rightarrow> string \<Rightarrow> string
    \<Rightarrow> cluster \<Rightarrow> pay_error + bool \<times> cluster" where
  "cluster_accept SG loads SHA secret now body stamp signature cl =
    map_sum id (\<lambda>(d, ib). (d, cl\<lparr>cl_inbox := ib\<rparr>)) (accept SG loads SHA secret now body stamp signature (cl_inbox cl))"

definition cluster_wake :: "rat \<Rightarrow> (string \<times> string \<Rightarrow> bool) \<Rightarrow> nat \<Rightarrow> cluster \<Rightarrow> nat \<times> cluster" where
  "cluster_wake now locked limit cl =
    (let hints = take limit (filter (\<lambda>k. \<not> locked k) (sort_key id (map fst (in_queue (cl_inbox cl)))));
         awake = (\<lambda>r. qr_pending r \<and> (op_world (qr_payload r), op_order (qr_payload r)) \<in> set hints
           \<and> (case op_recovery (qr_payload r) of None \<Rightarrow> False | Some x \<Rightarrow> sc_state x \<noteq> REVIEW_REQUIRED))
     in (length hints, cl\<lparr>cl_queue := set_next awake (min (now + 3)) (cl_queue cl),
          cl_inbox := (cl_inbox cl)\<lparr>in_queue := filter (\<lambda>(k, _). k \<notin> set hints) (in_queue (cl_inbox cl))\<rparr>\<rparr>))"

text \<open>One pass of a worker: each due operation is resumed; a failing one does not stop the others.\<close>

fun worker_rows ::
  "(string \<times> string \<Rightarrow> cluster_services \<Rightarrow> (journey_error + journey) \<times> cluster_services) \<Rightarrow> (string \<times> string) list \<Rightarrow> worker_report
    \<Rightarrow> cluster_services \<Rightarrow> worker_report \<times> cluster_services" where
  "worker_rows rs [] w cs = (w, cs)"
| "worker_rows rs (x # xs) w cs =
    (case rs x cs of
       (Inl _, cs) \<Rightarrow> worker_rows rs xs (w\<lparr>wr_errors := wr_errors w + 1\<rparr>) cs
     | (Inr s, cs) \<Rightarrow> worker_rows rs xs
         (let w = w\<lparr>wr_attempted := wr_attempted w + 1\<rparr>
          in if jo_active s \<noteq> None then w\<lparr>wr_pending := wr_pending w + 1\<rparr> else w\<lparr>wr_completed := wr_completed w + 1\<rparr>) cs)"

definition cluster_run_once ::
  "(json \<Rightarrow> string) \<Rightarrow> (string \<Rightarrow> string) \<Rightarrow> (string \<Rightarrow> nat \<Rightarrow> cluster_tick) \<Rightarrow> rat \<Rightarrow> rat \<Rightarrow> (string \<times> string \<Rightarrow> bool) \<Rightarrow> int \<Rightarrow> nat
    \<Rightarrow> cluster_services \<Rightarrow> worker_report \<times> cluster_services" where
  "cluster_run_once H owner env wake_at now locked seconds limit cs =
    (let cl = snd (cluster_wake wake_at locked limit (cs_store cs))
     in worker_rows (\<lambda>(oid, sid). cluster_resume H True (env oid) (owner oid) seconds sid (Some oid)) (due_rows now limit cl)
          \<lparr>wr_attempted = 0, wr_completed = 0, wr_pending = 0, wr_errors = 0\<rparr> (cs\<lparr>cs_store := cl\<rparr>))"

end
