(* ===== verification/Cluster_Safety.thy ===== *)
theory Cluster_Safety
  imports Cluster Payment_Safety
begin

text \<open>
  The coordinator on the shared database against the coordinator of one process: what a node
  stores at the end of an iteration is what \<open>pay_commit\<close> stores, although other nodes worked on
  the database since the claim.
\<close>

section \<open>The abstraction\<close>

definition queued_op :: "operation queued \<Rightarrow> string \<times> op_row" where
  "queued_op r = (qr_id r, \<lparr>row_request = qr_request r, row_fingerprint = qr_fingerprint r, row_op = qr_payload r\<rparr>)"

definition coordinator_of :: "cluster \<Rightarrow> coordinator" where
  "coordinator_of cl = \<lparr>co_journeys = cl_journeys cl, co_commands = [], co_controls = [], co_operations = map queued_op (cl_queue cl)\<rparr>"

lemma queued_op_time [simp]: "queued_op (r\<lparr>qr_next := t\<rparr>) = queued_op r"
  by (simp add: queued_op_def)

lemma set_next_view [simp]: "map queued_op (set_next P f q) = map queued_op q"
  by (simp add: set_next_def update_queued_def)

lemma schedule_view: "schedule_row now op q = Inr q' \<Longrightarrow> map queued_op q' = map queued_op q"
  by (auto simp: schedule_row_def Let_def split: if_splits option.splits)

lemma view_row: "map_of (map queued_op q) i = map_option (\<lambda>r. snd (queued_op r)) (find_queued i q)"
  by (induction q) (auto simp: queued_op_def find_queued_def)

lemma view_load: "load_op (coordinator_of cl) oid = (case find_queued oid (cl_queue cl) of None \<Rightarrow> Inl (Key_Error oid) | Some r \<Rightarrow> Inr (qr_payload r))"
  by (simp add: load_op_def coordinator_of_def view_row queued_op_def split: option.splits)

lemma view_update:
  assumes "distinct (map qr_id q)" "find_queued i q = Some r" "P r" "\<And>x. P x \<Longrightarrow> qr_id x = i"
    and "queued_op (f r) = (i, (snd (queued_op r))\<lparr>row_op := p\<rparr>)"
  shows "map queued_op (update_queued P f q) = dput i ((snd (queued_op r))\<lparr>row_op := p\<rparr>) (map queued_op q)"
  using assms(1,2)
proof (induction q)
  case Nil
  then show ?case by (simp add: find_queued_def)
next
  case (Cons x q)
  show ?case
  proof (cases "qr_id x = i")
    case True
    then have x: "x = r" using Cons.prems(2) by (simp add: find_queued_def)
    have rest: "\<not> P y" if "y \<in> set q" for y using Cons.prems(1) that True assms(4) [of y] by (auto simp: image_iff)
    then have "update_queued P f q = q" by (auto simp: update_queued_def intro: map_idI)
    then show ?thesis using x True assms(3,5) by (simp add: update_queued_def queued_op_def)
  next
    case False
    then have "find_queued i q = Some r" using Cons.prems(2) by (simp add: find_queued_def)
    moreover have "\<not> P x" using False assms(4) [of x] by auto
    ultimately show ?thesis using Cons False by (simp add: update_queued_def queued_op_def)
  qed
qed

lemma find_queued_row: "find_queued i q = Some r \<Longrightarrow> r \<in> set q \<and> qr_id r = i"
  by (auto simp: find_queued_def find_Some_iff)

lemma transition_action: "op_action (transition op r) = op_action op"
proof -
  have "op_action (on_success op) = op_action op" using on_success_plan [of op] by (simp add: plan_part_def)
  moreover have "op_action (on_refusal code op) = op_action op" for code
    by (simp add: on_refusal_def Let_def next_phase_def aborted_def rejected_def to_review_def)
  ultimately show ?thesis by (simp add: transition_def next_phase_def)
qed

lemma after_step_action: "op_action (after_step t b op) = op_action op"
  using after_step_covered(2) [of t b op] by (simp add: plan_part_def)

lemma learnt_action: "learnt tick reply s op = Inr (s', op') \<Longrightarrow> op_action op' = op_action op"
  by (cases reply) (auto simp: learnt_def Let_def bind_ok_Inr add_history_def after_step_action transition_action)

section \<open>One commit\<close>

text \<open>The journey that is stored with the result.\<close>

definition closing :: "journey \<Rightarrow> journey \<Rightarrow> operation \<Rightarrow> journey" where
  "closing s s2 op = (if op_status op \<noteq> PENDING then s2\<lparr>tr_version := tr_version s + 1, jo_active := None, jo_pending_order := None\<rparr>
     else s2\<lparr>tr_version := tr_version s + 1\<rparr>)\<lparr>jo_handoff := Some (public_operation op)\<rparr>"

lemma cluster_commit_stored:
  assumes "cluster_commit clk owner claim sid oid reply cl = Inr ((stop, True), cl')"
  obtains s current s1 op s2 q q' where "read_journey cl sid = Inr s" "find_queued oid (cl_queue cl) = Some current"
    "lease_current (clk 0) owner claim oid current s" "cluster_learnt (clk 1) reply s (qr_payload claim) = Inr (s1, op)" "cluster_closed s1 op = Inr s2"
    "apply_in (clk 2) claim (bump_version op) (op_status (bump_version op) \<noteq> PENDING) 0 (cl_queue cl) = Inr (True, q)"
    "schedule_row (clk 3) (bump_version op) q = Inr q'"
    "stop = (reply = None \<or> op_status (bump_version op) \<noteq> PENDING \<or> sc_state (recovery_of (clk 1) (bump_version op)) = REVIEW_REQUIRED)"
    "cl' = write_journey (closing s s2 (bump_version op)) (cl\<lparr>cl_queue := q'\<rparr>)"
proof -
  obtain s current where a: "read_journey cl sid = Inr s" "journey_operation sid oid cl = Inr current"
    using assms by (auto simp: cluster_commit_def bind_ok_Inr)
  have b: "lease_current (clk 0) owner claim oid current s" using assms a by (simp add: cluster_commit_def split: if_splits)
  obtain s1 op s2 where c: "cluster_learnt (clk 1) reply s (qr_payload claim) = Inr (s1, op)" "cluster_closed s1 op = Inr s2"
    using assms a b by (auto simp: cluster_commit_def bind_ok_Inr)
  obtain stored q where d: "apply_in (clk 2) claim (bump_version op) (op_status (bump_version op) \<noteq> PENDING) 0 (cl_queue cl) = Inr (stored, q)"
    by (auto simp: apply_in_def ensure_def)
  have st: "stored = True" using assms a b c d by (simp add: cluster_commit_def Let_def queue_exception_def split: if_splits)
  note d = d [unfolded st]
  obtain q' where e: "schedule_row (clk 3) (bump_version op) q = Inr q'"
    using assms a b c d by (auto simp: cluster_commit_def Let_def queue_exception_def bind_ok_Inr)
  have "find_queued oid (cl_queue cl) = Some current" using a(2) by (auto simp: journey_operation_def ensure_def split: option.splits if_splits)
  moreover have "stop = (reply = None \<or> op_status (bump_version op) \<noteq> PENDING \<or> sc_state (recovery_of (clk 1) (bump_version op)) = REVIEW_REQUIRED)"
    using assms a b c d e by (simp add: cluster_commit_def Let_def queue_exception_def)
  moreover have "cl' = write_journey (closing s s2 (bump_version op)) (cl\<lparr>cl_queue := q'\<rparr>)"
    using assms a b c d e by (simp add: cluster_commit_def closing_def Let_def queue_exception_def)
  ultimately show ?thesis using a(1) b c d e that by blast
qed

lemma cluster_commit_unstored:
  assumes "cluster_commit clk owner claim sid oid reply cl = Inr ((stop, False), cl')"
  shows "\<not> stop \<and> cl' = cl"
proof -
  obtain s current where a: "read_journey cl sid = Inr s" "journey_operation sid oid cl = Inr current"
    using assms by (auto simp: cluster_commit_def bind_ok_Inr)
  show ?thesis
  proof (cases "lease_current (clk 0) owner claim oid current s")
    case False
    then show ?thesis using assms a by (simp add: cluster_commit_def)
  next
    case True
    then obtain s1 op s2 where c: "cluster_learnt (clk 1) reply s (qr_payload claim) = Inr (s1, op)" "cluster_closed s1 op = Inr s2"
      using assms a by (auto simp: cluster_commit_def bind_ok_Inr)
    obtain stored q where d: "apply_in (clk 2) claim (bump_version op) (op_status (bump_version op) \<noteq> PENDING) 0 (cl_queue cl) = Inr (stored, q)"
      by (auto simp: apply_in_def ensure_def)
    have "\<not> stored"
    proof
      assume stored
      then show False using assms a True c d by (auto simp: cluster_commit_def Let_def queue_exception_def bind_ok_Inr)
    qed
    then have "update_queued (holds_lease (clk 2) claim) f (cl_queue cl) = cl_queue cl" for f
      using d by (auto simp: apply_in_def ensure_def update_queued_def list_ex_iff intro!: map_idI)
    then have "q = cl_queue cl" using d by (auto simp: apply_in_def ensure_def)
    then show ?thesis using assms a True c d \<open>\<not> stored\<close> by (simp add: cluster_commit_def Let_def queue_exception_def)
  qed
qed

text \<open>The commit over a row that is still the claimed one.\<close>

lemma current_commit:
  assumes "cluster_commit clk owner claim sid oid reply cl = Inr ((stop, True), cl')"
    and "queue_inv (cl_queue cl)" "claim\<lparr>qr_next := n\<rparr> \<in> set (cl_queue cl)" "qr_id claim = oid"
    and "op_id (qr_payload claim) = oid" "op_status (qr_payload claim) = PENDING" "\<not> is_control (op_action (qr_payload claim))"
  shows "pay_commit (clk 1) sid oid (qr_payload claim) reply (coordinator_of cl) = Inr (stop, coordinator_of cl')"
proof -
  obtain s current s1 op s2 q q' where c: "read_journey cl sid = Inr s" "find_queued oid (cl_queue cl) = Some current"
      "lease_current (clk 0) owner claim oid current s" "cluster_learnt (clk 1) reply s (qr_payload claim) = Inr (s1, op)" "cluster_closed s1 op = Inr s2"
      "apply_in (clk 2) claim (bump_version op) (op_status (bump_version op) \<noteq> PENDING) 0 (cl_queue cl) = Inr (True, q)"
      "schedule_row (clk 3) (bump_version op) q = Inr q'"
      "stop = (reply = None \<or> op_status (bump_version op) \<noteq> PENDING \<or> sc_state (recovery_of (clk 1) (bump_version op)) = REVIEW_REQUIRED)"
      "cl' = write_journey (closing s s2 (bump_version op)) (cl\<lparr>cl_queue := q'\<rparr>)"
    by (rule cluster_commit_stored [OF assms(1)])
  have ids: "distinct (map qr_id (cl_queue cl))" using assms(2) by (simp add: queue_inv_def)
  have "current \<in> set (cl_queue cl)" "qr_id current = oid" using find_queued_row [OF c(2)] by auto
  then have cur: "current = claim\<lparr>qr_next := n\<rparr>"
    using ids assms(3,4) by (auto simp: distinct_map inj_on_def)
  have l: "learnt (clk 1) reply s (qr_payload claim) = Inr (s1, op)"
    using c(4) assms(7) by (cases reply) (simp_all add: cluster_learnt_def)
  have same: "op_id op = oid" "op_action op = op_action (qr_payload claim)"
    using learnt_payment [OF l] assms(5) learnt_action [OF l] by simp_all
  have close: "closed_journey s1 op = Inr s2" using c(5) assms(7) same(2) by (simp add: cluster_closed_def)
  have holds: "holds_lease (clk 2) claim current"
  proof -
    obtain r where "r \<in> set (cl_queue cl)" "holds_lease (clk 2) claim r"
      using c(6) by (auto simp: apply_in_def ensure_def list_ex_iff split: if_splits)
    moreover then have "r = current" using ids cur \<open>current \<in> set (cl_queue cl)\<close> by (auto simp: distinct_map inj_on_def holds_lease_def)
    ultimately show ?thesis by simp
  qed
  have "map queued_op q = dput oid ((snd (queued_op current))\<lparr>row_op := bump_version op\<rparr>) (map queued_op (cl_queue cl))"
  proof -
    have q: "q = update_queued (holds_lease (clk 2) claim) (\<lambda>r. r\<lparr>qr_payload := bump_version op, qr_pending := \<not> (op_status (bump_version op) \<noteq> PENDING), qr_phase := qr_phase r + 1,
         qr_owner := None, qr_until := None, qr_next := clk 2 + of_int 0\<rparr>) (cl_queue cl)"
      using c(6) by (simp add: apply_in_def ensure_def)
    show ?thesis unfolding q
      by (rule view_update [where P = "holds_lease (clk 2) claim", OF ids c(2) holds])
        (use assms(4) \<open>qr_id current = oid\<close> in \<open>simp_all add: holds_lease_def queued_op_def\<close>)
  qed
  then have view: "map queued_op q' = dput oid ((snd (queued_op current))\<lparr>row_op := bump_version op\<rparr>) (map queued_op (cl_queue cl))"
    using schedule_view [OF c(7)] by simp
  have row: "map_of (co_operations (coordinator_of cl)) (op_id (bump_version op)) = Some (snd (queued_op current))"
    using c(2) same by (simp add: coordinator_of_def view_row bump_version_def)
  have journey: "load (coordinator_of cl) sid = Inr s" using c(1) by (simp add: load_def read_journey_def coordinator_of_def split: option.splits)
  have loaded: "load_op (coordinator_of cl) oid = Inr (qr_payload claim)" using c(2) cur by (simp add: view_load)
  have "\<not> stale oid (qr_payload claim) (qr_payload claim) s" using c(3) assms(6) by (simp add: stale_def lease_current_def)
  then have "pay_commit (clk 1) sid oid (qr_payload claim) reply (coordinator_of cl)
    = Inr (stop, save (closing s s2 (bump_version op)) (save_op (bump_version op) (coordinator_of cl)))"
    using c(8) by (simp add: pay_commit_def loaded journey l close closing_def Let_def del: One_nat_def)
  moreover have "save_op (bump_version op) (coordinator_of cl) = coordinator_of (cl\<lparr>cl_queue := q'\<rparr>)"
    using row view same by (simp add: save_op_def coordinator_of_def bump_version_def)
  ultimately show ?thesis using c(9) by (simp add: save_def write_journey_def coordinator_of_def)
qed

section \<open>Any number of nodes\<close>

text \<open>What the coordinator knows of the operation it claims.\<close>

definition payment_claim :: "string \<Rightarrow> operation queued \<Rightarrow> bool" where
  "payment_claim oid c \<longleftrightarrow> op_id (qr_payload c) = oid \<and> op_status (qr_payload c) = PENDING \<and> \<not> is_control (op_action (qr_payload c))"

text \<open>C37.
  Nodes that share the database behave like one process: a node claims an operation, other nodes
  enqueue, claim, store results, replace rows and move times in any order, and then the node
  ends its iteration with what the merchant or the provider answered. If its result is stored,
  the stored journey and operation, and whether its loop stops, are exactly those the coordinator of one
  process computes in \<open>pay_commit\<close> from the database as it is at that moment, on the operation as
  it was claimed; if it is not stored, the database is unchanged and the loop goes on.
\<close>

theorem cluster_commit_refines:
  assumes "q = run (queue_step FP) [] xs" "claim_one_in t0 oid owner seconds force q = Inr (Some claim, q1)"
    and "cl_queue cl = run (queue_step FP) q1 ys" "payment_claim oid claim"
    and "cluster_commit clk owner claim sid oid reply cl = Inr ((stop, stored), cl')"
  shows "if stored then pay_commit (clk 1) sid oid (qr_payload claim) reply (coordinator_of cl) = Inr (stop, coordinator_of cl')
    else \<not> stop \<and> cl' = cl"
proof (cases stored)
  case False
  then have "stored = False" by simp
  from cluster_commit_unstored [OF assms(5) [unfolded this]] show ?thesis using False by simp
next
  case True
  have "queue_inv q" unfolding assms(1) by (rule lease_runs.run_inv) (simp add: queue_inv_def)
  moreover have "queue_step FP q (Claim_One t0 oid owner seconds force) = Inr q1" using assms(2) by simp
  ultimately have inv1: "queue_inv q1" by (rule queue_step_inv)
  then have inv: "queue_inv (cl_queue cl)" unfolding assms(3) by (rule lease_runs.run_inv)
  have row: "claim \<in> set q1" "qr_id claim = oid" using claim_one_row [OF assms(2)] by auto
  obtain r where r: "r \<in> set (cl_queue cl)" "advances claim r" using run_advances [OF inv1 row(1)] unfolding assms(3) by blast
  obtain s current where c: "find_queued oid (cl_queue cl) = Some current" "lease_current (clk 0) owner claim oid current s"
    by (rule cluster_commit_stored [OF assms(5) [unfolded eq_True [THEN iffD2, OF True]]])
  have "r = current"
    using find_queued_row [OF c(1)] r inv row(2) by (auto simp: queue_inv_def distinct_map inj_on_def advances_def)
  then obtain n where "current = claim\<lparr>qr_next := n\<rparr>" using r(2) c(2) by (auto simp: advances_def lease_current_def)
  then have "claim\<lparr>qr_next := n\<rparr> \<in> set (cl_queue cl)" using find_queued_row [OF c(1)] by simp
  from current_commit [OF _ inv this row(2)] show ?thesis using assms(4,5) True by (simp add: payment_claim_def)
qed

text \<open>A node asks the provider, another one meanwhile finds the lease taken and moves the time.\<close>

definition node_claim :: "operation queued option \<times> operation queued list" where
  "node_claim = the_ok (claim_one_in 10 ''op1'' ''node-a'' 30 True
     (run (queue_step (\<lambda>_ _ _. ''f'')) [] [Enqueue 0 ''op1'' ''j'' opened_op ''r1'']))"

definition node_cluster :: cluster where
  "node_cluster = \<lparr>cl_journeys = co_journeys (fst paid_open), cl_requests = [],
     cl_queue = run (queue_step (\<lambda>_ _ _. ''f'')) (snd node_claim) [Claim_One 11 ''op1'' ''node-b'' 30 True, Set_Time (\<lambda>_. True) (\<lambda>_. 12)],
     cl_inbox = empty_inbox\<rparr>"

definition node_commit :: "journey_error + (bool \<times> bool) \<times> cluster" where
  "node_commit = cluster_commit (\<lambda>_. 12) ''node-a'' (the (fst node_claim)) ''j'' ''op1'' (Some (Pay_Refused ''DECLINED'')) node_cluster"

lemma node_facts: "map_sum id fst node_commit = Inr (True, True)" "fst node_claim \<noteq> None" "payment_claim ''op1'' (the (fst node_claim))"
  "is_ok (claim_one_in 10 ''op1'' ''node-a'' 30 True (run (queue_step (\<lambda>_ _ _. ''f'')) [] [Enqueue 0 ''op1'' ''j'' opened_op ''r1'']))"
  by code_simp+

theorem cluster_commit_refines_witness:
  "\<exists>cl'. node_commit = Inr ((True, True), cl') \<and>
     pay_commit 12 ''j'' ''op1'' (qr_payload (the (fst node_claim))) (Some (Pay_Refused ''DECLINED'')) (coordinator_of node_cluster) = Inr (True, coordinator_of cl')"
proof -
  obtain cl' where c: "node_commit = Inr ((True, True), cl')" using node_facts(1) by (auto simp: map_sum_Inr)
  obtain claim q1 where k: "node_claim = (Some claim, q1)" using node_facts(2) by (metis option.exhaust prod.collapse)
  then have t: "claim_one_in 10 ''op1'' ''node-a'' 30 True (run (queue_step (\<lambda>_ _ _. ''f'')) [] [Enqueue 0 ''op1'' ''j'' opened_op ''r1'']) = Inr (Some claim, q1)"
    using node_facts(4) by (auto simp: node_claim_def is_ok_iff)
  have q: "cl_queue node_cluster = run (queue_step (\<lambda>_ _ _. ''f'')) q1 [Claim_One 11 ''op1'' ''node-b'' 30 True, Set_Time (\<lambda>_. True) (\<lambda>_. 12)]"
    by (simp only: node_cluster_def k cluster.select_convs snd_conv)
  have p: "payment_claim ''op1'' claim" using node_facts(3) by (simp add: k)
  have m: "cluster_commit (\<lambda>_. 12) ''node-a'' claim ''j'' ''op1'' (Some (Pay_Refused ''DECLINED'')) node_cluster = Inr ((True, True), cl')"
    using c by (simp add: node_commit_def k)
  show ?thesis using cluster_commit_refines [OF refl t q p m] c unfolding k by (intro exI [of _ cl'] conjI) simp_all
qed

end
