(* ===== verification/Backup_Ops.thy ===== *)
theory Backup_Ops
  imports Py_Values
begin

text \<open>
  The external backups (\<^verbatim>\<open>demo/route/ha/backup_ops.py\<close>): names of write-ahead log
  files, the policy, the retention plan, the shipping of the spool and the alerts. A file is its
  name and its size; the backup store, the clock and the status file are arguments. Directories,
  hard links and temporary files are assumed to work. Detail texts of alerts are left out.
\<close>

unbundle bit_operations_syntax

section \<open>Names of archived files\<close>

definition is_hex :: "char \<Rightarrow> bool" where
  "is_hex c \<longleftrightarrow> is_digit c \<or> (65 \<le> (of_char c :: nat) \<and> (of_char c :: nat) \<le> 70)"

definition wal_name :: "string \<Rightarrow> bool" where
  "wal_name n \<longleftrightarrow> length n = 24 \<and> list_all is_hex n"

definition history_name :: "string \<Rightarrow> bool" where
  "history_name n \<longleftrightarrow> length n = 16 \<and> list_all is_hex (take 8 n) \<and> drop 8 n = ''.history''"

definition partial_name :: "string \<Rightarrow> bool" where
  "partial_name n \<longleftrightarrow> length n = 32 \<and> list_all is_hex (take 24 n) \<and> drop 24 n = ''.partial''"

definition label_name :: "string \<Rightarrow> bool" where
  "label_name n \<longleftrightarrow> length n = 40 \<and> list_all is_hex (take 24 n) \<and> n ! 24 = CHR ''.''
     \<and> list_all is_hex (take 8 (drop 25 n)) \<and> drop 33 n = ''.backup''"

definition archived_name :: "string \<Rightarrow> bool" where
  "archived_name n \<longleftrightarrow> wal_name n \<or> history_name n \<or> partial_name n \<or> label_name n"

definition segment_of :: "string \<Rightarrow> string option" where
  "segment_of n = (if wal_name n then Some n else if partial_name n \<or> label_name n then Some (take 24 n) else None)"

definition hex_digit_value :: "char \<Rightarrow> int" where
  "hex_digit_value c = (let n = of_char c in if n < 58 then n - 48 else n - 55)"

text \<open>\<open>int(part, 16)\<close> of digits that the patterns admit.\<close>

definition hex_number :: "string \<Rightarrow> int" where
  "hex_number s = foldl (\<lambda>n c. 16 * n + hex_digit_value c) 0 s"

definition SEGMENT :: int where
  "SEGMENT = 16 * 1024 * 1024"

text \<open>Timeline and absolute number of a segment; every \<open>Inl\<close> is a \<open>ValueError\<close>.\<close>

definition wal_position :: "int \<Rightarrow> string \<Rightarrow> string + int \<times> int" where
  "wal_position seg_size n =
    (if \<not> wal_name n then Inl ''not a WAL segment name''
     else if seg_size \<le> 0 \<or> seg_size AND (seg_size - 1) \<noteq> 0 then Inl ''WAL segment size must be a power of two''
     else (let per_id = 0x100000000 div seg_size; timeline = hex_number (take 8 n);
               log = hex_number (take 8 (drop 8 n)); seg = hex_number (drop 16 n)
           in if timeline = 0 \<or> per_id \<le> seg then Inl ''invalid WAL segment name''
              else Inr (timeline, log * per_id + seg)))"

section \<open>The policy\<close>

record backup_policy =
  bp_retain :: nat
  bp_interval_hours :: int
  bp_max_age_hours :: int
  bp_max_delay :: int
  bp_capacity :: int
  bp_free_ratio :: rat

definition bounded_field :: "json_obj \<Rightarrow> string \<Rightarrow> int \<Rightarrow> int \<Rightarrow> string + int" where
  "bounded_field d name low high = (case pget d name of
     JInt n \<Rightarrow> if low \<le> n \<and> n \<le> high then Inr n else Inl name
   | _ \<Rightarrow> Inl name)"

definition ratio_field :: "json \<Rightarrow> string + rat" where
  "ratio_field v = (case (case v of JInt n \<Rightarrow> Some (of_int n) | JFloat r _ \<Rightarrow> Some r | _ \<Rightarrow> None) of
     Some r \<Rightarrow> if 5 / 100 \<le> r \<and> r \<le> 1 / 2 then Inr r else Inl ''alert_free_ratio''
   | None \<Rightarrow> Inl ''alert_free_ratio'')"

definition policy_from_json :: "json_obj \<Rightarrow> string + backup_policy" where
  "policy_from_json d =
    bind_ok (bounded_field d ''retain_base_backups'' 2 90) (\<lambda>retain.
    bind_ok (bounded_field d ''base_backup_interval_hours'' 1 168) (\<lambda>interval.
    bind_ok (bounded_field d ''max_base_backup_age_hours'' 1 336) (\<lambda>age.
    bind_ok (bounded_field d ''max_wal_archive_delay_seconds'' 30 900) (\<lambda>delay.
    bind_ok (bounded_field d ''capacity_gib'' 1 1000000) (\<lambda>capacity.
    bind_ok (ratio_field (pget d ''alert_free_ratio'')) (\<lambda>ratio.
    ensure (pget d ''writer'' = JStr ''append_only'') ''database hosts may only hold an append-only backup credential''
     (Inr \<lparr>bp_retain = nat retain, bp_interval_hours = interval, bp_max_age_hours = age, bp_max_delay = delay,
           bp_capacity = capacity, bp_free_ratio = ratio\<rparr>)))))))"

section \<open>The retention plan\<close>

record base_backup =
  bb_id :: string
  bb_finished :: rat
  bb_start :: string
  bb_verified :: bool

record wal_snapshot =
  ws_id :: string
  ws_files :: "string list"

datatype retention_problem =
    Few_Verified nat
  | Unexpected_File
  | No_History int
  | No_Wal_After string
  | Wal_Gap nat string

record retention_plan =
  rp_keep :: "string list"
  rp_remove_backups :: "string list"
  rp_remove_wal :: "string list"
  rp_unverified :: "string list"
  rp_boundary :: "int option"
  rp_problems :: "retention_problem list"

text \<open>Positions, timelines and problems found in the names of the archive, in their order.\<close>

fun scan_names :: "int \<Rightarrow> string list \<Rightarrow> string + (int \<times> int) list \<times> retention_problem list" where
  "scan_names seg_size [] = Inr ([], [])"
| "scan_names seg_size (n # ns) =
    (if wal_name n then bind_ok (wal_position seg_size n) (\<lambda>tp. bind_ok (scan_names seg_size ns) (\<lambda>(tps, ps). Inr (tp # tps, ps)))
     else bind_ok (scan_names seg_size ns) (\<lambda>(tps, ps). Inr (tps, if archived_name n then ps else Unexpected_File # ps)))"

definition histories_of :: "string list \<Rightarrow> int list" where
  "histories_of names = map (\<lambda>n. hex_number (take 8 n)) (filter history_name names)"

definition history_problems :: "(int \<times> int) list \<Rightarrow> int list \<Rightarrow> retention_problem list" where
  "history_problems tps histories =
    map No_History (filter (\<lambda>t. t \<notin> set histories) (sorted_set (filter (\<lambda>t. 1 < t) (map fst tps))))"

definition latest_of :: "int list \<Rightarrow> int option" where
  "latest_of ps = (if ps = [] then None else Some (foldl max (hd ps) (tl ps)))"

text \<open>The segments that no archived file has, from the start of a backup to the newest one.\<close>

definition missing_positions :: "int \<Rightarrow> int \<Rightarrow> int list \<Rightarrow> int list" where
  "missing_positions start latest positions = filter (\<lambda>p. p \<notin> set positions) [start..latest]"

definition coverage_problem :: "int list \<Rightarrow> base_backup \<Rightarrow> int \<Rightarrow> retention_problem list" where
  "coverage_problem positions b start =
    (case latest_of positions of
       None \<Rightarrow> [No_Wal_After (take 12 (bb_id b))]
     | Some latest \<Rightarrow> if latest < start then [No_Wal_After (take 12 (bb_id b))]
         else if missing_positions start latest positions \<noteq> []
           then [Wal_Gap (length (missing_positions start latest positions)) (take 12 (bb_id b))]
         else [])"

fun scan_backups :: "int \<Rightarrow> int list \<Rightarrow> base_backup list \<Rightarrow> int option \<Rightarrow> string + int option \<times> retention_problem list" where
  "scan_backups seg_size positions [] boundary = Inr (boundary, [])"
| "scan_backups seg_size positions (b # bs) boundary =
    bind_ok (wal_position seg_size (bb_start b)) (\<lambda>(_, start).
      bind_ok (scan_backups seg_size positions bs (Some (case boundary of None \<Rightarrow> start | Some x \<Rightarrow> min x start)))
        (\<lambda>(x, ps). Inr (x, coverage_problem positions b start @ ps)))"

text \<open>\<open>all(...)\<close> over the segments of a snapshot, up to the first that is not old enough.\<close>

fun all_before :: "int \<Rightarrow> int \<Rightarrow> string option list \<Rightarrow> string + bool" where
  "all_before seg_size boundary [] = Inr True"
| "all_before seg_size boundary (None # ss) = Inr False"
| "all_before seg_size boundary (Some n # ss) =
    bind_ok (wal_position seg_size n) (\<lambda>(_, p). if p < boundary then all_before seg_size boundary ss else Inr False)"

fun removable_wal :: "int \<Rightarrow> int \<Rightarrow> wal_snapshot list \<Rightarrow> string + string list" where
  "removable_wal seg_size boundary [] = Inr []"
| "removable_wal seg_size boundary (w # ws) =
    bind_ok (if ws_files w = [] then Inr False else all_before seg_size boundary (map segment_of (ws_files w))) (\<lambda>old.
      bind_ok (removable_wal seg_size boundary ws) (\<lambda>ids. Inr (if old then ws_id w # ids else ids)))"

definition verified_backups :: "base_backup list \<Rightarrow> base_backup list" where
  "verified_backups bs = sort_key (\<lambda>b. - bb_finished b) (filter bb_verified bs)"

definition plan_retention :: "backup_policy \<Rightarrow> base_backup list \<Rightarrow> wal_snapshot list \<Rightarrow> int \<Rightarrow> string + retention_plan" where
  "plan_retention pol backups snapshots seg_size =
    (let verified = verified_backups backups; keep = take (bp_retain pol) verified;
         names = concat (map ws_files snapshots)
     in bind_ok (scan_names seg_size names) (\<lambda>(tps, unexpected).
        bind_ok (scan_backups seg_size (map snd tps) keep None) (\<lambda>(boundary, gaps).
          let problems = (if length verified < bp_retain pol then [Few_Verified (length verified)] else [])
                @ unexpected @ history_problems tps (histories_of names) @ gaps;
              plan = \<lparr>rp_keep = map bb_id keep, rp_remove_backups = [], rp_remove_wal = [],
                rp_unverified = map bb_id (filter (\<lambda>b. \<not> bb_verified b) backups), rp_boundary = boundary, rp_problems = problems\<rparr>
          in case boundary of
               None \<Rightarrow> Inr plan
             | Some x \<Rightarrow> if problems \<noteq> [] then Inr plan
                 else bind_ok (removable_wal seg_size x snapshots) (\<lambda>ids.
                   Inr (plan\<lparr>rp_remove_backups := map bb_id (drop (bp_retain pol) verified), rp_remove_wal := ids\<rparr>)))))"

definition snapshot_hash :: "string \<Rightarrow> bool" where
  "snapshot_hash s \<longleftrightarrow> length s = 64 \<and> list_all (\<lambda>c. is_digit c \<or> (97 \<le> (of_char c :: nat) \<and> (of_char c :: nat) \<le> 102)) s"

definition maintainer_commands :: "retention_plan \<Rightarrow> string + string list" where
  "maintainer_commands plan =
    (let ids = rp_remove_backups plan @ rp_remove_wal plan
     in if rp_problems plan \<noteq> [] then Inr []
        else if \<not> list_all snapshot_hash ids then Inl ''full snapshot IDs required''
        else Inr (if ids = [] then [] else [''restic forget'' @ concat (map (\<lambda>i. CHR '' '' # i) ids), ''restic prune'']))"

section \<open>Shipping\<close>

record spool_entry =
  sp_name :: string
  sp_size :: int
  sp_regular :: bool

datatype ship_error = Ship_OSError | Ship_ValueError string

record ship_status =
  st_last_check :: "rat option"
  st_pending :: "nat option"
  st_last_success :: "rat option"
  st_last_snapshot :: "string option"
  st_last_uploaded :: "nat option"
  st_newest :: "string option"
  st_last_error_at :: "rat option"
  st_last_error :: "ship_error option"

definition hidden :: "spool_entry \<Rightarrow> bool" where
  "hidden f \<longleftrightarrow> take 1 (sp_name f) = ''.''"

fun spooled_list :: "spool_entry list \<Rightarrow> ship_error + spool_entry list" where
  "spooled_list [] = Inr []"
| "spooled_list (f # fs) =
    (if hidden f then spooled_list fs
     else ensure (sp_regular f) (Ship_ValueError ''unexpected non-regular entry in the WAL spool'')
       (ensure (archived_name (sp_name f)) (Ship_ValueError ''unexpected file in the WAL spool'')
         (bind_ok (spooled_list fs) (\<lambda>rest. Inr (f # rest)))))"

definition spooled :: "spool_entry list \<Rightarrow> ship_error + spool_entry list" where
  "spooled spool = spooled_list (sort_key sp_name spool)"

text \<open>\<open>max(segments, key=position reversed)\<close>, the first of the largest.\<close>

fun newest_segment :: "(int \<times> int) \<times> string \<Rightarrow> string list \<Rightarrow> string + string" where
  "newest_segment best [] = Inr (snd best)"
| "newest_segment best (n # ns) =
    bind_ok (wal_position SEGMENT n) (\<lambda>(t, p). newest_segment (if fst best < (p, t) then ((p, t), n) else best) ns)"

definition newest_uploaded :: "string list \<Rightarrow> string + string option" where
  "newest_uploaded segments = (case segments of [] \<Rightarrow> Inr None
   | n # ns \<Rightarrow> bind_ok (wal_position SEGMENT n) (\<lambda>(t, p). bind_ok (newest_segment ((p, t), n) ns) (\<lambda>x. Inr (Some x))))"

definition listed_ok :: "(string \<times> int) list \<Rightarrow> spool_entry list \<Rightarrow> bool" where
  "listed_ok listed files = list_all (\<lambda>f. map_of listed (sp_name f) = Some (sp_size f)) files"

text \<open>
  \<open>upload\<close> is \<open>archive_directory\<close> on the batch and \<open>listing\<close> is \<open>list_files\<close> on the new snapshot.
  The reply is the status or the exception, with the spool and the stored status as they are then.
\<close>

type_synonym shipped = "(ship_error + ship_status) \<times> spool_entry list \<times> ship_status"

definition ship_failed :: "rat \<Rightarrow> ship_error \<Rightarrow> spool_entry list \<Rightarrow> ship_status \<Rightarrow> shipped" where
  "ship_failed now e spool st = (Inl e, spool, st\<lparr>st_last_error_at := Some now, st_last_error := Some e, st_last_check := Some now,
     st_pending := Some (length (filter (\<lambda>f. \<not> hidden f) spool))\<rparr>)"

definition ship_wal ::
  "((string \<times> int) list \<Rightarrow> ship_error + string) \<Rightarrow> (string \<Rightarrow> ship_error + (string \<times> int) list) \<Rightarrow> rat \<Rightarrow> nat
    \<Rightarrow> spool_entry list \<Rightarrow> ship_status \<Rightarrow> shipped" where
  "ship_wal upload listing now max_files spool st =
    (case spooled spool of
       Inl e \<Rightarrow> ship_failed now e spool st
     | Inr ready \<Rightarrow>
       (let files = take max_files ready in
        if files = [] then (let st' = st\<lparr>st_last_check := Some now, st_pending := Some 0\<rparr> in (Inr st', spool, st'))
        else (case bind_ok (upload (map (\<lambda>f. (sp_name f, sp_size f)) files)) (\<lambda>sid. bind_ok (listing sid) (\<lambda>l. Inr (sid, l))) of
            Inl e \<Rightarrow> ship_failed now e spool st
          | Inr (sid, listed) \<Rightarrow>
            if \<not> listed_ok listed files
            then ship_failed now (Ship_ValueError ''uploaded WAL snapshot does not list every spooled file'') spool st
            else
              (let left = filter (\<lambda>f. sp_name f \<notin> set (map sp_name files)) spool
               in case newest_uploaded (filter wal_name (map sp_name files)) of
                    Inl e \<Rightarrow> ship_failed now (Ship_ValueError e) left st
                  | Inr newest \<Rightarrow>
                    (let st' = st\<lparr>st_last_success := Some now, st_last_snapshot := Some sid, st_last_uploaded := Some (length files),
                           st_newest := newest, st_pending := Some (length (filter (\<lambda>f. \<not> hidden f) left)), st_last_check := Some now\<rparr>
                     in (Inr st', left, st'))))))"

section \<open>Monitoring\<close>

text \<open>The collected facts; \<open>None\<close> is a missing fact.\<close>

record backup_facts =
  bf_backups :: "base_backup list"
  bf_last_failed :: "rat option"
  bf_last_archived :: "rat option"
  bf_oldest_age :: "rat option"
  bf_spool_free :: "rat option"
  bf_ship_error_at :: "rat option"
  bf_ship_success_at :: "rat option"
  bf_used :: "rat option"
  bf_problems :: "retention_problem list"

datatype alert_code = BASE_BACKUP_MISSING | BASE_BACKUP_STALE | BASE_BACKUP_UNVERIFIED | WAL_ARCHIVE_FAILING | WAL_SHIPPING_DELAYED
  | SPOOL_CAPACITY | WAL_UPLOAD_FAILING | REPOSITORY_CAPACITY | RETENTION_BLOCKED

datatype severity = Critical | Warning | Ok_Status

definition or_zero :: "rat option \<Rightarrow> rat" where
  "or_zero t = (case t of None \<Rightarrow> 0 | Some x \<Rightarrow> x)"

definition newest_finished :: "base_backup list \<Rightarrow> rat option" where
  "newest_finished bs = (case map bb_finished (filter bb_verified bs) of [] \<Rightarrow> None | t # ts \<Rightarrow> Some (foldl max t ts))"

definition base_backup_alerts :: "backup_policy \<Rightarrow> base_backup list \<Rightarrow> rat \<Rightarrow> (alert_code \<times> severity) list" where
  "base_backup_alerts pol bs now =
    (case newest_finished bs of
       None \<Rightarrow> [(BASE_BACKUP_MISSING, Critical)]
     | Some t \<Rightarrow> if of_int (bp_max_age_hours pol * 3600) < now - t then [(BASE_BACKUP_STALE, Critical)] else [])
    @ (case bs of [] \<Rightarrow> [] | b # rest \<Rightarrow>
        if bb_verified (first_min (\<lambda>b. - bb_finished b) b rest) then [] else [(BASE_BACKUP_UNVERIFIED, Warning)])"

definition shipping_alerts :: "backup_policy \<Rightarrow> backup_facts \<Rightarrow> (alert_code \<times> severity) list" where
  "shipping_alerts pol f =
    (if or_zero (bf_last_archived f) < or_zero (bf_last_failed f) then [(WAL_ARCHIVE_FAILING, Critical)] else [])
    @ (case bf_oldest_age f of None \<Rightarrow> [] | Some a \<Rightarrow> if of_int (bp_max_delay pol) < a then [(WAL_SHIPPING_DELAYED, Critical)] else [])
    @ (case bf_spool_free f of None \<Rightarrow> [] | Some r \<Rightarrow> if r < 1 / 10 then [(SPOOL_CAPACITY, Critical)] else [])
    @ (if or_zero (bf_ship_success_at f) < or_zero (bf_ship_error_at f) then [(WAL_UPLOAD_FAILING, Critical)] else [])"

definition capacity_alerts :: "backup_policy \<Rightarrow> rat option \<Rightarrow> (alert_code \<times> severity) list" where
  "capacity_alerts pol used = (case used of None \<Rightarrow> [] | Some u \<Rightarrow>
     (let free = 1 - u / of_int (bp_capacity pol)
      in if free < bp_free_ratio pol / 2 then [(REPOSITORY_CAPACITY, Critical)]
         else if free < bp_free_ratio pol then [(REPOSITORY_CAPACITY, Warning)] else []))"

definition exposure :: "backup_facts \<Rightarrow> rat \<Rightarrow> rat option" where
  "exposure f now = (case bf_oldest_age f of Some a \<Rightarrow> Some a
     | None \<Rightarrow> (case bf_ship_success_at f of Some t \<Rightarrow> if t = 0 then None else Some (max 0 (now - t)) | None \<Rightarrow> None))"

definition assess_backups :: "backup_policy \<Rightarrow> backup_facts \<Rightarrow> rat \<Rightarrow> severity \<times> (alert_code \<times> severity) list \<times> rat option" where
  "assess_backups pol f now =
    (let alerts = base_backup_alerts pol (bf_backups f) now @ shipping_alerts pol f @ capacity_alerts pol (bf_used f)
           @ map (\<lambda>_. (RETENTION_BLOCKED, Critical)) (bf_problems f)
     in (if list_ex (\<lambda>a. snd a = Critical) alerts then Critical else if alerts \<noteq> [] then Warning else Ok_Status, alerts, exposure f now))"

lemma foldl_max_mem: "foldl max x ts \<in> insert (x :: 'a::linorder) (set ts)"
proof (induction ts arbitrary: x)
  case (Cons a ts)
  have "foldl max (max x a) ts \<in> insert (max x a) (set ts)" by (rule Cons.IH)
  then show ?case by (cases "x \<le> a") (auto simp: max_absorb1 max_absorb2)
qed simp

lemma ok_status_is_fresh:
  assumes "fst (assess_backups pol f now) = Ok_Status"
  shows "\<exists>b \<in> set (bf_backups f). bb_verified b \<and> now - bb_finished b \<le> of_int (bp_max_age_hours pol * 3600)"
    and "\<forall>a. bf_oldest_age f = Some a \<longrightarrow> a \<le> of_int (bp_max_delay pol)"
    and "bf_problems f = []"
proof -
  have a: "base_backup_alerts pol (bf_backups f) now = []" "shipping_alerts pol f = []" "bf_problems f = []"
    using assms by (auto simp: assess_backups_def Let_def split: if_splits)
  show "bf_problems f = []" by (rule a(3))
  show "\<forall>a. bf_oldest_age f = Some a \<longrightarrow> a \<le> of_int (bp_max_delay pol)" using a(2) by (auto simp: shipping_alerts_def split: if_splits)
  obtain t where t: "newest_finished (bf_backups f) = Some t" "now - t \<le> of_int (bp_max_age_hours pol * 3600)"
    using a(1) by (auto simp: base_backup_alerts_def split: option.splits if_splits)
  obtain x ts where ts: "map bb_finished (filter bb_verified (bf_backups f)) = x # ts" "t = foldl max x ts"
    using t(1) by (auto simp: newest_finished_def split: list.splits)
  then have "t \<in> bb_finished ` set (filter bb_verified (bf_backups f))" using foldl_max_mem [of x ts] by (metis list.set_map list.simps(15))
  then show "\<exists>b \<in> set (bf_backups f). bb_verified b \<and> now - bb_finished b \<le> of_int (bp_max_age_hours pol * 3600)" using t(2) by auto
qed

section \<open>What the plan keeps\<close>

lemma scan_names_Inr:
  assumes "scan_names sz ns = Inr (tps, ps)" "n \<in> set ns" "wal_name n"
  shows "\<exists>tp \<in> set tps. wal_position sz n = Inr tp"
  using assms by (induction ns arbitrary: tps ps) (auto simp: bind_ok_Inr split: if_splits)

lemma scan_names_from:
  assumes "scan_names sz ns = Inr (tps, ps)" "tp \<in> set tps"
  shows "\<exists>n \<in> set ns. wal_name n \<and> wal_position sz n = Inr tp"
  using assms by (induction ns arbitrary: tps ps) (auto simp: bind_ok_Inr split: if_splits)

lemma foldl_max_ge: "(x::int) \<in> insert m (set ps) \<Longrightarrow> x \<le> foldl max m ps"
proof (induction ps arbitrary: m x)
  case Nil
  then show ?case by simp
next
  case (Cons a ps)
  have "max m a \<le> foldl max (max m a) ps" by (rule Cons.IH) simp
  with Cons show ?case by fastforce
qed

lemma latest_of_ge: "p \<in> set ps \<Longrightarrow> \<exists>m. latest_of ps = Some m \<and> p \<le> m"
  by (cases ps) (auto simp: latest_of_def intro: foldl_max_ge)

lemma coverage_complete:
  assumes "coverage_problem positions b start = []" "start \<le> p" "p \<le> q" "q \<in> set positions"
  shows "p \<in> set positions"
proof -
  obtain m where m: "latest_of positions = Some m" "q \<le> m" using latest_of_ge [OF assms(4)] by blast
  then have "missing_positions start m positions = []" using assms(1) by (auto simp: coverage_problem_def split: if_splits)
  moreover have "p \<in> set [start..m]" using assms(2,3) m(2) by simp
  ultimately show ?thesis unfolding missing_positions_def filter_empty_conv by blast
qed

lemma scan_backups_Inr:
  assumes "scan_backups sz positions bs x0 = Inr (x, ps)"
  shows "(\<forall>y. x0 = Some y \<longrightarrow> (\<exists>z. x = Some z \<and> z \<le> y))
    \<and> (\<forall>b \<in> set bs. \<exists>t start z. wal_position sz (bb_start b) = Inr (t, start) \<and> x = Some z \<and> z \<le> start
         \<and> (ps = [] \<longrightarrow> coverage_problem positions b start = []))"
  using assms
proof (induction bs arbitrary: x0 ps)
  case Nil
  then show ?case by auto
next
  case (Cons b bs)
  obtain t start qs where b: "wal_position sz (bb_start b) = Inr (t, start)"
    and rest: "scan_backups sz positions bs (Some (case x0 of None \<Rightarrow> start | Some y \<Rightarrow> min y start)) = Inr (x, qs)"
    and ps: "ps = coverage_problem positions b start @ qs"
    using Cons.prems by (auto simp: bind_ok_Inr)
  note ih = Cons.IH [OF rest]
  obtain z where z: "x = Some z" "z \<le> (case x0 of None \<Rightarrow> start | Some y \<Rightarrow> min y start)" using ih by blast
  then have "z \<le> start" "\<forall>y. x0 = Some y \<longrightarrow> z \<le> y" by (auto split: option.splits)
  then show ?case using ih z(1) b ps by auto
qed

lemma all_before_True:
  "all_before sz x ss = Inr True \<Longrightarrow> s \<in> set ss \<Longrightarrow> \<exists>n t p. s = Some n \<and> wal_position sz n = Inr (t, p) \<and> p < x"
  by (induction sz x ss rule: all_before.induct) (auto simp: bind_ok_Inr split: if_splits)

lemma removable_wal_Inr:
  assumes "removable_wal sz x ws = Inr ids" "i \<in> set ids"
  shows "\<exists>w \<in> set ws. ws_id w = i \<and> all_before sz x (map segment_of (ws_files w)) = Inr True"
  using assms by (induction ws arbitrary: ids) (auto simp: bind_ok_Inr split: if_splits)

lemma plan_retention_Inr:
  assumes "plan_retention pol bs ws sz = Inr plan"
  obtains tps ps x gaps where "scan_names sz (concat (map ws_files ws)) = Inr (tps, ps)"
    and "scan_backups sz (map snd tps) (take (bp_retain pol) (verified_backups bs)) None = Inr (x, gaps)"
    and "rp_problems plan = (if length (verified_backups bs) < bp_retain pol then [Few_Verified (length (verified_backups bs))] else [])
      @ ps @ history_problems tps (histories_of (concat (map ws_files ws))) @ gaps"
    and "rp_remove_wal plan = [] \<and> rp_remove_backups plan = [] \<or> rp_problems plan = [] \<and> (\<exists>z. x = Some z \<and> removable_wal sz z ws = Inr (rp_remove_wal plan))
      \<and> rp_remove_backups plan = map bb_id (drop (bp_retain pol) (verified_backups bs))"
proof -
  obtain tps ps where s: "scan_names sz (concat (map ws_files ws)) = Inr (tps, ps)"
    using assms unfolding plan_retention_def Let_def bind_ok_Inr by fast
  obtain x gaps where g: "scan_backups sz (map snd tps) (take (bp_retain pol) (verified_backups bs)) None = Inr (x, gaps)"
    using assms unfolding plan_retention_def Let_def s bind_ok_simps prod.case bind_ok_Inr by fast
  show ?thesis
    by (rule that [OF s g]) (use assms in \<open>auto simp: plan_retention_def Let_def s g bind_ok_Inr split: option.splits if_splits\<close>)
qed

text \<open>A file a plan must not lose for a backup that starts at \<open>start\<close>: a timeline history, or a
  file whose segment, on any timeline, is not before the start.\<close>

definition needed_from :: "int \<Rightarrow> int \<Rightarrow> string \<Rightarrow> bool" where
  "needed_from sz start n \<longleftrightarrow> (case segment_of n of None \<Rightarrow> True
     | Some s \<Rightarrow> (case wal_position sz s of Inl _ \<Rightarrow> True | Inr (_, p) \<Rightarrow> start \<le> p))"

lemma removed_not_needed:
  assumes ids: "removable_wal sz z ws = Inr ids" and d: "distinct (map ws_id ws)" and z: "z \<le> start"
    and w: "w \<in> set ws" "n \<in> set (ws_files w)" "needed_from sz start n"
  shows "ws_id w \<notin> set ids"
proof
  assume "ws_id w \<in> set ids"
  then obtain v where v: "v \<in> set ws" "ws_id v = ws_id w" "all_before sz z (map segment_of (ws_files v)) = Inr True"
    using removable_wal_Inr [OF ids] by blast
  then have "v = w" using d w(1) by (auto simp: distinct_map inj_on_def)
  then obtain m t p where "segment_of n = Some m" "wal_position sz m = Inr (t, p)" "p < z"
    using all_before_True [OF v(3), of "segment_of n"] w(2) by auto
  then show False using w(3) z by (simp add: needed_from_def)
qed

text \<open>C39.
  A retention plan that removes anything found no problem, keeps the configured number of
  verified backups, and takes nothing from the archive that a kept backup may need: a removed
  snapshot holds no timeline history and no file of a segment, on any timeline, at or after the
  start of a kept backup. At every position from that start up to the newest archived
  segment a segment is in a snapshot that is not removed. The plan compares positions without
  their timelines, so this segment may be of another timeline than the backup's.
\<close>

theorem retention_keeps_needed_wal:
  assumes "plan_retention pol bs ws sz = Inr plan" "distinct (map ws_id ws)" "distinct (map bb_id bs)"
    and "rp_remove_wal plan \<noteq> [] \<or> rp_remove_backups plan \<noteq> []"
    and "b \<in> set (take (bp_retain pol) (verified_backups bs))"
  shows "rp_problems plan = [] \<and> bb_verified b \<and> bb_id b \<in> set (rp_keep plan) \<and> bb_id b \<notin> set (rp_remove_backups plan) \<and> length (rp_keep plan) = bp_retain pol
    \<and> (\<exists>t start. wal_position sz (bb_start b) = Inr (t, start)
        \<and> (\<forall>w n. w \<in> set ws \<and> n \<in> set (ws_files w) \<and> needed_from sz start n \<longrightarrow> ws_id w \<notin> set (rp_remove_wal plan))
        \<and> (\<forall>p q w n u. w \<in> set ws \<and> n \<in> set (ws_files w) \<and> wal_name n \<and> wal_position sz n = Inr (u, q) \<and> start \<le> p \<and> p \<le> q
             \<longrightarrow> (\<exists>w' \<in> set ws. ws_id w' \<notin> set (rp_remove_wal plan) \<and> (\<exists>n' \<in> set (ws_files w'). wal_name n' \<and> (\<exists>u'. wal_position sz n' = Inr (u', p))))))"
  using assms(1)
proof (rule plan_retention_Inr)
  let ?keep = "take (bp_retain pol) (verified_backups bs)"
  fix tps ps x gaps
  assume s: "scan_names sz (concat (map ws_files ws)) = Inr (tps, ps)"
    and g: "scan_backups sz (map snd tps) ?keep None = Inr (x, gaps)"
    and pr: "rp_problems plan = (if length (verified_backups bs) < bp_retain pol then [Few_Verified (length (verified_backups bs))] else [])
      @ ps @ history_problems tps (histories_of (concat (map ws_files ws))) @ gaps"
    and d: "rp_remove_wal plan = [] \<and> rp_remove_backups plan = [] \<or> rp_problems plan = [] \<and> (\<exists>z. x = Some z \<and> removable_wal sz z ws = Inr (rp_remove_wal plan))
      \<and> rp_remove_backups plan = map bb_id (drop (bp_retain pol) (verified_backups bs))"
  have keep: "rp_keep plan = map bb_id ?keep"
    using assms(1) by (auto simp: plan_retention_def Let_def s g bind_ok_Inr split: option.splits if_splits)
  from d assms(4) obtain z where np: "rp_problems plan = []" and z: "x = Some z" "removable_wal sz z ws = Inr (rp_remove_wal plan)"
    and rb: "rp_remove_backups plan = map bb_id (drop (bp_retain pol) (verified_backups bs))" by auto
  have len: "bp_retain pol \<le> length (verified_backups bs)" and gaps: "gaps = []" using np pr by (auto split: if_splits)
  obtain t start where st: "wal_position sz (bb_start b) = Inr (t, start)" "z \<le> start" "coverage_problem (map snd tps) b start = []"
    using conjunct2 [OF scan_backups_Inr [OF g]] assms(5) z(1) gaps by fastforce
  have mem: "set (verified_backups bs) \<subseteq> set bs" "\<forall>b \<in> set (verified_backups bs). bb_verified b" by (auto simp: verified_backups_def)
  have "distinct (map bb_id (filter bb_verified bs))" using assms(3) by (simp add: distinct_map_filter)
  then have "distinct (map bb_id (verified_backups bs))"
    unfolding verified_backups_def distinct_map by simp
  then have "distinct (map bb_id (?keep @ drop (bp_retain pol) (verified_backups bs)))" by simp
  then have other: "bb_id b \<notin> set (rp_remove_backups plan)" using assms(5) unfolding rb map_append distinct_append by auto
  note kept = removed_not_needed [OF z(2) assms(2) st(2)]
  have cover: "\<exists>w' \<in> set ws. ws_id w' \<notin> set (rp_remove_wal plan) \<and> (\<exists>n' \<in> set (ws_files w'). wal_name n' \<and> (\<exists>u'. wal_position sz n' = Inr (u', p)))"
    if w: "w \<in> set ws" "n \<in> set (ws_files w)" "wal_name n" "wal_position sz n = Inr (u, q)" and p: "start \<le> p" "p \<le> q" for w n u p q
  proof -
    have "n \<in> set (concat (map ws_files ws))" using w by auto
    then have "q \<in> set (map snd tps)" using scan_names_Inr [OF s] w(3,4) by force
    then have "p \<in> set (map snd tps)" using coverage_complete [OF st(3)] p by blast
    then obtain n' u' where n': "n' \<in> set (concat (map ws_files ws))" "wal_name n'" "wal_position sz n' = Inr (u', p)"
      using scan_names_from [OF s] by fastforce
    then obtain w' where w': "w' \<in> set ws" "n' \<in> set (ws_files w')" by auto
    have "needed_from sz start n'" using n' p(1) by (simp add: needed_from_def segment_of_def)
    then show ?thesis using w' n' kept by blast
  qed
  have main: "\<exists>t start. wal_position sz (bb_start b) = Inr (t, start)
      \<and> (\<forall>w n. w \<in> set ws \<and> n \<in> set (ws_files w) \<and> needed_from sz start n \<longrightarrow> ws_id w \<notin> set (rp_remove_wal plan))
      \<and> (\<forall>p q w n u. w \<in> set ws \<and> n \<in> set (ws_files w) \<and> wal_name n \<and> wal_position sz n = Inr (u, q) \<and> start \<le> p \<and> p \<le> q
           \<longrightarrow> (\<exists>w' \<in> set ws. ws_id w' \<notin> set (rp_remove_wal plan) \<and> (\<exists>n' \<in> set (ws_files w'). wal_name n' \<and> (\<exists>u'. wal_position sz n' = Inr (u', p)))))"
    using st(1) kept cover by blast
  have v: "bb_verified b" using assms(5) mem(2) in_set_takeD [of b] by blast
  have "bb_id b \<in> set (rp_keep plan) \<and> length (rp_keep plan) = bp_retain pol" using assms(5) len by (simp add: keep)
  then show ?thesis using np v other main by blast
qed

section \<open>What leaves the spool\<close>

lemma spooled_list_Inr: "spooled_list fs = Inr ready \<Longrightarrow> ready = filter (\<lambda>f. \<not> hidden f) fs \<and> (\<forall>f \<in> set ready. archived_name (sp_name f))"
  by (induction fs arbitrary: ready) (auto simp: bind_ok_Inr ensure_def split: if_splits)

lemma spooled_Inr: "spooled spool = Inr ready \<Longrightarrow> set ready \<subseteq> set spool \<and> (\<forall>f \<in> set ready. archived_name (sp_name f))"
  by (auto simp: spooled_def dest!: spooled_list_Inr)

lemma ship_failed_spool [simp]: "fst (snd (ship_failed now e spool st)) = spool"
  by (simp add: ship_failed_def)

lemma ship_wal_cases:
  obtains (kept) "fst (snd (ship_wal upload listing now mx spool st)) = spool"
  | (released) ready sid listed where "spooled spool = Inr ready" "take mx ready \<noteq> []"
      "upload (map (\<lambda>f. (sp_name f, sp_size f)) (take mx ready)) = Inr sid" "listing sid = Inr listed"
      "listed_ok listed (take mx ready)"
      "fst (snd (ship_wal upload listing now mx spool st)) = filter (\<lambda>f. sp_name f \<notin> set (map sp_name (take mx ready))) spool"
proof (cases "spooled spool")
  case (Inl e)
  then show ?thesis using kept by (simp add: ship_wal_def)
next
  case (Inr ready)
  let ?files = "take mx ready"
  show ?thesis
  proof (cases "?files = []")
    case True
    then show ?thesis using kept Inr by (simp add: ship_wal_def Let_def)
  next
    case ne: False
    show ?thesis
    proof (cases "bind_ok (upload (map (\<lambda>f. (sp_name f, sp_size f)) ?files)) (\<lambda>sid. bind_ok (listing sid) (\<lambda>l. Inr (sid, l)))")
      case (Inl e)
      then show ?thesis using kept Inr ne by (simp add: ship_wal_def Let_def)
    next
      case ok: (Inr p)
      obtain sid listed where p: "p = (sid, listed)" by (cases p)
      then have u: "upload (map (\<lambda>f. (sp_name f, sp_size f)) ?files) = Inr sid" "listing sid = Inr listed"
        using ok by (auto simp: bind_ok_Inr)
      show ?thesis
      proof (cases "listed_ok listed ?files")
        case False
        then show ?thesis using kept Inr ne ok p by (simp add: ship_wal_def Let_def)
      next
        case True
        show ?thesis
          by (rule released [OF Inr ne u True]) (use Inr ne ok p True in \<open>simp add: ship_wal_def Let_def split: sum.split\<close>)
      qed
    qed
  qed
qed

text \<open>C40.
  A file leaves the spool only when the backup store lists it, with its size, in the snapshot of
  this call; nothing else in the spool changes, whether the call succeeds or raises.
\<close>

theorem shipped_wal_is_archived:
  assumes "ship_wal upload listing now mx spool st = (r, spool', st')" "distinct (map sp_name spool)" "f \<in> set spool"
  shows "set spool' \<subseteq> set spool \<and> (f \<in> set spool' \<or> archived_name (sp_name f) \<and>
    (\<exists>files sid listed. upload files = Inr sid \<and> listing sid = Inr listed \<and> (sp_name f, sp_size f) \<in> set files
       \<and> map_of listed (sp_name f) = Some (sp_size f)))"
proof (cases rule: ship_wal_cases [of upload listing now mx spool st])
  case kept
  then show ?thesis using assms(1,3) by simp
next
  case (released ready sid listed)
  have spool': "spool' = filter (\<lambda>f. sp_name f \<notin> set (map sp_name (take mx ready))) spool" using released(6) assms(1) by simp
  show ?thesis
  proof (cases "f \<in> set spool'")
    case True
    then show ?thesis using spool' by auto
  next
    case False
    then obtain g where g: "g \<in> set (take mx ready)" "sp_name g = sp_name f" using spool' assms(3) by auto
    note ready = spooled_Inr [OF released(1)]
    have gr: "g \<in> set ready" using g(1) by (rule in_set_takeD)
    then have "g = f" using ready g(2) assms(2,3) by (auto simp: distinct_map inj_on_def)
    then have "archived_name (sp_name f)" "map_of listed (sp_name f) = Some (sp_size f)"
      "(sp_name f, sp_size f) \<in> set (map (\<lambda>f. (sp_name f, sp_size f)) (take mx ready))"
      using ready gr g(1) released(5) by (auto simp: listed_ok_def list_all_iff)
    moreover have "set spool' \<subseteq> set spool" using spool' by auto
    ultimately show ?thesis using released(3,4) by blast
  qed
qed

section \<open>Examples\<close>

definition sample_policy :: backup_policy where
  "sample_policy = \<lparr>bp_retain = 2, bp_interval_hours = 24, bp_max_age_hours = 48, bp_max_delay = 60, bp_capacity = 100, bp_free_ratio = 1 / 10\<rparr>"

definition sample_backups :: "base_backup list" where
  "sample_backups = [\<lparr>bb_id = ''b1'', bb_finished = 1, bb_start = ''000000010000000000000005'', bb_verified = True\<rparr>,
     \<lparr>bb_id = ''b2'', bb_finished = 2, bb_start = ''000000010000000000000006'', bb_verified = True\<rparr>,
     \<lparr>bb_id = ''b3'', bb_finished = 3, bb_start = ''000000010000000000000007'', bb_verified = True\<rparr>]"

definition sample_archive :: "wal_snapshot list" where
  "sample_archive = [\<lparr>ws_id = ''w1'', ws_files = [''000000010000000000000005'']\<rparr>,
     \<lparr>ws_id = ''w2'', ws_files = [''000000010000000000000006'', ''000000010000000000000007'']\<rparr>]"

lemma sample_plan:
  "plan_retention sample_policy sample_backups sample_archive SEGMENT =
    Inr \<lparr>rp_keep = [''b3'', ''b2''], rp_remove_backups = [''b1''], rp_remove_wal = [''w1''], rp_unverified = [],
      rp_boundary = Some 6, rp_problems = []\<rparr>"
  by code_simp

theorem retention_keeps_needed_wal_witness:
  "bb_id (sample_backups ! 1) \<in> set [''b3'', ''b2''] \<and> wal_position SEGMENT (bb_start (sample_backups ! 1)) = Inr (1, 6)
    \<and> needed_from SEGMENT 6 ''000000010000000000000007'' \<and> ws_id (sample_archive ! 1) \<notin> set [''w1'']"
proof -
  have k: "sample_backups ! 1 \<in> set (take (bp_retain sample_policy) (verified_backups sample_backups))" by code_simp
  have d: "distinct (map ws_id sample_archive)" "distinct (map bb_id sample_backups)" by code_simp+
  have s: "wal_position SEGMENT (bb_start (sample_backups ! 1)) = Inr (1, 6)" by code_simp
  have n: "needed_from SEGMENT 6 ''000000010000000000000007''" by code_simp
  have w: "sample_archive ! 1 \<in> set sample_archive" "''000000010000000000000007'' \<in> set (ws_files (sample_archive ! 1))"
    by (simp_all add: sample_archive_def)
  show ?thesis using retention_keeps_needed_wal [OF sample_plan d _ k] s n w by simp blast
qed

definition empty_status :: ship_status where
  "empty_status = \<lparr>st_last_check = None, st_pending = None, st_last_success = None, st_last_snapshot = None, st_last_uploaded = None,
     st_newest = None, st_last_error_at = None, st_last_error = None\<rparr>"

definition spool_file :: "string \<Rightarrow> spool_entry" where
  "spool_file n = \<lparr>sp_name = n, sp_size = 16, sp_regular = True\<rparr>"

theorem shipped_wal_is_archived_witness:
  "archived_name ''000000010000000000000005'' \<and>
    fst (snd (ship_wal (\<lambda>_. Inr ''s'') (\<lambda>_. Inr [(''000000010000000000000005'', 16)]) 0 256 [spool_file ''000000010000000000000005''] empty_status)) = []"
proof -
  let ?l = "[(''000000010000000000000005'', 16::int)]"
  let ?st = "empty_status\<lparr>st_last_success := Some 0, st_last_snapshot := Some ''s'', st_last_uploaded := Some 1,
          st_newest := Some ''000000010000000000000005'', st_pending := Some 0, st_last_check := Some 0\<rparr>"
  have e: "ship_wal (\<lambda>_. Inr ''s'') (\<lambda>_. Inr ?l) 0 256 [spool_file ''000000010000000000000005''] empty_status = (Inr ?st, [], ?st)"
    by code_simp
  have "archived_name (sp_name (spool_file ''000000010000000000000005''))"
    using shipped_wal_is_archived [OF e, of "spool_file ''000000010000000000000005''"] by simp
  then show ?thesis using e by (simp add: spool_file_def)
qed

text \<open>
  Two behaviours to know. A name of timeline 0 passes the name check and is released from the
  spool, and then the search of the newest segment raises. And a segment of another timeline
  hides a gap: no timeline has both 6 and 7 here.
\<close>

lemma released_then_raised:
  "ship_wal (\<lambda>_. Inr ''s'') (\<lambda>_. Inr [(''000000000000000000000005'', 16)]) 0 256 [spool_file ''000000000000000000000005''] empty_status =
    ship_failed 0 (Ship_ValueError ''invalid WAL segment name'') [] empty_status"
  by code_simp

lemma timeline_hides_gap:
  "map_sum id rp_problems (plan_retention (sample_policy\<lparr>bp_retain := 1\<rparr>) [hd sample_backups]
     [\<lparr>ws_id = ''w'', ws_files = [''000000010000000000000005'', ''000000020000000000000006'', ''000000010000000000000007'', ''00000002.history'']\<rparr>]
     SEGMENT) = Inr []"
  by code_simp

end
