(* ===== verification/Spec2Isabelle.thy ===== *)
theory Spec2Isabelle
  imports Review_Store Recovery Payment_Safety Route_Reconciliation Merchant_Http Sandbox_Safety Cluster_Safety Backup_Ops
begin

text \<open>
  \<^bold>\<open>Pickup-pact: a verification development.\<close>

  The program lets a customer reserve a drink at a store, change the store or the order before
  it is made, and pay for it with a card, coupons and points. Everything that happened is kept
  as evidence, from which a reconciler proposes corrections. The Python code has four parts:

  \<^item> the \<^emph>\<open>reconciler\<close> (\<^verbatim>\<open>services/reconciler/app\<close>): from the events of an order, in any order
    and with copies, it derives the state of the order and the financial actions that are due; a
    review store lets a person approve them;
  \<^item> the \<^emph>\<open>route service\<close> (\<^verbatim>\<open>demo/route\<close>): plans walks to stores, prices orders, keeps journeys,
    and drives durable operations that talk to the merchants and the payment provider over
    networks that lose messages; in \<^verbatim>\<open>demo/route/ha\<close> several nodes share one database;
  \<^item> the \<^emph>\<open>merchants\<close> and the \<^emph>\<open>payment provider\<close> (\<^verbatim>\<open>merchant_*.py\<close>, \<^verbatim>\<open>payments/\<close>): the
    databases at the other end, with receipts, faults and notifications;
  \<^item> the \<^emph>\<open>sandbox\<close> (\<^verbatim>\<open>demo/sandbox.py\<close>): one customer session that produces such evidence.

  A command enters through the journey store, opens an operation, and the coordinator resumes the
  operation phase by phase: each phase calls a merchant or the provider, whose receipts make a
  retry harmless; the provider's notifications and the recovery worker resume what was left
  pending. The evidence of a session goes to the engine, whose plan a review or the sandbox applies.
\<close>

section \<open>Which theory models what\<close>

text \<open>
  \<^bold>\<open>Shared.\<close>
  \<^item> \<open>Prelude\<close>: results (\<open>Inl\<close> an exception, \<open>Inr\<close> a value; \<open>bind_ok\<close>, \<open>ensure\<close>), dictionaries
    as association lists in insertion order (\<open>dput\<close>, \<open>dget\<close>), sorting and first minima as in
    Python, \<open>run\<close> for sequences of commands, and the locales (below).
  \<^item> \<open>Py_Values\<close>: JSON values, truth and equality of Python, decimal texts, \<open>int\<close> and \<open>str\<close>.

  \<^bold>\<open>Reconciler.\<close>
  \<^item> \<open>Reconciler_Models\<close> (\<^verbatim>\<open>models.py\<close>), \<open>Evidence_Order\<close> (\<^verbatim>\<open>evidence_order.py\<close>),
    \<open>Financial_Scope\<close> (\<^verbatim>\<open>financial_scope.py\<close>), \<open>Engine\<close> (\<^verbatim>\<open>engine.py\<close>).
  \<^item> \<open>Projection\<close>: what \<^verbatim>\<open>persistence.py\<close>, \<^verbatim>\<open>main.py\<close>, \<^verbatim>\<open>tasks.py\<close> and \<^verbatim>\<open>ai_review.py\<close> store and
    serve; the state is the table of projections and the archive.
  \<^item> \<open>Review_Store\<close> (\<^verbatim>\<open>repair_review_store.py\<close>): its tables are the record \<open>review_store\<close>;
    \<open>create\<close>, \<open>simulate\<close>, \<open>preview\<close> and \<open>approve\<close> are the transactions.

  \<^bold>\<open>Route service.\<close>
  \<^item> \<open>Route_Models\<close>, \<open>Benefits\<close> (\<^verbatim>\<open>benefits.py\<close>), \<open>Agreement\<close> (\<^verbatim>\<open>agreement.py\<close>), \<open>Walk_Graph\<close> and
    \<open>Planner\<close> (\<^verbatim>\<open>planner.py\<close>), \<open>Outcomes\<close> (\<^verbatim>\<open>outcomes.py\<close>).
  \<^item> \<open>Journey_Models\<close>, \<open>Journey_Apply\<close>, \<open>Journey_Store\<close> (\<^verbatim>\<open>store.py\<close>): the record \<open>journey\<close>, the
    branches of \<open>_apply\<close>, the views and entry points; \<open>Journey_Invariant\<close> proves what commands keep.
  \<^item> \<open>Durable_Operations\<close> (\<^verbatim>\<open>durable_operations.py\<close>, \<^verbatim>\<open>recovery_worker.py\<close>): the record \<open>operation\<close>,
    the phases of \<open>_step\<close>, \<open>resume\<close>, controls and the pass of the worker.
  \<^item> \<open>Handoff\<close>: the abstract contract of a replacement as the step relation \<open>handoff\<close>, its invariant,
    and the refinement of the coordinator's iteration to it. \<open>Recovery\<close>: the retry schedule.
  \<^item> \<open>Payment_Steps\<close> (\<^verbatim>\<open>payment_steps.py\<close>), \<open>Payment_Operations\<close> (\<^verbatim>\<open>payment_operations.py\<close>):
    protocol 2, where operations also move money; \<open>Payment_Safety\<close> proves what completion means.
  \<^item> \<open>Route_Reconciliation\<close> (\<^verbatim>\<open>reconciliation.py\<close>): an order against both other parties.

  \<^bold>\<open>Merchants and provider.\<close>
  \<^item> \<open>Merchant\<close> (\<^verbatim>\<open>merchant_rules.py\<close>, \<^verbatim>\<open>merchant_fleet.py\<close>): \<open>merchant_transition\<close> is the decision
    table on one seat, \<open>execute_shop\<close> a transaction with its receipt, \<open>fleet\<close> all shops.
    \<open>Merchant_Http\<close> (\<^verbatim>\<open>merchant_http.py\<close>): server and client of the boundary.
  \<^item> \<open>Payment_Domain\<close> (\<^verbatim>\<open>domain.py\<close>), \<open>Payment_Ledger\<close> (\<^verbatim>\<open>repository.py\<close>), \<open>Payment_Gateway\<close>
    (\<^verbatim>\<open>http_client.py\<close>, \<^verbatim>\<open>http_server.py\<close>), \<open>Payment_Inbox\<close> (\<^verbatim>\<open>notifications.py\<close>).

  \<^bold>\<open>Shared database and backups (\<^verbatim>\<open>demo/route/ha\<close>).\<close>
  \<^item> \<open>Lease_Queue\<close> (\<^verbatim>\<open>operation_store.py\<close>, the rows of \<^verbatim>\<open>journey_repository.py\<close>), \<open>Cluster\<close>
    (\<^verbatim>\<open>coordinator.py\<close>, \<^verbatim>\<open>inbox.py\<close>, \<^verbatim>\<open>worker.py\<close>), \<open>Cluster_Safety\<close>: the coordinator over the
    shared database refines the coordinator of one process.
  \<^item> \<open>Backup_Ops\<close> (\<^verbatim>\<open>backup_ops.py\<close>): names, policy, retention, shipping and alerts.

  \<^bold>\<open>Sandbox.\<close>
  \<^item> \<open>Sandbox_Models\<close>, \<open>Sandbox\<close>, \<open>Sandbox_Safety\<close> (\<^verbatim>\<open>sandbox.py\<close>): the record \<open>session\<close> and every
    operation of \<open>DemoStore\<close>; an exception keeps what was written before it.
\<close>

section \<open>What is proved\<close>

text \<open>
  \<^item> \<^emph>\<open>Corrections.\<close> A plan never reverses more than is open, a full cancellation reverses
    everything, and nothing is corrected twice: neither by a second plan nor by a second approval,
    which always answers as a duplicate. Only \<open>AUTO\<close> decisions carry actions, and
    their reasons are complete. The causal order is topological and independent of arrival.
  \<^item> \<^emph>\<open>Merchants.\<close> Capacity is never exceeded and an aborted target stays fenced. Over HTTP a
    command, also a retry, does exactly what the direct call does, or nothing.
  \<^item> \<^emph>\<open>Journeys.\<close> The wallet is what the order accounts for; a started order is final; walks are
    shortest; plans keep the customer's limits; every quote is funded; a transfer is
    recommended only for an infeasible order that is not being made, to the best alternative.
  \<^item> \<^emph>\<open>Replacements.\<close> In every run of \<open>handoff\<close> at most one shop makes the drink, completion and
    rejection leave the two seats as promised, and an answering network ends every operation.
  \<^item> \<^emph>\<open>Payments.\<close> One capture per order, safe retries, receipts that decide, completion only with
    receipts, no late reply stored, notifications accepted once whatever comes in between.
  \<^item> \<^emph>\<open>Shared database.\<close> A lease is worth one result, and a stored result is what one process
    would store. \<^emph>\<open>Backups.\<close> Files leave the spool only when archived, and retention removes
    nothing that a kept backup may need.
  \<^item> \<^emph>\<open>Sandbox.\<close> One pickup, one compensation per pact version, capacity follows the order.

  The claims are numbered C1 to C40 in the theories. Safety claims quantify over arbitrary runs,
  refused commands and lost messages included.
\<close>

section \<open>How the model is built\<close>

text \<open>
  \<^bold>\<open>Interfaces.\<close> \<open>priority_queue\<close> is the contract of \<open>heapq\<close>, provided by the sorted list of
  \<open>Prelude\<close> and used by the causal order. \<open>checked_steps\<close> and its special case \<open>guarded_steps\<close> lift what
  one step keeps to runs; they are interpreted on the step function of every component with state.
  \<open>receipt_store\<close> is the contract of an executor with receipts, interpreted on the merchant's
  shops and on the provider's ledger.

  \<^bold>\<open>Parameters.\<close> Not under \<^verbatim>\<open>src\<close> or not deterministic, hence arguments: SHA-256 digests and HMAC
  signatures (functions of the value they digest), \<open>uuid4\<close> and pickup codes, clocks (exact
  rationals or microseconds), the fate of each network call (\<open>net\<close>: not reached, reply lost,
  reply), the draws of the experiment, the answers of language-model providers, restic's answers,
  and the clock of the shared database. A hypothesis on a digest says at the theorem that it
  separates the commands in question, and its witness gives a digest that does.

  \<^bold>\<open>Bounds.\<close> \<open>resume\<close> runs at most 12 iterations and the loops of protocol 2 at most 16, as in the
  code; C25 shows that 12 are enough for a replacement. Every other loop is a
  total function with its termination proof; there is no other fuel.

  \<^bold>\<open>Numbers.\<close> Python's integers are \<open>int\<close>, decimals are read to exact values, and floats appear only
  as times and ratios, which are exact rationals here.
\<close>

section \<open>What is not modelled\<close>

text \<open>
  \<^item> Display texts, labels and messages: functions of the codes that are kept.
  \<^item> SQLite and PostgreSQL themselves: a transaction is one step that commits or leaves the state.
    Row locks and serialization failures of the PostgreSQL copies of the merchant and payment
    stores are left out, the lease protocol on the shared queue is modelled.
  \<^item> HTTP framing, TLS, tokens, process supervision, health checks, metrics and threads.
  \<^item> The pages and APIs around the operations (\<^verbatim>\<open>customer_app.py\<close>, \<^verbatim>\<open>api.py\<close>, \<^verbatim>\<open>workbench.py\<close>,
    \<^verbatim>\<open>ops-console\<close>): schemas, exception codes and fixed scenarios.
  \<^item> Deployment: settings, inventories, privileges, migrations, sealing of backup bundles, scripts.

  Where modelling showed that code or documentation does not do what it says, the theory concerned
  states the behaviour as the code has it, and a comment or lemma shows it: for instance
  \<open>timeline_hides_gap\<close> in \<open>Backup_Ops\<close> and C13 in \<open>Engine\<close>.
\<close>

end
